(* ===== verification/Prelude.thy ===== *)
theory Prelude
  imports Main "HOL-Library.Word"
begin

text \<open>
  Shared vocabulary of the development: the outcome of running a C function, the
  state-passing computations over an arbitrary machine state, the \<open>named_theorems\<close>
  collections the component proofs use, and generic lemmas on lists and words.

  A C function of TinySTM either returns a value, leaves by \<open>longjmp\<close> to the start of the
  transaction, does not return (its busy-waiting loop is still running when the fuel is
  spent), fails an \<open>assert\<close>, calls \<open>exit\<close>, or executes an operation that C leaves
  undefined.  Each of these is a constructor, so no failure hides behind a total function.
\<close>

unbundle bit_operations_syntax

type_synonym w64 = "64 word"
type_synonym w32 = "32 word"

section \<open>Outcomes and computations\<close>

datatype 'a outcome =
    Ret 'a
  | Jump w64
  | Diverge
  | AssertFail
  | ExitProc
  | Undef

type_synonym ('s, 'a) comp = "'s \<Rightarrow> 'a outcome \<times> 's"

fun lift_outcome :: "('a \<Rightarrow> ('s, 'b) comp) \<Rightarrow> 'a outcome \<Rightarrow> ('s, 'b) comp" where
  "lift_outcome f (Ret x) s = f x s"
| "lift_outcome f (Jump r) s = (Jump r, s)"
| "lift_outcome f Diverge s = (Diverge, s)"
| "lift_outcome f AssertFail s = (AssertFail, s)"
| "lift_outcome f ExitProc s = (ExitProc, s)"
| "lift_outcome f Undef s = (Undef, s)"

definition ret :: "'a \<Rightarrow> ('s, 'a) comp" where
  "ret x s = (Ret x, s)"

definition bnd :: "('s, 'a) comp \<Rightarrow> ('a \<Rightarrow> ('s, 'b) comp) \<Rightarrow> ('s, 'b) comp" where
  "bnd m f s = (case m s of (r, t) \<Rightarrow> lift_outcome f r t)"

definition thn :: "('s, 'a) comp \<Rightarrow> ('s, 'b) comp \<Rightarrow> ('s, 'b) comp" where
  "thn m k = bnd m (\<lambda>_. k)"

definition stop :: "'a outcome \<Rightarrow> ('s, 'a) comp" where
  "stop r s = (r, s)"

definition gets :: "('s \<Rightarrow> 'a) \<Rightarrow> ('s, 'a) comp" where
  "gets f s = (Ret (f s), s)"

definition modify :: "('s \<Rightarrow> 's) \<Rightarrow> ('s, unit) comp" where
  "modify f s = (Ret (), f s)"

definition assert_c :: "('s \<Rightarrow> bool) \<Rightarrow> ('s, unit) comp" where
  "assert_c b s = (if b s then (Ret (), s) else (AssertFail, s))"

definition when_c :: "bool \<Rightarrow> ('s, unit) comp \<Rightarrow> ('s, unit) comp" where
  "when_c b m = (if b then m else ret ())"

text \<open>Running a list of computations in order (a \<open>for\<close> loop over an array).\<close>

fun each_c :: "('a \<Rightarrow> ('s, unit) comp) \<Rightarrow> 'a list \<Rightarrow> ('s, unit) comp" where
  "each_c f [] = ret ()"
| "each_c f (x # xs) = thn (f x) (each_c f xs)"

named_theorems exec_simps \<open>execution of the primitive computations\<close>
named_theorems mask_simps \<open>bit masks and their algebra\<close>

lemma ret_exec [exec_simps, simp]: "ret x s = (Ret x, s)"
  by (simp add: ret_def)

lemma stop_exec [exec_simps, simp]: "stop r s = (r, s)"
  by (simp add: stop_def)

lemma gets_exec [exec_simps, simp]: "gets f s = (Ret (f s), s)"
  by (simp add: gets_def)

lemma modify_exec [exec_simps, simp]: "modify f s = (Ret (), f s)"
  by (simp add: modify_def)

lemma bnd_exec [exec_simps]: "m s = (r, t) \<Longrightarrow> bnd m f s = lift_outcome f r t"
  by (simp add: bnd_def)

lemma thn_exec [exec_simps]: "m s = (r, t) \<Longrightarrow> thn m k s = lift_outcome (\<lambda>_. k) r t"
  by (simp add: thn_def bnd_def)

lemma bnd_Ret: "m s = (Ret x, t) \<Longrightarrow> bnd m f s = f x t"
  by (simp add: bnd_def)

lemma thn_Ret: "m s = (Ret x, t) \<Longrightarrow> thn m k s = k t"
  by (simp add: thn_def bnd_def)

lemma bnd_ret [simp]: "bnd (ret x) f = f x"
  by (rule ext) (simp add: bnd_def)

lemma bnd_gets [simp]: "bnd (gets g) f s = f (g s) s"
  by (simp add: bnd_def)

lemma bnd_modify [simp]: "bnd (modify g) f s = f () (g s)"
  by (simp add: bnd_def)

lemma bnd_stop_Jump [simp]: "bnd (stop (Jump r)) f = stop (Jump r)"
  by (rule ext) (simp add: bnd_def)

lemma thn_ret [simp]: "thn (ret x) k = k"
  by (simp add: thn_def)

lemma thn_modify [simp]: "thn (modify g) k s = k (g s)"
  by (simp add: thn_def)

lemma assert_true [simp]: "b s \<Longrightarrow> assert_c b s = (Ret (), s)"
  by (simp add: assert_c_def)

lemma assert_false [simp]: "\<not> b s \<Longrightarrow> assert_c b s = (AssertFail, s)"
  by (simp add: assert_c_def)

lemma thn_assert: "thn (assert_c b) k s = (if b s then k s else (AssertFail, s))"
  by (simp add: thn_def bnd_def assert_c_def)

lemma when_True [simp]: "when_c True m = m" and when_False [simp]: "when_c False m = ret ()"
  by (simp_all add: when_c_def)

lemma bnd_assoc: "bnd (bnd m f) g = bnd m (\<lambda>x. bnd (f x) g)"
proof
  fix s
  obtain r t where "m s = (r, t)" by (cases "m s")
  then show "bnd (bnd m f) g s = bnd m (\<lambda>x. bnd (f x) g) s"
    by (cases r) (simp_all add: bnd_def)
qed

lemma bnd_if: "bnd m (\<lambda>x. if b then f x else g x) = (if b then bnd m f else bnd m g)"
  by simp

text \<open>A computation that leaves by one of the failing outcomes runs nothing after it.\<close>

lemma bnd_Ret_D:
  "bnd m f s = (Ret y, u) \<Longrightarrow> \<exists>x t. m s = (Ret x, t) \<and> f x t = (Ret y, u)"
  by (cases "m s"; cases "fst (m s)") (auto simp: bnd_def)

lemma thn_Ret_D:
  "thn m k s = (Ret y, u) \<Longrightarrow> \<exists>x t. m s = (Ret x, t) \<and> k t = (Ret y, u)"
  by (auto simp: thn_def dest: bnd_Ret_D)

section \<open>Weakest preconditions\<close>

text \<open>
  \<open>wp m s Q E\<close>: running \<open>m\<close> from \<open>s\<close> either returns with \<open>Q\<close>, or leaves by another outcome
  with \<open>E\<close>.  Taking \<open>E\<close> false everywhere says that the code returns; taking it true for
  \<open>Jump\<close> only says that it returns or restarts the transaction.
\<close>

fun exn_of :: "'a outcome \<Rightarrow> unit outcome" where
  "exn_of (Ret x) = Ret ()"
| "exn_of (Jump r) = Jump r"
| "exn_of Diverge = Diverge"
| "exn_of AssertFail = AssertFail"
| "exn_of ExitProc = ExitProc"
| "exn_of Undef = Undef"

definition wp :: "('s, 'a) comp \<Rightarrow> 's \<Rightarrow> ('a \<Rightarrow> 's \<Rightarrow> bool) \<Rightarrow> (unit outcome \<Rightarrow> 's \<Rightarrow> bool) \<Rightarrow> bool" where
  "wp m s Q E = (case m s of (r, t) \<Rightarrow> (case r of Ret x \<Rightarrow> Q x t | _ \<Rightarrow> E (exn_of r) t))"

definition only_jumps :: "unit outcome \<Rightarrow> 's \<Rightarrow> bool" where
  "only_jumps r t \<longleftrightarrow> (\<exists>x. r = Jump x)"

abbreviation anyhow :: "unit outcome \<Rightarrow> 's \<Rightarrow> bool" where
  "anyhow \<equiv> \<lambda>_ _. True"

abbreviation never :: "unit outcome \<Rightarrow> 's \<Rightarrow> bool" where
  "never \<equiv> \<lambda>_ _. False"

lemma only_jumps_Jump [simp]: "only_jumps (Jump x) t"
  by (simp add: only_jumps_def)

named_theorems wp_simps \<open>weakest preconditions of the primitive computations\<close>

lemma wp_bnd [wp_simps, simp]: "wp (bnd m f) s Q E = wp m s (\<lambda>x t. wp (f x) t Q E) E"
  by (cases "m s"; cases "fst (m s)") (auto simp: wp_def bnd_def)

lemma wp_thn [wp_simps, simp]: "wp (thn m k) s Q E = wp m s (\<lambda>_ t. wp k t Q E) E"
  by (simp add: thn_def)

lemma wp_ret [wp_simps, simp]: "wp (ret x) s Q E = Q x s"
  by (simp add: wp_def)

lemma wp_stop [wp_simps, simp]:
  "wp (stop r) s Q E = (case r of Ret x \<Rightarrow> Q x s | _ \<Rightarrow> E (exn_of r) s)"
  by (simp add: wp_def split: outcome.splits)

text \<open>The simplifier sees \<open>ret x\<close> and \<open>stop r\<close> in the eta-contracted form \<open>Pair r\<close> as well.\<close>

lemma bnd_Pair [simp]: "bnd (Pair r) f = lift_outcome f r"
  by (rule ext) (simp add: bnd_def)

lemma thn_Pair [simp]: "thn (Pair r) k = lift_outcome (\<lambda>_. k) r"
  by (simp add: thn_def)

lemma wp_Pair [wp_simps, simp]:
  "wp (Pair r) s Q E = (case r of Ret x \<Rightarrow> Q x s | _ \<Rightarrow> E (exn_of r) s)"
  by (simp add: wp_def split: outcome.splits)

lemma wp_gets [wp_simps, simp]: "wp (gets f) s Q E = Q (f s) s"
  by (simp add: wp_def)

lemma wp_modify [wp_simps, simp]: "wp (modify f) s Q E = Q () (f s)"
  by (simp add: wp_def)

lemma wp_assert [wp_simps, simp]: "wp (assert_c b) s Q E = (if b s then Q () s else E AssertFail s)"
  by (simp add: wp_def assert_c_def)

lemma wp_when [wp_simps, simp]: "wp (when_c b m) s Q E = (if b then wp m s Q E else Q () s)"
  by (simp add: when_c_def)

lemma wp_if [wp_simps]: "wp (if b then m else k) s Q E = (if b then wp m s Q E else wp k s Q E)"
  by simp

lemma wp_mono:
  "wp m s Q E \<Longrightarrow> (\<And>x t. Q x t \<Longrightarrow> Q' x t) \<Longrightarrow> (\<And>r t. E r t \<Longrightarrow> E' r t) \<Longrightarrow> wp m s Q' E'"
  by (cases "m s"; cases "fst (m s)") (simp_all add: wp_def)

lemma wp_conj: "wp m s Q E \<Longrightarrow> wp m s Q' E' \<Longrightarrow> wp m s (\<lambda>x t. Q x t \<and> Q' x t) (\<lambda>r t. E r t \<and> E' r t)"
  by (cases "m s"; cases "fst (m s)") (simp_all add: wp_def)

lemma wp_conj_never:
  "wp m s Q (\<lambda>_ _. False) \<Longrightarrow> wp m s Q' (\<lambda>_ _. False) \<Longrightarrow> wp m s (\<lambda>x t. Q x t \<and> Q' x t) (\<lambda>_ _. False)"
  using wp_conj [of m s Q "\<lambda>_ _. False" Q' "\<lambda>_ _. False"] by simp

lemma wp_exec: "m s = (Ret x, t) \<Longrightarrow> wp m s Q E = Q x t"
  by (simp add: wp_def)

lemma wp_RetD: "wp m s Q E \<Longrightarrow> m s = (Ret x, t) \<Longrightarrow> Q x t"
  by (simp add: wp_def)

lemma wp_RetI: "(\<And>x t. m s = (Ret x, t) \<Longrightarrow> Q x t) \<Longrightarrow> wp m s Q anyhow"
  by (auto simp: wp_def split: outcome.splits prod.splits)

lemma wp_never: "wp m s Q never \<longleftrightarrow> (\<exists>x t. m s = (Ret x, t) \<and> Q x t)"
  by (cases "m s"; cases "fst (m s)") (simp_all add: wp_def)

lemma wp_each_Nil [wp_simps, simp]: "wp (each_c f []) s Q E = Q () s"
  by simp

text \<open>A loop over a list, with an invariant over the part of the list already done.\<close>

lemma wp_each_inv:
  assumes "I [] s"
    and "\<And>done x rest t. xs = done @ x # rest \<Longrightarrow> I done t \<Longrightarrow> wp (f x) t (\<lambda>_. I (done @ [x])) E"
    and "\<And>t. I xs t \<Longrightarrow> Q () t"
  shows "wp (each_c f xs) s Q E"
proof -
  have "wp (each_c f todo) t (\<lambda>_. I xs) E" if "xs = done @ todo" "I done t" for todo "done" t
    using that
  proof (induction todo arbitrary: "done" t)
    case Nil
    then show ?case by simp
  next
    case (Cons x rest)
    have "wp (f x) t (\<lambda>_. I (done @ [x])) E" using assms(2) Cons.prems by blast
    then show ?case
      using Cons.IH [of "done @ [x]"] Cons.prems(1) by (auto elim!: wp_mono)
  qed
  from this [of "[]" xs s] assms(1,3) show ?thesis by (auto elim!: wp_mono)
qed

section \<open>Lists\<close>

lemma nth_append_last [simp]: "(xs @ [x]) ! length xs = x"
  by simp

lemma list_update_same_length: "length (xs[i := x]) = length xs"
  by simp

lemma all_less_Suc_split: "(\<forall>m < Suc k. P m) \<longleftrightarrow> P 0 \<and> (\<forall>m < k. P (Suc m))"
  using less_Suc_eq_0_disj by auto

lemma filter_upt_hd_Min:
  assumes "filter P [a..<b] = j # js"
  shows "P j \<and> a \<le> j \<and> j < b \<and> (\<forall>k. a \<le> k \<and> k < j \<longrightarrow> \<not> P k)"
  using assms
proof (induction "b - a" arbitrary: a)
  case 0
  then show ?case by simp
next
  case (Suc n)
  then have ab: "a < b" and n: "n = b - Suc a" by simp_all
  have up: "[a..<b] = a # [Suc a..<b]" using ab by (rule upt_conv_Cons)
  show ?case
  proof (cases "P a")
    case True
    with Suc.prems up have "j = a" by simp
    with True ab show ?thesis by auto
  next
    case False
    with Suc.prems up have "filter P [Suc a..<b] = j # js" by simp
    from Suc.hyps(1) [OF n this] False show ?thesis
      by (metis Suc_leI Suc_leD le_neq_implies_less)
  qed
qed

section \<open>Words\<close>

lemma word_inc_less:
  assumes "a < (b :: 'a::len word)"
  shows "a + 1 \<le> b" "a < a + 1"
proof -
  have "Suc (unat a) \<le> unat b" using assms by (simp add: word_less_nat_alt)
  also have "unat b < 2 ^ LENGTH('a)" by (rule unsigned_less)
  finally have "unat (a + 1) = unat a + 1" by (simp add: unat_word_ariths)
  then show "a + 1 \<le> b" "a < a + 1"
    using assms by (simp_all add: word_le_nat_alt word_less_nat_alt)
qed

section \<open>Masks\<close>

text \<open>
  The update of a word under a mask, \<open>(old & ~mask) | (new & mask)\<close> in the source.
\<close>

definition merge_mask :: "'a::len word \<Rightarrow> 'a word \<Rightarrow> 'a word \<Rightarrow> 'a word" where
  "merge_mask old new m = (old AND NOT m) OR (new AND m)"

lemma bit_merge_mask [simp]:
  "bit (merge_mask old new m) n = (if bit m n then bit new n \<and> n < LENGTH('a) else bit (old :: 'a::len word) n)"
  by (auto simp: merge_mask_def bit_simps dest: bit_imp_le_length)

lemma merge_mask_zero [mask_simps, simp]: "merge_mask old new 0 = old"
  by (simp add: merge_mask_def)

lemma merge_mask_full [mask_simps, simp]: "merge_mask old new (NOT 0) = new"
  by (rule bit_word_eqI) simp

lemma merge_mask_minus_one [mask_simps, simp]: "merge_mask old new (- 1) = new"
  by (rule bit_word_eqI) simp

lemma merge_mask_merge [mask_simps]:
  "merge_mask (merge_mask old a m) b k = merge_mask old (merge_mask a b k) (m OR k)"
  by (rule bit_word_eqI) (auto simp: bit_simps)

lemma merge_mask_idem [mask_simps, simp]: "merge_mask old (merge_mask old new m) m = merge_mask old new m"
  by (rule bit_word_eqI) simp

lemma merge_mask_same [mask_simps, simp]: "merge_mask old old m = old"
  by (rule bit_word_eqI) (auto dest: bit_imp_le_length)

end
