(* ===== verification/Locks.thy ===== *)
theory Locks
  imports Prelude
begin

text \<open>
  The bit-level encodings of \<open>src/stm_internal.h\<close> in the configuration of the Makefile
  (64-bit words, contention manager other than \<open>CM_MODULAR\<close>, so one owned bit): the
  status words of a transaction, the lock words, and the hash from addresses to locks.
  The abstract reading of a lock word is \<open>lock_state\<close>: either owned, with the address of
  the write-set entry, or free, with a version and an incarnation number.
\<close>

section \<open>Transaction status\<close>

definition TX_IDLE :: w64 where "TX_IDLE = 0"
definition TX_ACTIVE :: w64 where "TX_ACTIVE = 1"
definition TX_COMMITTED :: w64 where "TX_COMMITTED = push_bit 1 1"
definition TX_ABORTED :: w64 where "TX_ABORTED = push_bit 1 2"
definition TX_COMMITTING :: w64 where "TX_COMMITTING = push_bit 1 1 OR TX_ACTIVE"
definition TX_ABORTING :: w64 where "TX_ABORTING = push_bit 1 2 OR TX_ACTIVE"
definition TX_KILLED :: w64 where "TX_KILLED = push_bit 1 3 OR TX_ACTIVE"
definition TX_IRREVOCABLE :: w64 where "TX_IRREVOCABLE = 0x08 OR TX_ACTIVE"

definition GET_STATUS :: "w64 \<Rightarrow> w64" where
  "GET_STATUS s = s"

definition IS_ACTIVE :: "w64 \<Rightarrow> bool" where
  "IS_ACTIVE s \<longleftrightarrow> (GET_STATUS s AND 0x01) = TX_ACTIVE"

lemmas status_defs = TX_IDLE_def TX_ACTIVE_def TX_COMMITTED_def TX_ABORTED_def
  TX_COMMITTING_def TX_ABORTING_def TX_KILLED_def TX_IRREVOCABLE_def

lemma is_active_simps [simp]:
  "\<not> IS_ACTIVE TX_IDLE" "IS_ACTIVE TX_ACTIVE" "\<not> IS_ACTIVE TX_COMMITTED"
  "\<not> IS_ACTIVE TX_ABORTED" "IS_ACTIVE TX_COMMITTING" "IS_ACTIVE TX_ABORTING"
  "IS_ACTIVE TX_KILLED" "IS_ACTIVE TX_IRREVOCABLE"
  by (simp_all add: IS_ACTIVE_def GET_STATUS_def status_defs)

section \<open>Lock words\<close>

definition OWNED_BITS :: nat where "OWNED_BITS = 1"
definition WRITE_MASK :: w64 where "WRITE_MASK = 0x01"
definition OWNED_MASK :: w64 where "OWNED_MASK = WRITE_MASK"
definition INCARNATION_BITS :: nat where "INCARNATION_BITS = 3"
definition INCARNATION_MAX :: w64 where "INCARNATION_MAX = push_bit INCARNATION_BITS 1 - 1"
definition INCARNATION_MASK :: w64 where "INCARNATION_MASK = push_bit 1 INCARNATION_MAX"
definition LOCK_BITS :: nat where "LOCK_BITS = OWNED_BITS + INCARNATION_BITS"
definition MAX_THREADS :: w64 where "MAX_THREADS = 8192"
definition VERSION_MAX :: w64 where "VERSION_MAX = drop_bit LOCK_BITS (NOT 0) - MAX_THREADS"

definition LOCK_GET_OWNED :: "w64 \<Rightarrow> w64" where "LOCK_GET_OWNED l = l AND OWNED_MASK"
definition LOCK_GET_WRITE :: "w64 \<Rightarrow> w64" where "LOCK_GET_WRITE l = l AND WRITE_MASK"
definition LOCK_SET_ADDR_WRITE :: "w64 \<Rightarrow> w64" where "LOCK_SET_ADDR_WRITE a = a OR WRITE_MASK"
definition LOCK_GET_ADDR :: "w64 \<Rightarrow> w64" where "LOCK_GET_ADDR l = l AND NOT OWNED_MASK"
definition LOCK_GET_TIMESTAMP :: "w64 \<Rightarrow> w64" where "LOCK_GET_TIMESTAMP l = drop_bit LOCK_BITS l"
definition LOCK_SET_TIMESTAMP :: "w64 \<Rightarrow> w64" where "LOCK_SET_TIMESTAMP t = push_bit LOCK_BITS t"
definition LOCK_GET_INCARNATION :: "w64 \<Rightarrow> w64" where
  "LOCK_GET_INCARNATION l = drop_bit OWNED_BITS (l AND INCARNATION_MASK)"
definition LOCK_SET_INCARNATION :: "w64 \<Rightarrow> w64" where
  "LOCK_SET_INCARNATION i = push_bit OWNED_BITS i"
definition LOCK_UPD_INCARNATION :: "w64 \<Rightarrow> w64 \<Rightarrow> w64" where
  "LOCK_UPD_INCARNATION l i =
     (l AND NOT (INCARNATION_MASK OR OWNED_MASK)) OR LOCK_SET_INCARNATION i"

lemmas lock_defs = OWNED_BITS_def WRITE_MASK_def OWNED_MASK_def INCARNATION_BITS_def
  INCARNATION_MAX_def INCARNATION_MASK_def LOCK_BITS_def LOCK_GET_OWNED_def
  LOCK_GET_WRITE_def LOCK_SET_ADDR_WRITE_def LOCK_GET_ADDR_def LOCK_GET_TIMESTAMP_def
  LOCK_SET_TIMESTAMP_def LOCK_GET_INCARNATION_def LOCK_SET_INCARNATION_def
  LOCK_UPD_INCARNATION_def

lemma get_write_eq_owned: "LOCK_GET_WRITE l = LOCK_GET_OWNED l"
  by (simp add: lock_defs)

lemma owned_iff_bit: "LOCK_GET_OWNED l \<noteq> 0 \<longleftrightarrow> bit l 0"
  by (simp add: lock_defs and_one_eq odd_iff_mod_2_eq_one bit_0)

lemma owned_set_write [simp]: "LOCK_GET_OWNED (LOCK_SET_ADDR_WRITE a) \<noteq> 0"
  unfolding owned_iff_bit by (simp add: lock_defs bit_simps)

lemma owned_set_timestamp [simp]: "LOCK_GET_OWNED (LOCK_SET_TIMESTAMP t) = 0"
proof -
  have "\<not> bit (LOCK_SET_TIMESTAMP t) 0" by (simp add: lock_defs bit_simps)
  then show ?thesis using owned_iff_bit by blast
qed

lemma get_addr_set_write: "\<not> bit a 0 \<Longrightarrow> LOCK_GET_ADDR (LOCK_SET_ADDR_WRITE a) = a"
  by (rule bit_word_eqI) (auto simp: lock_defs bit_simps intro: gr0I)

lemma take_bit_less: "t < push_bit n 1 \<Longrightarrow> n < 64 \<Longrightarrow> take_bit n t = (t :: w64)"
  by (simp add: take_bit_eq_mask less_mask_eq)

lemma get_timestamp_set:
  assumes "t < push_bit 60 1"
  shows "LOCK_GET_TIMESTAMP (LOCK_SET_TIMESTAMP t) = t"
proof -
  have "LOCK_GET_TIMESTAMP (LOCK_SET_TIMESTAMP t) = take_bit 60 t"
    by (rule bit_word_eqI) (auto simp: lock_defs bit_simps)
  with assms show ?thesis by (simp only: take_bit_less)
qed

lemma version_max_value: "VERSION_MAX = 1152921504606838783"
  by (simp add: VERSION_MAX_def lock_defs MAX_THREADS_def mask_eq_exp_minus_1)

text \<open>
  A commit timestamp may exceed \<open>VERSION_MAX\<close> by up to \<open>MAX_THREADS\<close>, and still fits in the
  version field.
\<close>

lemma version_fits: "t \<le> VERSION_MAX + MAX_THREADS \<Longrightarrow> t < push_bit 60 1"
  by (simp add: version_max_value MAX_THREADS_def word_le_nat_alt word_less_nat_alt)

lemma version_read_back: "t \<le> VERSION_MAX \<Longrightarrow> LOCK_GET_TIMESTAMP (LOCK_SET_TIMESTAMP t) = t"
  by (rule get_timestamp_set) (simp add: version_max_value word_le_nat_alt word_less_nat_alt)

lemma bit_incarnation_mask: "bit INCARNATION_MASK n \<longleftrightarrow> 0 < n \<and> n < 4"
proof -
  have eq: "INCARNATION_MASK = push_bit 1 (mask 3)"
    by (simp add: lock_defs mask_eq_exp_minus_1)
  show ?thesis
    unfolding eq by (auto simp: bit_simps simp del: push_bit_Suc One_nat_def)
qed

lemma bit_set_incarnation: "bit (LOCK_SET_INCARNATION i) n \<longleftrightarrow> n < 64 \<and> 0 < n \<and> bit i (n - 1)"
  by (auto simp: LOCK_SET_INCARNATION_def OWNED_BITS_def bit_simps simp del: push_bit_Suc One_nat_def)

lemma bit_owned_mask: "bit OWNED_MASK n \<longleftrightarrow> n = 0"
  by (simp add: lock_defs bit_1_iff)

lemma bit_get_incarnation:
  "bit (LOCK_GET_INCARNATION l) n \<longleftrightarrow> n < 3 \<and> bit l (Suc n)"
  by (auto simp: LOCK_GET_INCARNATION_def OWNED_BITS_def bit_simps bit_incarnation_mask)

lemma bit_set_timestamp: "bit (LOCK_SET_TIMESTAMP t) n \<longleftrightarrow> n < 64 \<and> 4 \<le> n \<and> bit t (n - 4)"
  by (auto simp: LOCK_SET_TIMESTAMP_def LOCK_BITS_def OWNED_BITS_def INCARNATION_BITS_def bit_simps
      simp del: push_bit_Suc)

lemma bit_get_timestamp: "bit (LOCK_GET_TIMESTAMP l) n \<longleftrightarrow> bit l (n + 4)"
  by (auto simp: LOCK_GET_TIMESTAMP_def LOCK_BITS_def OWNED_BITS_def INCARNATION_BITS_def bit_simps add.commute
      simp del: drop_bit_Suc)

lemma bit_upd_incarnation:
  "bit (LOCK_UPD_INCARNATION l i) n \<longleftrightarrow>
     (bit l n \<and> 4 \<le> n) \<or> (n < 64 \<and> 0 < n \<and> bit i (n - 1))"
  by (auto simp: LOCK_UPD_INCARNATION_def bit_simps bit_set_incarnation bit_incarnation_mask
      bit_owned_mask dest: bit_imp_le_length)

lemma incarnation_of_timestamp [simp]: "LOCK_GET_INCARNATION (LOCK_SET_TIMESTAMP t) = 0"
  by (rule bit_word_eqI) (simp add: bit_get_incarnation bit_set_timestamp)

lemma incarnation_bit_bound: "i \<le> INCARNATION_MAX \<Longrightarrow> bit i n \<Longrightarrow> n < 3"
proof -
  assume "i \<le> INCARNATION_MAX" and b: "bit i n"
  then have "i < push_bit 3 1" by (simp add: lock_defs word_le_nat_alt word_less_nat_alt)
  then have "take_bit 3 i = i" by (simp only: take_bit_less)
  with b show "n < 3" by (metis bit_take_bit_iff)
qed

lemma upd_incarnation_owned: "LOCK_GET_OWNED (LOCK_UPD_INCARNATION l i) = 0"
  by (rule ccontr) (simp add: owned_iff_bit bit_upd_incarnation)

lemma upd_incarnation_timestamp:
  "i \<le> INCARNATION_MAX \<Longrightarrow> LOCK_GET_TIMESTAMP (LOCK_UPD_INCARNATION l i) = LOCK_GET_TIMESTAMP l"
  by (rule bit_word_eqI)
    (auto simp: bit_get_timestamp bit_upd_incarnation dest: incarnation_bit_bound)

lemma upd_incarnation_incarnation:
  "i \<le> INCARNATION_MAX \<Longrightarrow> LOCK_GET_INCARNATION (LOCK_UPD_INCARNATION l i) = i"
  by (rule bit_word_eqI)
    (auto simp: bit_get_incarnation bit_upd_incarnation dest: incarnation_bit_bound)

section \<open>What a lock word says\<close>

datatype lock_state =
    Owned w64
  | Free w64 w64

definition lock_abs :: "w64 \<Rightarrow> lock_state" where
  "lock_abs l = (if LOCK_GET_OWNED l \<noteq> 0 then Owned (LOCK_GET_ADDR l)
                 else Free (LOCK_GET_TIMESTAMP l) (LOCK_GET_INCARNATION l))"

section \<open>From addresses to locks\<close>

definition LOCK_ARRAY_LOG_SIZE :: nat where "LOCK_ARRAY_LOG_SIZE = 20"
definition LOCK_SHIFT_EXTRA :: nat where "LOCK_SHIFT_EXTRA = 2"
definition LOCK_ARRAY_SIZE :: w64 where "LOCK_ARRAY_SIZE = push_bit LOCK_ARRAY_LOG_SIZE 1"
definition LOCK_MASK :: w64 where "LOCK_MASK = LOCK_ARRAY_SIZE - 1"
definition LOCK_SHIFT :: nat where "LOCK_SHIFT = 3 + LOCK_SHIFT_EXTRA"
definition LOCK_IDX :: "w64 \<Rightarrow> w64" where "LOCK_IDX a = drop_bit LOCK_SHIFT a AND LOCK_MASK"

text \<open>
  \<open>lock_idx_swap\<close> works on an \<open>unsigned int\<close>.  It is compiled in only when
  \<open>LOCK_IDX_SWAP\<close> is defined, which the Makefile does not do.
\<close>

definition lock_idx_swap :: "w32 \<Rightarrow> w32" where
  "lock_idx_swap idx =
     (idx AND NOT 0xFFFF) OR push_bit 8 (idx AND 0x00FF) OR drop_bit 8 (idx AND 0xFF00)"

definition GET_LOCK :: "w64 \<Rightarrow> w64" where
  "GET_LOCK a = LOCK_IDX a"

lemmas idx_defs = LOCK_ARRAY_LOG_SIZE_def LOCK_SHIFT_EXTRA_def LOCK_ARRAY_SIZE_def
  LOCK_MASK_def LOCK_SHIFT_def LOCK_IDX_def

lemma lock_idx_bound: "LOCK_IDX a < LOCK_ARRAY_SIZE"
proof -
  have "LOCK_IDX a \<le> LOCK_MASK" unfolding LOCK_IDX_def by (rule word_and_le1)
  moreover have "LOCK_MASK < LOCK_ARRAY_SIZE" by (simp add: idx_defs)
  ultimately show ?thesis by simp
qed

lemma bit_lock_idx_swap:
  "bit (lock_idx_swap i) n \<longleftrightarrow>
     (if n < 8 then bit i (n + 8) else if n < 16 then bit i (n - 8) else bit i n)"
proof -
  have m: "(0xFFFF :: w32) = mask 16" "(0x00FF :: w32) = mask 8"
    "(0xFF00 :: w32) = push_bit 8 (mask 8)"
    by (simp_all add: mask_eq_exp_minus_1)
  show ?thesis
    unfolding lock_idx_swap_def m
    by (auto simp: bit_simps add.commute not_less dest: bit_imp_le_length)
qed

lemma lock_idx_swap_involution: "lock_idx_swap (lock_idx_swap i) = i"
  by (rule bit_word_eqI) (auto simp: bit_lock_idx_swap)

lemma hash_unat: "unat (GET_LOCK a) = unat a div 32 mod 2 ^ 20"
proof -
  have "GET_LOCK a = take_bit 20 (drop_bit 5 a)"
    by (simp add: GET_LOCK_def idx_defs take_bit_eq_mask mask_eq_exp_minus_1)
  then show ?thesis
    by (simp add: unsigned_take_bit_eq unsigned_drop_bit_eq take_bit_eq_mod drop_bit_eq_div unat_mod unat_div)
qed

lemma hash_add: "unat (GET_LOCK (a + of_nat k)) = (unat a + k) div 32 mod 2 ^ 20"
proof -
  have "unat (a + of_nat k) = (unat a + k) mod (32 * 2 ^ 59)"
    by (simp add: unat_word_ariths unat_of_nat mod_add_right_eq)
  moreover have "x mod (32 * 2 ^ 59) div 32 = x div 32 mod 2 ^ 59" for x :: nat
    unfolding mod_mult2_eq by simp
  moreover have "y mod 2 ^ 59 mod 2 ^ 20 = y mod 2 ^ 20" for y :: nat
    by (rule mod_mod_cancel) (simp add: le_imp_power_dvd)
  ultimately show ?thesis unfolding hash_unat by simp
qed

section \<open>Properties\<close>

text \<open>C19: A lock word says what was put into it: a free word gives back its version and incarnation
  for every timestamp a commit can reach (\<open>VERSION_MAX\<close> and one increment per thread), an owned
  word gives back the even address of the write-set entry, and no free word equals an owned one.\<close>

theorem lock_word_roundtrip:
  assumes "t \<le> VERSION_MAX + MAX_THREADS" "i \<le> INCARNATION_MAX" "\<not> bit p 0"
  shows "lock_abs (LOCK_UPD_INCARNATION (LOCK_SET_TIMESTAMP t) i) = Free t i
    \<and> lock_abs (LOCK_SET_TIMESTAMP t) = Free t 0
    \<and> lock_abs (LOCK_SET_ADDR_WRITE p) = Owned p
    \<and> LOCK_UPD_INCARNATION (LOCK_SET_TIMESTAMP t) i \<noteq> LOCK_SET_ADDR_WRITE p"
proof -
  have ts: "LOCK_GET_TIMESTAMP (LOCK_SET_TIMESTAMP t) = t"
    by (rule get_timestamp_set [OF version_fits [OF assms(1)]])
  have free: "lock_abs (LOCK_UPD_INCARNATION (LOCK_SET_TIMESTAMP t) i) = Free t i"
    by (simp add: lock_abs_def upd_incarnation_owned upd_incarnation_timestamp [OF assms(2)]
        upd_incarnation_incarnation [OF assms(2)] ts)
  moreover have own: "lock_abs (LOCK_SET_ADDR_WRITE p) = Owned p"
    by (simp add: lock_abs_def get_addr_set_write [OF assms(3)])
  moreover have "LOCK_UPD_INCARNATION (LOCK_SET_TIMESTAMP t) i \<noteq> LOCK_SET_ADDR_WRITE p"
    using free own by auto
  ultimately show ?thesis by (simp add: lock_abs_def ts)
qed

theorem lock_word_roundtrip_witness:
  "lock_abs (LOCK_UPD_INCARNATION (LOCK_SET_TIMESTAMP 5) 3) = Free 5 3 \<and> lock_abs (LOCK_SET_ADDR_WRITE 4096) = Owned 4096"
proof -
  have "(5 :: w64) \<le> VERSION_MAX + MAX_THREADS" by (simp add: version_max_value MAX_THREADS_def)
  moreover have "(3 :: w64) \<le> INCARNATION_MAX" by (simp add: lock_defs)
  moreover have "\<not> bit (4096 :: w64) 0" by (simp add: bit_0)
  ultimately show ?thesis using lock_word_roundtrip [of 5 3 4096] by blast
qed

text \<open>The hash stays inside the lock array, gives all bytes of a 32-byte stripe one lock and
  distinct locks to neighbouring stripes, and addresses \<open>2 ^ 25\<close> apart share a lock;
  \<open>lock_idx_swap\<close> permutes the indices.\<close>

theorem lock_hash_bounds:
  "GET_LOCK a < LOCK_ARRAY_SIZE
    \<and> (drop_bit 5 a = drop_bit 5 b \<longrightarrow> GET_LOCK a = GET_LOCK b)
    \<and> GET_LOCK (a + 2 ^ 25) = GET_LOCK a
    \<and> GET_LOCK (a + 32) \<noteq> GET_LOCK a
    \<and> bij lock_idx_swap"
proof -
  have mono: "GET_LOCK a = GET_LOCK b" if "drop_bit 5 a = drop_bit 5 b" using that by (simp add: GET_LOCK_def idx_defs)
  have far: "GET_LOCK (a + 2 ^ 25) = GET_LOCK a"
  proof -
    have "unat (GET_LOCK (a + 2 ^ 25)) = (unat a + 2 ^ 25) div 32 mod 2 ^ 20" using hash_add [of a "2 ^ 25"] by simp
    also have "\<dots> = unat a div 32 mod 2 ^ 20"
    proof -
      have "(unat a + 2 ^ 25) div 32 = unat a div 32 + 2 ^ 20" by simp
      then show ?thesis by (metis mod_add_self2)
    qed
    finally show ?thesis unfolding hash_unat [symmetric] by (simp only: word_unat_eq_iff)
  qed
  have near: "GET_LOCK (a + 32) \<noteq> GET_LOCK a"
  proof -
    have "(unat a + 32) div 32 = unat a div 32 + 1" by simp
    then have "unat (GET_LOCK (a + 32)) = (unat a div 32 + 1) mod 2 ^ 20"
      using hash_add [of a 32] by (simp only: of_nat_numeral)
    moreover have "(q + 1) mod 2 ^ 20 \<noteq> q mod 2 ^ 20" for q :: nat by (auto simp: mod_Suc)
    ultimately show ?thesis using hash_unat [of a] by metis
  qed
  have "bij lock_idx_swap" by (rule o_bij [of lock_idx_swap]) (auto simp: lock_idx_swap_involution)
  then show ?thesis using lock_idx_bound [of a] mono far near by (simp add: GET_LOCK_def)
qed

theorem lock_hash_bounds_witness: "GET_LOCK 64 = GET_LOCK 95 \<and> GET_LOCK 96 \<noteq> GET_LOCK 64"
proof -
  have "drop_bit 5 (64 :: w64) = drop_bit 5 95" by simp
  then show ?thesis using lock_hash_bounds [of 64 95] by auto
qed

end
