(* ===== verification/State.thy ===== *)
theory State
  imports Locks
begin

text \<open>
  The state of the library as \<open>src/stm_internal.h\<close> declares it, and the primitive accesses
  to the part of it that other threads share.

  \<^item> \<open>stm_tx\<close> is the descriptor of the current thread's transaction (\<open>struct stm_tx\<close>), with
    its read set and write set.  The used prefix of each entry array is a list, so
    \<open>nb_entries\<close> is its length; the array's capacity is kept as \<open>size\<close>, and the address of
    the write-set array as \<open>base\<close>, since lock words hold pointers into it.
  \<^item> \<open>glob\<close> is \<open>global_t\<close> with the application's memory beside it.
  \<^item> \<open>st\<close> is what one thread runs on: the shared state, its own descriptor, the thread-local
    pointer \<open>thread_tx\<close>, and two counters (accesses to shared memory, allocations).

  Other threads are the parameter \<open>env\<close>: before the \<open>n\<close>-th atomic access of this thread
  the shared state changes by \<open>env P n\<close>, an arbitrary function.  Every restart and
  re-check of the code is therefore a branch that can be taken.  The allocator (\<open>alloc\<close>), the success of the
  initialisation of pthread objects (\<open>sync_ok\<close>)
  and the application's callbacks (\<open>callf\<close>) are parameters too.
\<close>

section \<open>Constants\<close>

definition RW_SET_SIZE :: nat where "RW_SET_SIZE = 4096"
definition MIN_BACKOFF :: w32 where "MIN_BACKOFF = push_bit 2 1"
definition MAX_BACKOFF :: w64 where "MAX_BACKOFF = push_bit 31 1"
definition MAX_CB :: nat where "MAX_CB = 7"
definition MAX_SPECIFIC :: nat where "MAX_SPECIFIC = 7"
definition DELAY_SLOTS :: nat where "DELAY_SLOTS = 32"
definition SIZEOF_W_ENTRY :: w64 where "SIZEOF_W_ENTRY = 64"

definition STM_PATH_INSTRUMENTED :: w64 where "STM_PATH_INSTRUMENTED = 0x01"
definition STM_PATH_UNINSTRUMENTED :: w64 where "STM_PATH_UNINSTRUMENTED = 0x02"
definition STM_ABORT_EXPLICIT :: w64 where "STM_ABORT_EXPLICIT = push_bit 5 1"
definition STM_ABORT_NO_RETRY :: w64 where "STM_ABORT_NO_RETRY = push_bit 5 1 OR push_bit 8 0x01"
definition STM_ABORT_IMPLICIT :: w64 where "STM_ABORT_IMPLICIT = push_bit 6 1"
definition STM_ABORT_RR_CONFLICT :: w64 where "STM_ABORT_RR_CONFLICT = push_bit 6 1 OR push_bit 8 0x01"
definition STM_ABORT_RW_CONFLICT :: w64 where "STM_ABORT_RW_CONFLICT = push_bit 6 1 OR push_bit 8 0x02"
definition STM_ABORT_WR_CONFLICT :: w64 where "STM_ABORT_WR_CONFLICT = push_bit 6 1 OR push_bit 8 0x03"
definition STM_ABORT_WW_CONFLICT :: w64 where "STM_ABORT_WW_CONFLICT = push_bit 6 1 OR push_bit 8 0x04"
definition STM_ABORT_VAL_READ :: w64 where "STM_ABORT_VAL_READ = push_bit 6 1 OR push_bit 8 0x05"
definition STM_ABORT_VAL_WRITE :: w64 where "STM_ABORT_VAL_WRITE = push_bit 6 1 OR push_bit 8 0x06"
definition STM_ABORT_VALIDATE :: w64 where "STM_ABORT_VALIDATE = push_bit 6 1 OR push_bit 8 0x07"
definition STM_ABORT_IRREVOCABLE :: w64 where "STM_ABORT_IRREVOCABLE = push_bit 6 1 OR push_bit 8 0x09"
definition STM_ABORT_KILLED :: w64 where "STM_ABORT_KILLED = push_bit 6 1 OR push_bit 8 0x0A"
definition STM_ABORT_SIGNAL :: w64 where "STM_ABORT_SIGNAL = push_bit 6 1 OR push_bit 8 0x0B"
definition STM_ABORT_EXTEND_WS :: w64 where "STM_ABORT_EXTEND_WS = push_bit 6 1 OR push_bit 8 0x0C"
definition STM_ABORT_OTHER :: w64 where "STM_ABORT_OTHER = push_bit 6 1 OR push_bit 8 0x0F"

lemmas reason_defs = STM_PATH_INSTRUMENTED_def STM_PATH_UNINSTRUMENTED_def STM_ABORT_EXPLICIT_def
  STM_ABORT_NO_RETRY_def STM_ABORT_IMPLICIT_def STM_ABORT_RR_CONFLICT_def STM_ABORT_RW_CONFLICT_def
  STM_ABORT_WR_CONFLICT_def STM_ABORT_WW_CONFLICT_def STM_ABORT_VAL_READ_def
  STM_ABORT_VAL_WRITE_def STM_ABORT_VALIDATE_def STM_ABORT_IRREVOCABLE_def STM_ABORT_KILLED_def
  STM_ABORT_SIGNAL_def STM_ABORT_EXTEND_WS_def STM_ABORT_OTHER_def

datatype design = WRITE_BACK_ETL | WRITE_BACK_CTL | WRITE_THROUGH | MODULAR

section \<open>Data structures\<close>

record attr =
  at_id :: "16 word"
  at_read_only :: bool
  at_visible_reads :: bool
  at_no_retry :: bool
  at_no_extend :: bool

record r_entry =
  re_version :: w64
  re_lock :: w64

text \<open>
  \<open>we_next\<close> and \<open>we_no_drop\<close> share storage in the source; each design uses one of them.
  A \<open>next\<close> pointer always points into the same array and is kept as an index.
\<close>

record w_entry =
  we_addr :: w64
  we_value :: w64
  we_mask :: w64
  we_version :: w64
  we_lock :: w64
  we_next :: "nat option"
  we_no_drop :: bool

record cb_entry =
  cb_f :: w64
  cb_arg :: w64

text \<open>
  \<open>tx_count\<close> is the union of \<open>has_writes\<close> (encounter-time locking) and \<open>nb_acquired\<close>
  (commit-time locking).
\<close>

record stm_tx =
  tx_attr :: attr
  tx_status :: w64
  tx_start :: w64
  tx_end :: w64
  tx_rs_base :: w64
  tx_rs :: "r_entry list"
  tx_rs_size :: nat
  tx_base :: w64
  tx_ws :: "w_entry list"
  tx_ws_size :: nat
  tx_count :: nat
  tx_irrevocable :: "4 word"
  tx_nesting :: w32
  tx_data :: "w64 list"
  tx_backoff :: w64
  tx_thread_idx :: w32
  tx_seed :: w64
  tx_stat_retries :: w32
  tx_stat_commits :: w32
  tx_stat_aborts :: w32
  tx_stat_retries_max :: w32
  tx_stat_aborts_1 :: w32
  tx_stat_aborts_2 :: w32
  tx_stat_aborts_r :: "w32 list"

record glob =
  g_mem :: "w64 \<Rightarrow> w64"
  g_locks :: "w64 \<Rightarrow> w64"
  g_clock :: w64
  g_nb_specific :: nat
  g_init_cb :: "cb_entry list"
  g_exit_cb :: "cb_entry list"
  g_start_cb :: "cb_entry list"
  g_precommit_cb :: "cb_entry list"
  g_commit_cb :: "cb_entry list"
  g_abort_cb :: "cb_entry list"
  g_initialized :: bool
  g_irrevocable :: w64
  g_quiesce :: w64
  g_threads_nb :: w64
  g_threads :: "w64 list"
  g_mutex :: bool
  g_delay_time :: "w32 list"
  g_status :: "w64 \<Rightarrow> w64"

record st =
  s_glob :: glob
  s_tx :: stm_tx
  s_cur :: w64
  s_tick :: nat
  s_nalloc :: nat

record params =
  p_design :: design
  env :: "nat \<Rightarrow> glob \<Rightarrow> glob"
  alloc :: "nat \<Rightarrow> w64"
  callf :: "w64 \<Rightarrow> w64 \<Rightarrow> st \<Rightarrow> st"
  sync_ok :: bool

type_synonym 'a prog = "(st, 'a) comp"

definition quiet :: "params \<Rightarrow> bool" where
  "quiet P \<longleftrightarrow> (\<forall>n g. env P n g = g)"

lemma quietD [simp]: "quiet P \<Longrightarrow> env P n g = g"
  by (simp add: quiet_def)

section \<open>Accesses to the descriptor and to shared memory\<close>

definition upd_tx :: "(stm_tx \<Rightarrow> stm_tx) \<Rightarrow> st \<Rightarrow> st" where
  "upd_tx f s = s\<lparr>s_tx := f (s_tx s)\<rparr>"

definition upd_glob :: "(glob \<Rightarrow> glob) \<Rightarrow> st \<Rightarrow> st" where
  "upd_glob f s = s\<lparr>s_glob := f (s_glob s)\<rparr>"

definition set_tx :: "(stm_tx \<Rightarrow> stm_tx) \<Rightarrow> unit prog" where
  "set_tx f = modify (upd_tx f)"

definition get_tx :: "stm_tx prog" where
  "get_tx = gets s_tx"

definition set_glob :: "(glob \<Rightarrow> glob) \<Rightarrow> unit prog" where
  "set_glob f = modify (upd_glob f)"

definition env_step :: "params \<Rightarrow> st \<Rightarrow> st" where
  "env_step P s = s\<lparr>s_glob := env P (s_tick s) (s_glob s), s_tick := Suc (s_tick s)\<rparr>"

definition interfere :: "params \<Rightarrow> unit prog" where
  "interfere P = modify (env_step P)"

definition atomic_get :: "params \<Rightarrow> (glob \<Rightarrow> 'a) \<Rightarrow> 'a prog" where
  "atomic_get P f = thn (interfere P) (gets (\<lambda>s. f (s_glob s)))"

definition atomic_set :: "params \<Rightarrow> (glob \<Rightarrow> glob) \<Rightarrow> unit prog" where
  "atomic_set P f = thn (interfere P) (set_glob f)"

definition load_lock :: "params \<Rightarrow> w64 \<Rightarrow> w64 prog" where
  "load_lock P k = atomic_get P (\<lambda>g. g_locks g k)"

definition store_lock :: "params \<Rightarrow> w64 \<Rightarrow> w64 \<Rightarrow> unit prog" where
  "store_lock P k v = atomic_set P (\<lambda>g. g\<lparr>g_locks := (g_locks g)(k := v)\<rparr>)"

definition load_mem :: "params \<Rightarrow> w64 \<Rightarrow> w64 prog" where
  "load_mem P a = atomic_get P (\<lambda>g. g_mem g a)"

definition store_mem :: "params \<Rightarrow> w64 \<Rightarrow> w64 \<Rightarrow> unit prog" where
  "store_mem P a v = atomic_set P (\<lambda>g. g\<lparr>g_mem := (g_mem g)(a := v)\<rparr>)"

definition get_clock :: "params \<Rightarrow> w64 prog" where
  "get_clock P = atomic_get P g_clock"

definition fetch_inc_clock :: "params \<Rightarrow> w64 prog" where
  "fetch_inc_clock P = thn (interfere P)
     (bnd (gets (\<lambda>s. g_clock (s_glob s)))
       (\<lambda>c. thn (set_glob (\<lambda>g. g\<lparr>g_clock := c + 1\<rparr>)) (ret c)))"

definition cas_lock :: "params \<Rightarrow> w64 \<Rightarrow> w64 \<Rightarrow> w64 \<Rightarrow> bool prog" where
  "cas_lock P k old new = thn (interfere P)
     (bnd (gets (\<lambda>s. g_locks (s_glob s) k))
       (\<lambda>l. if l = old
             then thn (set_glob (\<lambda>g. g\<lparr>g_locks := (g_locks g)(k := new)\<rparr>)) (ret True)
             else ret False))"

definition cas_irrevocable :: "params \<Rightarrow> w64 \<Rightarrow> w64 \<Rightarrow> bool prog" where
  "cas_irrevocable P old new = thn (interfere P)
     (bnd (gets (\<lambda>s. g_irrevocable (s_glob s)))
       (\<lambda>l. if l = old then thn (set_glob (\<lambda>g. g\<lparr>g_irrevocable := new\<rparr>)) (ret True) else ret False))"

text \<open>A callback runs on the whole state: it is code of the application or of a module.\<close>

definition run_cb :: "params \<Rightarrow> cb_entry \<Rightarrow> unit prog" where
  "run_cb P c = modify (callf P (cb_f c) (cb_arg c))"

text \<open>An allocation that fails ends the process (\<open>xmalloc\<close> and its kin in \<open>src/utils.h\<close>).\<close>

definition xmalloc :: "params \<Rightarrow> w64 prog" where
  "xmalloc P = bnd (gets (\<lambda>s. alloc P (s_nalloc s)))
     (\<lambda>a. thn (modify (\<lambda>s. s\<lparr>s_nalloc := Suc (s_nalloc s)\<rparr>)) (if a = 0 then stop ExitProc else ret a))"

lemmas access_defs = upd_tx_def upd_glob_def set_tx_def get_tx_def set_glob_def env_step_def
  interfere_def atomic_get_def atomic_set_def

text \<open>
  Executing an access when no other thread moves in between.  \<open>tock\<close> only counts accesses.
\<close>

definition tock :: "st \<Rightarrow> st" where
  "tock s = s\<lparr>s_tick := Suc (s_tick s)\<rparr>"

lemma tock_fields [simp]:
  "s_glob (tock s) = s_glob s" "s_tx (tock s) = s_tx s" "s_cur (tock s) = s_cur s"
  "s_nalloc (tock s) = s_nalloc s"
  by (simp_all add: tock_def)

lemma upd_tx_fields [simp]:
  "s_glob (upd_tx f s) = s_glob s" "s_tx (upd_tx f s) = f (s_tx s)" "s_cur (upd_tx f s) = s_cur s"
  "s_tick (upd_tx f s) = s_tick s" "s_nalloc (upd_tx f s) = s_nalloc s"
  by (simp_all add: upd_tx_def)

lemma upd_glob_fields [simp]:
  "s_glob (upd_glob f s) = f (s_glob s)" "s_tx (upd_glob f s) = s_tx s" "s_cur (upd_glob f s) = s_cur s"
  "s_tick (upd_glob f s) = s_tick s" "s_nalloc (upd_glob f s) = s_nalloc s"
  by (simp_all add: upd_glob_def)

lemma env_step_quiet [simp]: "quiet P \<Longrightarrow> env_step P s = tock s"
  by (simp add: env_step_def tock_def)

lemma get_tx_exec [exec_simps, simp]: "get_tx s = (Ret (s_tx s), s)"
  by (simp add: get_tx_def)

lemma set_tx_exec [exec_simps, simp]: "set_tx f s = (Ret (), upd_tx f s)"
  by (simp add: set_tx_def)

lemma set_glob_exec [exec_simps, simp]: "set_glob f s = (Ret (), upd_glob f s)"
  by (simp add: set_glob_def)

lemma interfere_exec [exec_simps, simp]: "interfere P s = (Ret (), env_step P s)"
  by (simp add: interfere_def)

lemma atomic_get_exec [exec_simps, simp]:
  "atomic_get P f s = (Ret (f (s_glob (env_step P s))), env_step P s)"
  by (simp add: atomic_get_def thn_def bnd_def)

lemma atomic_set_exec [exec_simps, simp]:
  "atomic_set P f s = (Ret (), upd_glob f (env_step P s))"
  by (simp add: atomic_set_def thn_def bnd_def)

lemma load_lock_exec [exec_simps, simp]:
  "load_lock P k s = (Ret (g_locks (s_glob (env_step P s)) k), env_step P s)"
  by (simp add: load_lock_def)

lemma load_mem_exec [exec_simps, simp]:
  "load_mem P a s = (Ret (g_mem (s_glob (env_step P s)) a), env_step P s)"
  by (simp add: load_mem_def)

lemma store_lock_exec [exec_simps, simp]:
  "store_lock P k v s = (Ret (), upd_glob (\<lambda>g. g\<lparr>g_locks := (g_locks g)(k := v)\<rparr>) (env_step P s))"
  by (simp add: store_lock_def)

lemma store_mem_exec [exec_simps, simp]:
  "store_mem P a v s = (Ret (), upd_glob (\<lambda>g. g\<lparr>g_mem := (g_mem g)(a := v)\<rparr>) (env_step P s))"
  by (simp add: store_mem_def)

lemma get_clock_exec [exec_simps, simp]:
  "get_clock P s = (Ret (g_clock (s_glob (env_step P s))), env_step P s)"
  by (simp add: get_clock_def)

lemma fetch_inc_clock_exec [exec_simps, simp]:
  "fetch_inc_clock P s = (Ret (g_clock (s_glob (env_step P s))),
     upd_glob (\<lambda>g. g\<lparr>g_clock := g_clock (s_glob (env_step P s)) + 1\<rparr>) (env_step P s))"
  by (simp add: fetch_inc_clock_def thn_def bnd_def)

lemma cas_lock_exec [exec_simps]:
  "cas_lock P k old new s =
     (if g_locks (s_glob (env_step P s)) k = old
      then (Ret True, upd_glob (\<lambda>g. g\<lparr>g_locks := (g_locks g)(k := new)\<rparr>) (env_step P s))
      else (Ret False, env_step P s))"
  by (simp add: cas_lock_def thn_def bnd_def)

lemma cas_irrevocable_exec [exec_simps]:
  "cas_irrevocable P old new s =
     (if g_irrevocable (s_glob (env_step P s)) = old
      then (Ret True, upd_glob (\<lambda>g. g\<lparr>g_irrevocable := new\<rparr>) (env_step P s))
      else (Ret False, env_step P s))"
  by (simp add: cas_irrevocable_def thn_def bnd_def)

lemma run_cb_exec [exec_simps, simp]: "run_cb P c s = (Ret (), callf P (cb_f c) (cb_arg c) s)"
  by (simp add: run_cb_def)

lemmas access_exec = get_tx_exec set_tx_exec set_glob_exec interfere_exec atomic_get_exec
  atomic_set_exec load_lock_exec load_mem_exec store_lock_exec store_mem_exec get_clock_exec
  fetch_inc_clock_exec run_cb_exec

lemmas wp_access [wp_simps, simp] = access_exec [THEN wp_exec]

lemma wp_cas_lock [wp_simps, simp]:
  "wp (cas_lock P k old new) s Q E =
     (if g_locks (s_glob (env_step P s)) k = old
      then Q True (upd_glob (\<lambda>g. g\<lparr>g_locks := (g_locks g)(k := new)\<rparr>) (env_step P s))
      else Q False (env_step P s))"
  by (simp add: wp_def cas_lock_exec)

lemma wp_cas_irrevocable [wp_simps, simp]:
  "wp (cas_irrevocable P old new) s Q E =
     (if g_irrevocable (s_glob (env_step P s)) = old
      then Q True (upd_glob (\<lambda>g. g\<lparr>g_irrevocable := new\<rparr>) (env_step P s))
      else Q False (env_step P s))"
  by (simp add: wp_def cas_irrevocable_exec)

text \<open>An access leaves the descriptor alone, whatever the environment does.\<close>

lemma env_step_fields [simp]:
  "s_tx (env_step P s) = s_tx s" "s_cur (env_step P s) = s_cur s" "s_nalloc (env_step P s) = s_nalloc s"
  "s_glob (env_step P s) = env P (s_tick s) (s_glob s)"
  by (simp_all add: env_step_def)

text \<open>\<open>ticked s t\<close>: nothing but the access counter changed from \<open>s\<close> to \<open>t\<close>.\<close>

definition ticked :: "st \<Rightarrow> st \<Rightarrow> bool" where
  "ticked s t \<longleftrightarrow> s_glob t = s_glob s \<and> s_tx t = s_tx s \<and> s_cur t = s_cur s \<and> s_nalloc t = s_nalloc s"

lemma ticked_refl [simp]: "ticked s s"
  by (simp add: ticked_def)

lemma ticked_tock [simp]: "ticked s (tock t) = ticked s t" "ticked (tock s) t = ticked s t"
  by (simp_all add: ticked_def)

lemma ticked_trans: "ticked s t \<Longrightarrow> ticked t u \<Longrightarrow> ticked s u"
  by (simp add: ticked_def)

lemma ticked_fields:
  "ticked s t \<Longrightarrow> s_glob t = s_glob s" "ticked s t \<Longrightarrow> s_tx t = s_tx s"
  by (simp_all add: ticked_def)

section \<open>Pointers into the write set\<close>

definition we_ptr :: "stm_tx \<Rightarrow> nat \<Rightarrow> w64" where
  "we_ptr tx i = tx_base tx + SIZEOF_W_ENTRY * of_nat i"

text \<open>
  The test every lock-owner check of the source uses:
  \<open>tx->w_set.entries <= w && w < tx->w_set.entries + tx->w_set.nb_entries\<close>.
\<close>

definition in_ws :: "stm_tx \<Rightarrow> w64 \<Rightarrow> bool" where
  "in_ws tx w \<longleftrightarrow> tx_base tx \<le> w \<and> w < we_ptr tx (length (tx_ws tx))"

definition we_index :: "stm_tx \<Rightarrow> w64 \<Rightarrow> nat" where
  "we_index tx w = unat (w - tx_base tx) div 64"

text \<open>The array is at an even address and lies below the end of the address space.\<close>

definition ws_placed :: "stm_tx \<Rightarrow> bool" where
  "ws_placed tx \<longleftrightarrow> even (unat (tx_base tx)) \<and> unat (tx_base tx) + 64 * tx_ws_size tx < 2 ^ 64
     \<and> length (tx_ws tx) \<le> tx_ws_size tx"

lemma we_ptr_unat:
  assumes "ws_placed tx" "i \<le> tx_ws_size tx"
  shows "unat (we_ptr tx i) = unat (tx_base tx) + 64 * i"
proof -
  have le: "unat (tx_base tx) + 64 * i < 2 ^ 64"
    using assms by (auto simp: ws_placed_def)
  have p: "we_ptr tx i = tx_base tx + of_nat (64 * i)"
    by (simp add: we_ptr_def SIZEOF_W_ENTRY_def)
  have u: "unat (of_nat (64 * i) :: w64) = 64 * i"
    by (subst unat_of_nat) (use le in simp)
  show ?thesis
    unfolding p using le by (simp only: unat_word_ariths u) simp
qed

lemma we_ptr_in_ws: "ws_placed tx \<Longrightarrow> i < length (tx_ws tx) \<Longrightarrow> in_ws tx (we_ptr tx i)"
  by (auto simp: in_ws_def word_le_nat_alt word_less_nat_alt we_ptr_unat ws_placed_def)

lemma we_index_ptr:
  assumes "ws_placed tx" "i \<le> tx_ws_size tx"
  shows "we_index tx (we_ptr tx i) = i"
proof -
  have "tx_base tx \<le> we_ptr tx i" using assms by (simp add: word_le_nat_alt we_ptr_unat)
  then have "unat (we_ptr tx i - tx_base tx) = 64 * i"
    using assms by (simp add: unat_sub we_ptr_unat)
  then show ?thesis by (simp add: we_index_def)
qed

lemma we_ptr_even: "ws_placed tx \<Longrightarrow> i \<le> tx_ws_size tx \<Longrightarrow> \<not> bit (we_ptr tx i) 0"
proof -
  assume a: "ws_placed tx" "i \<le> tx_ws_size tx"
  from a(1) have "even (unat (tx_base tx))" by (simp add: ws_placed_def)
  with a have "even (unat (we_ptr tx i))" by (simp add: we_ptr_unat)
  then have "\<not> bit (unat (we_ptr tx i)) 0" by (simp only: bit_0 not_not)
  then show ?thesis by (simp only: bit_unsigned_iff possible_bit_nat) simp
qed

lemma we_ptr_inject:
  "ws_placed tx \<Longrightarrow> i \<le> tx_ws_size tx \<Longrightarrow> j \<le> tx_ws_size tx \<Longrightarrow> we_ptr tx i = we_ptr tx j \<longleftrightarrow> i = j"
  by (metis we_index_ptr)

text \<open>The lock word that points to entry \<open>i\<close>, and what the owner test reads from it.\<close>

definition own_word :: "stm_tx \<Rightarrow> nat \<Rightarrow> w64" where
  "own_word tx i = LOCK_SET_ADDR_WRITE (we_ptr tx i)"

lemma own_word_facts:
  assumes "ws_placed tx" "i < length (tx_ws tx)"
  shows "LOCK_GET_OWNED (own_word tx i) \<noteq> 0" "LOCK_GET_WRITE (own_word tx i) \<noteq> 0"
    "in_ws tx (LOCK_GET_ADDR (own_word tx i))" "we_index tx (LOCK_GET_ADDR (own_word tx i)) = i"
proof -
  have i: "i \<le> tx_ws_size tx" using assms by (simp add: ws_placed_def)
  then have addr: "LOCK_GET_ADDR (own_word tx i) = we_ptr tx i"
    using assms by (simp add: own_word_def get_addr_set_write we_ptr_even)
  show "LOCK_GET_OWNED (own_word tx i) \<noteq> 0" "LOCK_GET_WRITE (own_word tx i) \<noteq> 0"
    by (simp_all add: own_word_def get_write_eq_owned)
  show "in_ws tx (LOCK_GET_ADDR (own_word tx i))" "we_index tx (LOCK_GET_ADDR (own_word tx i)) = i"
    using assms i by (simp_all add: addr we_ptr_in_ws we_index_ptr)
qed

end
