(* ===== verification/Sample.thy ===== *)
theory Sample
  imports State
begin

text \<open>
  Concrete states the theorems are instantiated at: a thread with an empty transaction
  descriptor at clock 5, between transactions (\<open>sample_idle\<close>) and inside one (\<open>sample_run\<close>),
  no other thread, every lock free with version 0, and memory holding 7 everywhere.
\<close>

definition sample_params :: "design \<Rightarrow> params" where
  "sample_params d = \<lparr>p_design = d, env = (\<lambda>_ g. g), alloc = (\<lambda>_. 64), callf = (\<lambda>_ _ s. s), sync_ok = True\<rparr>"

definition sample_attr :: attr where
  "sample_attr = \<lparr>at_id = 0, at_read_only = False, at_visible_reads = False, at_no_retry = False,
     at_no_extend = False\<rparr>"

definition sample_tx :: stm_tx where
  "sample_tx = \<lparr>tx_attr = sample_attr, tx_status = TX_ACTIVE, tx_start = 5, tx_end = 5, tx_rs_base = 1024,
     tx_rs = [], tx_rs_size = 4, tx_base = 4096, tx_ws = [], tx_ws_size = 4, tx_count = 0,
     tx_irrevocable = 0, tx_nesting = 1, tx_data = replicate MAX_SPECIFIC 0, tx_backoff = 4,
     tx_thread_idx = 1, tx_seed = 1, tx_stat_retries = 0, tx_stat_commits = 0, tx_stat_aborts = 0,
     tx_stat_retries_max = 0, tx_stat_aborts_1 = 0, tx_stat_aborts_2 = 0,
     tx_stat_aborts_r = replicate 16 0\<rparr>"

definition sample_glob :: glob where
  "sample_glob = \<lparr>g_mem = (\<lambda>_. 7), g_locks = (\<lambda>_. 0), g_clock = 5, g_nb_specific = 1, g_init_cb = [],
     g_exit_cb = [], g_start_cb = [], g_precommit_cb = [], g_commit_cb = [], g_abort_cb = [],
     g_initialized = True, g_irrevocable = 0, g_quiesce = 0, g_threads_nb = 1, g_threads = [64],
     g_mutex = False, g_delay_time = replicate DELAY_SLOTS 4, g_status = (\<lambda>_. TX_IDLE)\<rparr>"

definition sample_run :: st where
  "sample_run = \<lparr>s_glob = sample_glob, s_tx = sample_tx, s_cur = 64, s_tick = 0, s_nalloc = 0\<rparr>"

definition sample_idle :: st where
  "sample_idle = sample_run\<lparr>s_tx := sample_tx\<lparr>tx_status := TX_IDLE, tx_nesting := 0\<rparr>\<rparr>"

text \<open>A transaction with one pending write of 9 to address 64, whose lock it holds.\<close>

definition sample_entry :: w_entry where
  "sample_entry = \<lparr>we_addr = 64, we_value = 9, we_mask = NOT 0, we_version = 0, we_lock = 2, we_next = None,
     we_no_drop = False\<rparr>"

definition sample_wrote :: st where
  "sample_wrote = sample_run\<lparr>s_tx := sample_tx\<lparr>tx_ws := [sample_entry], tx_count := 1\<rparr>,
     s_glob := sample_glob\<lparr>g_locks := (\<lambda>_. 0)(2 := 4097)\<rparr>\<rparr>"

lemmas sample_defs = sample_params_def sample_attr_def sample_tx_def sample_glob_def sample_run_def
  sample_idle_def sample_entry_def sample_wrote_def

lemma sample_quiet [simp]: "quiet (sample_params d)"
  by (simp add: quiet_def sample_params_def)

lemma sample_lock [simp]: "GET_LOCK 64 = 2" "GET_LOCK 72 = 2" "GET_LOCK 0 = 0"
  by (simp_all add: GET_LOCK_def idx_defs)

end
