(* ===== verification/Quiesce.thy ===== *)
theory Quiesce
  imports Sample
begin

text \<open>
  Quiescence (\<open>src/stm_internal.h\<close>, \<open>stm_quiesce_*\<close>): the list of transactional threads,
  the barrier all threads meet at when the clock rolls over, and the way a serial
  irrevocable transaction stops the others.  A wait is a loop with fuel whose
  body lets the environment move; waiting on the condition variable releases the mutex,
  lets the environment move and takes the mutex again.
\<close>

section \<open>The mutex and the thread list\<close>

primrec mutex_lock :: "nat \<Rightarrow> params \<Rightarrow> unit prog" where
  "mutex_lock 0 P = stop Diverge"
| "mutex_lock (Suc n) P =
     bnd (atomic_get P g_mutex)
       (\<lambda>m. if m then mutex_lock n P else set_glob (\<lambda>g. g\<lparr>g_mutex := True\<rparr>))"

definition mutex_unlock :: "unit prog" where
  "mutex_unlock = set_glob (\<lambda>g. g\<lparr>g_mutex := False\<rparr>)"

definition stm_quiesce_init :: "params \<Rightarrow> unit prog" where
  "stm_quiesce_init P =
     (if \<not> sync_ok P then stop ExitProc
      else set_glob (\<lambda>g. g\<lparr>g_mutex := False, g_quiesce := 0, g_threads_nb := 0, g_threads := [],
                          g_delay_time := replicate DELAY_SLOTS 0\<rparr>))"

text \<open>
  \<open>stm_quiesce_enter_thread\<close>: the new descriptor goes to the head of the list, and the
  thread takes the slot \<open>threads_nb\<close> of \<open>delay_time\<close>.  The array has 32 elements, so for the
  32nd concurrent thread the store is out of bounds.
\<close>

definition stm_quiesce_enter_thread :: "nat \<Rightarrow> params \<Rightarrow> w64 \<Rightarrow> unit prog" where
  "stm_quiesce_enter_thread n P me =
     thn (mutex_lock n P)
    (thn (set_glob (\<lambda>g. g\<lparr>g_threads := me # g_threads g, g_threads_nb := g_threads_nb g + 1\<rparr>))
    (bnd (gets (\<lambda>s. g_threads_nb (s_glob s)))
    (\<lambda>k. if unat k < DELAY_SLOTS
         then thn (set_glob (\<lambda>g. g\<lparr>g_delay_time := (g_delay_time g)[unat k := MIN_BACKOFF]\<rparr>))
             (thn (set_tx (\<lambda>t. t\<lparr>tx_thread_idx := ucast k\<rparr>))
                  mutex_unlock)
         else stop Undef)))"

text \<open>The loop that unlinks a descriptor; \<open>None\<close> when the assertion that it is in the list fails.\<close>

fun unlink :: "w64 \<Rightarrow> w64 list \<Rightarrow> w64 list option" where
  "unlink me [] = None"
| "unlink me (t # ts) = (if t = me then Some ts else map_option ((#) t) (unlink me ts))"

definition stm_quiesce_exit_thread :: "nat \<Rightarrow> params \<Rightarrow> w64 \<Rightarrow> unit prog" where
  "stm_quiesce_exit_thread n P me =
     thn (assert_c (\<lambda>s. \<not> IS_ACTIVE (tx_status (s_tx s))))
    (thn (mutex_lock n P)
    (bnd (gets (\<lambda>s. unlink me (g_threads (s_glob s))))
    (\<lambda>r. case r of None \<Rightarrow> stop AssertFail
         | Some ts \<Rightarrow>
             thn (set_glob (\<lambda>g. g\<lparr>g_threads := ts, g_threads_nb := g_threads_nb g - 1\<rparr>))
                 mutex_unlock)))"

section \<open>The barrier\<close>

primrec barrier_wait :: "nat \<Rightarrow> params \<Rightarrow> unit prog \<Rightarrow> unit prog" where
  "barrier_wait 0 P f = stop Diverge"
| "barrier_wait (Suc n) P f =
     bnd (atomic_get P g_quiesce)
       (\<lambda>q. if q = 0 then ret ()
            else bnd (atomic_get P g_threads_nb)
              (\<lambda>k. if k = 0
                   then thn f (thn (set_glob (\<lambda>g. g\<lparr>g_quiesce := 0\<rparr>)) (barrier_wait n P f))
                   else thn mutex_unlock
                       (thn (interfere P) (thn (mutex_lock n P) (barrier_wait n P f)))))"

definition stm_quiesce_barrier :: "nat \<Rightarrow> params \<Rightarrow> bool \<Rightarrow> unit prog \<Rightarrow> unit prog" where
  "stm_quiesce_barrier n P tx_null f =
     thn (assert_c (\<lambda>s. tx_null \<or> \<not> IS_ACTIVE (tx_status (s_tx s))))
    (thn (mutex_lock n P)
    (thn (set_glob (\<lambda>g. g\<lparr>g_threads_nb := g_threads_nb g - 1\<rparr>))
    (thn (set_glob (\<lambda>g. if g_quiesce g = 0 then g\<lparr>g_quiesce := 1\<rparr> else g))
    (thn (barrier_wait n P f)
    (thn (set_glob (\<lambda>g. g\<lparr>g_threads_nb := g_threads_nb g + 1\<rparr>))
         mutex_unlock)))))"

section \<open>Stopping the other transactions\<close>

primrec wait_inactive :: "nat \<Rightarrow> params \<Rightarrow> w64 \<Rightarrow> unit prog" where
  "wait_inactive 0 P t = stop Diverge"
| "wait_inactive (Suc n) P t =
     bnd (atomic_get P (\<lambda>g. g_status g t))
       (\<lambda>s. if IS_ACTIVE s then wait_inactive n P t else ret ())"

definition quiesce_others :: "nat \<Rightarrow> params \<Rightarrow> w64 \<Rightarrow> w64 list \<Rightarrow> unit prog" where
  "quiesce_others n P me ts =
     each_c (\<lambda>t. if t = me then ret () else wait_inactive n P t) ts"

text \<open>
  \<open>stm_quiesce\<close> returns 1 (here \<open>True\<close>) when an active transaction finds the mutex taken.
\<close>

definition stm_quiesce :: "nat \<Rightarrow> params \<Rightarrow> bool \<Rightarrow> bool prog" where
  "stm_quiesce n P block =
     bnd get_tx (\<lambda>tx.
     bnd (if IS_ACTIVE (tx_status tx)
          then bnd (atomic_get P g_mutex)
                 (\<lambda>m. if m then ret True
                      else thn (set_glob (\<lambda>g. g\<lparr>g_mutex := True\<rparr>)) (ret False))
          else thn (mutex_lock n P) (ret False))
     (\<lambda>busy. if busy then ret True
             else thn (when_c block (atomic_set P (\<lambda>g. g\<lparr>g_quiesce := 2\<rparr>)))
                 (bnd (gets (\<lambda>s. (s_cur s, g_threads (s_glob s))))
                 (\<lambda>(me, ts).
                    thn (quiesce_others n P me ts)
                   (thn (when_c (\<not> block) mutex_unlock)
                        (ret False))))))"

primrec wait_release :: "nat \<Rightarrow> params \<Rightarrow> unit prog" where
  "wait_release 0 P = stop Diverge"
| "wait_release (Suc n) P =
     bnd (atomic_get P g_quiesce) (\<lambda>q. if q = 2 then wait_release n P else ret ())"

definition stm_check_quiesce :: "nat \<Rightarrow> params \<Rightarrow> bool prog" where
  "stm_check_quiesce n P =
     thn (assert_c (\<lambda>s. IS_ACTIVE (tx_status (s_tx s))))
    (bnd (atomic_get P g_quiesce)
    (\<lambda>q. bnd get_tx (\<lambda>tx.
         if q = 2 then
           if tx_irrevocable tx AND 0x08 \<noteq> 0 then ret False
           else thn (set_tx (\<lambda>t. t\<lparr>tx_status := TX_IDLE\<rparr>))
               (thn (wait_release n P)
               (thn (set_tx (\<lambda>t. t\<lparr>tx_status := GET_STATUS (tx_status tx)\<rparr>))
                    (ret True)))
         else ret False)))"

definition stm_quiesce_release :: "params \<Rightarrow> unit prog" where
  "stm_quiesce_release P =
     thn (atomic_set P (\<lambda>g. g\<lparr>g_quiesce := 0\<rparr>)) mutex_unlock"

definition rollover_clock :: "unit prog" where
  "rollover_clock =
     set_glob (\<lambda>g. g\<lparr>g_clock := 0,
                     g_locks := (\<lambda>k. if k < LOCK_ARRAY_SIZE then 0 else g_locks g k)\<rparr>)"

section \<open>Lemmas\<close>

lemma mutex_lock_quiet [exec_simps]:
  assumes "quiet P" "\<not> g_mutex (s_glob s)" "0 < n"
  shows "mutex_lock n P s = (Ret (), upd_glob (\<lambda>g. g\<lparr>g_mutex := True\<rparr>) (tock s))"
  using assms by (cases n) (simp_all add: bnd_def)

lemma unlink_some: "me \<in> set ts \<Longrightarrow> unlink me ts = Some (remove1 me ts)"
  by (induction ts) auto

lemma unlink_none: "me \<notin> set ts \<Longrightarrow> unlink me ts = None"
  by (induction ts) auto

lemma check_quiesce_idle [exec_simps]:
  assumes "quiet P" "g_quiesce (s_glob s) \<noteq> 2" "IS_ACTIVE (tx_status (s_tx s))"
  shows "stm_check_quiesce n P s = (Ret False, tock s)"
  using assms by (simp add: stm_check_quiesce_def thn_def bnd_def)

end
