(* ===== verification/Design.thy ===== *)
theory Design
  imports Quiesce
begin

text \<open>
  What the three designs share below the level of a whole transaction: the searches of the
  read and write sets, their (re)allocation, and for each design the validation of the read
  set, the extension of the snapshot and the release of locks when a transaction is rolled
  back (\<open>src/stm_internal.h\<close>, \<open>src/stm_wbetl.h\<close>, \<open>src/stm_wbctl.h\<close>, \<open>src/stm_wt.h\<close>).
\<close>

section \<open>Read and write sets\<close>

definition stm_has_read :: "stm_tx \<Rightarrow> w64 \<Rightarrow> r_entry option" where
  "stm_has_read tx lock = find (\<lambda>r. re_lock r = lock) (tx_rs tx)"

fun find_index :: "w64 \<Rightarrow> w_entry list \<Rightarrow> nat \<Rightarrow> nat option" where
  "find_index addr [] i = None"
| "find_index addr (w # ws) i = (if we_addr w = addr then Some i else find_index addr ws (Suc i))"

definition stm_has_written :: "stm_tx \<Rightarrow> w64 \<Rightarrow> nat option" where
  "stm_has_written tx addr = find_index addr (tx_ws tx) 0"

definition stm_allocate_rs_entries :: "params \<Rightarrow> bool \<Rightarrow> unit prog" where
  "stm_allocate_rs_entries P ext =
     thn (when_c ext (set_tx (\<lambda>t. t\<lparr>tx_rs_size := tx_rs_size t * 2\<rparr>)))
    (bnd (xmalloc P) (\<lambda>a. set_tx (\<lambda>t. t\<lparr>tx_rs_base := a\<rparr>)))"

definition stm_allocate_ws_entries :: "params \<Rightarrow> bool \<Rightarrow> unit prog" where
  "stm_allocate_ws_entries P ext =
     thn (when_c ext (set_tx (\<lambda>t. t\<lparr>tx_ws_size := tx_ws_size t * 2\<rparr>)))
    (thn (bnd (xmalloc P) (\<lambda>a. set_tx (\<lambda>t. t\<lparr>tx_base := a\<rparr>)))
         (assert_c (\<lambda>s. tx_base (s_tx s) AND OWNED_MASK = 0)))"

text \<open>Appending to the read set, doubling the array first when it is full.\<close>

definition add_to_read_set :: "params \<Rightarrow> w64 \<Rightarrow> w64 \<Rightarrow> unit prog" where
  "add_to_read_set P version lock =
     bnd get_tx (\<lambda>tx.
       thn (when_c (length (tx_rs tx) = tx_rs_size tx) (stm_allocate_rs_entries P True))
           (set_tx (\<lambda>t. t\<lparr>tx_rs := tx_rs t @ [\<lparr>re_version = version, re_lock = lock\<rparr>]\<rparr>)))"

section \<open>Validation\<close>

text \<open>
  One loop per design.  The encounter-time designs accept every lock this transaction owns;
  commit-time locking compares the version it overwrote.
\<close>

fun wbetl_validate_loop :: "params \<Rightarrow> r_entry list \<Rightarrow> bool prog" where
  "wbetl_validate_loop P [] = ret True"
| "wbetl_validate_loop P (r # rs) =
     bnd (load_lock P (re_lock r)) (\<lambda>l. bnd get_tx (\<lambda>tx.
       if LOCK_GET_OWNED l \<noteq> 0 then
         (let w = LOCK_GET_ADDR l in
          if \<not> in_ws tx w then ret False
          else wbetl_validate_loop P rs)
       else if LOCK_GET_TIMESTAMP l \<noteq> re_version r then ret False
       else wbetl_validate_loop P rs))"

definition stm_wbetl_validate :: "params \<Rightarrow> bool prog" where
  "stm_wbetl_validate P = bnd get_tx (\<lambda>tx. wbetl_validate_loop P (tx_rs tx))"

fun wbctl_validate_loop :: "params \<Rightarrow> r_entry list \<Rightarrow> bool prog" where
  "wbctl_validate_loop P [] = ret True"
| "wbctl_validate_loop P (r # rs) =
     bnd (load_lock P (re_lock r)) (\<lambda>l. bnd get_tx (\<lambda>tx.
       if LOCK_GET_OWNED l \<noteq> 0 then
         (let w = LOCK_GET_ADDR l in
          if \<not> in_ws tx w then ret False
          else if we_version (tx_ws tx ! we_index tx w) \<noteq> re_version r then ret False
          else wbctl_validate_loop P rs)
       else if LOCK_GET_TIMESTAMP l \<noteq> re_version r then ret False
       else wbctl_validate_loop P rs))"

definition stm_wbctl_validate :: "params \<Rightarrow> bool prog" where
  "stm_wbctl_validate P = bnd get_tx (\<lambda>tx. wbctl_validate_loop P (tx_rs tx))"

fun wt_validate_loop :: "params \<Rightarrow> r_entry list \<Rightarrow> bool prog" where
  "wt_validate_loop P [] = ret True"
| "wt_validate_loop P (r # rs) =
     bnd (load_lock P (re_lock r)) (\<lambda>l. bnd get_tx (\<lambda>tx.
       if LOCK_GET_OWNED l \<noteq> 0 then
         (let w = LOCK_GET_ADDR l in
          if \<not> in_ws tx w then ret False
          else wt_validate_loop P rs)
       else if LOCK_GET_TIMESTAMP l \<noteq> re_version r then ret False
       else wt_validate_loop P rs))"

definition stm_wt_validate :: "params \<Rightarrow> bool prog" where
  "stm_wt_validate P = bnd get_tx (\<lambda>tx. wt_validate_loop P (tx_rs tx))"

section \<open>Snapshot extension\<close>

definition stm_wbetl_extend :: "params \<Rightarrow> bool prog" where
  "stm_wbetl_extend P =
     bnd (get_clock P) (\<lambda>now.
     bnd (stm_wbetl_validate P) (\<lambda>ok.
       if ok then thn (set_tx (\<lambda>t. t\<lparr>tx_end := now\<rparr>)) (ret True) else ret False))"

definition stm_wbctl_extend :: "params \<Rightarrow> bool prog" where
  "stm_wbctl_extend P =
     bnd (get_clock P) (\<lambda>now.
     bnd (stm_wbctl_validate P) (\<lambda>ok.
       if ok then thn (set_tx (\<lambda>t. t\<lparr>tx_end := now\<rparr>)) (ret True) else ret False))"

definition stm_wt_extend :: "params \<Rightarrow> bool prog" where
  "stm_wt_extend P =
     bnd (get_clock P) (\<lambda>now.
     bnd (stm_wt_validate P) (\<lambda>ok.
       if ok then thn (set_tx (\<lambda>t. t\<lparr>tx_end := now\<rparr>)) (ret True) else ret False))"

section \<open>Releasing locks on rollback\<close>

definition wbetl_drop :: "params \<Rightarrow> w_entry \<Rightarrow> unit prog" where
  "wbetl_drop P w =
     when_c (we_next w = None) (store_lock P (we_lock w) (LOCK_SET_TIMESTAMP (we_version w)))"

definition stm_wbetl_rollback :: "params \<Rightarrow> unit prog" where
  "stm_wbetl_rollback P =
     thn (assert_c (\<lambda>s. IS_ACTIVE (tx_status (s_tx s))))
    (bnd get_tx (\<lambda>tx. each_c (wbetl_drop P) (tx_ws tx)))"

text \<open>
  Commit-time locking walks back from the last entry until every acquired lock is dropped;
  running past the first entry would be undefined.
\<close>

fun wbctl_drop_loop :: "params \<Rightarrow> w_entry list \<Rightarrow> unit prog" where
  "wbctl_drop_loop P [] = stop Undef"
| "wbctl_drop_loop P (w # ws) =
     thn (when_c (\<not> we_no_drop w)
           (thn (set_tx (\<lambda>t. t\<lparr>tx_count := tx_count t - 1\<rparr>))
                (store_lock P (we_lock w) (LOCK_SET_TIMESTAMP (we_version w)))))
    (bnd get_tx (\<lambda>tx. if tx_count tx > 0 then wbctl_drop_loop P ws else ret ()))"

definition stm_wbctl_rollback :: "params \<Rightarrow> unit prog" where
  "stm_wbctl_rollback P =
     thn (assert_c (\<lambda>s. IS_ACTIVE (tx_status (s_tx s))))
    (bnd get_tx (\<lambda>tx.
       when_c (tx_count tx > 0) (wbctl_drop_loop P (rev (tx_ws tx)))))"

text \<open>Write-through undoes the writes in the order of the log; \<open>t\<close> is 0 until fetched.\<close>

fun wt_undo_loop :: "params \<Rightarrow> w64 \<Rightarrow> w_entry list \<Rightarrow> unit prog" where
  "wt_undo_loop P t [] = ret ()"
| "wt_undo_loop P t (w # ws) =
     thn (when_c (we_mask w \<noteq> 0) (store_mem P (we_addr w) (we_value w)))
     (if we_next w \<noteq> None then wt_undo_loop P t ws
      else
        (let j = LOCK_GET_INCARNATION (we_version w) + 1 in
         if j > INCARNATION_MAX then
           bnd (if t = 0 then bnd (fetch_inc_clock P) (\<lambda>c. ret (c + 1)) else ret t)
             (\<lambda>t'. thn (store_lock P (we_lock w) (LOCK_SET_TIMESTAMP t')) (wt_undo_loop P t' ws))
         else
           thn (store_lock P (we_lock w) (LOCK_UPD_INCARNATION (we_version w) j))
               (wt_undo_loop P t ws)))"

definition stm_wt_rollback :: "params \<Rightarrow> unit prog" where
  "stm_wt_rollback P =
     thn (assert_c (\<lambda>s. IS_ACTIVE (tx_status (s_tx s))))
    (bnd get_tx (\<lambda>tx. wt_undo_loop P 0 (tx_ws tx)))"

section \<open>The dispatch on the design\<close>

definition uses_ctl :: "params \<Rightarrow> stm_tx \<Rightarrow> bool" where
  "uses_ctl P tx = (case p_design P of WRITE_BACK_CTL \<Rightarrow> True | MODULAR \<Rightarrow> at_id (tx_attr tx) = 1 | _ \<Rightarrow> False)"

definition uses_wt :: "params \<Rightarrow> stm_tx \<Rightarrow> bool" where
  "uses_wt P tx = (case p_design P of WRITE_THROUGH \<Rightarrow> True | MODULAR \<Rightarrow> at_id (tx_attr tx) = 2 | _ \<Rightarrow> False)"

definition design_rollback :: "params \<Rightarrow> unit prog" where
  "design_rollback P =
     bnd get_tx (\<lambda>tx. if uses_ctl P tx then stm_wbctl_rollback P
                      else if uses_wt P tx then stm_wt_rollback P
                      else stm_wbetl_rollback P)"

section \<open>Lemmas on searching and validating\<close>

lemma find_index_None: "find_index a ws i = None \<longleftrightarrow> a \<notin> we_addr ` set ws"
  by (induction ws arbitrary: i) auto

lemma find_index_Some:
  "find_index a ws i = Some j \<Longrightarrow>
     \<exists>k. j = i + k \<and> k < length ws \<and> we_addr (ws ! k) = a \<and> (\<forall>m < k. we_addr (ws ! m) \<noteq> a)"
proof (induction ws arbitrary: i)
  case (Cons w ws)
  show ?case
  proof (cases "we_addr w = a")
    case True
    with Cons.prems show ?thesis by (intro exI [of _ 0]) simp
  next
    case False
    with Cons.prems have "find_index a ws (Suc i) = Some j" by simp
    from Cons.IH [OF this] obtain k where
      "j = Suc i + k" "k < length ws" "we_addr (ws ! k) = a" "\<forall>m < k. we_addr (ws ! m) \<noteq> a" by blast
    with False show ?thesis
      by (intro exI [of _ "Suc k"]) (simp add: all_less_Suc_split)
  qed
qed simp

lemma has_written_Some:
  "stm_has_written tx a = Some j \<Longrightarrow>
     j < length (tx_ws tx) \<and> we_addr (tx_ws tx ! j) = a \<and> (\<forall>k < j. we_addr (tx_ws tx ! k) \<noteq> a)"
  unfolding stm_has_written_def by (drule find_index_Some) auto

lemma has_read_None: "stm_has_read tx k = None \<longleftrightarrow> (\<forall>r \<in> set (tx_rs tx). re_lock r \<noteq> k)"
  by (auto simp: stm_has_read_def find_None_iff)

text \<open>
  A read set entry is still valid when this transaction holds its lock, or the lock is free
  with the version that was read.  With no interference the loops compute exactly that.
\<close>

definition read_valid :: "stm_tx \<Rightarrow> (w64 \<Rightarrow> w64) \<Rightarrow> r_entry \<Rightarrow> bool" where
  "read_valid tx locks r \<longleftrightarrow>
     (if LOCK_GET_OWNED (locks (re_lock r)) \<noteq> 0 then in_ws tx (LOCK_GET_ADDR (locks (re_lock r)))
      else LOCK_GET_TIMESTAMP (locks (re_lock r)) = re_version r)"

text \<open>Commit-time locking also compares the version it overwrote with the version it read.\<close>

definition ctl_read_valid :: "stm_tx \<Rightarrow> (w64 \<Rightarrow> w64) \<Rightarrow> r_entry \<Rightarrow> bool" where
  "ctl_read_valid tx locks r \<longleftrightarrow>
     (let l = locks (re_lock r) in
      if LOCK_GET_OWNED l \<noteq> 0
      then in_ws tx (LOCK_GET_ADDR l)
         \<and> we_version (tx_ws tx ! we_index tx (LOCK_GET_ADDR l)) = re_version r
      else LOCK_GET_TIMESTAMP l = re_version r)"

lemma wbetl_validate_loop_quiet:
  assumes "quiet P"
  shows "wp (wbetl_validate_loop P rs) s
    (\<lambda>b t. b = (\<forall>r \<in> set rs. read_valid (s_tx s) (g_locks (s_glob s)) r) \<and> ticked s t) never"
proof (induction rs arbitrary: s)
  case Nil
  then show ?case by simp
next
  case (Cons r rs)
  show ?case
    using assms Cons.IH [of "tock s"] by (auto simp: read_valid_def Let_def elim!: wp_mono)
qed

lemma wt_validate_is_wbetl: "wt_validate_loop P rs = wbetl_validate_loop P rs"
proof (induction rs)
  case (Cons r rs)
  then show ?case by (simp only: wt_validate_loop.simps wbetl_validate_loop.simps)
qed simp

lemma wbctl_validate_loop_quiet:
  assumes "quiet P"
  shows "wp (wbctl_validate_loop P rs) s
    (\<lambda>b t. b = (\<forall>r \<in> set rs. ctl_read_valid (s_tx s) (g_locks (s_glob s)) r) \<and> ticked s t) never"
proof (induction rs arbitrary: s)
  case Nil
  then show ?case by simp
next
  case (Cons r rs)
  show ?case
    using assms Cons.IH [of "tock s"] by (auto simp: ctl_read_valid_def Let_def elim!: wp_mono)
qed

lemma wbetl_validate_quiet:
  assumes "quiet P"
  shows "wp (stm_wbetl_validate P) s
    (\<lambda>b t. b = (\<forall>r \<in> set (tx_rs (s_tx s)). read_valid (s_tx s) (g_locks (s_glob s)) r) \<and> ticked s t) never"
  using wbetl_validate_loop_quiet [OF assms] by (simp add: stm_wbetl_validate_def)

lemma wbctl_validate_quiet:
  assumes "quiet P"
  shows "wp (stm_wbctl_validate P) s
    (\<lambda>b t. b = (\<forall>r \<in> set (tx_rs (s_tx s)). ctl_read_valid (s_tx s) (g_locks (s_glob s)) r) \<and> ticked s t) never"
  using wbctl_validate_loop_quiet [OF assms] by (simp add: stm_wbctl_validate_def)

lemma wt_validate_quiet:
  assumes "quiet P"
  shows "wp (stm_wt_validate P) s
    (\<lambda>b t. b = (\<forall>r \<in> set (tx_rs (s_tx s)). read_valid (s_tx s) (g_locks (s_glob s)) r) \<and> ticked s t) never"
  using wbetl_validate_loop_quiet [OF assms] by (simp add: stm_wt_validate_def wt_validate_is_wbetl)

section \<open>Properties\<close>

text \<open>
  What validation decides, in terms of what the lock words say: a read is good while its lock
  is free with the version read, or held by the transaction itself; commit-time locking also
  wants the version its own entry saved.
\<close>

definition reads_good :: "stm_tx \<Rightarrow> (w64 \<Rightarrow> w64) \<Rightarrow> bool" where
  "reads_good tx locks \<longleftrightarrow> (\<forall>r \<in> set (tx_rs tx). case lock_abs (locks (re_lock r)) of
       Owned p \<Rightarrow> in_ws tx p | Free v i \<Rightarrow> v = re_version r)"

definition ctl_reads_good :: "stm_tx \<Rightarrow> (w64 \<Rightarrow> w64) \<Rightarrow> bool" where
  "ctl_reads_good tx locks \<longleftrightarrow> (\<forall>r \<in> set (tx_rs tx). case lock_abs (locks (re_lock r)) of
       Owned p \<Rightarrow> in_ws tx p \<and> we_version (tx_ws tx ! we_index tx p) = re_version r
     | Free v i \<Rightarrow> v = re_version r)"

lemma read_valid_good: "(\<forall>r \<in> set (tx_rs tx). read_valid tx locks r) = reads_good tx locks"
  by (simp add: reads_good_def read_valid_def lock_abs_def)

lemma ctl_read_valid_good: "(\<forall>r \<in> set (tx_rs tx). ctl_read_valid tx locks r) = ctl_reads_good tx locks"
  by (simp add: ctl_reads_good_def ctl_read_valid_def lock_abs_def Let_def)

lemma extend_from_validate:
  assumes "quiet P" and val: "\<And>u. wp v u (\<lambda>b t. b = good u \<and> ticked u t) never"
    and same: "good (tock s) = good s"
  shows "wp (bnd (get_clock P) (\<lambda>now. bnd v (\<lambda>ok.
      if ok then thn (set_tx (\<lambda>t. t\<lparr>tx_end := now\<rparr>)) (ret True) else ret False))) s
    (\<lambda>b t. b = good s \<and> s_glob t = s_glob s
       \<and> s_tx t = (if good s then (s_tx s)\<lparr>tx_end := g_clock (s_glob s)\<rparr> else s_tx s)) never"
  using assms(1) same by (auto simp: ticked_def intro!: wp_mono [OF val])

text \<open>C15: Extending a snapshot succeeds exactly when every read is still good, in each of the three
  designs; it then moves the end of the snapshot to the clock, and otherwise changes nothing.\<close>

theorem extension_decides:
  assumes "quiet P"
  shows "(\<exists>t. stm_wbetl_extend P s = (Ret (reads_good (s_tx s) (g_locks (s_glob s))), t) \<and> s_glob t = s_glob s
      \<and> s_tx t = (if reads_good (s_tx s) (g_locks (s_glob s))
                  then (s_tx s)\<lparr>tx_end := g_clock (s_glob s)\<rparr> else s_tx s))
    \<and> (\<exists>t. stm_wt_extend P s = (Ret (reads_good (s_tx s) (g_locks (s_glob s))), t) \<and> s_glob t = s_glob s
      \<and> s_tx t = (if reads_good (s_tx s) (g_locks (s_glob s))
                  then (s_tx s)\<lparr>tx_end := g_clock (s_glob s)\<rparr> else s_tx s))
    \<and> (\<exists>t. stm_wbctl_extend P s = (Ret (ctl_reads_good (s_tx s) (g_locks (s_glob s))), t) \<and> s_glob t = s_glob s
      \<and> s_tx t = (if ctl_reads_good (s_tx s) (g_locks (s_glob s))
                  then (s_tx s)\<lparr>tx_end := g_clock (s_glob s)\<rparr> else s_tx s))"
  using extend_from_validate [OF assms wbetl_validate_quiet [OF assms], of s]
    extend_from_validate [OF assms wt_validate_quiet [OF assms], of s]
    extend_from_validate [OF assms wbctl_validate_quiet [OF assms], of s]
  by (simp add: wp_never read_valid_good ctl_read_valid_good stm_wbetl_extend_def stm_wt_extend_def
      stm_wbctl_extend_def)

theorem extension_decides_witness:
  "\<exists>t. stm_wbetl_extend (sample_params WRITE_BACK_ETL) (upd_tx (\<lambda>t. t\<lparr>tx_rs := [\<lparr>re_version = 3, re_lock = 2\<rparr>]\<rparr>) sample_run)
     = (Ret False, t) \<and> tx_end (s_tx t) = 5"
  using extension_decides [OF sample_quiet [of WRITE_BACK_ETL],
      of "upd_tx (\<lambda>t. t\<lparr>tx_rs := [\<lparr>re_version = 3, re_lock = 2\<rparr>]\<rparr>) sample_run"]
  by (simp add: reads_good_def sample_defs lock_abs_def lock_defs) auto

end
