(* ===== verification/Rollback.thy ===== *)
theory Rollback
  imports Design
begin

text \<open>
  Aborting and (re)starting a transaction: \<open>stm_rollback\<close>, \<open>int_stm_prepare\<close>
  (\<open>src/stm_internal.h\<close>) and \<open>int_stm_set_irrevocable\<close> (\<open>src/stm.c\<close>).

  The three functions call one another: a rollback prepares the next attempt, which makes
  the attempt irrevocable when that was requested, which may itself roll back.  Each body
  takes its callee as an argument, and \<open>stm_rollback\<close> ties the knot with fuel; the same
  fuel bounds the busy-waiting loops.
\<close>

section \<open>Irrevocability\<close>

definition try_irrevocable :: "params \<Rightarrow> bool prog" where
  "try_irrevocable P =
     bnd (atomic_get P g_irrevocable) (\<lambda>v. if v = 1 then ret False else cas_irrevocable P 0 1)"

primrec acquire_irrevocable :: "nat \<Rightarrow> params \<Rightarrow> unit prog" where
  "acquire_irrevocable 0 P = stop Diverge"
| "acquire_irrevocable (Suc n) P =
     bnd (try_irrevocable P) (\<lambda>ok. if ok then ret () else acquire_irrevocable n P)"

definition inc_irrevocable :: "unit prog" where
  "inc_irrevocable = set_tx (\<lambda>t. t\<lparr>tx_irrevocable := tx_irrevocable t + 1\<rparr>)"

definition irrevocable_request :: "int \<Rightarrow> 4 word" where
  "irrevocable_request serial = 1 + (if serial \<noteq> 0 then 0x08 else 0)"

text \<open>
  Whether the validation at the switch to irrevocable mode makes the transaction abort.
  Under \<open>MODULAR\<close> the source tests the validation without negating it.
\<close>

definition irrevocable_must_abort :: "params \<Rightarrow> bool prog" where
  "irrevocable_must_abort P = (case p_design P of
       WRITE_BACK_ETL \<Rightarrow> bnd (stm_wbetl_validate P) (\<lambda>ok. ret (\<not> ok))
     | WRITE_BACK_CTL \<Rightarrow> bnd (stm_wbctl_validate P) (\<lambda>ok. ret (\<not> ok))
     | WRITE_THROUGH \<Rightarrow> bnd (stm_wt_validate P) (\<lambda>ok. ret (\<not> ok))
     | MODULAR \<Rightarrow> bnd get_tx (\<lambda>tx.
         if at_id (tx_attr tx) = 1 then stm_wbctl_validate P
         else if at_id (tx_attr tx) = 2 then stm_wt_validate P
         else stm_wbetl_validate P))"

definition irrevocable_finish :: "nat \<Rightarrow> params \<Rightarrow> (w64 \<Rightarrow> unit prog) \<Rightarrow> int \<Rightarrow> bool prog" where
  "irrevocable_finish n P rb serial =
     thn (assert_c (\<lambda>s. tx_irrevocable (s_tx s) AND 0x07 = 2))
    (bnd get_tx (\<lambda>tx.
     bnd (if tx_irrevocable tx AND 0x08 \<noteq> 0 then stm_quiesce n P True else ret False)
    (\<lambda>failed. if failed
       then thn (assert_c (\<lambda>_. serial \<noteq> -1)) (thn (rb STM_ABORT_IRREVOCABLE) (ret False))
       else thn inc_irrevocable (ret True))))"

definition int_stm_set_irrevocable_body ::
    "nat \<Rightarrow> params \<Rightarrow> (w64 \<Rightarrow> unit prog) \<Rightarrow> int \<Rightarrow> bool prog" where
  "int_stm_set_irrevocable_body n P rb serial =
     bnd get_tx (\<lambda>tx.
       if \<not> IS_ACTIVE (tx_status tx) \<and> serial \<noteq> -1 then
         thn (set_tx (\<lambda>t. t\<lparr>tx_irrevocable := irrevocable_request serial\<rparr>)) (ret False)
       else if tx_irrevocable tx AND 0x07 = 3 then ret True
       else if tx_irrevocable tx = 0 then
         thn (set_tx (\<lambda>t. t\<lparr>tx_irrevocable := irrevocable_request serial\<rparr>))
        (bnd (try_irrevocable P) (\<lambda>got.
           if \<not> got then thn (rb STM_ABORT_IRREVOCABLE) (ret False)
           else thn inc_irrevocable
               (bnd (irrevocable_must_abort P) (\<lambda>bad.
                  if bad then thn (rb STM_ABORT_VALIDATE) (ret False)
                  else if serial \<noteq> 0 \<and> tx_ws tx \<noteq> [] then
                    thn (rb STM_ABORT_IRREVOCABLE) (ret False)
                  else irrevocable_finish n P rb serial))))
       else if tx_irrevocable tx AND 0x07 = 1 then
         thn (acquire_irrevocable n P) (thn inc_irrevocable (irrevocable_finish n P rb serial))
       else irrevocable_finish n P rb serial)"

section \<open>Preparing an attempt\<close>

primrec prepare_clock :: "nat \<Rightarrow> params \<Rightarrow> unit prog" where
  "prepare_clock 0 P = stop Diverge"
| "prepare_clock (Suc n) P =
     bnd (get_clock P) (\<lambda>c.
       thn (set_tx (\<lambda>t. t\<lparr>tx_start := c, tx_end := c\<rparr>))
      (if c \<ge> VERSION_MAX
       then thn (stm_quiesce_barrier n P False rollover_clock) (prepare_clock n P)
       else ret ()))"

definition int_stm_prepare_body :: "nat \<Rightarrow> params \<Rightarrow> (int \<Rightarrow> bool prog) \<Rightarrow> unit prog" where
  "int_stm_prepare_body n P set_irr =
     thn (set_tx (\<lambda>t. t\<lparr>tx_count := 0, tx_ws := [], tx_rs := []\<rparr>))
    (thn (prepare_clock n P)
    (thn (bnd get_tx (\<lambda>tx.
            if tx_irrevocable tx \<noteq> 0 then
              thn (assert_c (\<lambda>s. \<not> IS_ACTIVE (tx_status (s_tx s))))
             (bnd (set_irr (-1)) (\<lambda>_. set_tx (\<lambda>t. t\<lparr>tx_status := TX_IRREVOCABLE\<rparr>)))
            else set_tx (\<lambda>t. t\<lparr>tx_status := TX_ACTIVE\<rparr>)))
    (bnd (stm_check_quiesce n P) (\<lambda>_. ret ()))))"

section \<open>Rollback\<close>

text \<open>The statistics of an abort (\<open>TM_STATISTICS\<close> and \<open>TM_STATISTICS2\<close>).\<close>

definition abort_stats :: "w64 \<Rightarrow> stm_tx \<Rightarrow> stm_tx" where
  "abort_stats reason t0 =
    (let t1 = t0\<lparr>tx_stat_retries := tx_stat_retries t0 + 1\<rparr>;
         t2 = t1\<lparr>tx_stat_aborts := tx_stat_aborts t1 + 1\<rparr>;
         t3 = (if tx_stat_retries_max t2 < tx_stat_retries t2
               then t2\<lparr>tx_stat_retries_max := tx_stat_retries t2\<rparr> else t2);
         i = unat (drop_bit 8 reason AND 0x0F);
         t4 = t3\<lparr>tx_stat_aborts_r := (tx_stat_aborts_r t3)[i := tx_stat_aborts_r t3 ! i + 1]\<rparr>
     in if tx_stat_retries t4 = 1 then t4\<lparr>tx_stat_aborts_1 := tx_stat_aborts_1 t4 + 1\<rparr>
        else if tx_stat_retries t4 = 2 then t4\<lparr>tx_stat_aborts_2 := tx_stat_aborts_2 t4 + 1\<rparr>
        else t4)"

text \<open>
  The back-off loop reads this thread's slot of \<open>delay_time\<close> and counts a \<open>volatile int\<close> up
  to it: reading past the array and counting past \<open>INT_MAX\<close> are undefined.
\<close>

definition backoff_wait :: "params \<Rightarrow> unit prog" where
  "backoff_wait P =
     bnd get_tx (\<lambda>tx.
     bnd (atomic_get P g_delay_time) (\<lambda>d.
       if unat (tx_thread_idx tx) \<ge> length d then stop Undef
       else if unat (d ! unat (tx_thread_idx tx)) \<ge> 2 ^ 31 then stop Undef
       else ret ()))"

definition run_cbs :: "params \<Rightarrow> (glob \<Rightarrow> cb_entry list) \<Rightarrow> unit prog" where
  "run_cbs P f = bnd (gets (\<lambda>s. f (s_glob s))) (\<lambda>cs. each_c (run_cb P) cs)"

definition no_more_retry :: "w64 \<Rightarrow> stm_tx \<Rightarrow> bool" where
  "no_more_retry reason tx \<longleftrightarrow>
     at_no_retry (tx_attr tx) \<or> reason AND STM_ABORT_NO_RETRY = STM_ABORT_NO_RETRY"

definition stm_rollback_body :: "params \<Rightarrow> unit prog \<Rightarrow> w64 \<Rightarrow> unit prog" where
  "stm_rollback_body P prepare reason =
     thn (assert_c (\<lambda>s. IS_ACTIVE (tx_status (s_tx s))))
    (thn (assert_c (\<lambda>s. tx_irrevocable (s_tx s) AND 0x07 \<noteq> 3))
    (thn (design_rollback P)
    (thn (set_tx (abort_stats reason))
    (thn (set_tx (\<lambda>t. t\<lparr>tx_status := TX_ABORTED\<rparr>))
    (thn (when_c (reason = STM_ABORT_EXTEND_WS) (stm_allocate_ws_entries P True))
    (thn (set_tx (\<lambda>t. t\<lparr>tx_nesting := 1\<rparr>))
    (thn (run_cbs P g_abort_cb)
    (thn (backoff_wait P)
    (bnd get_tx (\<lambda>tx.
       if no_more_retry reason tx
       then set_tx (\<lambda>t. t\<lparr>tx_nesting := 0\<rparr>)
       else thn prepare
           (bnd get_tx (\<lambda>tx.
              stop (Jump (reason OR (if tx_irrevocable tx = 0x0B
                                     then STM_PATH_UNINSTRUMENTED else STM_PATH_INSTRUMENTED)))))))))))))))"

primrec stm_rollback :: "nat \<Rightarrow> params \<Rightarrow> w64 \<Rightarrow> unit prog" where
  "stm_rollback 0 P reason = stop Diverge"
| "stm_rollback (Suc n) P reason =
     stm_rollback_body P
       (int_stm_prepare_body (Suc n) P
         (int_stm_set_irrevocable_body (Suc n) P (stm_rollback n P))) reason"

declare stm_rollback.simps [simp del]

definition int_stm_set_irrevocable :: "nat \<Rightarrow> params \<Rightarrow> int \<Rightarrow> bool prog" where
  "int_stm_set_irrevocable n P serial =
     int_stm_set_irrevocable_body n P (stm_rollback n P) serial"

definition int_stm_prepare :: "nat \<Rightarrow> params \<Rightarrow> unit prog" where
  "int_stm_prepare n P = int_stm_prepare_body n P (int_stm_set_irrevocable n P)"

end
