(* ===== verification/Wset.thy ===== *)
theory Wset
  imports Rollback
begin

text \<open>
  The write set as the lock words see it.  With encounter-time locking a lock word points to
  the first entry its lock covers, and the entries one lock covers are chained through
  \<open>next\<close> in the order of the array.  The walk along the chain is the pure function \<open>chase\<close>;
  \<open>ws_wf\<close> and \<open>locks_wf\<close> are the invariant that makes the walk end and find the right entry.
  \<open>rely\<close> is what a transaction may assume of the other threads: they leave alone the locks
  that point into its write set and the memory those locks cover.
\<close>

section \<open>Walking a chain\<close>

text \<open>
  \<open>Some (i, True)\<close>: entry \<open>i\<close> holds the address; \<open>Some (i, False)\<close>: the address is not in the chain,
  whose last entry is \<open>i\<close>.
\<close>

primrec chase :: "nat \<Rightarrow> w_entry list \<Rightarrow> w64 \<Rightarrow> nat \<Rightarrow> (nat \<times> bool) option" where
  "chase 0 ws a i = None"
| "chase (Suc n) ws a i =
     (if we_addr (ws ! i) = a then Some (i, True)
      else case we_next (ws ! i) of None \<Rightarrow> Some (i, False) | Some j \<Rightarrow> chase n ws a j)"

text \<open>The first entry from index \<open>m\<close> on that lock \<open>k\<close> covers.\<close>

definition covered_from :: "w_entry list \<Rightarrow> w64 \<Rightarrow> nat \<Rightarrow> nat option" where
  "covered_from ws k m = find (\<lambda>j. we_lock (ws ! j) = k) [m..<length ws]"

definition chained :: "w_entry list \<Rightarrow> bool" where
  "chained ws \<longleftrightarrow> (\<forall>i < length ws. we_next (ws ! i) = covered_from ws (we_lock (ws ! i)) (Suc i))"

definition ws_wf :: "w_entry list \<Rightarrow> bool" where
  "ws_wf ws \<longleftrightarrow> chained ws
     \<and> (\<forall>i < length ws. we_lock (ws ! i) = GET_LOCK (we_addr (ws ! i)))
     \<and> (\<forall>i < length ws. \<forall>j < length ws. we_lock (ws ! i) = we_lock (ws ! j) \<longrightarrow>
          we_version (ws ! i) = we_version (ws ! j))"

lemma ws_wf_next: "ws_wf ws \<Longrightarrow> i < length ws \<Longrightarrow>
    we_next (ws ! i) = covered_from ws (we_lock (ws ! i)) (Suc i)"
  unfolding ws_wf_def chained_def by blast

lemma ws_wf_chained: "ws_wf ws \<Longrightarrow> chained ws"
  unfolding ws_wf_def by blast

lemma ws_wf_lock: "ws_wf ws \<Longrightarrow> i < length ws \<Longrightarrow> we_lock (ws ! i) = GET_LOCK (we_addr (ws ! i))"
  unfolding ws_wf_def by blast

lemma ws_wf_version: "ws_wf ws \<Longrightarrow> i < length ws \<Longrightarrow> j < length ws \<Longrightarrow>
    we_lock (ws ! i) = we_lock (ws ! j) \<Longrightarrow> we_version (ws ! i) = we_version (ws ! j)"
  unfolding ws_wf_def by blast

lemma ws_wfI:
  assumes "\<And>i. i < length ws \<Longrightarrow> we_next (ws ! i) = covered_from ws (we_lock (ws ! i)) (Suc i)"
    "\<And>i. i < length ws \<Longrightarrow> we_lock (ws ! i) = GET_LOCK (we_addr (ws ! i))"
    "\<And>i j. i < length ws \<Longrightarrow> j < length ws \<Longrightarrow> we_lock (ws ! i) = we_lock (ws ! j) \<Longrightarrow>
       we_version (ws ! i) = we_version (ws ! j)"
  shows "ws_wf ws"
  unfolding ws_wf_def chained_def using assms by blast

lemma covered_from_Some:
  "covered_from ws k m = Some j \<longleftrightarrow>
     m \<le> j \<and> j < length ws \<and> we_lock (ws ! j) = k \<and> (\<forall>i. m \<le> i \<and> i < j \<longrightarrow> we_lock (ws ! i) \<noteq> k)"
proof -
  have "covered_from ws k m = Some j \<longleftrightarrow>
    (\<exists>i < length [m..<length ws]. we_lock (ws ! ([m..<length ws] ! i)) = k
       \<and> j = [m..<length ws] ! i \<and> (\<forall>l < i. we_lock (ws ! ([m..<length ws] ! l)) \<noteq> k))"
    by (simp only: covered_from_def find_Some_iff)
  also have "\<dots> \<longleftrightarrow> (\<exists>i < length ws - m. we_lock (ws ! (m + i)) = k
       \<and> j = m + i \<and> (\<forall>l < i. we_lock (ws ! (m + l)) \<noteq> k))"
    by auto
  also have "\<dots> \<longleftrightarrow> m \<le> j \<and> j < length ws \<and> we_lock (ws ! j) = k
       \<and> (\<forall>i. m \<le> i \<and> i < j \<longrightarrow> we_lock (ws ! i) \<noteq> k)" (is "?l \<longleftrightarrow> ?r")
  proof
    show ?r if ?l
      using that by (auto simp: le_iff_add)
    assume r: ?r
    then show ?l by (intro exI [of _ "j - m"]) auto
  qed
  finally show ?thesis .
qed

lemma covered_from_None:
  "covered_from ws k m = None \<longleftrightarrow> (\<forall>i. m \<le> i \<and> i < length ws \<longrightarrow> we_lock (ws ! i) \<noteq> k)"
  by (auto simp: covered_from_def find_None_iff)

lemma covered_from_append:
  assumes "m \<le> length ws"
  shows "covered_from (ws @ [e]) k m =
    (case covered_from ws k m of Some j \<Rightarrow> Some j
     | None \<Rightarrow> if we_lock e = k then Some (length ws) else None)"
proof (cases "covered_from ws k m")
  case None
  then have no: "we_lock (ws ! i) \<noteq> k" if "m \<le> i" "i < length ws" for i
    using that by (simp add: covered_from_None)
  show ?thesis
  proof (cases "we_lock e = k")
    case True
    then have "covered_from (ws @ [e]) k m = Some (length ws)"
      unfolding covered_from_Some using no assms by (auto simp: nth_append)
    with None True show ?thesis by simp
  next
    case False
    then have "covered_from (ws @ [e]) k m = None"
      unfolding covered_from_None using no by (auto simp: nth_append)
    with None False show ?thesis by simp
  qed
next
  case (Some j)
  then have "covered_from (ws @ [e]) k m = Some j"
    unfolding covered_from_Some by (auto simp: nth_append)
  with Some show ?thesis by simp
qed

lemma covered_from_update:
  "we_lock e = we_lock (ws ! i) \<Longrightarrow> covered_from (ws[i := e]) k m = covered_from ws k m"
proof -
  assume e: "we_lock e = we_lock (ws ! i)"
  have "we_lock (ws[i := e] ! j) = we_lock (ws ! j)" for j
    using e by (cases "i < length ws") (auto simp: nth_list_update list_update_beyond not_less)
  then show ?thesis by (simp add: covered_from_def)
qed

section \<open>The walk ends and finds the address\<close>

text \<open>
  From an entry of lock \<open>k\<close>, the walk visits every later entry of \<open>k\<close>: it finds the
  address when one of them holds it, and otherwise stops at the last one.
\<close>

definition chase_result :: "w_entry list \<Rightarrow> w64 \<Rightarrow> nat \<Rightarrow> nat \<times> bool \<Rightarrow> bool" where
  "chase_result ws a i r \<longleftrightarrow>
     (let k = we_lock (ws ! i); j = fst r in
      i \<le> j \<and> j < length ws \<and> we_lock (ws ! j) = k \<and>
      (if snd r then we_addr (ws ! j) = a
       else we_next (ws ! j) = None \<and>
         (\<forall>m. i \<le> m \<and> m < length ws \<and> we_lock (ws ! m) = k \<longrightarrow> we_addr (ws ! m) \<noteq> a \<and> m \<le> j)))"

lemma chase_ends:
  assumes "chained ws" "i < length ws" "length ws - i \<le> n"
  shows "\<exists>r. chase n ws a i = Some r \<and> chase_result ws a i r"
  using assms(2,3)
proof (induction n arbitrary: i)
  case 0
  then show ?case by simp
next
  case (Suc n)
  have nx: "we_next (ws ! i) = covered_from ws (we_lock (ws ! i)) (Suc i)"
    using assms(1) Suc.prems(1) by (simp add: chained_def)
  show ?case
  proof (cases "we_addr (ws ! i) = a")
    case True
    then show ?thesis using Suc.prems by (simp add: chase_result_def)
  next
    case ne: False
    show ?thesis
    proof (cases "we_next (ws ! i)")
      case None
      with nx have "\<forall>m. Suc i \<le> m \<and> m < length ws \<longrightarrow> we_lock (ws ! m) \<noteq> we_lock (ws ! i)"
        by (metis covered_from_None)
      then have "\<forall>m. i \<le> m \<and> m < length ws \<and> we_lock (ws ! m) = we_lock (ws ! i) \<longrightarrow> m = i"
        by (metis Suc_leI le_neq_implies_less)
      then show ?thesis using None ne Suc.prems(1) by (auto simp: chase_result_def)
    next
      case (Some j)
      then have "covered_from ws (we_lock (ws ! i)) (Suc i) = Some j" using nx by simp
      then have j: "Suc i \<le> j" "j < length ws" "we_lock (ws ! j) = we_lock (ws ! i)"
        and gap: "\<And>m. Suc i \<le> m \<Longrightarrow> m < j \<Longrightarrow> we_lock (ws ! m) \<noteq> we_lock (ws ! i)"
        by (simp_all add: covered_from_Some)
      then have "length ws - j \<le> n" using Suc.prems by linarith
      with j(2) obtain r where r: "chase n ws a j = Some r" "chase_result ws a j r"
        using Suc.IH by blast
      have "chase (Suc n) ws a i = Some r" using ne Some r(1) by simp
      have "m = i \<or> j \<le> m" if "i \<le> m" "we_lock (ws ! m) = we_lock (ws ! i)" for m
        using gap [of m] that by (metis Suc_leI le_neq_implies_less not_le)
      then have "m = i \<or> j \<le> m" if "i \<le> m" "we_lock (ws ! m) = we_lock (ws ! j)" for m
        using that j(3) by simp
      moreover have "j \<le> fst r" using r(2) by (simp add: chase_result_def Let_def)
      ultimately have cover: "m = i \<and> i \<le> fst r \<or> j \<le> m"
        if "i \<le> m" "we_lock (ws ! m) = we_lock (ws ! j)" for m
        using that j(1) by fastforce
      have "chase_result ws a i r"
      proof (cases "snd r")
        case True
        then show ?thesis using r(2) j by (simp add: chase_result_def Let_def)
      next
        case False
        have "we_addr (ws ! m) \<noteq> a \<and> m \<le> fst r"
          if m: "i \<le> m" "m < length ws" "we_lock (ws ! m) = we_lock (ws ! j)" for m
          using cover [OF m(1,3)] m(2,3) ne r(2) False by (auto simp: chase_result_def Let_def)
        then show ?thesis using r(2) j False by (simp add: chase_result_def Let_def)
      qed
      with \<open>chase (Suc n) ws a i = Some r\<close> show ?thesis by blast
    qed
  qed
qed

section \<open>Adding an entry\<close>

text \<open>Appending an entry and linking it behind entry \<open>prev\<close>, as both encounter-time designs do.\<close>

definition link_entry :: "nat option \<Rightarrow> w_entry \<Rightarrow> w_entry list \<Rightarrow> w_entry list" where
  "link_entry prev e ws =
     (case prev of None \<Rightarrow> ws | Some p \<Rightarrow> ws[p := (ws ! p)\<lparr>we_next := Some (length ws)\<rparr>]) @ [e]"

lemma link_entry_length [simp]: "length (link_entry prev e ws) = Suc (length ws)"
  by (simp add: link_entry_def split: option.splits)

lemma link_entry_last [simp]: "link_entry prev e ws ! length ws = e"
  by (simp add: link_entry_def nth_append split: option.splits)

lemma link_entry_fields:
  assumes "i < length ws"
  shows "we_lock (link_entry prev e ws ! i) = we_lock (ws ! i)"
    "we_addr (link_entry prev e ws ! i) = we_addr (ws ! i)"
    "we_version (link_entry prev e ws ! i) = we_version (ws ! i)"
    "we_value (link_entry prev e ws ! i) = we_value (ws ! i)"
    "we_mask (link_entry prev e ws ! i) = we_mask (ws ! i)"
    "we_next (link_entry prev e ws ! i) = (if prev = Some i then Some (length ws) else we_next (ws ! i))"
  using assms by (cases prev; cases "prev = Some i"; auto simp: link_entry_def nth_append nth_list_update)+

lemma covered_from_link:
  assumes "m \<le> length ws"
  shows "covered_from (link_entry prev e ws) k m =
    (case covered_from ws k m of Some j \<Rightarrow> Some j
     | None \<Rightarrow> if we_lock e = k then Some (length ws) else None)"
proof (cases prev)
  case None
  then show ?thesis using assms by (simp add: link_entry_def covered_from_append)
next
  case (Some p)
  have "covered_from (ws[p := (ws ! p)\<lparr>we_next := Some (length ws)\<rparr>]) k m = covered_from ws k m"
    by (rule covered_from_update) simp
  then show ?thesis using assms Some by (simp add: link_entry_def covered_from_append cong: option.case_cong)
qed

text \<open>
  \<open>prev\<close> is the last entry the lock covers, or there is none.
\<close>

definition last_covered :: "w_entry list \<Rightarrow> w64 \<Rightarrow> nat option \<Rightarrow> bool" where
  "last_covered ws k prev \<longleftrightarrow>
     (case prev of None \<Rightarrow> covered_from ws k 0 = None
      | Some p \<Rightarrow> p < length ws \<and> we_lock (ws ! p) = k \<and> covered_from ws k (Suc p) = None)"

lemma ws_wf_link:
  assumes wf: "ws_wf ws" and lc: "last_covered ws (we_lock e) prev"
    and e: "we_next e = None" "we_lock e = GET_LOCK (we_addr e)"
    and v: "\<And>p. prev = Some p \<Longrightarrow> we_version e = we_version (ws ! p)"
  shows "ws_wf (link_entry prev e ws)"
proof -
  let ?ws = "link_entry prev e ws" and ?n = "length ws"
  have only: "\<exists>p. prev = Some p" if "i < ?n" "we_lock (ws ! i) = we_lock e" for i
    using lc that by (auto simp: last_covered_def covered_from_None split: option.splits)
  have ver: "we_version (ws ! i) = we_version e" if i: "i < ?n" and l: "we_lock (ws ! i) = we_lock e" for i
  proof -
    obtain p where p: "prev = Some p" using only i l by blast
    then have "p < ?n" "we_lock (ws ! p) = we_lock e" using lc by (auto simp: last_covered_def)
    then show ?thesis using ws_wf_version [OF wf i] l v [OF p] by metis
  qed
  have nxt: "we_next (?ws ! i) = covered_from ?ws (we_lock (?ws ! i)) (Suc i)" if i: "i < ?n" for i
  proof (cases "prev = Some i")
    case True
    then show ?thesis using lc i by (simp add: link_entry_fields covered_from_link last_covered_def)
  next
    case False
    have old: "we_next (ws ! i) = covered_from ws (we_lock (ws ! i)) (Suc i)"
      using wf i by (rule ws_wf_next)
    have "covered_from ws (we_lock (ws ! i)) (Suc i) \<noteq> None" if l: "we_lock (ws ! i) = we_lock e"
    proof -
      obtain p where p: "prev = Some p" using only i l by blast
      then have "p < ?n" "we_lock (ws ! p) = we_lock e" "covered_from ws (we_lock e) (Suc p) = None"
        using lc by (auto simp: last_covered_def)
      moreover have "p \<noteq> i" using False p by simp
      ultimately have "Suc i \<le> p"
        using i l unfolding covered_from_None by (metis Suc_leI nat_neq_iff)
      then show ?thesis
        using \<open>p < ?n\<close> \<open>we_lock (ws ! p) = we_lock e\<close> l by (auto simp: covered_from_None)
    qed
    then show ?thesis
      using False old i by (auto simp: link_entry_fields covered_from_link split: option.splits)
  qed
  have last: "covered_from ?ws k (Suc ?n) = None" for k
    by (auto simp: covered_from_None)
  show ?thesis
  proof (rule ws_wfI)
    fix i assume "i < length ?ws"
    then show "we_next (?ws ! i) = covered_from ?ws (we_lock (?ws ! i)) (Suc i)"
      using nxt [of i] last e(1) by (cases "i = ?n") simp_all
  next
    fix i assume "i < length ?ws"
    then show "we_lock (?ws ! i) = GET_LOCK (we_addr (?ws ! i))"
      using ws_wf_lock [OF wf, of i] e(2) by (cases "i = ?n") (simp_all add: link_entry_fields)
  next
    fix i j assume "i < length ?ws" "j < length ?ws" "we_lock (?ws ! i) = we_lock (?ws ! j)"
    then show "we_version (?ws ! i) = we_version (?ws ! j)"
      using ver [of i] ver [of j] ws_wf_version [OF wf, of i j]
      by (cases "i = ?n"; cases "j = ?n") (simp_all add: link_entry_fields)
  qed
qed

lemma ws_wf_update:
  assumes "ws_wf ws" "i < length ws"
    "we_addr e = we_addr (ws ! i)" "we_lock e = we_lock (ws ! i)"
    "we_version e = we_version (ws ! i)" "we_next e = we_next (ws ! i)"
  shows "ws_wf (ws[i := e])"
proof -
  have f: "we_addr (ws[i := e] ! j) = we_addr (ws ! j)" "we_lock (ws[i := e] ! j) = we_lock (ws ! j)"
    "we_version (ws[i := e] ! j) = we_version (ws ! j)" "we_next (ws[i := e] ! j) = we_next (ws ! j)" for j
    using assms(2-) by (cases "j = i"; simp)+
  show ?thesis
    by (rule ws_wfI; simp only: f length_list_update covered_from_update [OF assms(4)])
      (use assms(1) in \<open>blast intro: ws_wf_next ws_wf_lock ws_wf_version\<close>)+
qed

lemma ws_wf_Nil [simp]: "ws_wf []"
  by (simp add: ws_wf_def chained_def)

section \<open>Locks held and values seen\<close>

text \<open>A lock word that points into the array of this descriptor.\<close>

definition mine :: "stm_tx \<Rightarrow> w64 \<Rightarrow> bool" where
  "mine tx l \<longleftrightarrow> LOCK_GET_OWNED l \<noteq> 0 \<and> tx_base tx \<le> LOCK_GET_ADDR l
     \<and> LOCK_GET_ADDR l < we_ptr tx (tx_ws_size tx)"

definition locks_wf :: "stm_tx \<Rightarrow> (w64 \<Rightarrow> w64) \<Rightarrow> bool" where
  "locks_wf tx locks \<longleftrightarrow>
     (\<forall>k. case covered_from (tx_ws tx) k 0 of
            Some i \<Rightarrow> locks k = own_word tx i | None \<Rightarrow> \<not> mine tx (locks k))"

definition covered :: "stm_tx \<Rightarrow> w64 \<Rightarrow> bool" where
  "covered tx k \<longleftrightarrow> covered_from (tx_ws tx) k 0 \<noteq> None"

text \<open>What the transaction sees at an address: its own pending value, or memory.\<close>

definition wview :: "stm_tx \<Rightarrow> (w64 \<Rightarrow> w64) \<Rightarrow> w64 \<Rightarrow> w64" where
  "wview tx mem a = (case stm_has_written tx a of
       Some i \<Rightarrow> if we_mask (tx_ws tx ! i) = 0 then mem a else we_value (tx_ws tx ! i)
     | None \<Rightarrow> mem a)"

text \<open>The invariant of an attempt under encounter-time locking.\<close>

definition etl_inv :: "stm_tx \<Rightarrow> (w64 \<Rightarrow> w64) \<Rightarrow> bool" where
  "etl_inv tx locks \<longleftrightarrow> ws_placed tx \<and> ws_wf (tx_ws tx) \<and> distinct (map we_addr (tx_ws tx))
     \<and> locks_wf tx locks"

text \<open>Other threads do not touch what this transaction has locked, nor forge its lock words.\<close>

definition rely :: "params \<Rightarrow> stm_tx \<Rightarrow> bool" where
  "rely P tx \<longleftrightarrow> (\<forall>n g k.
     (mine tx (g_locks g k) \<longrightarrow> g_locks (env P n g) k = g_locks g k
        \<and> (\<forall>a. GET_LOCK a = k \<longrightarrow> g_mem (env P n g) a = g_mem g a))
     \<and> (\<not> mine tx (g_locks g k) \<longrightarrow> \<not> mine tx (g_locks (env P n g) k)))"

lemma quiet_rely: "quiet P \<Longrightarrow> rely P tx"
  by (simp add: rely_def)

lemma rely_cong: "tx_base tx = tx_base tx' \<Longrightarrow> tx_ws_size tx = tx_ws_size tx' \<Longrightarrow> rely P tx = rely P tx'"
  by (simp add: rely_def mine_def we_ptr_def)

lemma mine_own_word:
  assumes "ws_placed tx" "i < tx_ws_size tx"
  shows "mine tx (own_word tx i)"
proof -
  have "LOCK_GET_ADDR (own_word tx i) = we_ptr tx i"
    using assms by (simp add: own_word_def get_addr_set_write we_ptr_even)
  moreover have "LOCK_GET_OWNED (own_word tx i) \<noteq> 0" by (simp add: own_word_def)
  moreover have "tx_base tx \<le> we_ptr tx i"
    using we_ptr_unat [OF assms(1), of i] assms(2) unfolding word_le_nat_alt by linarith
  moreover have "we_ptr tx i < we_ptr tx (tx_ws_size tx)"
    using we_ptr_unat [OF assms(1), of i] we_ptr_unat [OF assms(1), of "tx_ws_size tx"] assms(2)
    unfolding word_less_nat_alt by linarith
  ultimately show ?thesis by (simp add: mine_def)
qed

lemma in_ws_mine:
  "ws_placed tx \<Longrightarrow> LOCK_GET_OWNED l \<noteq> 0 \<Longrightarrow> in_ws tx (LOCK_GET_ADDR l) \<Longrightarrow> mine tx l"
proof -
  assume a: "ws_placed tx" "LOCK_GET_OWNED l \<noteq> 0" "in_ws tx (LOCK_GET_ADDR l)"
  have "length (tx_ws tx) \<le> tx_ws_size tx" using a(1) by (simp add: ws_placed_def)
  then have "we_ptr tx (length (tx_ws tx)) \<le> we_ptr tx (tx_ws_size tx)"
    using we_ptr_unat [OF a(1), of "length (tx_ws tx)"] we_ptr_unat [OF a(1), of "tx_ws_size tx"]
    unfolding word_le_nat_alt by linarith
  with a show "mine tx l" by (auto simp: mine_def in_ws_def)
qed

lemma locks_wf_covered:
  assumes "ws_placed tx" "locks_wf tx locks"
  shows "covered_from (tx_ws tx) k 0 = Some i \<Longrightarrow> locks k = own_word tx i"
    and "covered_from (tx_ws tx) k 0 = None \<Longrightarrow> \<not> mine tx (locks k)"
    and "mine tx (locks k) \<longleftrightarrow> covered tx k"
proof -
  show own: "covered_from (tx_ws tx) k 0 = Some i \<Longrightarrow> locks k = own_word tx i" for i
    using assms(2) [unfolded locks_wf_def, rule_format, of k] by simp
  show no: "covered_from (tx_ws tx) k 0 = None \<Longrightarrow> \<not> mine tx (locks k)"
    using assms(2) [unfolded locks_wf_def, rule_format, of k] by simp
  show "mine tx (locks k) \<longleftrightarrow> covered tx k"
  proof (cases "covered_from (tx_ws tx) k 0")
    case None
    then show ?thesis using no by (simp add: covered_def)
  next
    case (Some i)
    then have "i < length (tx_ws tx)" by (simp add: covered_from_Some)
    then have "i < tx_ws_size tx" using assms(1) by (simp add: ws_placed_def)
    then have "mine tx (locks k)" using own [OF Some] mine_own_word [OF assms(1)] by simp
    then show ?thesis using Some by (simp add: covered_def)
  qed
qed

text \<open>The owner test of the source recognises exactly the locks the invariant says are held.\<close>

lemma locks_wf_test:
  assumes "ws_placed tx" "locks_wf tx locks"
  shows "LOCK_GET_OWNED (locks k) \<noteq> 0 \<and> in_ws tx (LOCK_GET_ADDR (locks k)) \<longleftrightarrow> covered tx k"
proof (cases "covered_from (tx_ws tx) k 0")
  case None
  then show ?thesis
    using locks_wf_covered(2) [OF assms None] in_ws_mine [OF assms(1)] by (auto simp: covered_def)
next
  case (Some i)
  then have "i < length (tx_ws tx)" by (simp add: covered_from_Some)
  then show ?thesis
    using Some locks_wf_covered(1) [OF assms Some] own_word_facts [OF assms(1)]
    by (simp add: covered_def)
qed

lemma has_written_covered:
  assumes "ws_wf (tx_ws tx)" "stm_has_written tx a = Some i"
  shows "covered tx (GET_LOCK a)"
proof -
  have i: "i < length (tx_ws tx)" "we_addr (tx_ws tx ! i) = a"
    using has_written_Some [OF assms(2)] by simp_all
  then have "we_lock (tx_ws tx ! i) = GET_LOCK a" using ws_wf_lock [OF assms(1)] by metis
  with i(1) have "\<not> (\<forall>j. 0 \<le> j \<and> j < length (tx_ws tx) \<longrightarrow> we_lock (tx_ws tx ! j) \<noteq> GET_LOCK a)"
    by blast
  then show ?thesis by (simp only: covered_def covered_from_None not_False_eq_True)
qed

lemma wview_uncovered: "ws_wf (tx_ws tx) \<Longrightarrow> \<not> covered tx (GET_LOCK a) \<Longrightarrow> wview tx mem a = mem a"
  by (cases "stm_has_written tx a") (auto simp: wview_def dest: has_written_covered)

lemma has_written_at:
  assumes "distinct (map we_addr (tx_ws tx))" "i < length (tx_ws tx)" "we_addr (tx_ws tx ! i) = a"
  shows "stm_has_written tx a = Some i"
proof (cases "stm_has_written tx a")
  case None
  then have "a \<notin> we_addr ` set (tx_ws tx)" by (simp add: stm_has_written_def find_index_None)
  then show ?thesis using assms by auto
next
  case (Some j)
  then have "j < length (tx_ws tx)" "we_addr (tx_ws tx ! j) = a" using has_written_Some by blast+
  then have "j = i" using assms by (metis length_map nth_eq_iff_index_eq nth_map)
  with Some show ?thesis by simp
qed

text \<open>
  Following the chain from the entry the lock word points to computes the view: the entry
  found is the one that holds the address, and a walk that ends means there is none.
\<close>

lemma chase_view:
  assumes inv: "etl_inv tx locks" and c: "covered_from (tx_ws tx) (GET_LOCK a) 0 = Some i"
  shows "\<exists>j. chase (Suc (length (tx_ws tx))) (tx_ws tx) a i = Some (j, stm_has_written tx a \<noteq> None)
           \<and> j < length (tx_ws tx) \<and> we_lock (tx_ws tx ! j) = GET_LOCK a
           \<and> (stm_has_written tx a \<noteq> None \<longrightarrow> stm_has_written tx a = Some j)
           \<and> (stm_has_written tx a = None \<longrightarrow> covered_from (tx_ws tx) (GET_LOCK a) (Suc j) = None)"
proof -
  let ?ws = "tx_ws tx"
  have wf: "ws_wf ?ws" and d: "distinct (map we_addr ?ws)" using inv by (simp_all add: etl_inv_def)
  have i: "i < length ?ws" "we_lock (?ws ! i) = GET_LOCK a"
    and first: "\<And>m. m < i \<Longrightarrow> we_lock (?ws ! m) \<noteq> GET_LOCK a"
    using c by (simp_all add: covered_from_Some)
  obtain r where r: "chase (Suc (length ?ws)) ?ws a i = Some r" "chase_result ?ws a i r"
    using chase_ends [OF ws_wf_chained [OF wf] i(1), of "Suc (length ?ws)" a]
    by (meson diff_le_self le_SucI)
  let ?j = "fst r"
  have j: "?j < length ?ws" "we_lock (?ws ! ?j) = GET_LOCK a"
    using r(2) i(2) by (simp_all add: chase_result_def Let_def)
  show ?thesis
  proof (cases "snd r")
    case True
    then have "we_addr (?ws ! ?j) = a" using r(2) by (simp add: chase_result_def Let_def)
    then have "stm_has_written tx a = Some ?j" by (rule has_written_at [OF d j(1)])
    then show ?thesis using r(1) j True by (intro exI [of _ ?j]) (cases r; simp)
  next
    case False
    have "we_addr (?ws ! m) \<noteq> a" if m: "m < length ?ws" for m
    proof
      assume eq: "we_addr (?ws ! m) = a"
      then have l: "we_lock (?ws ! m) = GET_LOCK a" using ws_wf_lock [OF wf m] by simp
      then have "i \<le> m" using first not_le by blast
      then show False using r(2) False m l i(2) eq by (simp add: chase_result_def Let_def)
    qed
    then have none: "stm_has_written tx a = None"
      unfolding stm_has_written_def find_index_None by (metis imageE in_set_conv_nth)
    have "we_next (?ws ! ?j) = None" using r(2) False by (simp add: chase_result_def Let_def)
    then have "covered_from ?ws (GET_LOCK a) (Suc ?j) = None"
      using ws_wf_next [OF wf j(1)] j(2) by simp
    then show ?thesis using r(1) j False none by (intro exI [of _ ?j]) (cases r; simp)
  qed
qed

lemma chase_viewE:
  assumes "etl_inv tx locks" "covered_from (tx_ws tx) (GET_LOCK a) 0 = Some i"
  obtains j where
    "chase (Suc (length (tx_ws tx))) (tx_ws tx) a i = Some (j, stm_has_written tx a \<noteq> None)"
    "j < length (tx_ws tx)" "we_lock (tx_ws tx ! j) = GET_LOCK a"
    "stm_has_written tx a \<noteq> None \<longrightarrow> stm_has_written tx a = Some j"
    "stm_has_written tx a = None \<longrightarrow> covered_from (tx_ws tx) (GET_LOCK a) (Suc j) = None"
  using chase_view [OF assms] by (elim exE conjE) (rule that)

section \<open>Stability under interference\<close>

lemma rely_env:
  assumes "rely P tx" "etl_inv tx (g_locks g)"
  shows "etl_inv tx (g_locks (env P n g))"
    and "covered tx (GET_LOCK a) \<Longrightarrow> g_mem (env P n g) a = g_mem g a"
    and "covered_from (tx_ws tx) k 0 = Some i \<Longrightarrow> g_locks (env P n g) k = own_word tx i"
proof -
  have pl: "ws_placed tx" and lw: "locks_wf tx (g_locks g)" using assms(2) by (simp_all add: etl_inv_def)
  have keep: "mine tx (g_locks g k) \<Longrightarrow> g_locks (env P n g) k = g_locks g k"
    and mem: "mine tx (g_locks g (GET_LOCK a)) \<Longrightarrow> g_mem (env P n g) a = g_mem g a"
    and no: "\<not> mine tx (g_locks g k) \<Longrightarrow> \<not> mine tx (g_locks (env P n g) k)" for k a
    using assms(1) unfolding rely_def by blast+
  show own: "covered_from (tx_ws tx) k 0 = Some i \<Longrightarrow> g_locks (env P n g) k = own_word tx i" for k i
  proof -
    assume c: "covered_from (tx_ws tx) k 0 = Some i"
    then have "mine tx (g_locks g k)" using locks_wf_covered(3) [OF pl lw] by (simp add: covered_def)
    then show ?thesis using keep locks_wf_covered(1) [OF pl lw c] by simp
  qed
  have "\<not> mine tx (g_locks (env P n g) k)" if "covered_from (tx_ws tx) k 0 = None" for k
    using no locks_wf_covered(2) [OF pl lw that] by blast
  with own have "locks_wf tx (g_locks (env P n g))"
    unfolding locks_wf_def by (simp split: option.split)
  with assms(2) show "etl_inv tx (g_locks (env P n g))" by (simp add: etl_inv_def)
  show "covered tx (GET_LOCK a) \<Longrightarrow> g_mem (env P n g) a = g_mem g a"
    using mem locks_wf_covered(3) [OF pl lw] by blast
qed

text \<open>Two states of the transaction between which only the environment moved.\<close>

lemma wview_stable:
  assumes "rely P tx" "etl_inv tx (g_locks g)" "covered tx (GET_LOCK a)"
  shows "wview tx (g_mem (env P n g)) a = wview tx (g_mem g) a"
  using rely_env(2) [OF assms] by (simp add: wview_def split: option.split)

lemma covered_first:
  assumes "etl_inv tx locks" "covered tx k"
  obtains i where "covered_from (tx_ws tx) k 0 = Some i" "i < length (tx_ws tx)"
    "locks k = own_word tx i"
proof -
  obtain i where i: "covered_from (tx_ws tx) k 0 = Some i"
    using assms(2) by (auto simp: covered_def)
  moreover have "i < length (tx_ws tx)" using i by (simp add: covered_from_Some)
  moreover have "locks k = own_word tx i"
    using assms(1) locks_wf_covered(1) [OF _ _ i] by (simp add: etl_inv_def)
  ultimately show thesis by (rule that)
qed

section \<open>The effect of adding or changing an entry\<close>

lemma find_index_append:
  "find_index a (ws @ [e]) i = (case find_index a ws i of Some j \<Rightarrow> Some j
     | None \<Rightarrow> if we_addr e = a then Some (i + length ws) else None)"
  by (induction ws arbitrary: i) (simp_all split: option.split)

lemma find_index_cong:
  "map we_addr ws = map we_addr ws' \<Longrightarrow> find_index a ws i = find_index a ws' i"
proof (induction ws arbitrary: ws' i)
  case (Cons w ws)
  then obtain w' us where "ws' = w' # us" "we_addr w' = we_addr w" "map we_addr us = map we_addr ws"
    by (cases ws') auto
  with Cons.IH [of us "Suc i"] show ?case by simp
qed simp

lemma map_addr_link: "map we_addr (link_entry prev e ws) = map we_addr ws @ [we_addr e]"
proof -
  have "map we_addr (ws[p := (ws ! p)\<lparr>we_next := nx\<rparr>]) = map we_addr ws" for p nx
    by (cases "p < length ws"; rule nth_equalityI) (auto simp: nth_list_update list_update_beyond)
  then show ?thesis by (simp add: link_entry_def split: option.split)
qed

lemma has_written_link:
  assumes "stm_has_written tx (we_addr e) = None"
  shows "stm_has_written (tx\<lparr>tx_ws := link_entry prev e (tx_ws tx)\<rparr>) b =
    (if b = we_addr e then Some (length (tx_ws tx)) else stm_has_written tx b)"
proof -
  have "find_index b (link_entry prev e (tx_ws tx)) 0 = find_index b (tx_ws tx @ [e]) 0"
    by (rule find_index_cong) (simp add: map_addr_link)
  then show ?thesis
    using assms by (simp add: stm_has_written_def find_index_append split: option.split)
qed

text \<open>\<open>writes tx tx' mem a v m\<close>: the view changes at \<open>a\<close> alone, by \<open>v\<close> under the mask \<open>m\<close>.\<close>

definition writes :: "stm_tx \<Rightarrow> stm_tx \<Rightarrow> (w64 \<Rightarrow> w64) \<Rightarrow> w64 \<Rightarrow> w64 \<Rightarrow> w64 \<Rightarrow> bool" where
  "writes tx tx' mem a v m \<longleftrightarrow>
     (\<forall>b. wview tx' mem b = (if b = a then merge_mask (wview tx mem a) v m else wview tx mem b))"

lemma writes_link:
  assumes nw: "stm_has_written tx a = None" and e: "we_addr e = a"
    and v: "we_mask e = m" "m \<noteq> 0 \<Longrightarrow> we_value e = merge_mask (mem a) v m"
  shows "writes tx (tx\<lparr>tx_ws := link_entry prev e (tx_ws tx)\<rparr>) mem a v m"
proof -
  let ?tx = "tx\<lparr>tx_ws := link_entry prev e (tx_ws tx)\<rparr>"
  have hw: "stm_has_written ?tx b = (if b = a then Some (length (tx_ws tx)) else stm_has_written tx b)" for b
    using has_written_link [of tx e prev b] nw e by simp
  have "wview ?tx mem b = wview tx mem b" if b: "b \<noteq> a" for b
  proof (cases "stm_has_written tx b")
    case (Some i)
    then have "i < length (tx_ws tx)" using has_written_Some by blast
    then show ?thesis using hw [of b] b Some by (simp add: wview_def link_entry_fields)
  qed (use hw b in \<open>simp add: wview_def\<close>)
  moreover have "wview ?tx mem a = merge_mask (wview tx mem a) v m"
    using hw [of a] nw v by (cases "m = 0") (simp_all add: wview_def)
  ultimately show ?thesis by (simp add: writes_def)
qed

lemma writes_update:
  assumes d: "stm_has_written tx a = Some i" and m: "m \<noteq> 0"
    and e: "we_addr e = a" "we_value e = merge_mask (wview tx mem a) v m"
      "we_mask e = we_mask (tx_ws tx ! i) OR m"
  shows "writes tx (tx\<lparr>tx_ws := (tx_ws tx)[i := e]\<rparr>) mem a v m"
proof -
  let ?tx = "tx\<lparr>tx_ws := (tx_ws tx)[i := e]\<rparr>"
  have i: "i < length (tx_ws tx)" "we_addr (tx_ws tx ! i) = a"
    using has_written_Some [OF d] by simp_all
  have "map we_addr ((tx_ws tx)[i := e]) = map we_addr (tx_ws tx)"
    by (rule nth_equalityI) (use i e(1) in \<open>auto simp: nth_list_update\<close>)
  then have hw: "stm_has_written ?tx b = stm_has_written tx b" for b
    using find_index_cong [of "(tx_ws tx)[i := e]" "tx_ws tx" b 0] by (simp add: stm_has_written_def)
  have other: "j \<noteq> i" if "stm_has_written tx b = Some j" "b \<noteq> a" for b j
    using has_written_Some [OF that(1)] i(2) that(2) by blast
  have nz: "we_mask (tx_ws tx ! i) OR m \<noteq> 0"
    using m by (simp add: or_eq_0_iff)
  have "wview ?tx mem b = wview tx mem b" if b: "b \<noteq> a" for b
  proof (cases "stm_has_written tx b")
    case (Some j)
    with other [OF Some b] show ?thesis using hw [of b] by (simp add: wview_def)
  qed (use hw in \<open>simp add: wview_def\<close>)
  moreover have "wview ?tx mem a = merge_mask (wview tx mem a) v m"
    using hw [of a] d i(1) e nz by (simp add: wview_def)
  ultimately show ?thesis by (simp add: writes_def)
qed

lemma writes_zero: "writes tx tx mem a v 0"
  by (simp add: writes_def)

text \<open>Locks and chains after an entry was added for the lock of its address.\<close>

lemma etl_inv_link:
  assumes inv: "etl_inv tx locks" and room: "length (tx_ws tx) < tx_ws_size tx"
    and nw: "stm_has_written tx a = None"
    and e: "we_addr e = a" "we_lock e = GET_LOCK a" "we_next e = None"
    and lc: "last_covered (tx_ws tx) (GET_LOCK a) prev"
    and v: "\<And>p. prev = Some p \<Longrightarrow> we_version e = we_version (tx_ws tx ! p)"
    and l: "locks' = (if prev = None then locks(GET_LOCK a := own_word tx (length (tx_ws tx))) else locks)"
  shows "etl_inv (tx\<lparr>tx_ws := link_entry prev e (tx_ws tx)\<rparr>) locks'"
proof -
  let ?ws = "tx_ws tx" and ?tx = "tx\<lparr>tx_ws := link_entry prev e (tx_ws tx)\<rparr>"
  have pl: "ws_placed tx" and wf: "ws_wf ?ws" and d: "distinct (map we_addr ?ws)"
    and lw: "locks_wf tx locks" using inv by (simp_all add: etl_inv_def)
  have own: "own_word ?tx i = own_word tx i" for i by (simp add: own_word_def we_ptr_def)
  have mine: "mine ?tx l = mine tx l" for l by (simp add: mine_def we_ptr_def)
  have "ws_placed ?tx" using pl room by (simp add: ws_placed_def)
  moreover have "ws_wf (link_entry prev e ?ws)"
    using ws_wf_link [OF wf, of e prev] lc e v by simp
  moreover have "distinct (map we_addr (link_entry prev e ?ws))"
    using d nw e(1) by (simp add: map_addr_link stm_has_written_def find_index_None)
  moreover have "locks_wf ?tx locks'"
  proof (unfold locks_wf_def, intro allI)
    fix k
    have c: "covered_from (tx_ws ?tx) k 0 = (case covered_from ?ws k 0 of Some j \<Rightarrow> Some j
        | None \<Rightarrow> if GET_LOCK a = k then Some (length ?ws) else None)"
      by (simp add: covered_from_link e(2))
    have some: "covered_from ?ws (GET_LOCK a) 0 \<noteq> None" if "prev \<noteq> None"
      using lc that unfolding last_covered_def covered_from_None
      by (auto split: option.splits)
    show "case covered_from (tx_ws ?tx) k 0 of
        Some i \<Rightarrow> locks' k = own_word ?tx i | None \<Rightarrow> \<not> mine ?tx (locks' k)"
    proof (cases "covered_from ?ws k 0")
      case (Some j)
      then have "\<not> (prev = None \<and> k = GET_LOCK a)" using lc by (auto simp: last_covered_def)
      then show ?thesis
        using c Some l own locks_wf_covered(1) [OF pl lw Some] by auto
    next
      case None
      show ?thesis
      proof (cases "GET_LOCK a = k")
        case True
        then have "prev = None" using some None by blast
        then show ?thesis using c None True l own by simp
      next
        case False
        then show ?thesis
          using c None l mine locks_wf_covered(2) [OF pl lw None] by simp
      qed
    qed
  qed
  ultimately show ?thesis by (simp add: etl_inv_def)
qed

lemma own_word_cong: "tx_base tx = tx_base tx' \<Longrightarrow> own_word tx = own_word tx'"
  by (rule ext) (simp add: own_word_def we_ptr_def)

lemma mine_cong: "tx_base tx = tx_base tx' \<Longrightarrow> tx_ws_size tx = tx_ws_size tx' \<Longrightarrow> mine tx = mine tx'"
  by (rule ext) (simp add: mine_def we_ptr_def)

lemma etl_inv_cong:
  "tx_base tx = tx_base tx' \<Longrightarrow> tx_ws_size tx = tx_ws_size tx' \<Longrightarrow> tx_ws tx = tx_ws tx' \<Longrightarrow>
     etl_inv tx locks = etl_inv tx' locks"
  using own_word_cong [of tx tx'] mine_cong [of tx tx']
  by (simp add: etl_inv_def ws_placed_def locks_wf_def split: option.split)

lemma etl_inv_update:
  assumes inv: "etl_inv tx locks" and i: "i < length (tx_ws tx)"
    and e: "we_addr e = we_addr (tx_ws tx ! i)" "we_lock e = we_lock (tx_ws tx ! i)"
      "we_version e = we_version (tx_ws tx ! i)" "we_next e = we_next (tx_ws tx ! i)"
  shows "etl_inv (tx\<lparr>tx_ws := (tx_ws tx)[i := e]\<rparr>) locks"
proof -
  have "map we_addr ((tx_ws tx)[i := e]) = map we_addr (tx_ws tx)"
    by (rule nth_equalityI) (use i e(1) in \<open>auto simp: nth_list_update\<close>)
  moreover have "ws_wf ((tx_ws tx)[i := e])"
    using inv ws_wf_update [OF _ i e] by (simp add: etl_inv_def)
  ultimately show ?thesis
    using inv covered_from_update [OF e(2)] own_word_cong [of "tx\<lparr>tx_ws := (tx_ws tx)[i := e]\<rparr>" tx]
      mine_cong [of "tx\<lparr>tx_ws := (tx_ws tx)[i := e]\<rparr>" tx]
    by (simp add: etl_inv_def ws_placed_def locks_wf_def cong: option.case_cong)
qed

text \<open>Only the array, its place and its capacity matter to the invariant and to the view.\<close>

lemma has_written_cong: "tx_ws tx = tx_ws tx' \<Longrightarrow> stm_has_written tx a = stm_has_written tx' a"
  by (simp add: stm_has_written_def)

lemma wview_cong: "tx_ws tx = tx_ws tx' \<Longrightarrow> wview tx = wview tx'"
  by (intro ext) (simp add: wview_def has_written_cong [of tx tx'] split: option.split)

lemma covered_cong: "tx_ws tx = tx_ws tx' \<Longrightarrow> covered tx = covered tx'"
  by (intro ext) (simp add: covered_def)

lemma link_entry_update: "(link_entry prev e ws)[length ws := e'] = link_entry prev e' ws"
proof -
  have "(us @ [e])[length us := e'] = us @ [e']" for us :: "w_entry list" by simp
  from this [of "case prev of None \<Rightarrow> ws | Some p \<Rightarrow> ws[p := (ws ! p)\<lparr>we_next := Some (length ws)\<rparr>]"]
  show ?thesis by (cases prev) (simp_all add: link_entry_def)
qed

lemma etl_inv_entry:
  assumes inv: "etl_inv (tx\<lparr>tx_ws := link_entry prev e (tx_ws tx)\<rparr>) locks"
    and e: "we_addr e' = we_addr e" "we_lock e' = we_lock e" "we_version e' = we_version e"
      "we_next e' = we_next e"
  shows "etl_inv (tx\<lparr>tx_ws := link_entry prev e' (tx_ws tx)\<rparr>) locks"
  using etl_inv_update [OF inv, of "length (tx_ws tx)" e'] e by (simp add: link_entry_update)

lemma covered_link:
  "covered (tx\<lparr>tx_ws := link_entry prev e (tx_ws tx)\<rparr>) k \<longleftrightarrow> covered tx k \<or> k = we_lock e"
  by (auto simp: covered_def covered_from_link split: option.split)

text \<open>
  Memory this transaction has locked, in two states with the same write set or a longer one.
\<close>

definition same_covered :: "stm_tx \<Rightarrow> (w64 \<Rightarrow> w64) \<Rightarrow> (w64 \<Rightarrow> w64) \<Rightarrow> bool" where
  "same_covered tx mem mem' \<longleftrightarrow> (\<forall>a. covered tx (GET_LOCK a) \<longrightarrow> mem' a = mem a)"

lemma same_covered_refl [simp]: "same_covered tx mem mem"
  by (simp add: same_covered_def)

lemma same_covered_trans:
  "same_covered tx m1 m2 \<Longrightarrow> same_covered tx m2 m3 \<Longrightarrow> same_covered tx m1 m3"
  by (simp add: same_covered_def)

lemma same_covered_env:
  "rely P tx \<Longrightarrow> etl_inv tx (g_locks g) \<Longrightarrow> same_covered tx (g_mem g) (g_mem (env P n g))"
  by (simp add: same_covered_def rely_env(2))

lemma same_covered_mono:
  "(\<And>k. covered tx k \<Longrightarrow> covered tx' k) \<Longrightarrow> same_covered tx' m1 m2 \<Longrightarrow> same_covered tx m1 m2"
  by (simp add: same_covered_def)

section \<open>Releasing every lock once\<close>

text \<open>
  Commit and rollback walk the array and store a lock word at each entry that ends a chain;
  \<open>release f\<close> is the effect on the lock array when the word stored for entry \<open>w\<close> is \<open>f w\<close>.
\<close>

definition release :: "(w_entry \<Rightarrow> w64) \<Rightarrow> w_entry list \<Rightarrow> (w64 \<Rightarrow> w64) \<Rightarrow> w64 \<Rightarrow> w64" where
  "release f ws locks =
     fold (\<lambda>w l. if we_next w = None then l(we_lock w := f w) else l) ws locks"

definition install :: "w_entry list \<Rightarrow> (w64 \<Rightarrow> w64) \<Rightarrow> w64 \<Rightarrow> w64" where
  "install ws mem =
     fold (\<lambda>w m. if we_mask w \<noteq> 0 then m(we_addr w := we_value w) else m) ws mem"

lemma release_rec [simp]:
  "release f [] locks = locks"
  "release f (w # ws) locks = release f ws (if we_next w = None then locks(we_lock w := f w) else locks)"
  by (simp_all add: release_def)

lemma install_rec [simp]:
  "install [] mem = mem"
  "install (w # ws) mem = install ws (if we_mask w \<noteq> 0 then mem(we_addr w := we_value w) else mem)"
  by (simp_all add: install_def)

lemma release_other:
  "\<forall>w \<in> set ws. we_next w = None \<longrightarrow> we_lock w \<noteq> k \<Longrightarrow> release f ws locks k = locks k"
  by (induction ws arbitrary: locks) (auto simp: release_def)

lemma release_hit:
  "\<exists>w \<in> set ws. we_next w = None \<and> we_lock w = k \<Longrightarrow>
     \<exists>w \<in> set ws. we_next w = None \<and> we_lock w = k \<and> release f ws locks k = f w"
proof (induction ws rule: rev_induct)
  case (snoc w ws)
  then show ?case
    by (cases "we_next w = None \<and> we_lock w = k") (auto simp: release_def)
qed simp

lemma chain_end:
  assumes "ws_wf ws" "covered_from ws k 0 \<noteq> None"
  shows "\<exists>w \<in> set ws. we_next w = None \<and> we_lock w = k"
proof -
  let ?I = "{i. i < length ws \<and> we_lock (ws ! i) = k}"
  have "?I \<noteq> {}" using assms(2) by (auto simp: covered_from_Some)
  moreover have "finite ?I" by simp
  ultimately obtain m where m: "m \<in> ?I" "\<And>j. j \<in> ?I \<Longrightarrow> j \<le> m"
    using Max_in [of ?I] Max_ge [of ?I] by blast
  have "we_lock (ws ! j) \<noteq> k" if "Suc m \<le> j" "j < length ws" for j
  proof
    assume "we_lock (ws ! j) = k"
    then have "j \<in> ?I" using that(2) by simp
    then show False using m(2) that(1) by (meson not_less_eq_eq)
  qed
  then have "covered_from ws k (Suc m) = None" by (simp add: covered_from_None)
  moreover have ml: "m < length ws" "we_lock (ws ! m) = k" using m(1) by simp_all
  ultimately have "we_next (ws ! m) = None" using ws_wf_next [OF assms(1) ml(1)] by simp
  with ml show ?thesis by (metis nth_mem)
qed

lemma release_covered:
  assumes wf: "ws_wf ws"
    and f: "\<And>w w'. w \<in> set ws \<Longrightarrow> w' \<in> set ws \<Longrightarrow> we_lock w = we_lock w' \<Longrightarrow> f w = f w'"
  shows "release f ws locks k = (case covered_from ws k 0 of None \<Rightarrow> locks k | Some i \<Rightarrow> f (ws ! i))"
proof (cases "covered_from ws k 0")
  case None
  then have "\<forall>w \<in> set ws. we_lock w \<noteq> k" by (auto simp: covered_from_None in_set_conv_nth)
  then show ?thesis using None by (simp add: release_other)
next
  case (Some i)
  then have i: "i < length ws" "we_lock (ws ! i) = k" by (simp_all add: covered_from_Some)
  obtain w where "w \<in> set ws" "we_lock w = k" "release f ws locks k = f w"
    using release_hit chain_end [OF wf, of k] Some by blast
  then show ?thesis using Some i f [of w "ws ! i"] by simp
qed

lemma version_of_lock:
  assumes "ws_wf ws" "w \<in> set ws" "w' \<in> set ws" "we_lock w = we_lock w'"
  shows "we_version w = we_version w'"
  using assms ws_wf_version [OF assms(1)] by (metis in_set_conv_nth)

text \<open>Copying the write set to memory makes memory what the transaction saw.\<close>

lemma install_other:
  "a \<notin> we_addr ` set ws \<Longrightarrow> install ws mem a = mem a"
  by (induction ws arbitrary: mem) (simp_all add: install_def)

lemma install_find:
  "distinct (map we_addr ws) \<Longrightarrow> install ws mem a =
     (case find_index a ws i of
        Some j \<Rightarrow> if we_mask (ws ! (j - i)) = 0 then mem a else we_value (ws ! (j - i))
      | None \<Rightarrow> mem a)"
proof (induction ws arbitrary: mem i)
  case Nil
  then show ?case by (simp add: install_def)
next
  case (Cons w ws)
  let ?m = "if we_mask w \<noteq> 0 then mem(we_addr w := we_value w) else mem"
  have step: "install (w # ws) mem = install ws ?m" by (simp add: install_def)
  show ?case
  proof (cases "we_addr w = a")
    case True
    then have "install ws ?m a = ?m a" using Cons.prems by (intro install_other) auto
    then show ?thesis using True step by simp
  next
    case False
    have "\<exists>k. j - i = Suc k \<and> j - Suc i = k" if "find_index a ws (Suc i) = Some j" for j
      using find_index_Some [OF that] by auto
    then show ?thesis
      using False step Cons.IH [of ?m "Suc i"] Cons.prems by (auto split: option.split)
  qed
qed

lemma install_view: "distinct (map we_addr (tx_ws tx)) \<Longrightarrow> install (tx_ws tx) mem = wview tx mem"
  by (rule ext) (simp add: install_find [of _ _ _ 0] wview_def stm_has_written_def split: option.split)

section \<open>The shared state after a commit\<close>

text \<open>When a commit may go through: irrevocable, or no irrevocable transaction and valid reads.\<close>

definition may_commit :: "stm_tx \<Rightarrow> glob \<Rightarrow> bool" where
  "may_commit tx g \<longleftrightarrow> tx_irrevocable tx \<noteq> 0 \<or>
     (g_irrevocable g = 0 \<and>
        (tx_start tx = g_clock g \<or> (\<forall>r \<in> set (tx_rs tx). read_valid tx (g_locks g) r)))"

text \<open>The shared state after a commit: the view in memory, every lock free at the new time.\<close>

definition committed :: "stm_tx \<Rightarrow> glob \<Rightarrow> glob" where
  "committed tx g = g\<lparr>g_clock := g_clock g + 1, g_mem := wview tx (g_mem g),
     g_locks := (\<lambda>k. if covered tx k then LOCK_SET_TIMESTAMP (g_clock g + 1) else g_locks g k)\<rparr>"

lemma release_all:
  assumes "etl_inv tx locks"
  shows "release (\<lambda>_. v) (tx_ws tx) l = (\<lambda>k. if covered tx k then v else l k)"
proof
  fix k
  show "release (\<lambda>_. v) (tx_ws tx) l k = (if covered tx k then v else l k)"
    using assms release_covered [of "tx_ws tx" "\<lambda>_. v" l k]
    by (auto simp: etl_inv_def covered_def split: option.split)
qed

section \<open>A concrete log\<close>

lemma sample_wrote_inv [simp]: "etl_inv (s_tx sample_wrote) (g_locks (s_glob sample_wrote))"
  by (auto simp: sample_defs etl_inv_def ws_placed_def locks_wf_def covered_from_def mine_def lock_defs ws_wf_def
      chained_def own_word_def we_ptr_def find_Some_iff split: option.split)

lemma sample_wrote_covered [simp]: "covered (s_tx sample_wrote) 2" "covered_from (tx_ws (s_tx sample_wrote)) 2 0 = Some 0"
  by (simp_all add: sample_defs covered_def covered_from_def)

end
