(* ===== verification/Wbetl.thy ===== *)
theory Wbetl
  imports Wset
begin

text \<open>
  Write-back with encounter-time locking (\<open>src/stm_wbetl.h\<close>): a write locks the address at
  once and keeps the new value in the write set; commit copies the values to memory and
  releases the locks with the commit timestamp; rollback releases them with the old one.

  The two \<open>goto\<close> labels \<open>restart\<close> and \<open>restart_no_load\<close> are the argument \<open>lo\<close> of each loop:
  \<open>None\<close> reloads the lock word, \<open>Some l\<close> goes on with \<open>l\<close>.  \<open>rb\<close> is \<open>stm_rollback\<close>.
\<close>

section \<open>Reading\<close>

text \<open>The end of the read: a transaction that is not read-only remembers lock and version.\<close>

definition wbetl_read_done :: "params \<Rightarrow> w64 \<Rightarrow> w64 \<Rightarrow> w64 \<Rightarrow> w64 prog" where
  "wbetl_read_done P version lock value =
     bnd get_tx (\<lambda>tx.
       if at_read_only (tx_attr tx) then ret value
       else thn (add_to_read_set P version lock) (ret value))"

definition wbetl_read_own_entry :: "params \<Rightarrow> w64 \<Rightarrow> w64 \<Rightarrow> w64 prog" where
  "wbetl_read_own_entry P addr w =
     bnd get_tx (\<lambda>tx.
       case chase (Suc (length (tx_ws tx))) (tx_ws tx) addr (we_index tx w) of
         None \<Rightarrow> stop Diverge
       | Some (i, found) \<Rightarrow>
           if found \<and> we_mask (tx_ws tx ! i) \<noteq> 0 then ret (we_value (tx_ws tx ! i))
           else load_mem P addr)"

primrec wbetl_read_loop ::
    "nat \<Rightarrow> params \<Rightarrow> (w64 \<Rightarrow> unit prog) \<Rightarrow> w64 \<Rightarrow> w64 option \<Rightarrow> w64 prog" where
  "wbetl_read_loop 0 P rb addr lo = stop Diverge"
| "wbetl_read_loop (Suc n) P rb addr lo =
     bnd (case lo of None \<Rightarrow> load_lock P (GET_LOCK addr) | Some l \<Rightarrow> ret l) (\<lambda>l.
     bnd get_tx (\<lambda>tx.
       if LOCK_GET_WRITE l \<noteq> 0 then
         (if in_ws tx (LOCK_GET_ADDR l) then wbetl_read_own_entry P addr (LOCK_GET_ADDR l)
          else if tx_irrevocable tx \<noteq> 0 then wbetl_read_loop n P rb addr None
          else thn (rb STM_ABORT_RW_CONFLICT) (ret 0))
       else
         bnd (load_mem P addr) (\<lambda>value.
         bnd (load_lock P (GET_LOCK addr)) (\<lambda>l2.
           if l \<noteq> l2 then wbetl_read_loop n P rb addr (Some l2)
           else if tx_irrevocable tx \<noteq> 0 then ret value
           else if LOCK_GET_TIMESTAMP l > tx_end tx then
             bnd (if at_read_only (tx_attr tx) then ret False else stm_wbetl_extend P) (\<lambda>ok.
               if \<not> ok then thn (rb STM_ABORT_VAL_READ) (ret 0)
               else bnd (load_lock P (GET_LOCK addr)) (\<lambda>l3.
                 if l \<noteq> l3 then wbetl_read_loop n P rb addr (Some l3)
                 else wbetl_read_done P (LOCK_GET_TIMESTAMP l) (GET_LOCK addr) value))
           else wbetl_read_done P (LOCK_GET_TIMESTAMP l) (GET_LOCK addr) value))))"

definition stm_wbetl_read_invisible :: "nat \<Rightarrow> params \<Rightarrow> w64 \<Rightarrow> w64 prog" where
  "stm_wbetl_read_invisible n P addr =
     thn (assert_c (\<lambda>s. IS_ACTIVE (tx_status (s_tx s))))
         (wbetl_read_loop n P (stm_rollback n P) addr None)"

definition stm_wbetl_read :: "nat \<Rightarrow> params \<Rightarrow> w64 \<Rightarrow> w64 prog" where
  "stm_wbetl_read n P addr = stm_wbetl_read_invisible n P addr"

section \<open>Writing\<close>

text \<open>
  \<open>do_write\<close>: fill the next entry, link it behind \<open>prev\<close>, count it.  The result is the index
  of the entry.
\<close>

definition wbetl_do_write ::
    "params \<Rightarrow> nat option \<Rightarrow> w64 \<Rightarrow> w64 \<Rightarrow> w64 \<Rightarrow> w64 \<Rightarrow> w64 \<Rightarrow> nat option prog" where
  "wbetl_do_write P prev addr value msk lock version =
     bnd (if msk = 0 then ret 0
          else if msk \<noteq> NOT 0 then bnd (load_mem P addr) (\<lambda>old. ret (merge_mask old value msk))
          else ret value) (\<lambda>v.
     bnd get_tx (\<lambda>tx.
       thn (set_tx (\<lambda>t. t\<lparr>tx_ws := link_entry prev
                \<lparr>we_addr = addr, we_value = v, we_mask = msk, we_version = version,
                 we_lock = lock, we_next = None, we_no_drop = False\<rparr> (tx_ws t),
              tx_count := Suc (tx_count t)\<rparr>))
           (ret (Some (length (tx_ws tx))))))"

text \<open>The address is in the write set already: merge under the mask and widen the mask.\<close>

definition wbetl_update_entry :: "params \<Rightarrow> nat \<Rightarrow> w64 \<Rightarrow> w64 \<Rightarrow> w64 \<Rightarrow> nat option prog" where
  "wbetl_update_entry P i addr value msk =
     bnd get_tx (\<lambda>tx. let e = tx_ws tx ! i in
     bnd (if msk \<noteq> NOT 0
          then bnd (if we_mask e = 0 then load_mem P addr else ret (we_value e))
                 (\<lambda>old. ret (merge_mask old value msk))
          else ret value) (\<lambda>v.
       thn (set_tx (\<lambda>t. t\<lparr>tx_ws := (tx_ws t)[i := e\<lparr>we_value := v, we_mask := we_mask e OR msk\<rparr>]\<rparr>))
           (ret (Some i))))"

text \<open>
  The lock is ours.  When the write set is full the source calls \<open>stm_rollback\<close> and goes on if
  that returns: the array may have moved, so \<open>prev\<close> dangles and the final \<open>prev->next = w\<close>
  writes through it.
\<close>

definition wbetl_write_owned ::
    "params \<Rightarrow> (w64 \<Rightarrow> unit prog) \<Rightarrow> w64 \<Rightarrow> w64 \<Rightarrow> w64 \<Rightarrow> w64 \<Rightarrow> nat option prog" where
  "wbetl_write_owned P rb w addr value msk =
     bnd get_tx (\<lambda>tx.
       if msk = 0 then ret (Some (we_index tx w))
       else case chase (Suc (length (tx_ws tx))) (tx_ws tx) addr (we_index tx w) of
         None \<Rightarrow> stop Diverge
       | Some (i, found) \<Rightarrow>
           if found then wbetl_update_entry P i addr value msk
           else if length (tx_ws tx) = tx_ws_size tx then
             thn (rb STM_ABORT_EXTEND_WS) (stop Undef)
           else wbetl_do_write P (Some i) addr value msk (GET_LOCK addr) (we_version (tx_ws tx ! i)))"

primrec wbetl_write_loop ::
    "nat \<Rightarrow> params \<Rightarrow> (w64 \<Rightarrow> unit prog) \<Rightarrow> w64 \<Rightarrow> w64 \<Rightarrow> w64 \<Rightarrow> nat option prog" where
  "wbetl_write_loop 0 P rb addr value msk = stop Diverge"
| "wbetl_write_loop (Suc n) P rb addr value msk =
     bnd (load_lock P (GET_LOCK addr)) (\<lambda>l.
     bnd get_tx (\<lambda>tx.
       if LOCK_GET_OWNED l \<noteq> 0 then
         (if in_ws tx (LOCK_GET_ADDR l) then wbetl_write_owned P rb (LOCK_GET_ADDR l) addr value msk
          else if tx_irrevocable tx \<noteq> 0 then wbetl_write_loop n P rb addr value msk
          else thn (rb STM_ABORT_WW_CONFLICT) (ret None))
       else if tx_irrevocable tx = 0 \<and> LOCK_GET_TIMESTAMP l > tx_end tx
               \<and> stm_has_read tx (GET_LOCK addr) \<noteq> None then
         thn (rb STM_ABORT_VAL_WRITE) (ret None)
       else
         thn (when_c (length (tx_ws tx) = tx_ws_size tx) (rb STM_ABORT_EXTEND_WS))
        (bnd get_tx (\<lambda>tx'.
         bnd (cas_lock P (GET_LOCK addr) l
               (LOCK_SET_ADDR_WRITE (we_ptr tx' (length (tx_ws tx'))))) (\<lambda>won.
           if won then wbetl_do_write P None addr value msk (GET_LOCK addr) (LOCK_GET_TIMESTAMP l)
           else wbetl_write_loop n P rb addr value msk)))))"

definition stm_wbetl_write :: "nat \<Rightarrow> params \<Rightarrow> w64 \<Rightarrow> w64 \<Rightarrow> w64 \<Rightarrow> nat option prog" where
  "stm_wbetl_write n P addr value msk =
     wbetl_write_loop n P (stm_rollback n P) addr value msk"

section \<open>Optimised accesses\<close>

definition stm_wbetl_RaR :: "nat \<Rightarrow> params \<Rightarrow> w64 \<Rightarrow> w64 prog" where
  "stm_wbetl_RaR n P addr = stm_wbetl_read n P addr"

definition stm_wbetl_RaW :: "params \<Rightarrow> w64 \<Rightarrow> w64 prog" where
  "stm_wbetl_RaW P addr =
     bnd (load_lock P (GET_LOCK addr)) (\<lambda>l.
     thn (assert_c (\<lambda>_. LOCK_GET_WRITE l \<noteq> 0))
    (thn (assert_c (\<lambda>s. in_ws (s_tx s) (LOCK_GET_ADDR l)))
    (bnd get_tx (\<lambda>tx. ret (we_value (tx_ws tx ! we_index tx (LOCK_GET_ADDR l)))))))"

definition stm_wbetl_RfW :: "nat \<Rightarrow> params \<Rightarrow> w64 \<Rightarrow> w64 prog" where
  "stm_wbetl_RfW n P addr =
     bnd (stm_wbetl_write n P addr 0 0) (\<lambda>_. load_mem P addr)"

definition stm_wbetl_WaR :: "nat \<Rightarrow> params \<Rightarrow> w64 \<Rightarrow> w64 \<Rightarrow> w64 \<Rightarrow> unit prog" where
  "stm_wbetl_WaR n P addr value msk = bnd (stm_wbetl_write n P addr value msk) (\<lambda>_. ret ())"

definition stm_wbetl_WaW :: "params \<Rightarrow> w64 \<Rightarrow> w64 \<Rightarrow> w64 \<Rightarrow> unit prog" where
  "stm_wbetl_WaW P addr value msk =
     bnd (load_lock P (GET_LOCK addr)) (\<lambda>l.
     thn (assert_c (\<lambda>_. LOCK_GET_WRITE l \<noteq> 0))
    (thn (assert_c (\<lambda>s. in_ws (s_tx s) (LOCK_GET_ADDR l)))
    (thn (assert_c (\<lambda>_. msk \<noteq> 0))
    (bnd get_tx (\<lambda>tx.
       case chase (Suc (length (tx_ws tx))) (tx_ws tx) addr (we_index tx (LOCK_GET_ADDR l)) of
         None \<Rightarrow> stop Diverge
       | Some (i, found) \<Rightarrow>
           if found then bnd (wbetl_update_entry P i addr value msk) (\<lambda>_. ret ())
           else stop AssertFail)))))"

section \<open>Commit\<close>

definition wbetl_install :: "params \<Rightarrow> w64 \<Rightarrow> w_entry \<Rightarrow> unit prog" where
  "wbetl_install P t w =
     thn (when_c (we_mask w \<noteq> 0) (store_mem P (we_addr w) (we_value w)))
         (when_c (we_next w = None) (store_lock P (we_lock w) (LOCK_SET_TIMESTAMP t)))"

definition stm_wbetl_commit :: "nat \<Rightarrow> params \<Rightarrow> bool prog" where
  "stm_wbetl_commit n P =
     bnd get_tx (\<lambda>tx.
     bnd (if tx_irrevocable tx = 0 then bnd (atomic_get P g_irrevocable) (\<lambda>v. ret (v \<noteq> 0))
          else ret False) (\<lambda>blocked.
       if blocked then thn (stm_rollback n P STM_ABORT_IRREVOCABLE) (ret False)
       else
         bnd (fetch_inc_clock P) (\<lambda>c. let t = c + 1 in
         bnd (if tx_irrevocable tx \<noteq> 0 then ret True
              else if tx_start tx \<noteq> t - 1 then stm_wbetl_validate P else ret True) (\<lambda>ok.
           if \<not> ok then thn (stm_rollback n P STM_ABORT_VALIDATE) (ret False)
           else bnd get_tx (\<lambda>tx'. thn (each_c (wbetl_install P t) (tx_ws tx')) (ret True))))))"

section \<open>Reads see the transaction's own writes\<close>

lemma read_own_entry:
  assumes inv: "etl_inv tx (g_locks (s_glob s))" "s_tx s = tx" and r: "rely P tx"
    and i: "covered_from (tx_ws tx) (GET_LOCK a) 0 = Some i"
  shows "wp (wbetl_read_own_entry P a (LOCK_GET_ADDR (own_word tx i))) s
           (\<lambda>v t. v = wview tx (g_mem (s_glob s)) a \<and> s_tx t = tx \<and> (quiet P \<longrightarrow> ticked s t)) never"
proof -
  have "i < length (tx_ws tx)" "ws_placed tx"
    using i inv by (simp_all add: covered_from_Some etl_inv_def)
  then have ix: "we_index tx (LOCK_GET_ADDR (own_word tx i)) = i" by (simp add: own_word_facts)
  have mem: "g_mem (env P m (s_glob s)) a = g_mem (s_glob s) a" for m
    using rely_env(2) [OF r inv(1)] i by (simp add: covered_def)
  obtain j where "chase (Suc (length (tx_ws tx))) (tx_ws tx) a i = Some (j, stm_has_written tx a \<noteq> None)"
    "stm_has_written tx a \<noteq> None \<longrightarrow> stm_has_written tx a = Some j"
    using chase_view [OF inv(1) i] by blast
  then show ?thesis
    using inv(2) mem
    by (cases "stm_has_written tx a") (simp_all add: wbetl_read_own_entry_def ix wview_def del: chase.simps)
qed

lemma read_covered:
  assumes inv: "etl_inv (s_tx s) (g_locks (s_glob s))" and r: "rely P (s_tx s)"
    and act: "IS_ACTIVE (tx_status (s_tx s))" and c: "covered (s_tx s) (GET_LOCK a)" and n: "0 < n"
  shows "wp (stm_wbetl_read n P a) s
           (\<lambda>v t. v = wview (s_tx s) (g_mem (s_glob s)) a \<and> s_tx t = s_tx s
              \<and> (quiet P \<longrightarrow> ticked s t)) never"
proof -
  let ?tx = "s_tx s" and ?u = "env_step P s"
  obtain m where m: "n = Suc m" using n by (cases n) simp_all
  have inv': "etl_inv ?tx (g_locks (s_glob ?u))" using rely_env(1) [OF r inv] by simp
  obtain i where i: "covered_from (tx_ws ?tx) (GET_LOCK a) 0 = Some i" "i < length (tx_ws ?tx)"
    "g_locks (s_glob ?u) (GET_LOCK a) = own_word ?tx i"
    using covered_first [OF inv' c] .
  have "ws_placed ?tx" using inv by (simp add: etl_inv_def)
  note own = own_word_facts [OF this i(2)]
  have "wview ?tx (g_mem (s_glob ?u)) a = wview ?tx (g_mem (s_glob s)) a"
    using wview_stable [OF r inv c] by simp
  then show ?thesis
    using read_own_entry [OF inv' _ r i(1)] i(3) own act
    by (auto simp: stm_wbetl_read_def stm_wbetl_read_invisible_def m ticked_def elim!: wp_mono)
qed

section \<open>Writes keep the invariant and change the view at one address\<close>

text \<open>What a write that returned an entry guarantees, whatever the other threads did meanwhile.\<close>

definition wrote :: "stm_tx \<Rightarrow> (w64 \<Rightarrow> w64) \<Rightarrow> w64 \<Rightarrow> w64 \<Rightarrow> w64 \<Rightarrow> st \<Rightarrow> bool" where
  "wrote tx mem a v m t \<longleftrightarrow>
     etl_inv (s_tx t) (g_locks (s_glob t)) \<and> covered (s_tx t) (GET_LOCK a)
     \<and> (\<forall>mem'. mem' a = g_mem (s_glob t) a \<longrightarrow> writes tx (s_tx t) mem' a v m)
     \<and> same_covered tx mem (g_mem (s_glob t))"

lemma wrote_later: "same_covered tx mem mem' \<Longrightarrow> wrote tx mem' a v m t \<Longrightarrow> wrote tx mem a v m t"
  by (auto simp: wrote_def intro: same_covered_trans)

lemma do_write:
  assumes inv: "etl_inv (tx\<lparr>tx_ws := link_entry prev e (tx_ws tx)\<rparr>) (g_locks (s_glob s))"
    and tx: "s_tx s = tx" and r: "rely P tx" and nw: "stm_has_written tx a = None"
    and e: "we_addr e = a" "we_lock e = GET_LOCK a" "we_next e = None" "we_version e = ver"
  shows "wp (wbetl_do_write P prev a v m (GET_LOCK a) ver) s
           (\<lambda>r t. wrote tx (g_mem (s_glob s)) a v m t) never"
proof -
  let ?t = "\<lambda>e. tx\<lparr>tx_ws := link_entry prev e (tx_ws tx)\<rparr>"
  define entry where "entry x = \<lparr>we_addr = a, we_value = x, we_mask = m, we_version = ver,
     we_lock = GET_LOCK a, we_next = None, we_no_drop = False\<rparr>" for x
  have r': "rely P (?t e)" using r rely_cong [of "?t e" tx] by simp
  have final: "wrote tx (g_mem (s_glob s)) a v m
      (upd_tx (\<lambda>t. t\<lparr>tx_ws := link_entry prev (entry x) (tx_ws t), tx_count := Suc (tx_count t)\<rparr>) u)"
    if u: "s_tx u = tx" "etl_inv (?t e) (g_locks (s_glob u))"
      "same_covered (?t e) (g_mem (s_glob s)) (g_mem (s_glob u))"
      and x: "m \<noteq> 0 \<Longrightarrow> x = merge_mask (g_mem (s_glob u) a) v m" for x u
  proof -
    let ?x = "entry x"
    have "etl_inv (?t ?x) (g_locks (s_glob u))"
      by (rule etl_inv_entry [OF u(2)]) (simp_all add: entry_def e)
    moreover have "writes tx (?t ?x) mem' a v m" if "mem' a = g_mem (s_glob u) a" for mem'
      by (rule writes_link [OF nw]) (simp_all add: entry_def x that)
    moreover have "covered (?t ?x) (GET_LOCK a)" by (simp add: covered_link entry_def)
    moreover have "same_covered tx (g_mem (s_glob s)) (g_mem (s_glob u))"
      using u(3) by (rule same_covered_mono [rotated]) (simp add: covered_link)
    ultimately show ?thesis
      using u(1) etl_inv_cong [of "?t ?x\<lparr>tx_count := Suc (tx_count tx)\<rparr>" "?t ?x"]
        wview_cong [of "?t ?x\<lparr>tx_count := Suc (tx_count tx)\<rparr>" "?t ?x"]
        covered_cong [of "?t ?x\<lparr>tx_count := Suc (tx_count tx)\<rparr>" "?t ?x"]
      by (simp add: wrote_def writes_def)
  qed
  let ?u = "env_step P s"
  have u: "s_tx ?u = tx" "etl_inv (?t e) (g_locks (s_glob ?u))"
    "same_covered (?t e) (g_mem (s_glob s)) (g_mem (s_glob ?u))"
    using rely_env(1) [OF r' inv] same_covered_env [OF r' inv] tx by simp_all
  show ?thesis
    using final [OF tx inv, of 0] final [OF tx inv, of v] final [OF u]
    by (cases "m = 0"; cases "m = - 1") (simp_all add: wbetl_do_write_def entry_def)
qed

lemma update_entry:
  assumes inv: "etl_inv tx (g_locks (s_glob s))" and tx: "s_tx s = tx" and r: "rely P tx"
    and hw: "stm_has_written tx a = Some i" and m: "m \<noteq> 0"
  shows "wp (wbetl_update_entry P i a v m) s (\<lambda>r t. wrote tx (g_mem (s_glob s)) a v m t) never"
proof -
  have i: "i < length (tx_ws tx)" "we_addr (tx_ws tx ! i) = a"
    using has_written_Some [OF hw] by simp_all
  let ?e = "\<lambda>x. (tx_ws tx ! i)\<lparr>we_value := x, we_mask := we_mask (tx_ws tx ! i) OR m\<rparr>"
  let ?t = "\<lambda>x. tx\<lparr>tx_ws := (tx_ws tx)[i := ?e x]\<rparr>"
  have cov: "covered tx (GET_LOCK a)"
    using inv has_written_covered [OF _ hw] by (simp add: etl_inv_def)
  have view: "wview tx mem a = (if we_mask (tx_ws tx ! i) = 0 then mem a else we_value (tx_ws tx ! i))" for mem
    using hw by (simp add: wview_def)
  have final: "wrote tx (g_mem (s_glob s)) a v m (upd_tx (\<lambda>t. t\<lparr>tx_ws := (tx_ws t)[i := ?e x]\<rparr>) u)"
    if u: "s_tx u = tx" "etl_inv tx (g_locks (s_glob u))"
      "same_covered tx (g_mem (s_glob s)) (g_mem (s_glob u))"
      and x: "x = merge_mask (wview tx (g_mem (s_glob u)) a) v m" for x u
  proof -
    have "etl_inv (?t x) (g_locks (s_glob u))"
      by (rule etl_inv_update [OF u(2) i(1)]) simp_all
    moreover have "writes tx (?t x) mem' a v m" if "mem' a = g_mem (s_glob u) a" for mem'
      by (rule writes_update [OF hw m]) (simp_all add: i x view that)
    moreover have "covered (?t x) (GET_LOCK a)"
      using cov covered_from_update [of "?e x" "tx_ws tx" i] by (simp add: covered_def)
    ultimately show ?thesis using u by (simp add: wrote_def)
  qed
  let ?u = "env_step P s"
  have u: "s_tx ?u = tx" "etl_inv tx (g_locks (s_glob ?u))"
    "same_covered tx (g_mem (s_glob s)) (g_mem (s_glob ?u))"
    using rely_env(1) [OF r inv] same_covered_env [OF r inv] tx by simp_all
  show ?thesis
    using final [OF tx inv same_covered_refl] final [OF u] tx
    by (cases "we_mask (tx_ws tx ! i) = 0"; cases "m = - 1")
      (simp_all add: wbetl_update_entry_def Let_def view)
qed

lemma write_owned:
  assumes inv: "etl_inv tx (g_locks (s_glob s))" and tx: "s_tx s = tx" and r: "rely P tx"
    and room: "length (tx_ws tx) < tx_ws_size tx"
    and i: "covered_from (tx_ws tx) (GET_LOCK a) 0 = Some i"
  shows "wp (wbetl_write_owned P rb (LOCK_GET_ADDR (own_word tx i)) a v m) s
           (\<lambda>r t. wrote tx (g_mem (s_glob s)) a v m t) never"
proof -
  have i_len: "i < length (tx_ws tx)" and pl: "ws_placed tx"
    using i inv by (simp_all add: covered_from_Some etl_inv_def)
  then have ix: "we_index tx (LOCK_GET_ADDR (own_word tx i)) = i" by (simp add: own_word_facts)
  have cov: "covered tx (GET_LOCK a)" using i by (simp add: covered_def)
  show ?thesis
  proof (cases "m = 0")
    case True
    then show ?thesis
      using inv tx cov by (simp add: wbetl_write_owned_def wrote_def writes_zero)
  next
    case m: False
    obtain j where j: "chase (Suc (length (tx_ws tx))) (tx_ws tx) a i = Some (j, stm_has_written tx a \<noteq> None)"
        "j < length (tx_ws tx)" "we_lock (tx_ws tx ! j) = GET_LOCK a"
        "stm_has_written tx a \<noteq> None \<longrightarrow> stm_has_written tx a = Some j"
        "stm_has_written tx a = None \<longrightarrow> covered_from (tx_ws tx) (GET_LOCK a) (Suc j) = None"
      using chase_viewE [OF inv i] .
    show ?thesis
    proof (cases "stm_has_written tx a")
      case (Some j')
      then have "stm_has_written tx a = Some j" using j(4) by simp
      from update_entry [OF inv tx r this m] show ?thesis
        using tx m j(1) Some by (simp add: wbetl_write_owned_def ix del: chase.simps)
    next
      case None
      let ?e = "\<lparr>we_addr = a, we_value = 0, we_mask = 0, we_version = we_version (tx_ws tx ! j),
         we_lock = GET_LOCK a, we_next = None, we_no_drop = False\<rparr>"
      have "last_covered (tx_ws tx) (GET_LOCK a) (Some j)"
        using j None by (simp add: last_covered_def)
      then have "etl_inv (tx\<lparr>tx_ws := link_entry (Some j) ?e (tx_ws tx)\<rparr>) (g_locks (s_glob s))"
        using etl_inv_link [OF inv room None, of ?e "Some j" "g_locks (s_glob s)"] by simp
      from do_write [OF this tx r None] show ?thesis
        using tx m j(1) None room by (simp add: wbetl_write_owned_def ix del: chase.simps)
    qed
  qed
qed

lemma acquire:
  assumes inv: "etl_inv tx (g_locks (s_glob u))" and tx: "s_tx u = tx" and r: "rely P tx"
    and room: "length (tx_ws tx) < tx_ws_size tx"
    and free: "\<not> covered tx (GET_LOCK a)"
  shows "wp (wbetl_do_write P None a v m (GET_LOCK a) ver)
           (upd_glob (\<lambda>g. g\<lparr>g_locks := (g_locks g)(GET_LOCK a := own_word tx (length (tx_ws tx)))\<rparr>) u)
           (\<lambda>r t. wrote tx (g_mem (s_glob u)) a v m t) never"
proof -
  let ?e = "\<lparr>we_addr = a, we_value = 0, we_mask = 0, we_version = ver,
     we_lock = GET_LOCK a, we_next = None, we_no_drop = False\<rparr>"
  let ?locks = "(g_locks (s_glob u))(GET_LOCK a := own_word tx (length (tx_ws tx)))"
  have nw: "stm_has_written tx a = None"
    using inv free has_written_covered [of tx a] by (cases "stm_has_written tx a") (auto simp: etl_inv_def)
  have "last_covered (tx_ws tx) (GET_LOCK a) None"
    using free by (simp add: last_covered_def covered_def)
  then have "etl_inv (tx\<lparr>tx_ws := link_entry None ?e (tx_ws tx)\<rparr>) ?locks"
    using etl_inv_link [OF inv room nw, of ?e None ?locks] by simp
  then show ?thesis
    using do_write [OF _ _ r nw, of None ?e "upd_glob (\<lambda>g. g\<lparr>g_locks := ?locks\<rparr>) u" ver v m] tx
    by (simp add: upd_glob_def)
qed

text \<open>The whole loop; a rollback that returns makes the write return no entry.\<close>

lemma write_loop:
  assumes inv: "etl_inv tx (g_locks (s_glob s))" and tx: "s_tx s = tx" and r: "rely P tx"
    and room: "length (tx_ws tx) < tx_ws_size tx"
  shows "wp (wbetl_write_loop n P rb a v m) s
           (\<lambda>r t. r \<noteq> None \<longrightarrow> wrote tx (g_mem (s_glob s)) a v m t) anyhow"
  using inv tx
proof (induction n arbitrary: s)
  case 0
  then show ?case by simp
next
  case (Suc n)
  let ?u = "env_step P s" and ?k = "GET_LOCK a"
  have u: "s_tx ?u = tx" "etl_inv tx (g_locks (s_glob ?u))"
    "same_covered tx (g_mem (s_glob s)) (g_mem (s_glob ?u))"
    using rely_env(1) [OF r Suc.prems(1)] same_covered_env [OF r Suc.prems(1)] Suc.prems(2) by simp_all
  have pl: "ws_placed tx" and lw: "locks_wf tx (g_locks (s_glob ?u))"
    using u(2) by (simp_all add: etl_inv_def)
  let ?w = "env_step P ?u"
  have w: "s_tx ?w = tx" "etl_inv tx (g_locks (s_glob ?w))"
    "same_covered tx (g_mem (s_glob s)) (g_mem (s_glob ?w))"
    using rely_env(1) [OF r u(2)] same_covered_env [OF r u(2)] u(1,3) same_covered_trans by auto
  show ?case
  proof (cases "covered tx ?k")
    case True
    obtain i where i: "covered_from (tx_ws tx) ?k 0 = Some i" "i < length (tx_ws tx)"
      "g_locks (s_glob ?u) ?k = own_word tx i"
      using covered_first [OF u(2) True] .
    note own = own_word_facts [OF pl i(2)]
    have "wp (wbetl_write_owned P rb (LOCK_GET_ADDR (own_word tx i)) a v m) ?u
        (\<lambda>r t. r \<noteq> None \<longrightarrow> wrote tx (g_mem (s_glob s)) a v m t) anyhow"
      by (rule wp_mono [OF write_owned [OF u(2,1) r room i(1)]]) (auto intro: wrote_later [OF u(3)])
    then show ?thesis using i(3) own Suc.prems(2) by simp
  next
    case False
    let ?l = "g_locks (s_glob ?u) ?k"
    have not_ours: "\<not> (LOCK_GET_OWNED ?l \<noteq> 0 \<and> in_ws tx (LOCK_GET_ADDR ?l))"
      using locks_wf_test [OF pl lw] False by blast
    have again: "wp (wbetl_write_loop n P rb a v m) x
        (\<lambda>r t. r \<noteq> None \<longrightarrow> wrote tx (g_mem (s_glob s)) a v m t) anyhow"
      if x: "s_tx x = tx" "etl_inv tx (g_locks (s_glob x))"
        "same_covered tx (g_mem (s_glob s)) (g_mem (s_glob x))" for x
      by (rule wp_mono [OF Suc.IH [OF x(2,1)]]) (auto intro: wrote_later [OF x(3)])
    have rb: "wp (rb c) x (\<lambda>_ t. True) anyhow" for c x
      by (simp add: wp_def split: prod.split outcome.split)
    have got: "wp (wbetl_do_write P None a v m ?k (LOCK_GET_TIMESTAMP ?l))
        (upd_glob (\<lambda>g. g\<lparr>g_locks := (g_locks g)(?k := own_word tx (length (tx_ws tx)))\<rparr>) ?w)
        (\<lambda>r t. r \<noteq> None \<longrightarrow> wrote tx (g_mem (s_glob s)) a v m t) anyhow"
      by (rule wp_mono [OF acquire [OF w(2,1) r room False]]) (auto intro: wrote_later [OF w(3)])
    show ?thesis
      using not_ours again [OF u] again [OF w] rb got u(1) w(1) room
      by (auto simp: own_word_def)
  qed
qed

section \<open>Commit and rollback without interference\<close>

lemma wp_install:
  "quiet P \<Longrightarrow> wp (wbetl_install P t w) s Q E =
     (let u = (if we_mask w \<noteq> 0
               then upd_glob (\<lambda>g. g\<lparr>g_mem := (g_mem g)(we_addr w := we_value w)\<rparr>) (tock s) else s)
      in Q () (if we_next w = None
               then upd_glob (\<lambda>g. g\<lparr>g_locks := (g_locks g)(we_lock w := LOCK_SET_TIMESTAMP t)\<rparr>) (tock u)
               else u))"
  by (simp add: wbetl_install_def Let_def)

lemma wp_drop:
  "quiet P \<Longrightarrow> wp (wbetl_drop P w) s Q E =
     Q () (if we_next w = None
           then upd_glob (\<lambda>g. g\<lparr>g_locks := (g_locks g)(we_lock w := LOCK_SET_TIMESTAMP (we_version w))\<rparr>) (tock s)
           else s)"
  by (simp add: wbetl_drop_def)

lemma installs:
  assumes "quiet P"
  shows "wp (each_c (wbetl_install P t) ws) s
    (\<lambda>_ u. s_tx u = s_tx s \<and> s_cur u = s_cur s \<and> s_nalloc u = s_nalloc s \<and>
       s_glob u = (s_glob s)\<lparr>g_mem := install ws (g_mem (s_glob s)),
          g_locks := release (\<lambda>_. LOCK_SET_TIMESTAMP t) ws (g_locks (s_glob s))\<rparr>) never"
proof (induction ws arbitrary: s)
  case Nil
  then show ?case by simp
next
  case (Cons w ws)
  show ?case
    using assms by (auto simp: wp_install Let_def fun_upd_def cong: if_cong intro!: wp_mono [OF Cons.IH])
qed

lemma drops:
  assumes "quiet P"
  shows "wp (each_c (wbetl_drop P) ws) s
    (\<lambda>_ u. s_tx u = s_tx s \<and> s_cur u = s_cur s \<and> s_nalloc u = s_nalloc s \<and>
       s_glob u = (s_glob s)\<lparr>g_locks :=
          release (\<lambda>w. LOCK_SET_TIMESTAMP (we_version w)) ws (g_locks (s_glob s))\<rparr>) never"
proof (induction ws arbitrary: s)
  case Nil
  then show ?case by simp
next
  case (Cons w ws)
  show ?case
    using assms by (auto simp: wp_drop fun_upd_def cong: if_cong intro!: wp_mono [OF Cons.IH])
qed

text \<open>The shared state after a rollback: every lock it held free with the version before.\<close>

definition rolled_back :: "stm_tx \<Rightarrow> glob \<Rightarrow> glob" where
  "rolled_back tx g = g\<lparr>g_locks := (\<lambda>k. case covered_from (tx_ws tx) k 0 of
       Some i \<Rightarrow> LOCK_SET_TIMESTAMP (we_version (tx_ws tx ! i)) | None \<Rightarrow> g_locks g k)\<rparr>"

lemma commit_quiet:
  assumes q: "quiet P" and inv: "etl_inv (s_tx s) (g_locks (s_glob s))" and ok: "may_commit (s_tx s) (s_glob s)"
  shows "wp (stm_wbetl_commit n P) s
    (\<lambda>r t. r \<and> s_tx t = s_tx s \<and> s_cur t = s_cur s \<and> s_nalloc t = s_nalloc s
       \<and> s_glob t = committed (s_tx s) (s_glob s)) never"
proof -
  let ?tx = "s_tx s" and ?g = "s_glob s"
  have d: "distinct (map we_addr (tx_ws ?tx))" using inv by (simp add: etl_inv_def)
  have fin: "wp (each_c (wbetl_install P (g_clock ?g + 1)) (tx_ws ?tx)) u
      (\<lambda>_ t. s_tx t = ?tx \<and> s_cur t = s_cur s \<and> s_nalloc t = s_nalloc s \<and> s_glob t = committed ?tx ?g) never"
    if "s_tx u = ?tx" "s_cur u = s_cur s" "s_nalloc u = s_nalloc s"
      "s_glob u = ?g\<lparr>g_clock := g_clock ?g + 1\<rparr>" for u
    by (rule wp_mono [OF installs [OF q]])
      (simp_all add: that committed_def install_view [OF d] release_all [OF inv])
  have val: "wp (stm_wbetl_validate P) u
      (\<lambda>b t. b = (\<forall>r \<in> set (tx_rs ?tx). read_valid ?tx (g_locks ?g) r) \<and> ticked u t) never"
    if "s_tx u = ?tx" "g_locks (s_glob u) = g_locks ?g" for u
    using wbetl_validate_quiet [OF q, of u] that by simp
  show ?thesis
    using q ok unfolding stm_wbetl_commit_def may_commit_def
    by (auto simp: Let_def intro!: fin wp_mono [OF val] simp: ticked_def)
qed

lemma release_versions:
  assumes "etl_inv tx locks"
  shows "release (\<lambda>w. LOCK_SET_TIMESTAMP (we_version w)) (tx_ws tx) l =
    (\<lambda>k. case covered_from (tx_ws tx) k 0 of
       Some i \<Rightarrow> LOCK_SET_TIMESTAMP (we_version (tx_ws tx ! i)) | None \<Rightarrow> l k)"
proof
  fix k
  have wf: "ws_wf (tx_ws tx)" using assms by (simp add: etl_inv_def)
  show "release (\<lambda>w. LOCK_SET_TIMESTAMP (we_version w)) (tx_ws tx) l k =
    (case covered_from (tx_ws tx) k 0 of
       None \<Rightarrow> l k | Some i \<Rightarrow> LOCK_SET_TIMESTAMP (we_version (tx_ws tx ! i)))"
    by (rule release_covered [OF wf]) (metis version_of_lock [OF wf])
qed

lemma rollback_quiet:
  assumes q: "quiet P" and inv: "etl_inv (s_tx s) (g_locks (s_glob s))"
    and act: "IS_ACTIVE (tx_status (s_tx s))"
  shows "wp (stm_wbetl_rollback P) s
    (\<lambda>_ t. s_tx t = s_tx s \<and> s_cur t = s_cur s \<and> s_nalloc t = s_nalloc s
       \<and> s_glob t = rolled_back (s_tx s) (s_glob s)) never"
  using act by (auto simp: stm_wbetl_rollback_def rolled_back_def release_versions [OF inv]
      intro!: wp_mono [OF drops [OF q]])

section \<open>Properties\<close>

lemma sample_run_inv [simp]: "etl_inv (s_tx sample_run) (g_locks (s_glob sample_run))"
  by (simp add: sample_defs etl_inv_def ws_placed_def locks_wf_def covered_from_def mine_def lock_defs)

text \<open>C8: An encounter-time write that returns an entry leaves the transaction's invariant intact
  (chains, lock words, versions), owns the lock of the address, and changes what the transaction
  sees at that address alone, to the value under the mask.  This holds whatever other threads do
  to memory and locks this transaction does not own, on every restart of the loop.\<close>

theorem wbetl_write_correct:
  assumes "etl_inv (s_tx s) (g_locks (s_glob s))" "rely P (s_tx s)"
    "length (tx_ws (s_tx s)) < tx_ws_size (s_tx s)"
    "stm_wbetl_write n P a v m s = (Ret (Some i), t)"
  shows "etl_inv (s_tx t) (g_locks (s_glob t)) \<and> covered (s_tx t) (GET_LOCK a)
    \<and> (\<forall>b. wview (s_tx t) (g_mem (s_glob t)) b =
          (if b = a then merge_mask (wview (s_tx s) (g_mem (s_glob t)) a) v m
           else wview (s_tx s) (g_mem (s_glob t)) b))
    \<and> (\<forall>b. covered (s_tx s) (GET_LOCK b) \<longrightarrow> g_mem (s_glob t) b = g_mem (s_glob s) b)"
proof -
  have "wrote (s_tx s) (g_mem (s_glob s)) a v m t"
    using wp_RetD [OF write_loop [OF assms(1) refl assms(2,3)]] assms(4)
    unfolding stm_wbetl_write_def by blast
  then show ?thesis by (simp add: wrote_def writes_def same_covered_def)
qed

lemma wbetl_write_correct_witness:
  "\<exists>t. stm_wbetl_write 1 (sample_params WRITE_BACK_ETL) 64 9 (NOT 0) sample_run = (Ret (Some 0), t)
     \<and> covered (s_tx t) (GET_LOCK 64) \<and> wview (s_tx t) (g_mem (s_glob t)) 64 = 9"
proof -
  let ?P = "sample_params WRITE_BACK_ETL"
  have "wp (stm_wbetl_write 1 ?P 64 9 (NOT 0)) sample_run (\<lambda>r t. r = Some 0) never"
    by (simp add: stm_wbetl_write_def wbetl_do_write_def sample_defs lock_defs quiet_def)
  then obtain t where t: "stm_wbetl_write 1 ?P 64 9 (NOT 0) sample_run = (Ret (Some 0), t)"
    by (auto simp: wp_never)
  have "rely ?P (s_tx sample_run)" by (rule quiet_rely) simp
  moreover have "length (tx_ws (s_tx sample_run)) < tx_ws_size (s_tx sample_run)" by (simp add: sample_defs)
  ultimately show ?thesis using wbetl_write_correct [OF sample_run_inv _ _ t] t by simp
qed

text \<open>A read of an address whose lock the transaction holds returns, with one pass of the
  loop and under any interference with what others own, the pending value of the address or the
  memory under the lock, and leaves the descriptor alone.\<close>

theorem wbetl_read_own_writes:
  assumes "etl_inv (s_tx s) (g_locks (s_glob s))" "rely P (s_tx s)"
    "IS_ACTIVE (tx_status (s_tx s))" "covered (s_tx s) (GET_LOCK a)" "0 < n"
  shows "\<exists>t. stm_wbetl_read n P a s = (Ret (wview (s_tx s) (g_mem (s_glob s)) a), t) \<and> s_tx t = s_tx s"
  using read_covered [OF assms] by (auto simp: wp_never)

lemma wbetl_read_own_writes_witness:
  "\<exists>t. stm_wbetl_read 1 (sample_params WRITE_BACK_ETL) 64 sample_wrote = (Ret 9, t) \<and> s_tx t = s_tx sample_wrote"
  using wbetl_read_own_writes [OF sample_wrote_inv quiet_rely [OF sample_quiet], of 64 1 WRITE_BACK_ETL]
  by (simp add: sample_defs wview_def stm_has_written_def covered_def covered_from_def)

text \<open>C9: Without interference, a commit that is irrevocable or whose reads are valid returns 1,
  makes memory exactly what the transaction saw, advances the clock by one, and frees exactly its
  own locks with the new timestamp.\<close>

theorem wbetl_commit_installs_view:
  assumes "quiet P" "etl_inv (s_tx s) (g_locks (s_glob s))" "may_commit (s_tx s) (s_glob s)"
  shows "\<exists>t. stm_wbetl_commit n P s = (Ret True, t) \<and> s_tx t = s_tx s
    \<and> s_glob t = (s_glob s)\<lparr>g_clock := g_clock (s_glob s) + 1,
         g_mem := wview (s_tx s) (g_mem (s_glob s)),
         g_locks := (\<lambda>k. if covered (s_tx s) k then LOCK_SET_TIMESTAMP (g_clock (s_glob s) + 1)
                         else g_locks (s_glob s) k)\<rparr>"
  using commit_quiet [OF assms, of n] by (auto simp: wp_never committed_def)

lemma wbetl_commit_installs_view_witness:
  "\<exists>t. stm_wbetl_commit 1 (sample_params WRITE_BACK_ETL) sample_wrote = (Ret True, t)
     \<and> g_mem (s_glob t) 64 = 9 \<and> g_mem (s_glob t) 72 = 7 \<and> g_locks (s_glob t) 2 = LOCK_SET_TIMESTAMP 6"
proof -
  have "may_commit (s_tx sample_wrote) (s_glob sample_wrote)" by (simp add: may_commit_def sample_defs)
  from wbetl_commit_installs_view [OF sample_quiet sample_wrote_inv this, of 1 WRITE_BACK_ETL]
  show ?thesis by (auto simp: wview_def stm_has_written_def sample_defs covered_def covered_from_def)
qed

text \<open>C13: Rolling back leaves memory and the clock untouched and frees exactly the locks the
  transaction holds, each with the version it overwrote.\<close>

theorem wbetl_rollback_releases:
  assumes "quiet P" "etl_inv (s_tx s) (g_locks (s_glob s))" "IS_ACTIVE (tx_status (s_tx s))"
  shows "\<exists>t. stm_wbetl_rollback P s = (Ret (), t) \<and> s_tx t = s_tx s
    \<and> s_glob t = (s_glob s)\<lparr>g_locks := (\<lambda>k. case covered_from (tx_ws (s_tx s)) k 0 of
         Some i \<Rightarrow> LOCK_SET_TIMESTAMP (we_version (tx_ws (s_tx s) ! i))
       | None \<Rightarrow> g_locks (s_glob s) k)\<rparr>"
  using rollback_quiet [OF assms] by (auto simp: wp_never rolled_back_def)

lemma wbetl_rollback_releases_witness:
  "\<exists>t. stm_wbetl_rollback (sample_params WRITE_BACK_ETL) sample_wrote = (Ret (), t)
     \<and> g_mem (s_glob t) 64 = 7 \<and> g_locks (s_glob t) 2 = 0"
  using wbetl_rollback_releases [OF sample_quiet sample_wrote_inv, of WRITE_BACK_ETL]
  by (auto simp: sample_defs covered_from_def lock_defs)

end
