(* ===== verification/Wbctl.thy ===== *)
theory Wbctl
  imports Wset
begin

text \<open>
  Write-back with commit-time locking (\<open>src/stm_wbctl.h\<close>): writes only go to the write set;
  commit acquires the locks from the last entry to the first, validates, copies the values
  under their masks to memory and releases the locks.  An entry whose lock an earlier
  acquisition already covers keeps \<open>no_drop\<close>, so that each lock is released once.
\<close>

section \<open>Reading\<close>

text \<open>
  After an extension the source reloads the lock into \<open>l\<close>, compares it with the older
  \<open>l2\<close>, and restarts with \<open>l2\<close>: here \<open>l = l2\<close> at that point, so the restart uses \<open>l\<close>.
\<close>

definition wbctl_read_done :: "params \<Rightarrow> w_entry option \<Rightarrow> w64 \<Rightarrow> w64 \<Rightarrow> w64 \<Rightarrow> w64 prog" where
  "wbctl_read_done P written version lock value =
    (let v = (case written of None \<Rightarrow> value | Some w \<Rightarrow> merge_mask value (we_value w) (we_mask w)) in
     bnd get_tx (\<lambda>tx.
       if at_read_only (tx_attr tx) then ret v
       else thn (add_to_read_set P version lock) (ret v)))"

primrec wbctl_read_loop ::
    "nat \<Rightarrow> params \<Rightarrow> (w64 \<Rightarrow> unit prog) \<Rightarrow> w_entry option \<Rightarrow> w64 \<Rightarrow> w64 option \<Rightarrow> w64 prog" where
  "wbctl_read_loop 0 P rb written addr lo = stop Diverge"
| "wbctl_read_loop (Suc n) P rb written addr lo =
     bnd (case lo of None \<Rightarrow> load_lock P (GET_LOCK addr) | Some l \<Rightarrow> ret l) (\<lambda>l.
     bnd get_tx (\<lambda>tx.
       if LOCK_GET_WRITE l \<noteq> 0 then wbctl_read_loop n P rb written addr None
       else
         bnd (load_mem P addr) (\<lambda>value.
         bnd (load_lock P (GET_LOCK addr)) (\<lambda>l2.
           if l \<noteq> l2 then wbctl_read_loop n P rb written addr (Some l2)
           else if tx_irrevocable tx \<noteq> 0 then ret value
           else if LOCK_GET_TIMESTAMP l > tx_end tx then
             bnd (if at_read_only (tx_attr tx) then ret False else stm_wbctl_extend P) (\<lambda>ok.
               if \<not> ok then thn (rb STM_ABORT_VAL_READ) (ret 0)
               else bnd (load_lock P (GET_LOCK addr)) (\<lambda>l3.
                 if l3 \<noteq> l2 then wbctl_read_loop n P rb written addr (Some l2)
                 else wbctl_read_done P written (LOCK_GET_TIMESTAMP l) (GET_LOCK addr) value))
           else wbctl_read_done P written (LOCK_GET_TIMESTAMP l) (GET_LOCK addr) value))))"

definition stm_wbctl_read :: "nat \<Rightarrow> params \<Rightarrow> w64 \<Rightarrow> w64 prog" where
  "stm_wbctl_read n P addr =
     thn (assert_c (\<lambda>s. IS_ACTIVE (tx_status (s_tx s))))
    (bnd get_tx (\<lambda>tx.
       case stm_has_written tx addr of
         None \<Rightarrow> wbctl_read_loop n P (stm_rollback n P) None addr None
       | Some i \<Rightarrow>
           (let w = tx_ws tx ! i in
            if we_mask w = NOT 0 then ret (we_value w)
            else wbctl_read_loop n P (stm_rollback n P) (Some w) addr None)))"

section \<open>Writing\<close>

definition wbctl_merge_entry :: "nat \<Rightarrow> w64 \<Rightarrow> w64 \<Rightarrow> unit prog" where
  "wbctl_merge_entry i value msk =
     set_tx (\<lambda>t. t\<lparr>tx_ws := (tx_ws t)[i := (tx_ws t ! i)
        \<lparr>we_value := merge_mask (we_value (tx_ws t ! i)) value msk,
         we_mask := we_mask (tx_ws t ! i) OR msk\<rparr>]\<rparr>)"

definition wbctl_add_entry :: "params \<Rightarrow> w64 \<Rightarrow> w64 \<Rightarrow> w64 \<Rightarrow> w64 \<Rightarrow> w64 \<Rightarrow> nat option prog" where
  "wbctl_add_entry P addr value msk lock version =
     bnd get_tx (\<lambda>tx.
       thn (when_c (length (tx_ws tx) = tx_ws_size tx) (stm_allocate_ws_entries P True))
      (thn (set_tx (\<lambda>t. t\<lparr>tx_ws := tx_ws t @
              [\<lparr>we_addr = addr, we_value = (if msk = 0 then 0 else value), we_mask = msk,
                we_version = version, we_lock = lock, we_next = None, we_no_drop = True\<rparr>]\<rparr>))
           (ret (Some (length (tx_ws tx))))))"

primrec wbctl_write_loop ::
    "nat \<Rightarrow> params \<Rightarrow> (w64 \<Rightarrow> unit prog) \<Rightarrow> w64 \<Rightarrow> w64 \<Rightarrow> w64 \<Rightarrow> nat option prog" where
  "wbctl_write_loop 0 P rb addr value msk = stop Diverge"
| "wbctl_write_loop (Suc n) P rb addr value msk =
     bnd (load_lock P (GET_LOCK addr)) (\<lambda>l.
     bnd get_tx (\<lambda>tx.
       if LOCK_GET_OWNED l \<noteq> 0 then wbctl_write_loop n P rb addr value msk
       else case stm_has_written tx addr of
         Some i \<Rightarrow> thn (wbctl_merge_entry i value msk) (ret (Some i))
       | None \<Rightarrow>
           if tx_irrevocable tx = 0 \<and> LOCK_GET_TIMESTAMP l > tx_end tx
              \<and> stm_has_read tx (GET_LOCK addr) \<noteq> None
           then thn (rb STM_ABORT_VAL_WRITE) (ret None)
           else wbctl_add_entry P addr value msk (GET_LOCK addr) (LOCK_GET_TIMESTAMP l)))"

definition stm_wbctl_write :: "nat \<Rightarrow> params \<Rightarrow> w64 \<Rightarrow> w64 \<Rightarrow> w64 \<Rightarrow> nat option prog" where
  "stm_wbctl_write n P addr value msk =
     wbctl_write_loop n P (stm_rollback n P) addr value msk"

section \<open>Optimised accesses\<close>

definition stm_wbctl_RaR :: "nat \<Rightarrow> params \<Rightarrow> w64 \<Rightarrow> w64 prog" where
  "stm_wbctl_RaR n P addr = stm_wbctl_read n P addr"

definition stm_wbctl_RaW :: "nat \<Rightarrow> params \<Rightarrow> w64 \<Rightarrow> w64 prog" where
  "stm_wbctl_RaW n P addr = stm_wbctl_read n P addr"

definition stm_wbctl_RfW :: "nat \<Rightarrow> params \<Rightarrow> w64 \<Rightarrow> w64 prog" where
  "stm_wbctl_RfW n P addr = stm_wbctl_read n P addr"

definition stm_wbctl_WaR :: "nat \<Rightarrow> params \<Rightarrow> w64 \<Rightarrow> w64 \<Rightarrow> w64 \<Rightarrow> unit prog" where
  "stm_wbctl_WaR n P addr value msk = bnd (stm_wbctl_write n P addr value msk) (\<lambda>_. ret ())"

definition stm_wbctl_WaW :: "w64 \<Rightarrow> w64 \<Rightarrow> w64 \<Rightarrow> unit prog" where
  "stm_wbctl_WaW addr value msk =
     bnd get_tx (\<lambda>tx.
       case stm_has_written tx addr of
         None \<Rightarrow> stop AssertFail
       | Some i \<Rightarrow> wbctl_merge_entry i value msk)"

section \<open>Commit\<close>

text \<open>Acquiring the lock of entry \<open>i\<close>; \<open>False\<close> when the transaction was rolled back.\<close>

primrec wbctl_acquire :: "nat \<Rightarrow> params \<Rightarrow> (w64 \<Rightarrow> unit prog) \<Rightarrow> nat \<Rightarrow> bool prog" where
  "wbctl_acquire 0 P rb i = stop Diverge"
| "wbctl_acquire (Suc n) P rb i =
     bnd get_tx (\<lambda>tx. let w = tx_ws tx ! i in
     bnd (load_lock P (we_lock w)) (\<lambda>l.
       if LOCK_GET_OWNED l \<noteq> 0 then
         (if in_ws tx (LOCK_GET_ADDR l) then ret True
          else if tx_irrevocable tx \<noteq> 0 then wbctl_acquire n P rb i
          else thn (rb STM_ABORT_WW_CONFLICT) (ret False))
       else
         bnd (cas_lock P (we_lock w) l (LOCK_SET_ADDR_WRITE (we_ptr tx i))) (\<lambda>won.
           if \<not> won then wbctl_acquire n P rb i
           else thn (set_tx (\<lambda>t. t\<lparr>tx_ws := (tx_ws t)[i := (tx_ws t ! i)
                        \<lparr>we_no_drop := False, we_version := LOCK_GET_TIMESTAMP l\<rparr>],
                      tx_count := Suc (tx_count t)\<rparr>))
                    (ret True))))"

fun wbctl_acquire_all :: "nat \<Rightarrow> params \<Rightarrow> (w64 \<Rightarrow> unit prog) \<Rightarrow> nat list \<Rightarrow> bool prog" where
  "wbctl_acquire_all n P rb [] = ret True"
| "wbctl_acquire_all n P rb (i # is) =
     bnd (wbctl_acquire n P rb i) (\<lambda>ok. if ok then wbctl_acquire_all n P rb is else ret False)"

definition wbctl_install :: "params \<Rightarrow> w64 \<Rightarrow> w_entry \<Rightarrow> unit prog" where
  "wbctl_install P t w =
     thn (if we_mask w = NOT 0 then store_mem P (we_addr w) (we_value w)
          else if we_mask w \<noteq> 0 then
            bnd (load_mem P (we_addr w)) (\<lambda>old.
              store_mem P (we_addr w) (merge_mask old (we_value w) (we_mask w)))
          else ret ())
         (when_c (\<not> we_no_drop w) (store_lock P (we_lock w) (LOCK_SET_TIMESTAMP t)))"

text \<open>The \<open>do ... while\<close> loop runs at least once: with an empty write set it leaves the array.\<close>

definition stm_wbctl_commit :: "nat \<Rightarrow> params \<Rightarrow> bool prog" where
  "stm_wbctl_commit n P =
     bnd get_tx (\<lambda>tx.
     bnd (if tx_ws tx = [] then stop Undef
          else wbctl_acquire_all n P (stm_rollback n P) (rev [0..<length (tx_ws tx)])) (\<lambda>got.
       if \<not> got then ret False
       else
         bnd (if tx_irrevocable tx = 0 then bnd (atomic_get P g_irrevocable) (\<lambda>v. ret (v \<noteq> 0))
              else ret False) (\<lambda>blocked.
           if blocked then thn (stm_rollback n P STM_ABORT_IRREVOCABLE) (ret False)
           else
             bnd (fetch_inc_clock P) (\<lambda>c. let t = c + 1 in
             bnd (if tx_irrevocable tx \<noteq> 0 then ret True
                  else if tx_start tx \<noteq> t - 1 then stm_wbctl_validate P else ret True) (\<lambda>ok.
               if \<not> ok then thn (stm_rollback n P STM_ABORT_VALIDATE) (ret False)
               else bnd get_tx (\<lambda>tx'. thn (each_c (wbctl_install P t) (tx_ws tx')) (ret True)))))))"

section \<open>Lemmas: the log\<close>

text \<open>What the transaction sees: the pending values merged over memory.\<close>

definition ctl_wview :: "stm_tx \<Rightarrow> (w64 \<Rightarrow> w64) \<Rightarrow> w64 \<Rightarrow> w64" where
  "ctl_wview tx mem a = (case stm_has_written tx a of
       Some i \<Rightarrow> merge_mask (mem a) (we_value (tx_ws tx ! i)) (we_mask (tx_ws tx ! i))
     | None \<Rightarrow> mem a)"

text \<open>Before the commit no entry holds its lock.\<close>

definition ctl_inv :: "stm_tx \<Rightarrow> bool" where
  "ctl_inv tx \<longleftrightarrow> ws_placed tx \<and> distinct (map we_addr (tx_ws tx)) \<and> tx_count tx = 0
     \<and> (\<forall>w \<in> set (tx_ws tx). we_lock w = GET_LOCK (we_addr w) \<and> we_no_drop w)"

text \<open>Entry \<open>i\<close> is the last one under its lock: the one whose acquisition takes the lock.\<close>

definition last_of :: "w_entry list \<Rightarrow> nat \<Rightarrow> bool" where
  "last_of ws i \<longleftrightarrow> covered_from ws (we_lock (ws ! i)) (Suc i) = None"

text \<open>The log and the locks once the entries from \<open>m\<close> on have been acquired.\<close>

definition mark :: "(w64 \<Rightarrow> w64) \<Rightarrow> nat \<Rightarrow> w_entry list \<Rightarrow> w_entry list" where
  "mark locks m ws = map (\<lambda>i. if m \<le> i \<and> last_of ws i
       then (ws ! i)\<lparr>we_no_drop := False, we_version := LOCK_GET_TIMESTAMP (locks (we_lock (ws ! i)))\<rparr>
       else ws ! i) [0..<length ws]"

definition holder :: "w_entry list \<Rightarrow> nat \<Rightarrow> w64 \<Rightarrow> nat option" where
  "holder ws m k = find (\<lambda>i. last_of ws i \<and> we_lock (ws ! i) = k) [m..<length ws]"

definition claim :: "stm_tx \<Rightarrow> nat \<Rightarrow> (w64 \<Rightarrow> w64) \<Rightarrow> w64 \<Rightarrow> w64" where
  "claim tx m locks k = (case holder (tx_ws tx) m k of Some i \<Rightarrow> own_word tx i | None \<Rightarrow> locks k)"

definition acquired :: "w_entry list \<Rightarrow> nat \<Rightarrow> nat" where
  "acquired ws m = length (filter (last_of ws) [m..<length ws])"

definition staged :: "nat \<Rightarrow> st \<Rightarrow> st \<Rightarrow> bool" where
  "staged m s t \<longleftrightarrow> s_cur t = s_cur s
     \<and> s_glob t = (s_glob s)\<lparr>g_locks := claim (s_tx s) m (g_locks (s_glob s))\<rparr>
     \<and> s_tx t = (s_tx s)\<lparr>tx_ws := mark (g_locks (s_glob s)) m (tx_ws (s_tx s)),
          tx_count := acquired (tx_ws (s_tx s)) m\<rparr>"

lemma mark_length [simp]: "length (mark locks m ws) = length ws"
  by (simp add: mark_def)

lemma mark_nth: "i < length ws \<Longrightarrow> mark locks m ws ! i = (if m \<le> i \<and> last_of ws i
    then (ws ! i)\<lparr>we_no_drop := False, we_version := LOCK_GET_TIMESTAMP (locks (we_lock (ws ! i)))\<rparr> else ws ! i)"
  by (simp add: mark_def)

lemma mark_lock [simp]: "i < length ws \<Longrightarrow> we_lock (mark locks m ws ! i) = we_lock (ws ! i)"
  by (simp add: mark_nth)

lemma holder_Some:
  "holder ws m k = Some i \<Longrightarrow> m \<le> i \<and> i < length ws \<and> last_of ws i \<and> we_lock (ws ! i) = k"
  by (auto simp: holder_def find_Some_iff nth_upt)

lemma holder_None: "holder ws m k = None \<longleftrightarrow> (\<forall>i. m \<le> i \<and> i < length ws \<and> we_lock (ws ! i) = k \<longrightarrow> \<not> last_of ws i)"
  by (auto simp: holder_def find_None_iff)

lemma holder_here: "m < length ws \<Longrightarrow> last_of ws m \<Longrightarrow> holder ws m (we_lock (ws ! m)) = Some m"
  by (simp add: holder_def upt_conv_Cons)

lemma holder_step: "m < length ws \<Longrightarrow> \<not> (last_of ws m \<and> we_lock (ws ! m) = k) \<Longrightarrow> holder ws m k = holder ws (Suc m) k"
  by (auto simp: holder_def upt_conv_Cons)

text \<open>An entry that is not the last of its lock finds the lock taken by a later one.\<close>

lemma holder_later:
  assumes "i < length ws" "\<not> last_of ws i"
  shows "holder ws (Suc i) (we_lock (ws ! i)) \<noteq> None"
proof -
  let ?k = "we_lock (ws ! i)"
  let ?I = "{j. Suc i \<le> j \<and> j < length ws \<and> we_lock (ws ! j) = ?k}"
  have "?I \<noteq> {}" using assms by (auto simp: last_of_def covered_from_None)
  moreover have "finite ?I" by simp
  ultimately obtain j where j: "j \<in> ?I" "\<And>l. l \<in> ?I \<Longrightarrow> l \<le> j"
    using Max_in [of ?I] Max_ge [of ?I] by blast
  have "we_lock (ws ! l) \<noteq> we_lock (ws ! j)" if "Suc j \<le> l" "l < length ws" for l
  proof
    assume "we_lock (ws ! l) = we_lock (ws ! j)"
    then have "l \<in> ?I" using that j(1) by auto
    then show False using j(2) that(1) by (meson not_less_eq_eq)
  qed
  then have "last_of ws j" by (simp add: last_of_def covered_from_None)
  then show ?thesis using j(1) by (auto simp: holder_None)
qed

lemma mark_step:
  assumes "m < length ws"
  shows "mark locks m ws = (if last_of ws m
    then (mark locks (Suc m) ws)[m := (ws ! m)\<lparr>we_no_drop := False,
           we_version := LOCK_GET_TIMESTAMP (locks (we_lock (ws ! m)))\<rparr>]
    else mark locks (Suc m) ws)"
proof (rule nth_equalityI)
  fix i
  assume "i < length (mark locks m ws)"
  then show "mark locks m ws ! i = (if last_of ws m
    then (mark locks (Suc m) ws)[m := (ws ! m)\<lparr>we_no_drop := False,
           we_version := LOCK_GET_TIMESTAMP (locks (we_lock (ws ! m)))\<rparr>]
    else mark locks (Suc m) ws) ! i"
    by (cases "i = m") (auto simp: mark_nth nth_list_update Suc_le_eq)
qed simp

lemma acquired_step:
  "m < length ws \<Longrightarrow> acquired ws m = (if last_of ws m then Suc (acquired ws (Suc m)) else acquired ws (Suc m))"
  by (simp add: acquired_def upt_conv_Cons)

lemma holder_last: "last_of ws m \<Longrightarrow> holder ws (Suc m) (we_lock (ws ! m)) = None"
  by (auto simp: holder_None last_of_def covered_from_None)

lemma claim_step:
  assumes "m < length (tx_ws tx)" "last_of (tx_ws tx) m"
  shows "claim tx m locks = (claim tx (Suc m) locks)(we_lock (tx_ws tx ! m) := own_word tx m)"
proof
  fix k
  show "claim tx m locks k = ((claim tx (Suc m) locks)(we_lock (tx_ws tx ! m) := own_word tx m)) k"
    using assms holder_here [OF assms] holder_step [OF assms(1), of k]
    by (cases "k = we_lock (tx_ws tx ! m)") (auto simp: claim_def)
qed

lemma claim_same:
  assumes "m < length (tx_ws tx)" "\<not> last_of (tx_ws tx) m"
  shows "claim tx m locks = claim tx (Suc m) locks"
  using assms holder_step [OF assms(1)] by (intro ext) (simp add: claim_def)

section \<open>Lemmas: committing\<close>

lemma acquire_one:
  assumes q: "quiet P" and pl: "ws_placed (s_tx s)" and m: "m < length (tx_ws (s_tx s))" and n: "0 < n"
    and free: "\<And>k. LOCK_GET_OWNED (g_locks (s_glob s) k) = 0"
    and st: "staged (Suc m) s t"
  shows "wp (wbctl_acquire n P rb m) t (\<lambda>r u. r \<and> staged m s u) never"
proof -
  obtain n' where n': "n = Suc n'" using n by (cases n) simp_all
  let ?tx = "s_tx s" and ?ws = "tx_ws (s_tx s)" and ?l = "g_locks (s_glob s)"
  let ?k = "we_lock (?ws ! m)"
  have t: "s_cur t = s_cur s" "s_glob t = (s_glob s)\<lparr>g_locks := claim ?tx (Suc m) ?l\<rparr>"
    "s_tx t = ?tx\<lparr>tx_ws := mark ?l (Suc m) ?ws, tx_count := acquired ?ws (Suc m)\<rparr>"
    using st by (simp_all add: staged_def)
  have own: "own_word (s_tx t) i = own_word ?tx i" for i by (rule fun_cong [OF own_word_cong]) (simp add: t)
  have entry: "tx_ws (s_tx t) ! m = ?ws ! m" using m by (simp add: t mark_nth)
  show ?thesis
  proof (cases "last_of ?ws m")
    case True
    have lock: "g_locks (s_glob t) ?k = ?l ?k" by (simp add: t claim_def holder_last [OF True])
    have "staged m s (upd_tx (\<lambda>t. t\<lparr>tx_ws := (tx_ws t)[m := (tx_ws t ! m)\<lparr>we_no_drop := False,
          we_version := LOCK_GET_TIMESTAMP (?l ?k)\<rparr>], tx_count := Suc (tx_count t)\<rparr>)
        (upd_glob (\<lambda>g. g\<lparr>g_locks := (g_locks g)(?k := own_word (s_tx t) m)\<rparr>) (tock (tock t))))"
      using True m by (simp add: staged_def t claim_step mark_step [OF m] acquired_step mark_nth own_word_def we_ptr_def)
    then show ?thesis
      using q free lock by (simp add: n' Let_def entry own_word_def)
  next
    case False
    obtain i where i: "holder ?ws (Suc m) ?k = Some i" using holder_later [OF m False] by blast
    then have il: "i < length ?ws" by (simp add: holder_Some)
    have pt: "ws_placed (s_tx t)" using pl by (simp add: t ws_placed_def)
    have il': "i < length (tx_ws (s_tx t))" using il by (simp add: t)
    have lock: "g_locks (s_glob t) ?k = own_word (s_tx t) i" by (simp add: t own claim_def i own_word_def we_ptr_def)
    have "staged m s (tock t)"
      using False m st by (simp add: staged_def claim_same mark_step [OF m] acquired_step)
    then show ?thesis
      using q own_word_facts [OF pt il'] lock by (simp add: n' Let_def entry)
  qed
qed

lemma acquire_all:
  assumes q: "quiet P" and pl: "ws_placed (s_tx s)" and n: "0 < n"
    and free: "\<And>k. LOCK_GET_OWNED (g_locks (s_glob s) k) = 0"
  shows "m \<le> j \<Longrightarrow> j \<le> length (tx_ws (s_tx s)) \<Longrightarrow> staged j s t \<Longrightarrow>
    wp (wbctl_acquire_all n P rb (rev [m..<j])) t (\<lambda>r u. r \<and> staged m s u) never"
proof (induction j arbitrary: t)
  case 0
  then show ?case by simp
next
  case (Suc j)
  show ?case
  proof (cases "m = Suc j")
    case True
    then show ?thesis using Suc.prems(3) by simp
  next
    case False
    then have m: "m \<le> j" using Suc.prems(1) by simp
    have "wp (wbctl_acquire n P rb j) t (\<lambda>r u. r \<and> staged j s u) never"
      by (rule acquire_one [OF q pl _ n free Suc.prems(3)]) (use Suc.prems(2) in simp)
    then have "wp (wbctl_acquire n P rb j) t
        (\<lambda>r u. wp (if r then wbctl_acquire_all n P rb (rev [m..<j]) else ret False) u (\<lambda>r u. r \<and> staged m s u) never) never"
      by (rule wp_mono) (use Suc.IH [OF m] Suc.prems(2) in auto)
    then show ?thesis using m by simp
  qed
qed

lemma staged_start: "tx_count (s_tx s) = 0 \<Longrightarrow> staged (length (tx_ws (s_tx s))) s s"
proof -
  assume c: "tx_count (s_tx s) = 0"
  have "mark l (length ws) ws = ws" for l ws by (rule nth_equalityI) (simp_all add: mark_nth)
  moreover have "claim tx (length (tx_ws tx)) l = l" for tx l
    by (rule ext) (simp add: claim_def holder_def)
  ultimately show ?thesis using c by (simp add: staged_def acquired_def)
qed

definition ctl_install :: "w_entry list \<Rightarrow> (w64 \<Rightarrow> w64) \<Rightarrow> w64 \<Rightarrow> w64" where
  "ctl_install ws mem =
     fold (\<lambda>w m. m(we_addr w := merge_mask (m (we_addr w)) (we_value w) (we_mask w))) ws mem"

definition ctl_release :: "(w_entry \<Rightarrow> w64) \<Rightarrow> w_entry list \<Rightarrow> (w64 \<Rightarrow> w64) \<Rightarrow> w64 \<Rightarrow> w64" where
  "ctl_release f ws locks = fold (\<lambda>w l. if we_no_drop w then l else l(we_lock w := f w)) ws locks"

lemma ctl_install_rec [simp]:
  "ctl_install [] mem = mem"
  "ctl_install (w # ws) mem = ctl_install ws (mem(we_addr w := merge_mask (mem (we_addr w)) (we_value w) (we_mask w)))"
  by (simp_all add: ctl_install_def)

lemma ctl_release_rec [simp]:
  "ctl_release f [] locks = locks"
  "ctl_release f (w # ws) locks = ctl_release f ws (if we_no_drop w then locks else locks(we_lock w := f w))"
  by (simp_all add: ctl_release_def)

lemma ctl_release_const:
  "ctl_release (\<lambda>_. v) ws l k = (if \<exists>w \<in> set ws. \<not> we_no_drop w \<and> we_lock w = k then v else l k)"
  by (induction ws arbitrary: l) auto

lemma ctl_install_other: "a \<notin> we_addr ` set ws \<Longrightarrow> ctl_install ws mem a = mem a"
  by (induction ws arbitrary: mem) simp_all

lemma ctl_install_find:
  "distinct (map we_addr ws) \<Longrightarrow> ctl_install ws mem a =
     (case find_index a ws i of
        Some j \<Rightarrow> merge_mask (mem a) (we_value (ws ! (j - i))) (we_mask (ws ! (j - i)))
      | None \<Rightarrow> mem a)"
proof (induction ws arbitrary: mem i)
  case Nil
  then show ?case by simp
next
  case (Cons w ws)
  show ?case
  proof (cases "we_addr w = a")
    case True
    then show ?thesis using Cons.prems by (auto simp: ctl_install_other)
  next
    case False
    have "\<exists>k. j - i = Suc k \<and> j - Suc i = k" if "find_index a ws (Suc i) = Some j" for j
      using find_index_Some [OF that] by auto
    then show ?thesis
      using False Cons.IH [of _ "Suc i"] Cons.prems by (auto split: option.split)
  qed
qed

lemma ctl_install_view: "distinct (map we_addr (tx_ws tx)) \<Longrightarrow> ctl_install (tx_ws tx) mem = ctl_wview tx mem"
  by (rule ext) (simp add: ctl_install_find [of _ _ _ 0] ctl_wview_def stm_has_written_def split: option.split)

lemma mark_fields: "map we_addr (mark l m ws) = map we_addr ws" "map we_value (mark l m ws) = map we_value ws"
  "map we_mask (mark l m ws) = map we_mask ws"
  by (rule nth_equalityI; simp add: mark_nth)+

lemma ctl_install_cong:
  "map we_addr ws = map we_addr vs \<Longrightarrow> map we_value ws = map we_value vs \<Longrightarrow> map we_mask ws = map we_mask vs \<Longrightarrow>
     ctl_install ws mem = ctl_install vs mem"
proof (induction ws arbitrary: vs mem)
  case (Cons w ws)
  then obtain v us where "vs = v # us" "we_addr w = we_addr v" "we_value w = we_value v" "we_mask w = we_mask v"
    "map we_addr ws = map we_addr us" "map we_value ws = map we_value us" "map we_mask ws = map we_mask us"
    by (cases vs) auto
  with Cons.IH [of us] show ?case by simp
qed simp

lemma wp_ctl_install:
  "quiet P \<Longrightarrow> \<exists>u. ticked s u \<and> wp (wbctl_install P t w) s Q E =
     Q () (let v = upd_glob (\<lambda>g. g\<lparr>g_mem := (g_mem g)(we_addr w :=
                merge_mask (g_mem g (we_addr w)) (we_value w) (we_mask w))\<rparr>) u
           in if we_no_drop w then v
              else upd_glob (\<lambda>g. g\<lparr>g_locks := (g_locks g)(we_lock w := LOCK_SET_TIMESTAMP t)\<rparr>) (tock v))"
proof -
  assume q: "quiet P"
  have same: "upd_glob (\<lambda>g. g) s = s" for s :: st
    by (simp add: upd_glob_def)
  consider "we_mask w = - 1" | "we_mask w = 0" | "we_mask w \<noteq> - 1" "we_mask w \<noteq> 0" by blast
  then show ?thesis
  proof cases
    case 1
    then show ?thesis using q by (intro exI [of _ "tock s"]) (simp add: wbctl_install_def Let_def)
  next
    case 2
    then show ?thesis using q by (intro exI [of _ s]) (simp add: wbctl_install_def Let_def same)
  next
    case 3
    then show ?thesis using q
      by (intro exI [of _ "tock (tock s)"]) (simp add: wbctl_install_def Let_def upd_glob_def)
  qed
qed

lemma ctl_installs:
  assumes "quiet P"
  shows "wp (each_c (wbctl_install P t) ws) s
    (\<lambda>_ u. s_tx u = s_tx s \<and> s_cur u = s_cur s \<and>
       s_glob u = (s_glob s)\<lparr>g_mem := ctl_install ws (g_mem (s_glob s)),
          g_locks := ctl_release (\<lambda>_. LOCK_SET_TIMESTAMP t) ws (g_locks (s_glob s))\<rparr>) never"
proof (induction ws arbitrary: s)
  case Nil
  then show ?case by simp
next
  case (Cons w ws)
  let ?Q = "\<lambda>_ u. s_tx u = s_tx s \<and> s_cur u = s_cur s \<and>
       s_glob u = (s_glob s)\<lparr>g_mem := ctl_install (w # ws) (g_mem (s_glob s)),
          g_locks := ctl_release (\<lambda>_. LOCK_SET_TIMESTAMP t) (w # ws) (g_locks (s_glob s))\<rparr>"
  let ?R = "\<lambda>_ v. wp (each_c (wbctl_install P t) ws) v ?Q never"
  obtain u where u: "ticked s u" "wp (wbctl_install P t w) s ?R never =
     ?R () (let v = upd_glob (\<lambda>g. g\<lparr>g_mem := (g_mem g)(we_addr w :=
                merge_mask (g_mem g (we_addr w)) (we_value w) (we_mask w))\<rparr>) u
           in if we_no_drop w then v
              else upd_glob (\<lambda>g. g\<lparr>g_locks := (g_locks g)(we_lock w := LOCK_SET_TIMESTAMP t)\<rparr>) (tock v))"
    using wp_ctl_install [OF assms, of s t w ?R never] by blast
  have "?R () (let v = upd_glob (\<lambda>g. g\<lparr>g_mem := (g_mem g)(we_addr w :=
                merge_mask (g_mem g (we_addr w)) (we_value w) (we_mask w))\<rparr>) u
           in if we_no_drop w then v
              else upd_glob (\<lambda>g. g\<lparr>g_locks := (g_locks g)(we_lock w := LOCK_SET_TIMESTAMP t)\<rparr>) (tock v))"
    by (rule wp_mono [OF Cons.IH]) (use u(1) in \<open>auto simp: ticked_def Let_def\<close>)
  then show ?case using u(2) by simp
qed

text \<open>When a commit may go through, and the shared state it leaves.\<close>

definition ctl_may_commit :: "stm_tx \<Rightarrow> glob \<Rightarrow> bool" where
  "ctl_may_commit tx g \<longleftrightarrow> tx_irrevocable tx \<noteq> 0 \<or>
     (g_irrevocable g = 0 \<and> (tx_start tx = g_clock g \<or>
        (\<forall>r \<in> set (tx_rs tx). LOCK_GET_TIMESTAMP (g_locks g (re_lock r)) = re_version r)))"

definition ctl_committed :: "stm_tx \<Rightarrow> glob \<Rightarrow> glob" where
  "ctl_committed tx g = g\<lparr>g_clock := g_clock g + 1, g_mem := ctl_wview tx (g_mem g),
     g_locks := (\<lambda>k. if covered tx k then LOCK_SET_TIMESTAMP (g_clock g + 1) else g_locks g k)\<rparr>"

lemma holder_covered: "holder (tx_ws tx) 0 k \<noteq> None \<longleftrightarrow> covered tx k"
proof
  assume "holder (tx_ws tx) 0 k \<noteq> None"
  then show "covered tx k" by (auto dest!: holder_Some simp: covered_def covered_from_None)
next
  assume "covered tx k"
  then obtain i where i: "i < length (tx_ws tx)" "we_lock (tx_ws tx ! i) = k"
    by (auto simp: covered_def covered_from_Some)
  show "holder (tx_ws tx) 0 k \<noteq> None"
  proof (cases "last_of (tx_ws tx) i")
    case True
    then show ?thesis using i by (auto simp: holder_None)
  next
    case False
    from holder_later [OF i(1) this] i(2) show ?thesis by (auto simp: holder_None)
  qed
qed

text \<open>With the locks held, validation compares every read with the version before the commit.\<close>

lemma staged_valid:
  assumes pl: "ws_placed (s_tx s)" and free: "\<And>k. LOCK_GET_OWNED (g_locks (s_glob s) k) = 0"
    and st: "staged 0 s t"
  shows "ctl_read_valid (s_tx t) (g_locks (s_glob t)) r \<longleftrightarrow>
    LOCK_GET_TIMESTAMP (g_locks (s_glob s) (re_lock r)) = re_version r"
proof -
  let ?ws = "tx_ws (s_tx s)" and ?l = "g_locks (s_glob s)" and ?k = "re_lock r"
  have t: "g_locks (s_glob t) = claim (s_tx s) 0 ?l" "tx_ws (s_tx t) = mark ?l 0 ?ws"
    "own_word (s_tx t) = own_word (s_tx s)" "ws_placed (s_tx t)"
    using st pl own_word_cong [of "s_tx t" "s_tx s"] by (simp_all add: staged_def ws_placed_def)
  show ?thesis
  proof (cases "holder ?ws 0 ?k")
    case None
    then show ?thesis using free by (simp add: ctl_read_valid_def t(1) claim_def Let_def)
  next
    case (Some i)
    then have i: "i < length ?ws" "last_of ?ws i" "we_lock (?ws ! i) = ?k" by (auto dest!: holder_Some)
    have "g_locks (s_glob t) ?k = own_word (s_tx t) i" using Some by (simp add: t claim_def)
    then show ?thesis
      using i own_word_facts [OF t(4), of i] by (simp add: ctl_read_valid_def Let_def t(2) mark_nth)
  qed
qed

lemma staged_released:
  assumes nd: "\<forall>w \<in> set (tx_ws tx). we_no_drop w"
  shows "ctl_release (\<lambda>_. v) (mark locks 0 (tx_ws tx)) (claim tx 0 locks) =
    (\<lambda>k. if covered tx k then v else locks k)"
proof
  fix k
  let ?ws = "tx_ws tx"
  have "(\<exists>w \<in> set (mark locks 0 ?ws). \<not> we_no_drop w \<and> we_lock w = k) \<longleftrightarrow> holder ?ws 0 k \<noteq> None"
    using nd by (auto simp: holder_None in_set_conv_nth Bex_def mark_nth split: if_splits) (use nth_mem in blast)+
  then show "ctl_release (\<lambda>_. v) (mark locks 0 ?ws) (claim tx 0 locks) k = (if covered tx k then v else locks k)"
    using holder_covered [of tx k] by (auto simp: ctl_release_const claim_def)
qed

lemma ctl_commit_quiet:
  assumes q: "quiet P" and inv: "ctl_inv (s_tx s)" and n: "0 < n" and ne: "tx_ws (s_tx s) \<noteq> []"
    and free: "\<And>k. LOCK_GET_OWNED (g_locks (s_glob s) k) = 0"
    and may: "ctl_may_commit (s_tx s) (s_glob s)"
  shows "wp (stm_wbctl_commit n P) s
    (\<lambda>r t. r \<and> s_cur t = s_cur s \<and> (\<exists>ws c. s_tx t = (s_tx s)\<lparr>tx_ws := ws, tx_count := c\<rparr>)
       \<and> s_glob t = ctl_committed (s_tx s) (s_glob s)) never"
proof -
  let ?tx = "s_tx s" and ?g = "s_glob s" and ?ws = "tx_ws (s_tx s)"
  have pl: "ws_placed ?tx" and d: "distinct (map we_addr ?ws)" and c: "tx_count ?tx = 0"
    and nd: "\<forall>w \<in> set ?ws. we_no_drop w"
    using inv by (simp_all add: ctl_inv_def)
  let ?tx' = "?tx\<lparr>tx_ws := mark (g_locks ?g) 0 ?ws, tx_count := acquired ?ws 0\<rparr>"
  have acq: "wp (wbctl_acquire_all n P rb (rev [0..<length ?ws])) s (\<lambda>r t. r \<and> staged 0 s t) never" for rb
    by (rule acquire_all [OF q pl n free _ _ staged_start [OF c]]) simp_all
  let ?Q = "\<lambda>t. s_cur t = s_cur s \<and> (\<exists>ws c. s_tx t = ?tx\<lparr>tx_ws := ws, tx_count := c\<rparr>)
    \<and> s_glob t = ctl_committed ?tx ?g"
  have fin: "wp (each_c (wbctl_install P (g_clock ?g + 1)) (mark (g_locks ?g) 0 ?ws)) u (\<lambda>_. ?Q) never"
    if "s_tx u = ?tx'" "s_cur u = s_cur s"
      "s_glob u = ?g\<lparr>g_locks := claim ?tx 0 (g_locks ?g), g_clock := g_clock ?g + 1\<rparr>" for u
    by (rule wp_mono [OF ctl_installs [OF q]])
      (auto simp: that ctl_committed_def ctl_install_view [OF d, symmetric] staged_released [OF nd]
        ctl_install_cong [OF mark_fields])
  have val: "wp (stm_wbctl_validate P) u
      (\<lambda>b t. b = (\<forall>r \<in> set (tx_rs ?tx). LOCK_GET_TIMESTAMP (g_locks ?g (re_lock r)) = re_version r) \<and> ticked u t) never"
    if "s_tx u = s_tx t" "g_locks (s_glob u) = g_locks (s_glob t)" "staged 0 s t" for u t
    using wbctl_validate_quiet [OF q, of u] staged_valid [OF pl free that(3)] that(3)
    by (simp add: that(1,2)) (simp add: staged_def)
  let ?rest = "bnd (if tx_irrevocable ?tx = 0 then bnd (atomic_get P g_irrevocable) (\<lambda>v. ret (v \<noteq> 0))
              else ret False) (\<lambda>blocked.
           if blocked then thn (stm_rollback n P STM_ABORT_IRREVOCABLE) (ret False)
           else
             bnd (fetch_inc_clock P) (\<lambda>c. let t = c + 1 in
             bnd (if tx_irrevocable ?tx \<noteq> 0 then ret True
                  else if tx_start ?tx \<noteq> t - 1 then stm_wbctl_validate P else ret True) (\<lambda>ok.
               if \<not> ok then thn (stm_rollback n P STM_ABORT_VALIDATE) (ret False)
               else bnd get_tx (\<lambda>tx'. thn (each_c (wbctl_install P t) (tx_ws tx')) (ret True)))))"
  have rest: "wp ?rest t
      (\<lambda>r u. r \<and> ?Q u) never" if st: "staged 0 s t" for t
  proof -
    have t: "s_tx t = ?tx'" "s_cur t = s_cur s" "s_glob t = ?g\<lparr>g_locks := claim ?tx 0 (g_locks ?g)\<rparr>"
      using st by (simp_all add: staged_def)
    show ?thesis
      using q may unfolding ctl_may_commit_def
      by (auto simp: Let_def t ticked_def intro!: fin wp_mono [OF val [OF _ _ st]])
  qed
  have get: "wp (bnd get_tx f) s R never = wp (f ?tx) s R never" for f :: "stm_tx \<Rightarrow> bool prog" and R by simp
  have "wp (wbctl_acquire_all n P (stm_rollback n P) (rev [0..<length ?ws])) s
      (\<lambda>r t. wp (if \<not> r then ret False else ?rest) t (\<lambda>r u. r \<and> ?Q u) never) never"
    by (rule wp_mono [OF acq], elim conjE) (simp_all only: rest simp_thms if_False)
  then show ?thesis
    unfolding stm_wbctl_commit_def get by (simp only: ne if_False wp_bnd [where m = "wbctl_acquire_all _ _ _ _"])
qed

section \<open>Lemmas: rolling back\<close>

lemma ctl_release_none: "filter (\<lambda>w. \<not> we_no_drop w) ws = [] \<Longrightarrow> ctl_release f ws l = l"
  by (induction ws arbitrary: l) (auto split: if_splits)

lemma ctl_release_by:
  "(\<And>w. w \<in> set ws \<Longrightarrow> \<not> we_no_drop w \<Longrightarrow> we_lock w = k \<Longrightarrow> f w = v) \<Longrightarrow>
     ctl_release f ws l k = (if \<exists>w \<in> set ws. \<not> we_no_drop w \<and> we_lock w = k then v else l k)"
proof (induction ws arbitrary: l)
  case (Cons w ws)
  have IH: "ctl_release f ws l' k = (if \<exists>w \<in> set ws. \<not> we_no_drop w \<and> we_lock w = k then v else l' k)" for l'
    by (rule Cons.IH) (use Cons.prems in simp)
  show ?case using Cons.prems [of w] by (auto simp: IH)
qed simp

lemma ctl_drops:
  assumes q: "quiet P"
  shows "tx_count (s_tx s) = length (filter (\<lambda>w. \<not> we_no_drop w) ws) \<Longrightarrow> 0 < tx_count (s_tx s) \<Longrightarrow>
    wp (wbctl_drop_loop P ws) s (\<lambda>_ t. s_tx t = (s_tx s)\<lparr>tx_count := 0\<rparr> \<and> s_cur t = s_cur s
      \<and> s_glob t = (s_glob s)\<lparr>g_locks :=
          ctl_release (\<lambda>w. LOCK_SET_TIMESTAMP (we_version w)) ws (g_locks (s_glob s))\<rparr>) never"
proof (induction ws arbitrary: s)
  case Nil
  then show ?case by simp
next
  case (Cons w ws)
  show ?case
  proof (cases "we_no_drop w")
    case True
    then show ?thesis using q Cons.prems Cons.IH [of s] by simp
  next
    case False
    let ?u = "upd_glob (\<lambda>g. g\<lparr>g_locks := (g_locks g)(we_lock w := LOCK_SET_TIMESTAMP (we_version w))\<rparr>)
      (tock (upd_tx (\<lambda>t. t\<lparr>tx_count := tx_count t - 1\<rparr>) s))"
    have c: "tx_count (s_tx s) = Suc (length (filter (\<lambda>w. \<not> we_no_drop w) ws))"
      using Cons.prems(1) False by simp
    show ?thesis
    proof (cases "filter (\<lambda>w. \<not> we_no_drop w) ws = []")
      case True
      then show ?thesis using q False c by (simp add: ctl_release_none fun_upd_def cong: if_cong)
    next
      case rest: False
      have "wp (wbctl_drop_loop P ws) ?u (\<lambda>_ t. s_tx t = (s_tx s)\<lparr>tx_count := 0\<rparr> \<and> s_cur t = s_cur s
          \<and> s_glob t = (s_glob s)\<lparr>g_locks := ctl_release (\<lambda>w. LOCK_SET_TIMESTAMP (we_version w)) (w # ws)
              (g_locks (s_glob s))\<rparr>) never"
        by (rule wp_mono [OF Cons.IH]) (use c rest False in \<open>simp_all add: fun_upd_def cong: if_cong\<close>)
      then show ?thesis using q False c rest by simp
    qed
  qed
qed

text \<open>The shared state after a rollback with the entries from \<open>m\<close> on acquired: every version is back.\<close>

definition ctl_rolled_back :: "nat \<Rightarrow> stm_tx \<Rightarrow> glob \<Rightarrow> glob" where
  "ctl_rolled_back m tx g = g\<lparr>g_locks := (\<lambda>k. if holder (tx_ws tx) m k \<noteq> None
     then LOCK_SET_TIMESTAMP (LOCK_GET_TIMESTAMP (g_locks g k)) else g_locks g k)\<rparr>"

lemma acquired_marked:
  assumes nd: "\<forall>w \<in> set ws. we_no_drop w" and m: "m \<le> length ws"
  shows "length (filter (\<lambda>w. \<not> we_no_drop w) (mark l m ws)) = acquired ws m"
proof -
  have nd': "we_no_drop (ws ! i)" if "i < length ws" for i using nd that by simp
  have eq: "(if m \<le> i \<and> last_of ws i then (ws ! i)\<lparr>we_no_drop := False,
      we_version := LOCK_GET_TIMESTAMP (l (we_lock (ws ! i)))\<rparr> else ws ! i) = mark l m ws ! i"
    if "i < length ws" for i using that by (simp add: mark_nth)
  have "filter (\<lambda>w. \<not> we_no_drop w) (mark l m ws)
      = map (\<lambda>i. mark l m ws ! i) (filter (\<lambda>i. \<not> we_no_drop (mark l m ws ! i)) [0..<length ws])"
    by (subst (1) map_nth [of "mark l m ws", symmetric]) (simp add: filter_map o_def)
  then have "length (filter (\<lambda>w. \<not> we_no_drop w) (mark l m ws))
      = length (filter (\<lambda>i. \<not> we_no_drop (mark l m ws ! i)) [0..<length ws])" by simp
  also have "filter (\<lambda>i. \<not> we_no_drop (mark l m ws ! i)) [0..<length ws]
      = filter (\<lambda>i. m \<le> i \<and> last_of ws i) [0..<length ws]"
    by (rule filter_cong) (auto simp: mark_nth nd')
  also have "[0..<length ws] = [0..<m] @ [m..<length ws]" using m by (metis le_iff_add upt_add_eq_append zero_le)
  also have "filter (\<lambda>i. m \<le> i \<and> last_of ws i) ([0..<m] @ [m..<length ws]) = filter (last_of ws) [m..<length ws]"
    by (simp add: filter_empty_conv) (rule filter_cong; simp)
  finally show ?thesis by (simp add: acquired_def)
qed

lemma ctl_rollback_quiet:
  assumes q: "quiet P" and inv: "ctl_inv (s_tx s)" and act: "IS_ACTIVE (tx_status (s_tx s))"
    and m: "m \<le> length (tx_ws (s_tx s))" and st: "staged m s t"
  shows "wp (stm_wbctl_rollback P) t (\<lambda>_ u. s_cur u = s_cur s \<and> tx_count (s_tx u) = 0
    \<and> s_glob u = ctl_rolled_back m (s_tx s) (s_glob s)) never"
proof -
  let ?ws = "tx_ws (s_tx s)" and ?l = "g_locks (s_glob s)"
  have nd: "\<forall>w \<in> set ?ws. we_no_drop w" using inv by (simp add: ctl_inv_def)
  have nd': "we_no_drop (?ws ! i)" if "i < length ?ws" for i using nd that by simp
  have t: "s_cur t = s_cur s" "s_glob t = (s_glob s)\<lparr>g_locks := claim (s_tx s) m ?l\<rparr>"
    "tx_ws (s_tx t) = mark ?l m ?ws" "tx_count (s_tx t) = acquired ?ws m"
    "tx_status (s_tx t) = tx_status (s_tx s)"
    using st by (simp_all add: staged_def)
  have cnt: "tx_count (s_tx t) = length (filter (\<lambda>w. \<not> we_no_drop w) (rev (tx_ws (s_tx t))))"
    using acquired_marked [OF nd m] by (simp add: t rev_filter [symmetric])
  have rel: "ctl_release (\<lambda>w. LOCK_SET_TIMESTAMP (we_version w)) (rev (mark ?l m ?ws)) (claim (s_tx s) m ?l) k =
      (if holder ?ws m k \<noteq> None then LOCK_SET_TIMESTAMP (LOCK_GET_TIMESTAMP (?l k)) else ?l k)" for k
  proof -
    have "(\<exists>w \<in> set (rev (mark ?l m ?ws)). \<not> we_no_drop w \<and> we_lock w = k) \<longleftrightarrow> holder ?ws m k \<noteq> None"
      by (auto simp: holder_None in_set_conv_nth Bex_def mark_nth nd' split: if_splits)
    moreover have "LOCK_SET_TIMESTAMP (we_version w) = LOCK_SET_TIMESTAMP (LOCK_GET_TIMESTAMP (?l k))"
      if "w \<in> set (rev (mark ?l m ?ws))" "\<not> we_no_drop w" "we_lock w = k" for w
      using that by (auto simp: in_set_conv_nth mark_nth nd' split: if_splits)
    ultimately show ?thesis
      using ctl_release_by [of "rev (mark ?l m ?ws)" k "\<lambda>w. LOCK_SET_TIMESTAMP (we_version w)"
          "LOCK_SET_TIMESTAMP (LOCK_GET_TIMESTAMP (?l k))" "claim (s_tx s) m ?l"]
      by (auto simp: claim_def)
  qed
  show ?thesis
  proof (cases "tx_count (s_tx t) = 0")
    case True
    then have "holder ?ws m k = None" for k
      using t(4) by (auto simp: acquired_def holder_None filter_empty_conv)
    then have "claim (s_tx s) m ?l = ?l" "ctl_rolled_back m (s_tx s) (s_glob s) = s_glob s"
      by (simp_all add: claim_def [abs_def] ctl_rolled_back_def)
    then show ?thesis using True act t by (simp add: stm_wbctl_rollback_def)
  next
    case False
    have "wp (wbctl_drop_loop P (rev (tx_ws (s_tx t)))) t (\<lambda>_ u. s_cur u = s_cur s \<and> tx_count (s_tx u) = 0
        \<and> s_glob u = ctl_rolled_back m (s_tx s) (s_glob s)) never"
      by (rule wp_mono [OF ctl_drops [OF q cnt]]) (use False t in \<open>simp_all add: ctl_rolled_back_def rel [abs_def]\<close>)
    then show ?thesis using False act t by (simp add: stm_wbctl_rollback_def)
  qed
qed

section \<open>Properties\<close>

text \<open>A transaction with one pending write of 9 to address 64, its lock not yet taken.\<close>

definition sample_pending :: st where
  "sample_pending = sample_run\<lparr>s_tx := sample_tx\<lparr>tx_ws := [sample_entry\<lparr>we_no_drop := True\<rparr>]\<rparr>\<rparr>"

lemma sample_pending_inv: "ctl_inv (s_tx sample_pending)"
  by (simp add: sample_pending_def sample_defs ctl_inv_def ws_placed_def)

text \<open>C11: A commit-time locking commit that finds its locks free and its reads good takes every lock
  of the write set once, makes memory exactly what the transaction saw, and frees the locks
  with the commit time.\<close>

theorem ctl_commit_installs_view:
  assumes "quiet P" "ctl_inv (s_tx s)" "0 < n" "tx_ws (s_tx s) \<noteq> []"
    and "\<forall>k. LOCK_GET_OWNED (g_locks (s_glob s) k) = 0" "ctl_may_commit (s_tx s) (s_glob s)"
  shows "\<exists>t. stm_wbctl_commit n P s = (Ret True, t)
    \<and> s_glob t = (s_glob s)\<lparr>g_clock := g_clock (s_glob s) + 1,
         g_mem := ctl_wview (s_tx s) (g_mem (s_glob s)),
         g_locks := (\<lambda>k. if covered (s_tx s) k then LOCK_SET_TIMESTAMP (g_clock (s_glob s) + 1)
                         else g_locks (s_glob s) k)\<rparr>"
  using ctl_commit_quiet [OF assms(1-4) _ assms(6)] assms(5) by (auto simp: wp_never ctl_committed_def)

theorem ctl_commit_installs_view_witness:
  "\<exists>t. stm_wbctl_commit 1 (sample_params WRITE_BACK_CTL) sample_pending = (Ret True, t)
     \<and> g_mem (s_glob t) 64 = 9 \<and> g_mem (s_glob t) 8 = 7 \<and> g_clock (s_glob t) = 6"
proof -
  have "tx_ws (s_tx sample_pending) \<noteq> []" "\<forall>k. LOCK_GET_OWNED (g_locks (s_glob sample_pending) k) = 0"
    "ctl_may_commit (s_tx sample_pending) (s_glob sample_pending)"
    by (simp_all add: sample_pending_def sample_defs ctl_may_commit_def lock_defs)
  from ctl_commit_installs_view [OF sample_quiet sample_pending_inv _ this, of 1 WRITE_BACK_CTL]
  show ?thesis by (auto simp: sample_pending_def sample_defs ctl_wview_def stm_has_written_def)
qed



end
