(* ===== verification/Wt.thy ===== *)
theory Wt
  imports Wset
begin

text \<open>
  Write-through (\<open>src/stm_wt.h\<close>): a write locks the address, logs the old value and
  updates memory in place; commit only releases the locks, rollback restores the logged
  values.  \<open>version\<close> holds the whole old lock word, since an abort bumps its incarnation.
\<close>

section \<open>Reading\<close>

definition stm_wt_add_to_rs :: "params \<Rightarrow> w64 \<Rightarrow> w64 \<Rightarrow> unit prog" where
  "stm_wt_add_to_rs P version lock =
     bnd get_tx (\<lambda>tx. if at_read_only (tx_attr tx) then ret () else add_to_read_set P version lock)"

primrec wt_read_loop ::
    "nat \<Rightarrow> params \<Rightarrow> (w64 \<Rightarrow> unit prog) \<Rightarrow> w64 \<Rightarrow> w64 option \<Rightarrow> w64 prog" where
  "wt_read_loop 0 P rb addr lo = stop Diverge"
| "wt_read_loop (Suc n) P rb addr lo =
     bnd (case lo of None \<Rightarrow> load_lock P (GET_LOCK addr) | Some l \<Rightarrow> ret l) (\<lambda>l.
     bnd get_tx (\<lambda>tx.
       if LOCK_GET_WRITE l = 0 then
         bnd (load_mem P addr) (\<lambda>value.
         bnd (load_lock P (GET_LOCK addr)) (\<lambda>l2.
           if l \<noteq> l2 then wt_read_loop n P rb addr (Some l2)
           else if tx_irrevocable tx \<noteq> 0 then ret value
           else
             thn (stm_wt_add_to_rs P (LOCK_GET_TIMESTAMP l) (GET_LOCK addr))
            (if LOCK_GET_TIMESTAMP l > tx_end tx then
               bnd (if at_read_only (tx_attr tx) then ret False else stm_wt_extend P) (\<lambda>ok.
                 if \<not> ok then thn (rb STM_ABORT_VAL_READ) (ret 0) else ret value)
             else ret value)))
       else if in_ws tx (LOCK_GET_ADDR l) then load_mem P addr
       else if tx_irrevocable tx \<noteq> 0 then wt_read_loop n P rb addr None
       else thn (rb STM_ABORT_RW_CONFLICT) (ret 0)))"

definition stm_wt_read :: "nat \<Rightarrow> params \<Rightarrow> w64 \<Rightarrow> w64 prog" where
  "stm_wt_read n P addr =
     thn (assert_c (\<lambda>s. IS_ACTIVE (tx_status (s_tx s))))
         (wt_read_loop n P (stm_rollback n P) addr None)"

section \<open>Writing\<close>

text \<open>
  \<open>do_write\<close>: log the old value, then store the new one.  (\<open>has_writes\<close> is not counted here.)
\<close>

definition wt_do_write ::
    "params \<Rightarrow> nat option \<Rightarrow> w64 \<Rightarrow> w64 \<Rightarrow> w64 \<Rightarrow> w64 \<Rightarrow> w64 \<Rightarrow> nat option prog" where
  "wt_do_write P prev addr value msk lock version =
     bnd (if msk = 0 then ret 0 else load_mem P addr) (\<lambda>old.
     thn (when_c (msk \<noteq> 0)
           (store_mem P addr (if msk \<noteq> NOT 0 then merge_mask old value msk else value)))
    (bnd get_tx (\<lambda>tx.
       thn (set_tx (\<lambda>t. t\<lparr>tx_ws := link_entry prev
              \<lparr>we_addr = addr, we_value = old, we_mask = msk, we_version = version,
               we_lock = lock, we_next = None, we_no_drop = False\<rparr> (tx_ws t)\<rparr>))
           (ret (Some (length (tx_ws tx)))))))"

text \<open>
  The address is in the chain already: only memory is written.  The test for a first real
  write and the logging look at the head \<open>w\<close> of the chain, not at the entry found.
\<close>

definition wt_write_found :: "params \<Rightarrow> nat \<Rightarrow> w64 \<Rightarrow> w64 \<Rightarrow> w64 \<Rightarrow> nat option prog" where
  "wt_write_found P h addr value msk =
     bnd get_tx (\<lambda>tx.
       thn (when_c (we_mask (tx_ws tx ! h) = 0)
             (bnd (load_mem P addr) (\<lambda>old.
                set_tx (\<lambda>t. t\<lparr>tx_ws := (tx_ws t)[h := (tx_ws t ! h)
                  \<lparr>we_value := old, we_mask := msk\<rparr>]\<rparr>))))
      (bnd (if msk \<noteq> NOT 0 then bnd (load_mem P addr) (\<lambda>old. ret (merge_mask old value msk))
            else ret value) (\<lambda>v.
         thn (store_mem P addr v) (ret (Some h)))))"

text \<open>
  As in write-back, a rollback that returns from the full write set leaves \<open>prev\<close> dangling,
  and \<open>prev->version\<close> is read right after it.
\<close>

definition wt_write_owned ::
    "params \<Rightarrow> (w64 \<Rightarrow> unit prog) \<Rightarrow> w64 \<Rightarrow> w64 \<Rightarrow> w64 \<Rightarrow> w64 \<Rightarrow> nat option prog" where
  "wt_write_owned P rb w addr value msk =
     bnd get_tx (\<lambda>tx.
       if msk = 0 then ret (Some (we_index tx w))
       else case chase (Suc (length (tx_ws tx))) (tx_ws tx) addr (we_index tx w) of
         None \<Rightarrow> stop Diverge
       | Some (i, found) \<Rightarrow>
           if found then wt_write_found P (we_index tx w) addr value msk
           else if length (tx_ws tx) = tx_ws_size tx then
             thn (rb STM_ABORT_EXTEND_WS) (stop Undef)
           else wt_do_write P (Some i) addr value msk (GET_LOCK addr) (we_version (tx_ws tx ! i)))"

primrec wt_write_loop ::
    "nat \<Rightarrow> params \<Rightarrow> (w64 \<Rightarrow> unit prog) \<Rightarrow> w64 \<Rightarrow> w64 \<Rightarrow> w64 \<Rightarrow> nat option prog" where
  "wt_write_loop 0 P rb addr value msk = stop Diverge"
| "wt_write_loop (Suc n) P rb addr value msk =
     bnd (load_lock P (GET_LOCK addr)) (\<lambda>l.
     bnd get_tx (\<lambda>tx.
       if LOCK_GET_OWNED l \<noteq> 0 then
         (if in_ws tx (LOCK_GET_ADDR l) then wt_write_owned P rb (LOCK_GET_ADDR l) addr value msk
          else if tx_irrevocable tx \<noteq> 0 then wt_write_loop n P rb addr value msk
          else thn (rb STM_ABORT_WW_CONFLICT) (ret None))
       else if tx_irrevocable tx = 0 \<and> LOCK_GET_TIMESTAMP l > tx_end tx
               \<and> stm_has_read tx (GET_LOCK addr) \<noteq> None then
         thn (rb STM_ABORT_VAL_WRITE) (ret None)
       else
         thn (when_c (length (tx_ws tx) = tx_ws_size tx) (rb STM_ABORT_EXTEND_WS))
        (bnd get_tx (\<lambda>tx'.
         bnd (cas_lock P (GET_LOCK addr) l
               (LOCK_SET_ADDR_WRITE (we_ptr tx' (length (tx_ws tx'))))) (\<lambda>won.
           if won then wt_do_write P None addr value msk (GET_LOCK addr) l
           else wt_write_loop n P rb addr value msk)))))"

definition stm_wt_write :: "nat \<Rightarrow> params \<Rightarrow> w64 \<Rightarrow> w64 \<Rightarrow> w64 \<Rightarrow> nat option prog" where
  "stm_wt_write n P addr value msk =
     wt_write_loop n P (stm_rollback n P) addr value msk"

section \<open>Optimised accesses\<close>

definition stm_wt_RaR :: "nat \<Rightarrow> params \<Rightarrow> w64 \<Rightarrow> w64 prog" where
  "stm_wt_RaR n P addr = stm_wt_read n P addr"

definition wt_assert_owned :: "params \<Rightarrow> w64 \<Rightarrow> unit prog" where
  "wt_assert_owned P addr =
     bnd (load_lock P (GET_LOCK addr)) (\<lambda>l.
     thn (assert_c (\<lambda>_. LOCK_GET_WRITE l \<noteq> 0))
         (assert_c (\<lambda>s. in_ws (s_tx s) (LOCK_GET_ADDR l))))"

definition stm_wt_RaW :: "params \<Rightarrow> w64 \<Rightarrow> w64 prog" where
  "stm_wt_RaW P addr = thn (wt_assert_owned P addr) (load_mem P addr)"

definition stm_wt_RfW :: "nat \<Rightarrow> params \<Rightarrow> w64 \<Rightarrow> w64 prog" where
  "stm_wt_RfW n P addr = bnd (stm_wt_write n P addr 0 0) (\<lambda>_. load_mem P addr)"

definition stm_wt_WaR :: "nat \<Rightarrow> params \<Rightarrow> w64 \<Rightarrow> w64 \<Rightarrow> w64 \<Rightarrow> unit prog" where
  "stm_wt_WaR n P addr value msk = bnd (stm_wt_write n P addr value msk) (\<lambda>_. ret ())"

definition stm_wt_WaW :: "params \<Rightarrow> w64 \<Rightarrow> w64 \<Rightarrow> w64 \<Rightarrow> unit prog" where
  "stm_wt_WaW P addr value msk =
     thn (wt_assert_owned P addr)
    (thn (assert_c (\<lambda>_. msk \<noteq> 0))
    (bnd (if msk \<noteq> NOT 0 then bnd (load_mem P addr) (\<lambda>old. ret (merge_mask old value msk))
          else ret value) (store_mem P addr)))"

section \<open>Commit\<close>

definition wt_release :: "params \<Rightarrow> w64 \<Rightarrow> w_entry \<Rightarrow> unit prog" where
  "wt_release P t w = when_c (we_next w = None) (store_lock P (we_lock w) (LOCK_SET_TIMESTAMP t))"

definition stm_wt_commit :: "nat \<Rightarrow> params \<Rightarrow> bool prog" where
  "stm_wt_commit n P =
     bnd get_tx (\<lambda>tx.
     bnd (if tx_irrevocable tx = 0 then bnd (atomic_get P g_irrevocable) (\<lambda>v. ret (v \<noteq> 0))
          else ret False) (\<lambda>blocked.
       if blocked then thn (stm_rollback n P STM_ABORT_IRREVOCABLE) (ret False)
       else
         bnd (fetch_inc_clock P) (\<lambda>c. let t = c + 1 in
         bnd (if tx_irrevocable tx \<noteq> 0 then ret True
              else if tx_start tx \<noteq> t - 1 then stm_wt_validate P else ret True) (\<lambda>ok.
           if \<not> ok then thn (stm_rollback n P STM_ABORT_VALIDATE) (ret False)
           else bnd get_tx (\<lambda>tx'. thn (each_c (wt_release P t) (tx_ws tx')) (ret True))))))"

section \<open>Lemmas: writing\<close>

text \<open>
  Memory holds the new values and the log the old ones, so \<open>wview\<close> is here the memory a
  rollback goes back to.  \<open>full_log\<close>: every entry has logged something.
\<close>

definition full_log :: "stm_tx \<Rightarrow> bool" where
  "full_log tx \<longleftrightarrow> (\<forall>w \<in> set (tx_ws tx). we_mask w \<noteq> 0)"

definition wt_wrote :: "st \<Rightarrow> w64 \<Rightarrow> w64 \<Rightarrow> w64 \<Rightarrow> st \<Rightarrow> bool" where
  "wt_wrote s a v m t \<longleftrightarrow> etl_inv (s_tx t) (g_locks (s_glob t)) \<and> covered (s_tx t) (GET_LOCK a)
     \<and> g_mem (s_glob t) = (g_mem (s_glob s))(a := merge_mask (g_mem (s_glob s) a) v m)
     \<and> (m \<noteq> 0 \<and> full_log (s_tx s) \<longrightarrow>
          full_log (s_tx t) \<and> wview (s_tx t) (g_mem (s_glob t)) = wview (s_tx s) (g_mem (s_glob s)))"

lemma wt_do_write_exec:
  assumes "quiet P" "s_tx s = tx"
  shows "wp (wt_do_write P prev a v m k ver) s
    (\<lambda>r t. s_tx t = tx\<lparr>tx_ws := link_entry prev \<lparr>we_addr = a,
        we_value = (if m = 0 then 0 else g_mem (s_glob s) a), we_mask = m, we_version = ver, we_lock = k,
        we_next = None, we_no_drop = False\<rparr> (tx_ws tx)\<rparr>
      \<and> s_cur t = s_cur s \<and> s_glob t = (s_glob s)\<lparr>g_mem := (g_mem (s_glob s))
          (a := merge_mask (g_mem (s_glob s) a) v m)\<rparr>) never"
  using assms by (cases "m = 0"; cases "m = - 1") (simp_all add: wt_do_write_def)

lemma wview_local: "mem b = mem' b \<Longrightarrow> wview tx mem b = wview tx mem' b"
  by (simp add: wview_def split: option.split)

text \<open>Logging a new entry keeps the old values: the address was not logged before.\<close>

lemma wview_log:
  assumes nw: "stm_has_written tx a = None" and m: "m \<noteq> 0"
    and e: "we_addr e = a" "we_mask e = m" "we_value e = mem a"
  shows "wview (tx\<lparr>tx_ws := link_entry prev e (tx_ws tx)\<rparr>) (mem(a := x)) = wview tx mem"
proof
  fix b
  have w: "writes tx (tx\<lparr>tx_ws := link_entry prev e (tx_ws tx)\<rparr>) mem a (mem a) m"
    by (rule writes_link [OF nw e(1,2)]) (simp add: e(3))
  have hw: "stm_has_written (tx\<lparr>tx_ws := link_entry prev e (tx_ws tx)\<rparr>) b =
      (if b = a then Some (length (tx_ws tx)) else stm_has_written tx b)"
    using has_written_link [of tx e prev b] nw e(1) by simp
  show "wview (tx\<lparr>tx_ws := link_entry prev e (tx_ws tx)\<rparr>) (mem(a := x)) b = wview tx mem b"
  proof (cases "b = a")
    case True
    then show ?thesis using hw nw e m by (simp add: wview_def)
  next
    case False
    have "wview (tx\<lparr>tx_ws := link_entry prev e (tx_ws tx)\<rparr>) mem b = wview tx mem b"
      using w False by (simp add: writes_def)
    then show ?thesis using False wview_local [of "mem(a := x)" b mem] by simp
  qed
qed

lemma full_log_link:
  "full_log tx \<Longrightarrow> we_mask e \<noteq> 0 \<Longrightarrow> full_log (tx\<lparr>tx_ws := link_entry prev e (tx_ws tx)\<rparr>)"
  by (auto simp: full_log_def all_set_conv_all_nth less_Suc_eq link_entry_fields)

lemma wt_do_write_wrote:
  assumes q: "quiet P" and inv: "etl_inv tx locks" and tx: "s_tx s = tx"
    and room: "length (tx_ws tx) < tx_ws_size tx" and nw: "stm_has_written tx a = None"
    and lc: "last_covered (tx_ws tx) (GET_LOCK a) prev"
    and v: "\<And>p. prev = Some p \<Longrightarrow> ver = we_version (tx_ws tx ! p)"
    and l: "g_locks (s_glob s) =
      (if prev = None then locks(GET_LOCK a := own_word tx (length (tx_ws tx))) else locks)"
  shows "wp (wt_do_write P prev a v m (GET_LOCK a) ver) s (\<lambda>r t. wt_wrote s a v m t) never"
proof -
  define e where "e = \<lparr>we_addr = a, we_value = (if m = 0 then 0 else g_mem (s_glob s) a), we_mask = m,
    we_version = ver, we_lock = GET_LOCK a, we_next = None, we_no_drop = False\<rparr>"
  have "etl_inv (tx\<lparr>tx_ws := link_entry prev e (tx_ws tx)\<rparr>) (g_locks (s_glob s))"
    by (rule etl_inv_link [OF inv room nw _ _ _ lc _ l]) (simp_all add: e_def v)
  moreover have "m \<noteq> 0 \<Longrightarrow> wview (tx\<lparr>tx_ws := link_entry prev e (tx_ws tx)\<rparr>)
      ((g_mem (s_glob s))(a := merge_mask (g_mem (s_glob s) a) v m)) = wview tx (g_mem (s_glob s))"
    by (rule wview_log [OF nw]) (simp_all add: e_def)
  moreover have "m \<noteq> 0 \<Longrightarrow> full_log tx \<Longrightarrow> full_log (tx\<lparr>tx_ws := link_entry prev e (tx_ws tx)\<rparr>)"
    by (rule full_log_link) (simp_all add: e_def)
  moreover have "we_lock e = GET_LOCK a" by (simp add: e_def)
  ultimately show ?thesis
    using tx by (intro wp_mono [OF wt_do_write_exec [OF q tx]])
      (simp_all add: wt_wrote_def e_def [symmetric] covered_link)
qed

lemma wt_write_found_wrote:
  assumes q: "quiet P" and inv: "etl_inv tx (g_locks (s_glob s))" and tx: "s_tx s = tx"
    and h: "h < length (tx_ws tx)" and cov: "covered tx (GET_LOCK a)" and w: "stm_has_written tx a \<noteq> None"
  shows "wp (wt_write_found P h a v m) s
    (\<lambda>r t. wt_wrote s a v m t \<and> length (tx_ws (s_tx t)) = length (tx_ws tx)) never"
proof (cases "we_mask (tx_ws tx ! h) = 0")
  case True
  then have nf: "\<not> full_log tx" using h by (auto simp: full_log_def)
  let ?e = "(tx_ws tx ! h)\<lparr>we_value := g_mem (s_glob s) a, we_mask := m\<rparr>"
  have "etl_inv (tx\<lparr>tx_ws := (tx_ws tx)[h := ?e]\<rparr>) (g_locks (s_glob s))"
    by (rule etl_inv_update [OF inv h]) simp_all
  moreover have "covered (tx\<lparr>tx_ws := (tx_ws tx)[h := ?e]\<rparr>) (GET_LOCK a)"
    using cov covered_from_update [of ?e "tx_ws tx" h] by (simp add: covered_def)
  ultimately show ?thesis
    using q tx True nf by (cases "m = - 1") (simp_all add: wt_write_found_def wt_wrote_def)
next
  case False
  obtain j where j: "stm_has_written tx a = Some j" using w by blast
  have "wview tx (mem(a := x)) = wview tx mem" if "full_log tx" for mem x
  proof
    fix b
    have "we_mask (tx_ws tx ! j) \<noteq> 0"
      using has_written_Some [OF j] that by (simp add: full_log_def)
    then show "wview tx (mem(a := x)) b = wview tx mem b"
      using j by (cases "b = a") (simp_all add: wview_def split: option.split)
  qed
  then show ?thesis
    using q tx False inv cov by (cases "m = - 1") (simp_all add: wt_write_found_def wt_wrote_def)
qed

lemma wt_write_owned_wrote:
  assumes q: "quiet P" and inv: "etl_inv tx (g_locks (s_glob s))" and tx: "s_tx s = tx"
    and room: "length (tx_ws tx) < tx_ws_size tx"
    and i: "covered_from (tx_ws tx) (GET_LOCK a) 0 = Some i"
  shows "wp (wt_write_owned P rb (LOCK_GET_ADDR (own_word tx i)) a v m) s (\<lambda>r t. wt_wrote s a v m t) never"
proof (cases "m = 0")
  case True
  then show ?thesis using inv tx i by (simp add: wt_write_owned_def wt_wrote_def covered_def)
next
  case False
  have i_len: "i < length (tx_ws tx)" and pl: "ws_placed tx"
    using i inv by (simp_all add: covered_from_Some etl_inv_def)
  then have ix: "we_index tx (LOCK_GET_ADDR (own_word tx i)) = i" by (simp add: own_word_facts)
  have cov: "covered tx (GET_LOCK a)" using i by (simp add: covered_def)
  obtain j where j: "chase (Suc (length (tx_ws tx))) (tx_ws tx) a i = Some (j, stm_has_written tx a \<noteq> None)"
      "j < length (tx_ws tx)" "we_lock (tx_ws tx ! j) = GET_LOCK a"
      "stm_has_written tx a \<noteq> None \<longrightarrow> stm_has_written tx a = Some j"
      "stm_has_written tx a = None \<longrightarrow> covered_from (tx_ws tx) (GET_LOCK a) (Suc j) = None"
    using chase_viewE [OF inv i] .
  show ?thesis
  proof (cases "stm_has_written tx a")
    case Some
    then have "stm_has_written tx a \<noteq> None" by simp
    from wp_mono [OF wt_write_found_wrote [OF q inv tx i_len cov this], where Q' = "\<lambda>r t. wt_wrote s a v m t"]
    show ?thesis using tx False j(1) Some by (simp add: wt_write_owned_def ix del: chase.simps)
  next
    case None
    have "last_covered (tx_ws tx) (GET_LOCK a) (Some j)" using j None by (simp add: last_covered_def)
    then have "wp (wt_do_write P (Some j) a v m (GET_LOCK a) (we_version (tx_ws tx ! j))) s
        (\<lambda>r t. wt_wrote s a v m t) never"
      by (intro wt_do_write_wrote [OF q inv tx room None]) simp_all
    then show ?thesis using tx False j(1) None room by (simp add: wt_write_owned_def ix del: chase.simps)
  qed
qed

lemma wt_acquire:
  assumes q: "quiet P" and inv: "etl_inv tx (g_locks (s_glob u))" and tx: "s_tx u = tx"
    and room: "length (tx_ws tx) < tx_ws_size tx" and free: "\<not> covered tx (GET_LOCK a)"
  shows "wp (wt_do_write P None a v m (GET_LOCK a) ver)
           (upd_glob (\<lambda>g. g\<lparr>g_locks := (g_locks g)(GET_LOCK a := own_word tx (length (tx_ws tx)))\<rparr>) u)
           (\<lambda>r t. wt_wrote u a v m t) never"
proof -
  have nw: "stm_has_written tx a = None"
    using inv free has_written_covered [of tx a] by (cases "stm_has_written tx a") (auto simp: etl_inv_def)
  have lc: "last_covered (tx_ws tx) (GET_LOCK a) None"
    using free by (simp add: last_covered_def covered_def)
  let ?u = "upd_glob (\<lambda>g. g\<lparr>g_locks := (g_locks g)(GET_LOCK a := own_word tx (length (tx_ws tx)))\<rparr>) u"
  have "wp (wt_do_write P None a v m (GET_LOCK a) ver) ?u (\<lambda>r t. wt_wrote ?u a v m t) never"
    by (rule wt_do_write_wrote [OF q inv _ room nw lc]) (use tx in simp_all)
  then show ?thesis by (simp add: wt_wrote_def)
qed

section \<open>Lemmas: releasing\<close>

lemma wp_wt_release:
  "quiet P \<Longrightarrow> wp (wt_release P t w) s Q E =
     Q () (if we_next w = None
           then upd_glob (\<lambda>g. g\<lparr>g_locks := (g_locks g)(we_lock w := LOCK_SET_TIMESTAMP t)\<rparr>) (tock s)
           else s)"
  by (simp add: wt_release_def)

lemma wt_releases:
  assumes "quiet P"
  shows "wp (each_c (wt_release P t) ws) s
    (\<lambda>_ u. s_tx u = s_tx s \<and> s_cur u = s_cur s \<and> s_nalloc u = s_nalloc s \<and>
       s_glob u = (s_glob s)\<lparr>g_locks := release (\<lambda>_. LOCK_SET_TIMESTAMP t) ws (g_locks (s_glob s))\<rparr>) never"
proof (induction ws arbitrary: s)
  case Nil
  then show ?case by simp
next
  case (Cons w ws)
  show ?case
    using assms by (auto simp: wp_wt_release fun_upd_def cong: if_cong intro!: wp_mono [OF Cons.IH])
qed

text \<open>The shared state after a commit: memory as it is, the locks free at the new time.\<close>

definition wt_committed :: "stm_tx \<Rightarrow> glob \<Rightarrow> glob" where
  "wt_committed tx g = g\<lparr>g_clock := g_clock g + 1,
     g_locks := (\<lambda>k. if covered tx k then LOCK_SET_TIMESTAMP (g_clock g + 1) else g_locks g k)\<rparr>"

lemma wt_commit_quiet:
  assumes q: "quiet P" and inv: "etl_inv (s_tx s) (g_locks (s_glob s))" and ok: "may_commit (s_tx s) (s_glob s)"
  shows "wp (stm_wt_commit n P) s
    (\<lambda>r t. r \<and> s_tx t = s_tx s \<and> s_cur t = s_cur s \<and> s_nalloc t = s_nalloc s
       \<and> s_glob t = wt_committed (s_tx s) (s_glob s)) never"
proof -
  let ?tx = "s_tx s" and ?g = "s_glob s"
  have fin: "wp (each_c (wt_release P (g_clock ?g + 1)) (tx_ws ?tx)) u
      (\<lambda>_ t. s_tx t = ?tx \<and> s_cur t = s_cur s \<and> s_nalloc t = s_nalloc s \<and> s_glob t = wt_committed ?tx ?g) never"
    if "s_tx u = ?tx" "s_cur u = s_cur s" "s_nalloc u = s_nalloc s"
      "s_glob u = ?g\<lparr>g_clock := g_clock ?g + 1\<rparr>" for u
    by (rule wp_mono [OF wt_releases [OF q]]) (simp_all add: that wt_committed_def release_all [OF inv])
  have val: "wp (stm_wt_validate P) u
      (\<lambda>b t. b = (\<forall>r \<in> set (tx_rs ?tx). read_valid ?tx (g_locks ?g) r) \<and> ticked u t) never"
    if "s_tx u = ?tx" "g_locks (s_glob u) = g_locks ?g" for u
    using wt_validate_quiet [OF q, of u] that by simp
  show ?thesis
    using q ok unfolding stm_wt_commit_def may_commit_def
    by (auto simp: Let_def intro!: fin wp_mono [OF val] simp: ticked_def)
qed

section \<open>Lemmas: undoing\<close>

text \<open>The word a rollback frees a lock with: the next incarnation, or a new time when they ran out.\<close>

definition wt_spent :: "w_entry \<Rightarrow> bool" where
  "wt_spent w \<longleftrightarrow> LOCK_GET_INCARNATION (we_version w) + 1 > INCARNATION_MAX"

definition wt_freed :: "w64 \<Rightarrow> w_entry \<Rightarrow> w64" where
  "wt_freed c w = (if wt_spent w then LOCK_SET_TIMESTAMP (c + 1)
     else LOCK_UPD_INCARNATION (we_version w) (LOCK_GET_INCARNATION (we_version w) + 1))"

lemma wt_undo:
  assumes q: "quiet P" and c: "c + 1 \<noteq> 0"
  shows "g_clock (s_glob s) = (if t = 0 then c else c + 1) \<Longrightarrow> t = 0 \<or> t = c + 1 \<Longrightarrow>
    wp (wt_undo_loop P t ws) s
      (\<lambda>_ u. s_tx u = s_tx s \<and> s_cur u = s_cur s \<and>
         s_glob u = (s_glob s)\<lparr>g_mem := install ws (g_mem (s_glob s)),
           g_locks := release (wt_freed c) ws (g_locks (s_glob s)),
           g_clock := (if t \<noteq> 0 \<or> (\<exists>w \<in> set ws. we_next w = None \<and> wt_spent w) then c + 1 else c)\<rparr>) never"
proof (induction ws arbitrary: s t)
  case Nil
  then show ?case by simp
next
  case (Cons w ws)
  have IH: "wp (wt_undo_loop P t' ws) u
      (\<lambda>_ v. s_tx v = s_tx s \<and> s_cur v = s_cur s \<and> s_glob v = (s_glob s)\<lparr>
         g_mem := install ws (g_mem (s_glob u)), g_locks := release (wt_freed c) ws (g_locks (s_glob u)),
         g_clock := (if t' \<noteq> 0 \<or> (\<exists>w \<in> set ws. we_next w = None \<and> wt_spent w) then c + 1 else c)\<rparr>) never"
    if u: "s_tx u = s_tx s" "s_cur u = s_cur s" "t' = 0 \<or> t' = c + 1"
      "g_clock (s_glob u) = (if t' = 0 then c else c + 1)"
      "s_glob u = (s_glob s)\<lparr>g_mem := g_mem (s_glob u), g_locks := g_locks (s_glob u), g_clock := g_clock (s_glob u)\<rparr>"
    for u t'
  proof (rule wp_mono [OF Cons.IH [OF u(4,3)]])
    fix x :: unit and v
    assume "s_tx v = s_tx u \<and> s_cur v = s_cur u \<and> s_glob v = (s_glob u)\<lparr>g_mem := install ws (g_mem (s_glob u)),
        g_locks := release (wt_freed c) ws (g_locks (s_glob u)),
        g_clock := (if t' \<noteq> 0 \<or> (\<exists>w \<in> set ws. we_next w = None \<and> wt_spent w) then c + 1 else c)\<rparr>"
    moreover have "(s_glob u)\<lparr>g_mem := m, g_locks := l, g_clock := k\<rparr> = (s_glob s)\<lparr>g_mem := m, g_locks := l, g_clock := k\<rparr>"
      for m l k by (subst u(5)) simp
    ultimately show "s_tx v = s_tx s \<and> s_cur v = s_cur s \<and> s_glob v = (s_glob s)\<lparr>
         g_mem := install ws (g_mem (s_glob u)), g_locks := release (wt_freed c) ws (g_locks (s_glob u)),
         g_clock := (if t' \<noteq> 0 \<or> (\<exists>w \<in> set ws. we_next w = None \<and> wt_spent w) then c + 1 else c)\<rparr>"
      using u(1,2) by simp
  qed
  let ?Q = "\<lambda>u. s_tx u = s_tx s \<and> s_cur u = s_cur s \<and> s_glob u = (s_glob s)\<lparr>
    g_mem := install (w # ws) (g_mem (s_glob s)),
    g_locks := release (wt_freed c) (w # ws) (g_locks (s_glob s)),
    g_clock := (if t \<noteq> 0 \<or> (\<exists>w \<in> set (w # ws). we_next w = None \<and> wt_spent w) then c + 1 else c)\<rparr>"
  let ?u = "if we_mask w \<noteq> 0 then upd_glob (\<lambda>g. g\<lparr>g_mem := (g_mem g)(we_addr w := we_value w)\<rparr>) (tock s) else s"
  let ?put = "\<lambda>v u. upd_glob (\<lambda>g. g\<lparr>g_locks := (g_locks g)(we_lock w := v)\<rparr>) (tock u)"
  let ?tick = "\<lambda>u. upd_glob (\<lambda>g. g\<lparr>g_clock := c + 1\<rparr>) (tock u)"
  have u: "s_tx ?u = s_tx s" "s_cur ?u = s_cur s" "g_clock (s_glob ?u) = g_clock (s_glob s)"
    "g_locks (s_glob ?u) = g_locks (s_glob s)"
    "g_mem (s_glob ?u) = (if we_mask w \<noteq> 0 then (g_mem (s_glob s))(we_addr w := we_value w) else g_mem (s_glob s))"
    by simp_all
  consider (chain) j where "we_next w = Some j" | (fresh) "we_next w = None" "\<not> wt_spent w"
    | (first) "we_next w = None" "wt_spent w" "t = 0" | (again) "we_next w = None" "wt_spent w" "t \<noteq> 0"
    by blast
  then show ?case
  proof cases
    case chain
    have "wp (wt_undo_loop P t (w # ws)) s (\<lambda>_. ?Q) never = wp (wt_undo_loop P t ws) ?u (\<lambda>_. ?Q) never"
      using q chain by simp
    moreover have "wp (wt_undo_loop P t ws) ?u (\<lambda>_. ?Q) never"
      by (rule wp_mono [OF IH]) (use u Cons.prems chain in simp_all)
    ultimately show ?thesis by simp
  next
    case fresh
    have "wp (wt_undo_loop P t (w # ws)) s (\<lambda>_. ?Q) never =
        wp (wt_undo_loop P t ws) (?put (wt_freed c w) ?u) (\<lambda>_. ?Q) never"
      using q fresh by (simp add: Let_def wt_freed_def wt_spent_def del: not_less)
    moreover have "wp (wt_undo_loop P t ws) (?put (wt_freed c w) ?u) (\<lambda>_. ?Q) never"
      by (rule wp_mono [OF IH]) (use u Cons.prems fresh in simp_all)
    ultimately show ?thesis by simp
  next
    case first
    have "wp (wt_undo_loop P t (w # ws)) s (\<lambda>_. ?Q) never =
        wp (wt_undo_loop P (c + 1) ws) (?put (wt_freed c w) (?tick ?u)) (\<lambda>_. ?Q) never"
      using q first Cons.prems by (simp add: Let_def wt_freed_def wt_spent_def)
    moreover have "wp (wt_undo_loop P (c + 1) ws) (?put (wt_freed c w) (?tick ?u)) (\<lambda>_. ?Q) never"
      by (rule wp_mono [OF IH]) (use u Cons.prems first c in simp_all)
    ultimately show ?thesis by simp
  next
    case again
    have "wp (wt_undo_loop P t (w # ws)) s (\<lambda>_. ?Q) never =
        wp (wt_undo_loop P t ws) (?put (wt_freed c w) ?u) (\<lambda>_. ?Q) never"
      using q again Cons.prems by (simp add: Let_def wt_freed_def wt_spent_def)
    moreover have "wp (wt_undo_loop P t ws) (?put (wt_freed c w) ?u) (\<lambda>_. ?Q) never"
      by (rule wp_mono [OF IH]) (use u Cons.prems again in simp_all)
    ultimately show ?thesis by simp
  qed
qed

definition wt_rolled_back :: "stm_tx \<Rightarrow> glob \<Rightarrow> glob" where
  "wt_rolled_back tx g = g\<lparr>g_mem := wview tx (g_mem g),
     g_locks := (\<lambda>k. case covered_from (tx_ws tx) k 0 of
       Some i \<Rightarrow> wt_freed (g_clock g) (tx_ws tx ! i) | None \<Rightarrow> g_locks g k),
     g_clock := (if \<exists>w \<in> set (tx_ws tx). we_next w = None \<and> wt_spent w then g_clock g + 1 else g_clock g)\<rparr>"

lemma wt_rollback_quiet:
  assumes q: "quiet P" and inv: "etl_inv (s_tx s) (g_locks (s_glob s))"
    and act: "IS_ACTIVE (tx_status (s_tx s))" and c: "g_clock (s_glob s) + 1 \<noteq> 0"
  shows "wp (stm_wt_rollback P) s
    (\<lambda>_ t. s_tx t = s_tx s \<and> s_cur t = s_cur s \<and> s_glob t = wt_rolled_back (s_tx s) (s_glob s)) never"
proof -
  let ?ws = "tx_ws (s_tx s)" and ?c = "g_clock (s_glob s)"
  have d: "distinct (map we_addr ?ws)" and wf: "ws_wf ?ws" using inv by (simp_all add: etl_inv_def)
  have same: "wt_freed ?c w = wt_freed ?c w'"
    if "w \<in> set ?ws" "w' \<in> set ?ws" "we_lock w = we_lock w'" for w w'
    using version_of_lock [OF wf that] by (simp add: wt_freed_def wt_spent_def)
  have "release (wt_freed ?c) ?ws (g_locks (s_glob s)) = (\<lambda>k. case covered_from ?ws k 0 of
      Some i \<Rightarrow> wt_freed ?c (?ws ! i) | None \<Rightarrow> g_locks (s_glob s) k)"
    by (rule ext) (simp add: release_covered [OF wf same])
  then have "wp (wt_undo_loop P 0 ?ws) s
    (\<lambda>_ t. s_tx t = s_tx s \<and> s_cur t = s_cur s \<and> s_glob t = wt_rolled_back (s_tx s) (s_glob s)) never"
    by (intro wp_mono [OF wt_undo [OF q c]]) (simp_all add: wt_rolled_back_def install_view [OF d])
  then show ?thesis using act by (simp add: stm_wt_rollback_def)
qed

text \<open>A reader that sees the lock before and after an abort sees two different words.\<close>

lemma wt_freed_differs:
  assumes "LOCK_GET_TIMESTAMP (we_version w) \<le> c" "c < VERSION_MAX"
  shows "wt_freed c w \<noteq> we_version w" "LOCK_GET_OWNED (wt_freed c w) = 0"
    "LOCK_GET_TIMESTAMP (we_version w) \<le> LOCK_GET_TIMESTAMP (wt_freed c w)"
proof -
  let ?v = "we_version w" and ?j = "LOCK_GET_INCARNATION (we_version w) + 1"
  have le: "c + 1 \<le> VERSION_MAX" and up: "c < c + 1" using assms(2) by (rule word_inc_less)+
  have ts: "LOCK_GET_TIMESTAMP (LOCK_SET_TIMESTAMP (c + 1)) = c + 1" by (rule version_read_back [OF le])
  show "wt_freed c w \<noteq> ?v" "LOCK_GET_OWNED (wt_freed c w) = 0"
    "LOCK_GET_TIMESTAMP ?v \<le> LOCK_GET_TIMESTAMP (wt_freed c w)"
  proof (atomize (full), cases "wt_spent w")
    case True
    then show "wt_freed c w \<noteq> ?v \<and> LOCK_GET_OWNED (wt_freed c w) = 0
        \<and> LOCK_GET_TIMESTAMP ?v \<le> LOCK_GET_TIMESTAMP (wt_freed c w)"
      using assms(1) up ts by (auto simp: wt_freed_def)
  next
    case False
    then have j: "?j \<le> INCARNATION_MAX" by (simp add: wt_spent_def not_less)
    have "LOCK_UPD_INCARNATION ?v ?j \<noteq> ?v"
      using upd_incarnation_incarnation [OF j, of ?v] by auto
    then show "wt_freed c w \<noteq> ?v \<and> LOCK_GET_OWNED (wt_freed c w) = 0
        \<and> LOCK_GET_TIMESTAMP ?v \<le> LOCK_GET_TIMESTAMP (wt_freed c w)"
      using False upd_incarnation_timestamp [OF j, of ?v] by (simp add: wt_freed_def upd_incarnation_owned)
  qed
qed

section \<open>Properties\<close>

text \<open>A write-through commit leaves memory as the transaction has written it and frees exactly
  its locks, with the commit time as their new version.\<close>

theorem wt_commit_releases:
  assumes "quiet P" "etl_inv (s_tx s) (g_locks (s_glob s))" "may_commit (s_tx s) (s_glob s)"
  shows "\<exists>t. stm_wt_commit n P s = (Ret True, t) \<and> s_tx t = s_tx s
    \<and> s_glob t = (s_glob s)\<lparr>g_clock := g_clock (s_glob s) + 1,
         g_locks := (\<lambda>k. if covered (s_tx s) k then LOCK_SET_TIMESTAMP (g_clock (s_glob s) + 1)
                         else g_locks (s_glob s) k)\<rparr>"
  using wt_commit_quiet [OF assms, of n] by (auto simp: wp_never wt_committed_def)

theorem wt_commit_releases_witness:
  "\<exists>t. stm_wt_commit 1 (sample_params WRITE_THROUGH) sample_wrote = (Ret True, t)
     \<and> g_mem (s_glob t) 64 = 7 \<and> LOCK_GET_TIMESTAMP (g_locks (s_glob t) 2) = 6"
proof -
  have "may_commit (s_tx sample_wrote) (s_glob sample_wrote)" by (simp add: may_commit_def sample_defs)
  from wt_commit_releases [OF sample_quiet sample_wrote_inv this, of 1 WRITE_THROUGH]
  show ?thesis by (auto simp: sample_defs covered_def covered_from_def lock_defs)
qed

text \<open>C10: A write-through rollback puts the logged values back.  Every lock is freed with a word that
  differs from the one its reader may have seen, and whose version has not gone back: a
  transaction that read a value in between notices.\<close>

theorem wt_rollback_restores:
  assumes "quiet P" "etl_inv (s_tx s) (g_locks (s_glob s))" "IS_ACTIVE (tx_status (s_tx s))"
    and "g_clock (s_glob s) < VERSION_MAX"
    and "\<forall>w \<in> set (tx_ws (s_tx s)). LOCK_GET_TIMESTAMP (we_version w) \<le> g_clock (s_glob s)"
  shows "\<exists>t. stm_wt_rollback P s = (Ret (), t) \<and> s_tx t = s_tx s
    \<and> g_mem (s_glob t) = wview (s_tx s) (g_mem (s_glob s))
    \<and> (\<forall>k. \<not> covered (s_tx s) k \<longrightarrow> g_locks (s_glob t) k = g_locks (s_glob s) k)
    \<and> (\<forall>w \<in> set (tx_ws (s_tx s)). LOCK_GET_OWNED (g_locks (s_glob t) (we_lock w)) = 0
         \<and> g_locks (s_glob t) (we_lock w) \<noteq> we_version w
         \<and> LOCK_GET_TIMESTAMP (we_version w) \<le> LOCK_GET_TIMESTAMP (g_locks (s_glob t) (we_lock w)))"
proof -
  let ?tx = "s_tx s" and ?g = "s_glob s"
  have "g_clock ?g < g_clock ?g + 1" using assms(4) by (rule word_inc_less)
  then have "g_clock ?g + 1 \<noteq> 0" by auto
  then obtain t where t: "stm_wt_rollback P s = (Ret (), t)" "s_tx t = ?tx" "s_glob t = wt_rolled_back ?tx ?g"
    using wt_rollback_quiet [OF assms(1-3)] by (auto simp: wp_never)
  have wf: "ws_wf (tx_ws ?tx)" using assms(2) by (simp add: etl_inv_def)
  have lock: "g_locks (s_glob t) (we_lock w) = wt_freed (g_clock ?g) w" if w: "w \<in> set (tx_ws ?tx)" for w
  proof -
    have "covered_from (tx_ws ?tx) (we_lock w) 0 \<noteq> None"
      using w by (auto simp: covered_from_None in_set_conv_nth)
    then obtain i where i: "covered_from (tx_ws ?tx) (we_lock w) 0 = Some i" by blast
    then have "tx_ws ?tx ! i \<in> set (tx_ws ?tx)" "we_lock (tx_ws ?tx ! i) = we_lock w"
      by (simp_all add: covered_from_Some)
    then have "we_version (tx_ws ?tx ! i) = we_version w" using version_of_lock [OF wf _ w] by blast
    then show ?thesis using i t(3) by (simp add: wt_rolled_back_def wt_freed_def wt_spent_def)
  qed
  have "LOCK_GET_OWNED (wt_freed (g_clock ?g) w) = 0 \<and> wt_freed (g_clock ?g) w \<noteq> we_version w
      \<and> LOCK_GET_TIMESTAMP (we_version w) \<le> LOCK_GET_TIMESTAMP (wt_freed (g_clock ?g) w)"
    if "w \<in> set (tx_ws ?tx)" for w
    using wt_freed_differs [of w "g_clock ?g"] assms(4,5) that by blast
  moreover have "g_locks (s_glob t) k = g_locks ?g k" if "\<not> covered ?tx k" for k
    using that t(3) by (simp add: wt_rolled_back_def covered_def)
  moreover have "g_mem (s_glob t) = wview ?tx (g_mem ?g)" using t(3) by (simp add: wt_rolled_back_def)
  ultimately show ?thesis using t(1,2) lock by (simp add: lock)
qed

theorem wt_rollback_restores_witness:
  "\<exists>t. stm_wt_rollback (sample_params WRITE_THROUGH) sample_wrote = (Ret (), t)
     \<and> g_mem (s_glob t) 64 = 9 \<and> g_locks (s_glob t) 2 \<noteq> 0 \<and> LOCK_GET_OWNED (g_locks (s_glob t) 2) = 0"
proof -
  have "IS_ACTIVE (tx_status (s_tx sample_wrote))" "g_clock (s_glob sample_wrote) < VERSION_MAX"
    "\<forall>w \<in> set (tx_ws (s_tx sample_wrote)). LOCK_GET_TIMESTAMP (we_version w) \<le> g_clock (s_glob sample_wrote)"
    by (simp_all add: sample_defs version_max_value lock_defs)
  from wt_rollback_restores [OF sample_quiet sample_wrote_inv this, of WRITE_THROUGH]
  show ?thesis by (auto simp: sample_defs wview_def stm_has_written_def)
qed

end
