(* ===== verification/Api.thy ===== *)
theory Api
  imports Wbetl Wbctl Wt
begin

text \<open>
  The interface of the library: the design-independent operations \<open>int_stm_*\<close> of
  \<open>src/stm_internal.h\<close> and the exported functions of \<open>src/stm.c\<close>.

  \<open>tls_get_tx\<close> is the field \<open>s_cur\<close>.  An exported function that takes the descriptor from
  there dereferences it without a test: \<open>with_tx\<close> is \<open>Undef\<close> when the thread has none.  The
  variants with an explicit descriptor run the same body on this thread's descriptor.
\<close>

section \<open>Thread-local descriptor\<close>

definition tls_get_tx :: "w64 prog" where
  "tls_get_tx = gets s_cur"

definition tls_set_tx :: "w64 \<Rightarrow> unit prog" where
  "tls_set_tx p = modify (\<lambda>s. s\<lparr>s_cur := p\<rparr>)"

definition tls_init :: "unit prog" where
  "tls_init = tls_set_tx 0"

definition tls_exit :: "unit prog" where
  "tls_exit = tls_set_tx 0"

definition with_tx :: "'a prog \<Rightarrow> 'a prog" where
  "with_tx m = bnd tls_get_tx (\<lambda>p. if p = 0 then stop Undef else m)"

text \<open>The inquiries assert that the descriptor is there.\<close>

definition assert_tx :: "'a prog \<Rightarrow> 'a prog" where
  "assert_tx m = bnd tls_get_tx (\<lambda>p. if p = 0 then stop AssertFail else m)"

section \<open>Dispatch on the design\<close>

definition stm_write :: "nat \<Rightarrow> params \<Rightarrow> w64 \<Rightarrow> w64 \<Rightarrow> w64 \<Rightarrow> nat option prog" where
  "stm_write n P addr value msk =
     thn (assert_c (\<lambda>s. IS_ACTIVE (tx_status (s_tx s))))
    (thn (assert_c (\<lambda>s. \<not> at_read_only (tx_attr (s_tx s))))
    (bnd get_tx (\<lambda>tx.
       if uses_ctl P tx then stm_wbctl_write n P addr value msk
       else if uses_wt P tx then stm_wt_write n P addr value msk
       else stm_wbetl_write n P addr value msk)))"

text \<open>
  The optimised accesses have no branch for \<open>MODULAR\<close>: the reads return an uninitialised
  variable, the writes do nothing.
\<close>

definition int_stm_RaR :: "nat \<Rightarrow> params \<Rightarrow> w64 \<Rightarrow> w64 prog" where
  "int_stm_RaR n P addr = (case p_design P of
       WRITE_BACK_ETL \<Rightarrow> stm_wbetl_RaR n P addr
     | WRITE_BACK_CTL \<Rightarrow> stm_wbctl_RaR n P addr
     | WRITE_THROUGH \<Rightarrow> stm_wt_RaR n P addr
     | MODULAR \<Rightarrow> stop Undef)"

definition int_stm_RaW :: "nat \<Rightarrow> params \<Rightarrow> w64 \<Rightarrow> w64 prog" where
  "int_stm_RaW n P addr = (case p_design P of
       WRITE_BACK_ETL \<Rightarrow> stm_wbetl_RaW P addr
     | WRITE_BACK_CTL \<Rightarrow> stm_wbctl_RaW n P addr
     | WRITE_THROUGH \<Rightarrow> stm_wt_RaW P addr
     | MODULAR \<Rightarrow> stop Undef)"

definition int_stm_RfW :: "nat \<Rightarrow> params \<Rightarrow> w64 \<Rightarrow> w64 prog" where
  "int_stm_RfW n P addr = (case p_design P of
       WRITE_BACK_ETL \<Rightarrow> stm_wbetl_RfW n P addr
     | WRITE_BACK_CTL \<Rightarrow> stm_wbctl_RfW n P addr
     | WRITE_THROUGH \<Rightarrow> stm_wt_RfW n P addr
     | MODULAR \<Rightarrow> stop Undef)"

definition int_stm_WaR :: "nat \<Rightarrow> params \<Rightarrow> w64 \<Rightarrow> w64 \<Rightarrow> w64 \<Rightarrow> unit prog" where
  "int_stm_WaR n P addr value msk = (case p_design P of
       WRITE_BACK_ETL \<Rightarrow> stm_wbetl_WaR n P addr value msk
     | WRITE_BACK_CTL \<Rightarrow> stm_wbctl_WaR n P addr value msk
     | WRITE_THROUGH \<Rightarrow> stm_wt_WaR n P addr value msk
     | MODULAR \<Rightarrow> ret ())"

definition int_stm_WaW :: "params \<Rightarrow> w64 \<Rightarrow> w64 \<Rightarrow> w64 \<Rightarrow> unit prog" where
  "int_stm_WaW P addr value msk = (case p_design P of
       WRITE_BACK_ETL \<Rightarrow> stm_wbetl_WaW P addr value msk
     | WRITE_BACK_CTL \<Rightarrow> stm_wbctl_WaW addr value msk
     | WRITE_THROUGH \<Rightarrow> stm_wt_WaW P addr value msk
     | MODULAR \<Rightarrow> ret ())"

definition int_stm_load :: "nat \<Rightarrow> params \<Rightarrow> w64 \<Rightarrow> w64 prog" where
  "int_stm_load n P addr =
     bnd get_tx (\<lambda>tx.
       if uses_ctl P tx then stm_wbctl_read n P addr
       else if uses_wt P tx then stm_wt_read n P addr
       else stm_wbetl_read n P addr)"

definition int_stm_store :: "nat \<Rightarrow> params \<Rightarrow> w64 \<Rightarrow> w64 \<Rightarrow> unit prog" where
  "int_stm_store n P addr value = bnd (stm_write n P addr value (NOT 0)) (\<lambda>_. ret ())"

definition int_stm_store2 :: "nat \<Rightarrow> params \<Rightarrow> w64 \<Rightarrow> w64 \<Rightarrow> w64 \<Rightarrow> unit prog" where
  "int_stm_store2 n P addr value msk = bnd (stm_write n P addr value msk) (\<lambda>_. ret ())"

definition design_commit :: "nat \<Rightarrow> params \<Rightarrow> bool prog" where
  "design_commit n P =
     bnd get_tx (\<lambda>tx.
       if uses_ctl P tx then stm_wbctl_commit n P
       else if uses_wt P tx then stm_wt_commit n P
       else stm_wbetl_commit n P)"

section \<open>Threads\<close>

definition attr0 :: attr where
  "attr0 = \<lparr>at_id = 0, at_read_only = False, at_visible_reads = False, at_no_retry = False,
            at_no_extend = False\<rparr>"

text \<open>
  A fresh descriptor.  The source does not initialise the snapshot bounds and \<open>thread_idx\<close>
  here; they are taken over from the memory the descriptor is allocated in.
\<close>

definition fresh_tx :: "stm_tx \<Rightarrow> stm_tx" where
  "fresh_tx t = t\<lparr>tx_attr := attr0, tx_status := TX_IDLE,
     tx_rs := [], tx_rs_size := RW_SET_SIZE, tx_ws := [], tx_ws_size := RW_SET_SIZE, tx_count := 0\<rparr>"

definition fresh_tx_rest :: "stm_tx \<Rightarrow> stm_tx" where
  "fresh_tx_rest t = t\<lparr>tx_nesting := 0, tx_data := replicate MAX_SPECIFIC 0,
     tx_backoff := ucast MIN_BACKOFF, tx_seed := 123456789, tx_stat_retries := 0,
     tx_stat_commits := 0, tx_stat_aborts := 0, tx_stat_retries_max := 0, tx_stat_aborts_1 := 0,
     tx_stat_aborts_2 := 0, tx_stat_aborts_r := replicate 16 0, tx_irrevocable := 0\<rparr>"

definition int_stm_init_thread :: "nat \<Rightarrow> params \<Rightarrow> w64 prog" where
  "int_stm_init_thread n P =
     bnd tls_get_tx (\<lambda>p. if p \<noteq> 0 then ret p
     else bnd (xmalloc P) (\<lambda>tx.
       thn (set_tx fresh_tx)
      (thn (stm_allocate_rs_entries P False)
      (thn (stm_allocate_ws_entries P False)
      (thn (set_tx fresh_tx_rest)
      (thn (tls_set_tx tx)
      (thn (stm_quiesce_enter_thread n P tx)
      (thn (run_cbs P g_init_cb) (ret tx)))))))))"

definition int_stm_exit_thread :: "nat \<Rightarrow> params \<Rightarrow> unit prog" where
  "int_stm_exit_thread n P =
     bnd tls_get_tx (\<lambda>p. if p = 0 then ret ()
     else thn (run_cbs P g_exit_cb)
         (thn (stm_quiesce_exit_thread n P p) (tls_set_tx 0)))"

section \<open>Transactions\<close>

text \<open>The result of \<open>int_stm_start\<close> is whether the environment pointer is returned.\<close>

definition int_stm_start :: "nat \<Rightarrow> params \<Rightarrow> attr \<Rightarrow> bool prog" where
  "int_stm_start n P a =
     bnd get_tx (\<lambda>tx.
       thn (set_tx (\<lambda>t. t\<lparr>tx_nesting := tx_nesting t + 1\<rparr>))
      (if tx_nesting tx > 0 then ret False
       else thn (set_tx (\<lambda>t. t\<lparr>tx_attr := a\<rparr>))
           (thn (int_stm_prepare n P)
           (thn (run_cbs P g_start_cb) (ret True)))))"

definition commit_stats :: "stm_tx \<Rightarrow> stm_tx" where
  "commit_stats t = t\<lparr>tx_stat_commits := tx_stat_commits t + 1, tx_stat_retries := 0,
     tx_backoff := ucast MIN_BACKOFF\<rparr>"

definition leave_irrevocable :: "params \<Rightarrow> unit prog" where
  "leave_irrevocable P =
     bnd get_tx (\<lambda>tx.
       when_c (tx_irrevocable tx \<noteq> 0)
        (thn (atomic_set P (\<lambda>g. g\<lparr>g_irrevocable := 0\<rparr>))
        (thn (when_c (tx_irrevocable tx AND 0x08 \<noteq> 0) (stm_quiesce_release P))
             (set_tx (\<lambda>t. t\<lparr>tx_irrevocable := 0\<rparr>)))))"

text \<open>
  The result of the design's commit is not looked at: when it is 0 and the rollback in it
  returned, the transaction is still marked committed.
\<close>

definition int_stm_commit :: "nat \<Rightarrow> params \<Rightarrow> bool prog" where
  "int_stm_commit n P =
     thn (set_tx (\<lambda>t. t\<lparr>tx_nesting := tx_nesting t - 1\<rparr>))
    (bnd get_tx (\<lambda>tx.
       if tx_nesting tx > 0 then ret True
       else thn (run_cbs P g_precommit_cb)
           (thn (assert_c (\<lambda>s. IS_ACTIVE (tx_status (s_tx s))))
           (bnd get_tx (\<lambda>tx'.
            thn (if tx_ws tx' = [] then ret () else bnd (design_commit n P) (\<lambda>_. ret ()))
           (thn (set_tx commit_stats)
           (thn (leave_irrevocable P)
           (thn (set_tx (\<lambda>t. t\<lparr>tx_status := TX_COMMITTED\<rparr>))
           (thn (run_cbs P g_commit_cb) (ret True)))))))))) "

section \<open>Inquiries\<close>

definition int_stm_active :: "bool prog" where
  "int_stm_active = assert_tx (bnd get_tx (\<lambda>tx. ret (IS_ACTIVE (tx_status tx))))"

definition int_stm_aborted :: "bool prog" where
  "int_stm_aborted = assert_tx (bnd get_tx (\<lambda>tx. ret (GET_STATUS (tx_status tx) = TX_ABORTED)))"

definition int_stm_irrevocable :: "bool prog" where
  "int_stm_irrevocable = assert_tx (bnd get_tx (\<lambda>tx. ret (tx_irrevocable tx AND 0x07 = 3)))"

definition int_stm_killed :: "bool prog" where
  "int_stm_killed = assert_tx (bnd get_tx (\<lambda>tx. ret (GET_STATUS (tx_status tx) = TX_KILLED)))"

definition int_stm_get_env :: "bool prog" where
  "int_stm_get_env = assert_tx (bnd get_tx (\<lambda>tx. ret (tx_nesting tx = 0)))"

definition stm_get_attributes :: "attr prog" where
  "stm_get_attributes = assert_tx (bnd get_tx (\<lambda>tx. ret (tx_attr tx)))"

text \<open>\<open>aborts_for r\<close> is \<open>stat_aborts_r[r >> 8]\<close>.\<close>

definition aborts_for :: "w64 \<Rightarrow> stm_tx \<Rightarrow> w32" where
  "aborts_for r tx = tx_stat_aborts_r tx ! unat (drop_bit 8 r)"

definition stat_table :: "(string \<times> (stm_tx \<Rightarrow> w32)) list" where
  "stat_table =
    [(''read_set_size'', \<lambda>tx. of_nat (tx_rs_size tx)),
     (''write_set_size'', \<lambda>tx. of_nat (tx_ws_size tx)),
     (''read_set_nb_entries'', \<lambda>tx. of_nat (length (tx_rs tx))),
     (''write_set_nb_entries'', \<lambda>tx. of_nat (length (tx_ws tx))),
     (''read_only'', \<lambda>tx. of_bool (at_read_only (tx_attr tx))),
     (''nb_commits'', tx_stat_commits),
     (''nb_aborts'', tx_stat_aborts),
     (''avg_aborts'', \<lambda>tx. tx_stat_aborts tx div tx_stat_commits tx),
     (''max_retries'', tx_stat_retries_max),
     (''nb_aborts_1'', tx_stat_aborts_1),
     (''nb_aborts_2'', tx_stat_aborts_2),
     (''nb_aborts_locked_read'', aborts_for STM_ABORT_WR_CONFLICT),
     (''nb_aborts_locked_write'', aborts_for STM_ABORT_WW_CONFLICT),
     (''nb_aborts_validate_read'', aborts_for STM_ABORT_VAL_READ),
     (''nb_aborts_validate_write'', aborts_for STM_ABORT_VAL_WRITE),
     (''nb_aborts_validate_commit'', aborts_for STM_ABORT_VALIDATE),
     (''nb_aborts_killed'', aborts_for STM_ABORT_KILLED),
     (''nb_aborts_invalid_memory'', aborts_for STM_ABORT_SIGNAL)]"

text \<open>\<open>None\<close> stands for the return value 0; dividing by no commits is undefined.\<close>

definition int_stm_get_stats :: "string \<Rightarrow> w32 option prog" where
  "int_stm_get_stats name =
     assert_tx (bnd get_tx (\<lambda>tx.
       if name = ''avg_aborts'' \<and> tx_stat_commits tx = 0 then stop Undef
       else ret (map_option (\<lambda>f. f tx) (map_of stat_table name))))"

definition valid_key :: "int \<Rightarrow> st \<Rightarrow> bool" where
  "valid_key key s \<longleftrightarrow> s_cur s \<noteq> 0 \<and> key \<ge> 0 \<and> key < int (g_nb_specific (s_glob s))"

definition int_stm_set_specific :: "int \<Rightarrow> w64 \<Rightarrow> unit prog" where
  "int_stm_set_specific key d =
     thn (assert_c (valid_key key)) (set_tx (\<lambda>t. t\<lparr>tx_data := (tx_data t)[nat key := d]\<rparr>))"

definition int_stm_get_specific :: "int \<Rightarrow> w64 prog" where
  "int_stm_get_specific key =
     thn (assert_c (valid_key key)) (bnd get_tx (\<lambda>tx. ret (tx_data tx ! nat key)))"

end
