(* ===== verification/Stm.thy ===== *)
theory Stm
  imports Api
begin

text \<open>
  The exported functions of \<open>src/stm.c\<close>: initialisation, the life of a thread and of a
  transaction, inquiries, parameters, transaction-specific data, callbacks of modules, and
  the operations that the configuration leaves out (unit transactions end the process).
\<close>

section \<open>Initialisation\<close>

text \<open>The flag, the lock array and the clock.\<close>

definition stm_init :: "params \<Rightarrow> unit prog" where
  "stm_init P =
     bnd (gets (\<lambda>s. g_initialized (s_glob s))) (\<lambda>i. if i then ret ()
     else
       thn (set_glob (\<lambda>g. g\<lparr>g_locks := (\<lambda>k. if k < LOCK_ARRAY_SIZE then 0 else g_locks g k)\<rparr>))
      (thn (set_glob (\<lambda>g. g\<lparr>g_clock := 0\<rparr>))
      (thn (stm_quiesce_init P)
      (thn tls_init
           (set_glob (\<lambda>g. g\<lparr>g_initialized := True\<rparr>))))))"

definition stm_exit :: "unit prog" where
  "stm_exit =
     bnd (gets (\<lambda>s. g_initialized (s_glob s))) (\<lambda>i. if \<not> i then ret ()
     else thn tls_exit (set_glob (\<lambda>g. g\<lparr>g_initialized := False\<rparr>)))"

definition stm_init_thread :: "nat \<Rightarrow> params \<Rightarrow> w64 prog" where
  "stm_init_thread n P = int_stm_init_thread n P"

definition stm_exit_thread :: "nat \<Rightarrow> params \<Rightarrow> unit prog" where
  "stm_exit_thread n P = int_stm_exit_thread n P"

section \<open>Transactions\<close>

definition stm_start :: "nat \<Rightarrow> params \<Rightarrow> attr \<Rightarrow> bool prog" where
  "stm_start n P a = with_tx (int_stm_start n P a)"

definition stm_commit :: "nat \<Rightarrow> params \<Rightarrow> bool prog" where
  "stm_commit n P = with_tx (int_stm_commit n P)"

definition stm_abort :: "nat \<Rightarrow> params \<Rightarrow> w64 \<Rightarrow> unit prog" where
  "stm_abort n P reason = with_tx (stm_rollback n P (reason OR STM_ABORT_EXPLICIT))"

definition stm_load :: "nat \<Rightarrow> params \<Rightarrow> w64 \<Rightarrow> w64 prog" where
  "stm_load n P addr = with_tx (int_stm_load n P addr)"

definition stm_store :: "nat \<Rightarrow> params \<Rightarrow> w64 \<Rightarrow> w64 \<Rightarrow> unit prog" where
  "stm_store n P addr value = with_tx (int_stm_store n P addr value)"

definition stm_store2 :: "nat \<Rightarrow> params \<Rightarrow> w64 \<Rightarrow> w64 \<Rightarrow> w64 \<Rightarrow> unit prog" where
  "stm_store2 n P addr value msk = with_tx (int_stm_store2 n P addr value msk)"

definition stm_set_irrevocable :: "nat \<Rightarrow> params \<Rightarrow> int \<Rightarrow> bool prog" where
  "stm_set_irrevocable n P serial = with_tx (int_stm_set_irrevocable n P serial)"

section \<open>Inquiries\<close>

definition stm_active :: "bool prog" where
  "stm_active = int_stm_active"

definition stm_aborted :: "bool prog" where
  "stm_aborted = int_stm_aborted"

definition stm_irrevocable :: "bool prog" where
  "stm_irrevocable = int_stm_irrevocable"

definition stm_killed :: "bool prog" where
  "stm_killed = int_stm_killed"

definition stm_get_env :: "bool prog" where
  "stm_get_env = int_stm_get_env"

definition stm_get_stats :: "string \<Rightarrow> w32 option prog" where
  "stm_get_stats name = int_stm_get_stats name"

definition stm_current_tx :: "w64 prog" where
  "stm_current_tx = tls_get_tx"

definition stm_get_clock :: "params \<Rightarrow> w64 prog" where
  "stm_get_clock P = get_clock P"

definition stm_inc_clock :: "params \<Rightarrow> unit prog" where
  "stm_inc_clock P = bnd (fetch_inc_clock P) (\<lambda>_. ret ())"

section \<open>Parameters\<close>

datatype param_val = PString string | PInt int | PUlong w64

definition design_names :: "design \<Rightarrow> string" where
  "design_names d = (case d of
       WRITE_BACK_ETL \<Rightarrow> ''WRITE-BACK (ETL)''
     | WRITE_BACK_CTL \<Rightarrow> ''WRITE-BACK (CTL)''
     | WRITE_THROUGH \<Rightarrow> ''WRITE-THROUGH''
     | MODULAR \<Rightarrow> ''WRITE-MODULAR'')"

text \<open>\<open>cm_names[CM]\<close> with \<open>CM = CM_BACKOFF\<close>.\<close>

definition cm_name :: string where
  "cm_name = ''BACKOFF''"

text \<open>\<open>flags\<close> is the string the build passes as \<open>COMPILE_FLAGS\<close>.\<close>

definition stm_get_parameter :: "string \<Rightarrow> params \<Rightarrow> string \<Rightarrow> param_val option" where
  "stm_get_parameter flags P name =
    (if name = ''contention_manager'' then Some (PString cm_name)
     else if name = ''design'' then Some (PString (design_names (p_design P)))
     else if name = ''initial_rw_set_size'' then Some (PInt (int RW_SET_SIZE))
     else if name = ''min_backoff'' then Some (PUlong (ucast MIN_BACKOFF))
     else if name = ''max_backoff'' then Some (PUlong MAX_BACKOFF)
     else if name = ''compile_flags'' then Some (PString flags)
     else None)"

definition stm_set_parameter :: "string \<Rightarrow> bool" where
  "stm_set_parameter name = False"

section \<open>Transaction-specific data\<close>

definition stm_create_specific :: "int prog" where
  "stm_create_specific =
     bnd (gets (\<lambda>s. g_nb_specific (s_glob s))) (\<lambda>k.
       if k \<ge> MAX_SPECIFIC then ret (- 1)
       else thn (set_glob (\<lambda>g. g\<lparr>g_nb_specific := Suc k\<rparr>)) (ret (int k)))"

definition stm_set_specific :: "int \<Rightarrow> w64 \<Rightarrow> unit prog" where
  "stm_set_specific key d = int_stm_set_specific key d"

definition stm_get_specific :: "int \<Rightarrow> w64 prog" where
  "stm_get_specific key = int_stm_get_specific key"

section \<open>Callbacks\<close>

text \<open>A module registers up to six functions, \<open>NULL\<close> (0) for those it does not need.\<close>

record cb_set =
  on_thread_init :: w64
  on_thread_exit :: w64
  on_start :: w64
  on_precommit :: w64
  on_commit :: w64
  on_abort :: w64

definition no_room :: "w64 \<Rightarrow> cb_entry list \<Rightarrow> bool" where
  "no_room f cbs \<longleftrightarrow> f \<noteq> 0 \<and> length cbs \<ge> MAX_CB"

definition add_cb :: "w64 \<Rightarrow> w64 \<Rightarrow> cb_entry list \<Rightarrow> cb_entry list" where
  "add_cb f arg cbs = (if f \<noteq> 0 then cbs @ [\<lparr>cb_f = f, cb_arg = arg\<rparr>] else cbs)"

definition stm_register :: "cb_set \<Rightarrow> w64 \<Rightarrow> bool prog" where
  "stm_register c arg =
     bnd (gets s_glob) (\<lambda>g.
       if no_room (on_thread_init c) (g_init_cb g) \<or> no_room (on_thread_exit c) (g_exit_cb g)
          \<or> no_room (on_start c) (g_start_cb g) \<or> no_room (on_precommit c) (g_precommit_cb g)
          \<or> no_room (on_commit c) (g_commit_cb g) \<or> no_room (on_abort c) (g_abort_cb g)
       then ret False
       else
         thn (set_glob (\<lambda>g. g\<lparr>
             g_init_cb := add_cb (on_thread_init c) arg (g_init_cb g),
             g_exit_cb := add_cb (on_thread_exit c) arg (g_exit_cb g),
             g_start_cb := add_cb (on_start c) arg (g_start_cb g),
             g_precommit_cb := add_cb (on_precommit c) arg (g_precommit_cb g),
             g_commit_cb := add_cb (on_commit c) arg (g_commit_cb g),
             g_abort_cb := add_cb (on_abort c) arg (g_abort_cb g)\<rparr>))
        (ret True))"

section \<open>Operations left out by the configuration\<close>

text \<open>Without \<open>UNIT_TX\<close> these print a message and end the process.\<close>

definition stm_unit_load :: "w64 \<Rightarrow> w64 prog" where
  "stm_unit_load addr = stop ExitProc"

definition stm_unit_write :: "w64 \<Rightarrow> w64 \<Rightarrow> w64 \<Rightarrow> bool prog" where
  "stm_unit_write addr value msk = stop ExitProc"

definition stm_unit_store :: "w64 \<Rightarrow> w64 \<Rightarrow> bool prog" where
  "stm_unit_store addr value = stm_unit_write addr value (NOT 0)"

definition stm_unit_store2 :: "w64 \<Rightarrow> w64 \<Rightarrow> w64 \<Rightarrow> bool prog" where
  "stm_unit_store2 addr value msk = stm_unit_write addr value msk"

definition stm_set_extension :: "bool \<Rightarrow> unit prog" where
  "stm_set_extension enable = stop ExitProc"

section \<open>Lemmas\<close>

text \<open>The callback arrays never exceed their capacity.\<close>

definition cbs_bounded :: "glob \<Rightarrow> bool" where
  "cbs_bounded g \<longleftrightarrow>
     (\<forall>f \<in> {g_init_cb, g_exit_cb, g_start_cb, g_precommit_cb, g_commit_cb, g_abort_cb}.
        length (f g) \<le> MAX_CB)"

lemma add_cb_bounded: "length cbs \<le> MAX_CB \<Longrightarrow> \<not> no_room f cbs \<Longrightarrow> length (add_cb f arg cbs) \<le> MAX_CB"
  by (auto simp: add_cb_def no_room_def)

end
