(* ===== verification/Bytes.thy ===== *)
theory Bytes
  imports Locks
begin

text \<open>
  Words of 64 bits as eight bytes on a little-endian machine, and memory by bytes: what
  \<open>src/wrappers.c\<close> and \<open>src/mod_log.c\<close> do with unions and pointers of smaller types.
\<close>

section \<open>Fields of a word\<close>

definition byte :: "w64 \<Rightarrow> nat \<Rightarrow> 8 word" where
  "byte w i = ucast (drop_bit (8 * i) w)"

definition bytes_of :: "w64 \<Rightarrow> 8 word list" where
  "bytes_of w = map (byte w) [0..<8]"

text \<open>\<open>place w p m v\<close>: \<open>v\<close> stored in the field of width mask \<open>m\<close> at bit \<open>p\<close> of \<open>w\<close>.\<close>

definition place :: "w64 \<Rightarrow> nat \<Rightarrow> w64 \<Rightarrow> w64 \<Rightarrow> w64" where
  "place w pos m v = merge_mask w (push_bit pos v) (push_bit pos m)"

fun word_of :: "8 word list \<Rightarrow> w64" where
  "word_of [] = 0"
| "word_of (b # bs) = ucast b OR push_bit 8 (word_of bs)"

definition ALIGN_DOWN :: "w64 \<Rightarrow> w64" where
  "ALIGN_DOWN addr = addr AND NOT 0x07"

definition OFFSET :: "w64 \<Rightarrow> nat" where
  "OFFSET addr = unat (addr AND 0x07)"

section \<open>Memory by bytes\<close>

definition read_byte :: "(w64 \<Rightarrow> w64) \<Rightarrow> w64 \<Rightarrow> 8 word" where
  "read_byte mem p = byte (mem (ALIGN_DOWN p)) (OFFSET p)"

definition write_byte :: "(w64 \<Rightarrow> w64) \<Rightarrow> w64 \<Rightarrow> 8 word \<Rightarrow> w64 \<Rightarrow> w64" where
  "write_byte mem p b = mem(ALIGN_DOWN p := place (mem (ALIGN_DOWN p)) (8 * OFFSET p) 0xFF (ucast b))"

fun read_bytes :: "(w64 \<Rightarrow> w64) \<Rightarrow> w64 \<Rightarrow> nat \<Rightarrow> 8 word list" where
  "read_bytes mem p 0 = []"
| "read_bytes mem p (Suc k) = read_byte mem p # read_bytes mem (p + 1) k"

fun write_bytes :: "(w64 \<Rightarrow> w64) \<Rightarrow> w64 \<Rightarrow> 8 word list \<Rightarrow> w64 \<Rightarrow> w64" where
  "write_bytes mem p [] = mem"
| "write_bytes mem p (b # bs) = write_bytes (write_byte mem p b) (p + 1) bs"

section \<open>Lemmas on bytes\<close>

lemma bit_byte: "bit (byte w i) n \<longleftrightarrow> n < 8 \<and> bit w (8 * i + n)"
  by (auto simp: byte_def bit_simps)

lemma bytes_of_length [simp]: "length (bytes_of w) = 8"
  by (simp add: bytes_of_def)

lemma bytes_of_nth: "i < 8 \<Longrightarrow> bytes_of w ! i = byte w i"
  by (simp add: bytes_of_def)

text \<open>A word is its eight bytes.\<close>

lemma byte_eqI:
  assumes "\<And>i. i < 8 \<Longrightarrow> byte w i = byte w' i"
  shows "w = w'"
proof (rule bit_word_eqI)
  fix n assume "n < LENGTH(64)"
  then have i: "n div 8 < 8" by simp
  have "bit (byte w (n div 8)) (n mod 8) = bit (byte w' (n div 8)) (n mod 8)"
    using assms [OF i] by simp
  then show "bit w n = bit w' n" by (simp add: bit_byte)
qed

lemma byte_merge: "byte (merge_mask w v m) i = merge_mask (byte w i) (byte v i) (byte m i)"
  by (rule bit_word_eqI) (auto simp: bit_byte dest: bit_imp_le_length)

lemma byte_zero [simp]: "byte 0 i = 0"
  by (rule bit_word_eqI) (simp add: bit_byte)

lemma byte_full [simp]: "i < 8 \<Longrightarrow> byte (- 1) i = - 1"
  by (rule bit_word_eqI) (simp add: bit_byte bit_minus_1_iff)

lemma byte_shifted:
  "i < 8 \<Longrightarrow> j < 8 \<Longrightarrow> byte (push_bit (8 * i) (ucast (b :: 8 word))) j = (if i = j then b else 0)"
proof (rule bit_word_eqI)
  fix n assume ij: "i < 8" "j < 8" and n: "n < LENGTH(8)"
  have "i = j" if "8 * i \<le> 8 * j + n" "8 * j + n - 8 * i < 8"
    using that ij n by simp
  then show "bit (byte (push_bit (8 * i) (ucast b)) j) n = bit (if i = j then b else 0) n"
    using ij n by (auto simp: bit_byte bit_simps dest: bit_imp_le_length)
qed

lemma byte_place:
  assumes "i < 8" "j < 8"
  shows "byte (place w (8 * i) 0xFF (ucast b)) j = (if j = i then b else byte w j)"
proof -
  have "(0xFF :: w64) = ucast (- 1 :: 8 word)" by (simp add: unsigned_minus_1_eq_mask mask_eq_exp_minus_1)
  then have "byte (push_bit (8 * i) 0xFF) j = (if i = j then - 1 else 0 :: 8 word)"
    using byte_shifted [OF assms, of "- 1"] by simp
  then show ?thesis by (simp add: place_def byte_merge byte_shifted [OF assms])
qed

lemma byte_word_of: "length bs \<le> 8 \<Longrightarrow> i < 8 \<Longrightarrow> byte (word_of bs) i = (if i < length bs then bs ! i else 0)"
proof (induction bs arbitrary: i)
  case (Cons b bs)
  show ?case
  proof (cases i)
    case 0
    show ?thesis
      by (rule bit_word_eqI) (auto simp: 0 bit_byte bit_simps)
  next
    case (Suc j)
    have "byte (ucast b OR push_bit 8 (word_of bs)) i = byte (word_of bs) j"
      by (rule bit_word_eqI) (use Suc Cons.prems in \<open>auto simp: bit_byte bit_simps dest: bit_imp_le_length\<close>)
    then show ?thesis using Suc Cons.IH [of j] Cons.prems by simp
  qed
qed simp

lemma word_of_bytes_of: "word_of (bytes_of w) = w"
  by (rule byte_eqI) (simp add: byte_word_of bytes_of_nth)

lemma bytes_of_word_of: "length bs = 8 \<Longrightarrow> bytes_of (word_of bs) = bs"
  by (rule nth_equalityI) (simp_all add: bytes_of_nth byte_word_of)

section \<open>Lemmas on addresses\<close>

lemma offset_less [simp]: "OFFSET a < 8"
proof -
  have "a AND 7 \<le> 7" by (rule word_and_le1)
  then show ?thesis by (simp add: OFFSET_def word_le_nat_alt)
qed

lemma align_offset: "a = ALIGN_DOWN a + of_nat (OFFSET a)"
proof -
  have "a = (a AND NOT 7) OR (a AND 7)" by (rule bit_word_eqI) (auto simp: bit_simps)
  also have "\<dots> = (a AND NOT 7) + (a AND 7)"
    by (rule disjunctive_add [symmetric]) (auto simp: bit_simps)
  finally show ?thesis by (simp add: ALIGN_DOWN_def OFFSET_def)
qed

lemma offset_mod: "OFFSET a = unat a mod 8"
proof -
  have "a AND 7 = take_bit 3 a" by (simp add: take_bit_eq_mask mask_eq_exp_minus_1)
  then show ?thesis by (simp add: OFFSET_def unsigned_take_bit_eq take_bit_eq_mod unat_mod)
qed

lemma offset_add: "OFFSET (a + of_nat i) = (OFFSET a + i) mod 8"
proof -
  have "(2 :: nat) ^ 64 = 8 * 2 ^ 61" by simp
  then have "x mod 2 ^ 64 mod 8 = x mod 8" for x :: nat by (metis mod_mult_self2 mod_mod_cancel dvd_triv_left)
  then have "unat (a + of_nat i) mod 8 = (unat a + i) mod 8"
    by (simp add: unat_word_ariths unat_of_nat) (metis mod_add_right_eq)
  then show ?thesis by (simp add: offset_mod mod_add_left_eq)
qed

lemma align_aligned [simp]: "OFFSET (ALIGN_DOWN a) = 0" "ALIGN_DOWN (ALIGN_DOWN a) = ALIGN_DOWN a"
proof -
  have "(a AND NOT 7) AND 7 = 0" by (rule bit_word_eqI) (auto simp: bit_simps)
  then show "OFFSET (ALIGN_DOWN a) = 0" by (simp add: OFFSET_def ALIGN_DOWN_def)
  show "ALIGN_DOWN (ALIGN_DOWN a) = ALIGN_DOWN a" by (simp add: ALIGN_DOWN_def)
qed

lemma aligned_down: "OFFSET a = 0 \<Longrightarrow> ALIGN_DOWN a = a"
  using align_offset [of a] by simp

lemma aligned_add:
  assumes "OFFSET a = 0" "i < 8"
  shows "ALIGN_DOWN (a + of_nat i) = a" "OFFSET (a + of_nat i) = i"
proof -
  show o: "OFFSET (a + of_nat i) = i" using assms by (simp add: offset_add)
  have "a + of_nat i = ALIGN_DOWN (a + of_nat i) + of_nat i" using align_offset [of "a + of_nat i"] o by simp
  then show "ALIGN_DOWN (a + of_nat i) = a" by simp
qed

lemma aligned_next: "OFFSET a = 0 \<Longrightarrow> OFFSET (a + 8) = 0"
  using offset_add [of a 8] by simp

section \<open>Lemmas on blocks\<close>

text \<open>\<open>patch w i bs\<close>: the word \<open>w\<close> with \<open>bs\<close> from byte \<open>i\<close> on.\<close>

fun patch :: "w64 \<Rightarrow> nat \<Rightarrow> 8 word list \<Rightarrow> w64" where
  "patch w i [] = w"
| "patch w i (b # bs) = patch (place w (8 * i) 0xFF (ucast b)) (Suc i) bs"

lemma byte_patch:
  "i + length bs \<le> 8 \<Longrightarrow> j < 8 \<Longrightarrow>
     byte (patch w i bs) j = (if i \<le> j \<and> j < i + length bs then bs ! (j - i) else byte w j)"
proof (induction bs arbitrary: i w)
  case (Cons b bs)
  have i: "i < 8" using Cons.prems by simp
  have "byte (patch w i (b # bs)) j =
      (if Suc i \<le> j \<and> j < Suc i + length bs then bs ! (j - Suc i) else byte (place w (8 * i) 0xFF (ucast b)) j)"
    using Cons.IH [of "Suc i"] Cons.prems by simp
  then show ?case
    using byte_place [OF i Cons.prems(2), of w b] by (auto simp: nth_Cons' not_le less_Suc_eq_le)
qed auto

lemma read_bytes_length [simp]: "length (read_bytes mem p k) = k"
  by (induction k arbitrary: p) simp_all

lemma read_bytes_add: "read_bytes mem p (j + k) = read_bytes mem p j @ read_bytes mem (p + of_nat j) k"
proof (induction j arbitrary: p)
  case (Suc j)
  then show ?case by (simp add: ac_simps)
qed simp

lemma read_bytes_word:
  "OFFSET a = 0 \<Longrightarrow> i + k \<le> 8 \<Longrightarrow> read_bytes mem (a + of_nat i) k = take k (drop i (bytes_of (mem a)))"
proof (induction k arbitrary: i)
  case (Suc k)
  have i: "i < 8" using Suc.prems by simp
  have "read_bytes mem (a + of_nat (Suc i)) k = take k (drop (Suc i) (bytes_of (mem a)))"
    using Suc.IH [of "Suc i"] Suc.prems by simp
  moreover have "drop i (bytes_of (mem a)) = byte (mem a) i # drop (Suc i) (bytes_of (mem a))"
    using Cons_nth_drop_Suc [of i "bytes_of (mem a)"] i by (simp add: bytes_of_nth)
  ultimately show ?case
    using aligned_add [OF Suc.prems(1) i] by (simp add: read_byte_def ac_simps)
qed simp

lemma write_bytes_append: "write_bytes mem p (xs @ ys) = write_bytes (write_bytes mem p xs) (p + of_nat (length xs)) ys"
  by (induction xs arbitrary: mem p) (simp_all add: ac_simps)

lemma write_bytes_word:
  "OFFSET a = 0 \<Longrightarrow> i + length bs \<le> 8 \<Longrightarrow> write_bytes mem (a + of_nat i) bs = mem(a := patch (mem a) i bs)"
proof (induction bs arbitrary: i mem)
  case (Cons b bs)
  have i: "i < 8" using Cons.prems by simp
  have "write_bytes (write_byte mem (a + of_nat i) b) (a + of_nat (Suc i)) bs =
      (write_byte mem (a + of_nat i) b)(a := patch (write_byte mem (a + of_nat i) b a) (Suc i) bs)"
    by (rule Cons.IH) (use Cons.prems in simp_all)
  moreover have "a + of_nat i + 1 = a + of_nat (Suc i)" by (simp add: ac_simps)
  ultimately have "write_bytes mem (a + of_nat i) (b # bs) =
      (write_byte mem (a + of_nat i) b)(a := patch (write_byte mem (a + of_nat i) b a) (Suc i) bs)"
    by (simp only: write_bytes.simps)
  then show ?case
    using aligned_add [OF Cons.prems(1) i] by (simp add: write_byte_def)
qed simp

lemma write_bytes_full:
  assumes "OFFSET a = 0" "length bs = 8"
  shows "write_bytes mem a bs = mem(a := word_of bs)"
proof -
  have "patch (mem a) 0 bs = word_of bs"
    by (rule byte_eqI) (simp add: byte_patch byte_word_of assms(2))
  then show ?thesis using write_bytes_word [of a 0 bs mem] assms by simp
qed

text \<open>Bytes read back as they were written, and the others stay.\<close>

lemma read_write_byte: "read_byte (write_byte mem p b) q = (if q = p then b else read_byte mem q)"
proof -
  have "q = p" if "ALIGN_DOWN q = ALIGN_DOWN p" "OFFSET q = OFFSET p"
    using that align_offset [of q] align_offset [of p] by simp
  then show ?thesis by (auto simp: read_byte_def write_byte_def byte_place)
qed

lemma read_byte_write_bytes:
  "length bs \<le> 2 ^ 64 \<Longrightarrow> read_byte (write_bytes mem p bs) q =
     (if unat (q - p) < length bs then bs ! unat (q - p) else read_byte mem q)"
proof (induction bs arbitrary: mem p)
  case (Cons b bs)
  have IH: "read_byte (write_bytes (write_byte mem p b) (p + 1) bs) q =
      (if unat (q - (p + 1)) < length bs then bs ! unat (q - (p + 1)) else read_byte (write_byte mem p b) q)"
    by (rule Cons.IH) (use Cons.prems in simp)
  show ?case
  proof (cases "q = p")
    case True
    have "unat (p - (p + 1)) = 2 ^ 64 - 1" by (simp add: unsigned_minus_1_eq_mask mask_eq_exp_minus_1)
    then show ?thesis using IH True Cons.prems by (simp add: read_write_byte)
  next
    case False
    then have "q - p \<noteq> 0" by simp
    then obtain m where m: "unat (q - p) = Suc m" by (metis not0_implies_Suc unat_eq_0)
    moreover have eq: "q - (p + 1) = q - p - 1" by simp
    have "unat (q - (p + 1)) = m" using m \<open>q - p \<noteq> 0\<close> unat_minus_one [of "q - p"] unfolding eq by simp
    ultimately show ?thesis using IH False by (simp add: read_write_byte)
  qed
qed simp

lemma read_bytes_nth: "i < k \<Longrightarrow> read_bytes mem p k ! i = read_byte mem (p + of_nat i)"
proof (induction k arbitrary: p i)
  case (Suc k)
  then show ?case by (cases i) (simp_all add: add.assoc)
qed simp

lemma read_write_bytes: "length bs \<le> 2 ^ 64 \<Longrightarrow> read_bytes (write_bytes mem p bs) p (length bs) = bs"
  by (rule nth_equalityI) (simp_all add: read_bytes_nth read_byte_write_bytes unat_of_nat)

text \<open>Writing back what was read restores memory.\<close>

lemma mem_eqI: "(\<And>q. read_byte mem q = read_byte mem' q) \<Longrightarrow> (\<And>a. OFFSET a \<noteq> 0 \<Longrightarrow> mem a = mem' a) \<Longrightarrow> mem = mem'"
proof
  fix a
  assume eq: "\<And>q. read_byte mem q = read_byte mem' q" and un: "\<And>a. OFFSET a \<noteq> 0 \<Longrightarrow> mem a = mem' a"
  show "mem a = mem' a"
  proof (cases "OFFSET a = 0")
    case True
    show ?thesis
    proof (rule byte_eqI)
      fix i :: nat assume "i < 8"
      then show "byte (mem a) i = byte (mem' a) i"
        using eq [of "a + of_nat i"] aligned_add [OF True] by (simp add: read_byte_def)
    qed
  qed (rule un)
qed

lemma write_bytes_unaligned: "OFFSET a \<noteq> 0 \<Longrightarrow> write_bytes mem p bs a = mem a"
  by (induction bs arbitrary: mem p) (auto simp: write_byte_def)

lemma write_back: "k \<le> 2 ^ 64 \<Longrightarrow> (\<And>q. \<not> unat (q - p) < k \<Longrightarrow> read_byte mem' q = read_byte mem q) \<Longrightarrow>
    (\<And>a. OFFSET a \<noteq> 0 \<Longrightarrow> mem' a = mem a) \<Longrightarrow> write_bytes mem' p (read_bytes mem p k) = mem"
  by (rule mem_eqI) (auto simp: read_byte_write_bytes read_bytes_nth write_bytes_unaligned)

lemma write_bytes_twice:
  "length bs = length cs \<Longrightarrow> length cs \<le> 2 ^ 64 \<Longrightarrow> write_bytes (write_bytes mem p bs) p cs = write_bytes mem p cs"
  by (rule mem_eqI) (auto simp: read_byte_write_bytes write_bytes_unaligned)

end
