(* ===== verification/Wrappers.thy ===== *)
theory Wrappers
  imports Stm Bytes
begin

text \<open>
  Loads and stores of every width (\<open>src/wrappers.c\<close>), on a 64-bit little-endian machine.

  \<open>TM_LOAD\<close>, \<open>TM_STORE\<close> and \<open>TM_STORE2\<close> are the arguments \<open>ld\<close>, \<open>sto\<close> and \<open>st2\<close> of each body, and
  the exported functions pass \<open>stm_load\<close>, \<open>stm_store\<close> and \<open>stm_store2\<close>.  A \<open>union\<close> of a word and
  smaller integers is the word itself, read and written by fields of bits.  The source
  leaves the bytes of \<open>val\<close> outside the mask uninitialised; they are the argument \<open>junk\<close>.
  A value of type \<open>char\<close>, \<open>short\<close>, \<open>int\<close>, \<open>long\<close>, \<open>float\<close>, \<open>double\<close> or pointer is its bit pattern.
\<close>

section \<open>Blocks of bytes\<close>

function load_words :: "(w64 \<Rightarrow> w64 prog) \<Rightarrow> w64 \<Rightarrow> nat \<Rightarrow> 8 word list prog" where
  "load_words ld a sz =
    (if sz \<ge> 8 then
       bnd (ld a) (\<lambda>w. bnd (load_words ld (a + 8) (sz - 8)) (\<lambda>r. ret (bytes_of w @ r)))
     else if sz > 0 then bnd (ld a) (\<lambda>w. ret (take sz (bytes_of w)))
     else ret [])"
  by pat_completeness auto
termination by (relation "measure (\<lambda>(ld, a, sz). sz)") auto

declare load_words.simps [simp del]

definition load_bytes_with :: "(w64 \<Rightarrow> w64 prog) \<Rightarrow> w64 \<Rightarrow> nat \<Rightarrow> 8 word list prog" where
  "load_bytes_with ld addr sz =
    (if sz = 0 then ret []
     else let i = OFFSET addr in
       if i \<noteq> 0 then
         bnd (ld (ALIGN_DOWN addr)) (\<lambda>w.
         bnd (load_words ld (ALIGN_DOWN addr + 8) (sz - (8 - i)))
           (\<lambda>r. ret (take sz (drop i (bytes_of w)) @ r)))
       else load_words ld addr sz)"

text \<open>The value and the mask that the partial stores build byte by byte from offset \<open>i\<close>.\<close>

fun partial_store :: "nat \<Rightarrow> 8 word list \<Rightarrow> w64 \<times> w64 \<Rightarrow> w64 \<times> w64" where
  "partial_store i [] vm = vm"
| "partial_store i (b # bs) vm =
     partial_store (Suc i) bs
       (place (fst vm) (8 * i) 0xFF (ucast b), place (snd vm) (8 * i) 0xFF 0xFF)"

function store_words ::
    "(w64 \<Rightarrow> w64 \<Rightarrow> unit prog) \<Rightarrow> (w64 \<Rightarrow> w64 \<Rightarrow> w64 \<Rightarrow> unit prog) \<Rightarrow> w64 \<Rightarrow> 8 word list \<Rightarrow> unit prog" where
  "store_words sto st2 a buf =
    (if length buf \<ge> 8 then
       thn (sto a (word_of (take 8 buf))) (store_words sto st2 (a + 8) (drop 8 buf))
     else if buf \<noteq> [] then (case partial_store 0 buf (0, 0) of (v, m) \<Rightarrow> st2 a v m)
     else ret ())"
  by pat_completeness auto
termination by (relation "measure (\<lambda>(sto, st2, a, buf). length buf)") auto

declare store_words.simps [simp del]

definition store_bytes_with ::
    "(w64 \<Rightarrow> w64 \<Rightarrow> unit prog) \<Rightarrow> (w64 \<Rightarrow> w64 \<Rightarrow> w64 \<Rightarrow> unit prog) \<Rightarrow> w64 \<Rightarrow> 8 word list \<Rightarrow> unit prog" where
  "store_bytes_with sto st2 addr buf =
    (if buf = [] then ret ()
     else let i = OFFSET addr in
       if i \<noteq> 0 then
         thn (case partial_store i (take (8 - i) buf) (0, 0) of (v, m) \<Rightarrow> st2 (ALIGN_DOWN addr) v m)
             (store_words sto st2 (ALIGN_DOWN addr + 8) (drop (8 - i) buf))
       else store_words sto st2 addr buf)"

text \<open>\<open>stm_set_bytes\<close>: \<open>v\<close> repeats the byte, the masks select the bytes inside the range.\<close>

definition mask_bytes :: "nat \<Rightarrow> nat \<Rightarrow> w64" where
  "mask_bytes i k = snd (partial_store i (replicate k 0) (0, 0))"

function set_words ::
    "(w64 \<Rightarrow> w64 \<Rightarrow> unit prog) \<Rightarrow> (w64 \<Rightarrow> w64 \<Rightarrow> w64 \<Rightarrow> unit prog) \<Rightarrow> w64 \<Rightarrow> w64 \<Rightarrow> nat \<Rightarrow> unit prog" where
  "set_words sto st2 v a count =
    (if count \<ge> 8 then thn (sto a v) (set_words sto st2 v (a + 8) (count - 8))
     else if count > 0 then st2 a v (mask_bytes 0 count)
     else ret ())"
  by pat_completeness auto
termination by (relation "measure (\<lambda>(sto, st2, v, a, count). count)") auto

declare set_words.simps [simp del]

definition set_bytes_with ::
    "(w64 \<Rightarrow> w64 \<Rightarrow> unit prog) \<Rightarrow> (w64 \<Rightarrow> w64 \<Rightarrow> w64 \<Rightarrow> unit prog) \<Rightarrow> w64 \<Rightarrow> 8 word \<Rightarrow> nat \<Rightarrow> unit prog" where
  "set_bytes_with sto st2 addr b count =
    (if count = 0 then ret ()
     else let v = word_of (replicate 8 b); i = OFFSET addr in
       if i \<noteq> 0 then
         thn (st2 (ALIGN_DOWN addr) v (mask_bytes i (min (8 - i) count)))
             (set_words sto st2 v (ALIGN_DOWN addr + 8) (count - (8 - i)))
       else set_words sto st2 v addr count)"

section \<open>Loads\<close>

definition load_u8_with :: "(w64 \<Rightarrow> w64 prog) \<Rightarrow> w64 \<Rightarrow> 8 word prog" where
  "load_u8_with ld addr = bnd (ld (ALIGN_DOWN addr)) (\<lambda>w. ret (byte w (OFFSET addr)))"

definition load_u16_with :: "(w64 \<Rightarrow> w64 prog) \<Rightarrow> w64 \<Rightarrow> 16 word prog" where
  "load_u16_with ld addr =
    (if addr AND 0x01 \<noteq> 0 then bnd (load_bytes_with ld addr 2) (\<lambda>bs. ret (ucast (word_of bs)))
     else bnd (ld (ALIGN_DOWN addr)) (\<lambda>w. ret (ucast (drop_bit (16 * (OFFSET addr div 2)) w))))"

definition load_u32_with :: "(w64 \<Rightarrow> w64 prog) \<Rightarrow> w64 \<Rightarrow> w32 prog" where
  "load_u32_with ld addr =
    (if addr AND 0x03 \<noteq> 0 then bnd (load_bytes_with ld addr 4) (\<lambda>bs. ret (ucast (word_of bs)))
     else bnd (ld (ALIGN_DOWN addr)) (\<lambda>w. ret (ucast (drop_bit (32 * (OFFSET addr div 4)) w))))"

definition load_u64_with :: "(w64 \<Rightarrow> w64 prog) \<Rightarrow> w64 \<Rightarrow> w64 prog" where
  "load_u64_with ld addr =
    (if addr AND 0x07 \<noteq> 0 then bnd (load_bytes_with ld addr 8) (\<lambda>bs. ret (word_of bs))
     else ld addr)"

section \<open>Stores\<close>

definition store_u8_with ::
    "w64 \<Rightarrow> (w64 \<Rightarrow> w64 \<Rightarrow> w64 \<Rightarrow> unit prog) \<Rightarrow> w64 \<Rightarrow> 8 word \<Rightarrow> unit prog" where
  "store_u8_with junk st2 addr value =
     st2 (ALIGN_DOWN addr) (place junk (8 * OFFSET addr) 0xFF (ucast value))
       (place 0 (8 * OFFSET addr) 0xFF 0xFF)"

definition store_u16_with ::
    "w64 \<Rightarrow> (w64 \<Rightarrow> w64 \<Rightarrow> unit prog) \<Rightarrow> (w64 \<Rightarrow> w64 \<Rightarrow> w64 \<Rightarrow> unit prog) \<Rightarrow> w64 \<Rightarrow> 16 word \<Rightarrow> unit prog" where
  "store_u16_with junk sto st2 addr value =
    (if addr AND 0x01 \<noteq> 0 then store_bytes_with sto st2 addr (take 2 (bytes_of (ucast value)))
     else st2 (ALIGN_DOWN addr) (place junk (16 * (OFFSET addr div 2)) 0xFFFF (ucast value))
            (place 0 (16 * (OFFSET addr div 2)) 0xFFFF 0xFFFF))"

definition store_u32_with ::
    "w64 \<Rightarrow> (w64 \<Rightarrow> w64 \<Rightarrow> unit prog) \<Rightarrow> (w64 \<Rightarrow> w64 \<Rightarrow> w64 \<Rightarrow> unit prog) \<Rightarrow> w64 \<Rightarrow> w32 \<Rightarrow> unit prog" where
  "store_u32_with junk sto st2 addr value =
    (if addr AND 0x03 \<noteq> 0 then store_bytes_with sto st2 addr (take 4 (bytes_of (ucast value)))
     else st2 (ALIGN_DOWN addr) (place junk (32 * (OFFSET addr div 4)) 0xFFFFFFFF (ucast value))
            (place 0 (32 * (OFFSET addr div 4)) 0xFFFFFFFF 0xFFFFFFFF))"

definition store_u64_with ::
    "(w64 \<Rightarrow> w64 \<Rightarrow> unit prog) \<Rightarrow> (w64 \<Rightarrow> w64 \<Rightarrow> w64 \<Rightarrow> unit prog) \<Rightarrow> w64 \<Rightarrow> w64 \<Rightarrow> unit prog" where
  "store_u64_with sto st2 addr value =
    (if addr AND 0x07 \<noteq> 0 then store_bytes_with sto st2 addr (bytes_of value)
     else sto addr value)"

section \<open>The exported functions\<close>

definition stm_load_bytes :: "nat \<Rightarrow> params \<Rightarrow> w64 \<Rightarrow> nat \<Rightarrow> 8 word list prog" where
  "stm_load_bytes n P addr sz = load_bytes_with (stm_load n P) addr sz"

definition stm_store_bytes :: "nat \<Rightarrow> params \<Rightarrow> w64 \<Rightarrow> 8 word list \<Rightarrow> unit prog" where
  "stm_store_bytes n P addr buf = store_bytes_with (stm_store n P) (stm_store2 n P) addr buf"

definition stm_set_bytes :: "nat \<Rightarrow> params \<Rightarrow> w64 \<Rightarrow> 8 word \<Rightarrow> nat \<Rightarrow> unit prog" where
  "stm_set_bytes n P addr b count = set_bytes_with (stm_store n P) (stm_store2 n P) addr b count"

definition stm_load_u8 :: "nat \<Rightarrow> params \<Rightarrow> w64 \<Rightarrow> 8 word prog" where
  "stm_load_u8 n P addr = load_u8_with (stm_load n P) addr"

definition stm_load_u16 :: "nat \<Rightarrow> params \<Rightarrow> w64 \<Rightarrow> 16 word prog" where
  "stm_load_u16 n P addr = load_u16_with (stm_load n P) addr"

definition stm_load_u32 :: "nat \<Rightarrow> params \<Rightarrow> w64 \<Rightarrow> w32 prog" where
  "stm_load_u32 n P addr = load_u32_with (stm_load n P) addr"

definition stm_load_u64 :: "nat \<Rightarrow> params \<Rightarrow> w64 \<Rightarrow> w64 prog" where
  "stm_load_u64 n P addr = load_u64_with (stm_load n P) addr"

definition stm_load_ptr :: "nat \<Rightarrow> params \<Rightarrow> w64 \<Rightarrow> w64 prog" where
  "stm_load_ptr n P addr = stm_load n P addr"

text \<open>The variants for the C types of each width; the value is the bit pattern.\<close>

definition stm_load_char :: "nat \<Rightarrow> params \<Rightarrow> w64 \<Rightarrow> 8 word prog" where
  "stm_load_char n P addr = stm_load_u8 n P addr"

definition stm_load_short :: "nat \<Rightarrow> params \<Rightarrow> w64 \<Rightarrow> 16 word prog" where
  "stm_load_short n P addr = stm_load_u16 n P addr"

definition stm_load_int :: "nat \<Rightarrow> params \<Rightarrow> w64 \<Rightarrow> w32 prog" where
  "stm_load_int n P addr = stm_load_u32 n P addr"

definition stm_load_long :: "nat \<Rightarrow> params \<Rightarrow> w64 \<Rightarrow> w64 prog" where
  "stm_load_long n P addr = stm_load_u64 n P addr"

definition stm_load_uchar :: "nat \<Rightarrow> params \<Rightarrow> w64 \<Rightarrow> 8 word prog" where
  "stm_load_uchar n P addr = stm_load_u8 n P addr"

definition stm_load_ushort :: "nat \<Rightarrow> params \<Rightarrow> w64 \<Rightarrow> 16 word prog" where
  "stm_load_ushort n P addr = stm_load_u16 n P addr"

definition stm_load_uint :: "nat \<Rightarrow> params \<Rightarrow> w64 \<Rightarrow> w32 prog" where
  "stm_load_uint n P addr = stm_load_u32 n P addr"

definition stm_load_ulong :: "nat \<Rightarrow> params \<Rightarrow> w64 \<Rightarrow> w64 prog" where
  "stm_load_ulong n P addr = stm_load_u64 n P addr"

definition stm_load_float :: "nat \<Rightarrow> params \<Rightarrow> w64 \<Rightarrow> w32 prog" where
  "stm_load_float n P addr = stm_load_u32 n P addr"

definition stm_load_double :: "nat \<Rightarrow> params \<Rightarrow> w64 \<Rightarrow> w64 prog" where
  "stm_load_double n P addr = stm_load_u64 n P addr"

definition stm_store_u8 :: "w64 \<Rightarrow> nat \<Rightarrow> params \<Rightarrow> w64 \<Rightarrow> 8 word \<Rightarrow> unit prog" where
  "stm_store_u8 junk n P addr value = store_u8_with junk (stm_store2 n P) addr value"

definition stm_store_u16 :: "w64 \<Rightarrow> nat \<Rightarrow> params \<Rightarrow> w64 \<Rightarrow> 16 word \<Rightarrow> unit prog" where
  "stm_store_u16 junk n P addr value = store_u16_with junk (stm_store n P) (stm_store2 n P) addr value"

definition stm_store_u32 :: "w64 \<Rightarrow> nat \<Rightarrow> params \<Rightarrow> w64 \<Rightarrow> w32 \<Rightarrow> unit prog" where
  "stm_store_u32 junk n P addr value = store_u32_with junk (stm_store n P) (stm_store2 n P) addr value"

definition stm_store_u64 :: "nat \<Rightarrow> params \<Rightarrow> w64 \<Rightarrow> w64 \<Rightarrow> unit prog" where
  "stm_store_u64 n P addr value = store_u64_with (stm_store n P) (stm_store2 n P) addr value"

definition stm_store_char :: "w64 \<Rightarrow> nat \<Rightarrow> params \<Rightarrow> w64 \<Rightarrow> 8 word \<Rightarrow> unit prog" where
  "stm_store_char junk n P addr value = stm_store_u8 junk n P addr value"

definition stm_store_short :: "w64 \<Rightarrow> nat \<Rightarrow> params \<Rightarrow> w64 \<Rightarrow> 16 word \<Rightarrow> unit prog" where
  "stm_store_short junk n P addr value = stm_store_u16 junk n P addr value"

definition stm_store_int :: "w64 \<Rightarrow> nat \<Rightarrow> params \<Rightarrow> w64 \<Rightarrow> w32 \<Rightarrow> unit prog" where
  "stm_store_int junk n P addr value = stm_store_u32 junk n P addr value"

definition stm_store_long :: "nat \<Rightarrow> params \<Rightarrow> w64 \<Rightarrow> w64 \<Rightarrow> unit prog" where
  "stm_store_long n P addr value = stm_store_u64 n P addr value"

definition stm_store_uchar :: "w64 \<Rightarrow> nat \<Rightarrow> params \<Rightarrow> w64 \<Rightarrow> 8 word \<Rightarrow> unit prog" where
  "stm_store_uchar junk n P addr value = stm_store_u8 junk n P addr value"

definition stm_store_ushort :: "w64 \<Rightarrow> nat \<Rightarrow> params \<Rightarrow> w64 \<Rightarrow> 16 word \<Rightarrow> unit prog" where
  "stm_store_ushort junk n P addr value = stm_store_u16 junk n P addr value"

definition stm_store_uint :: "w64 \<Rightarrow> nat \<Rightarrow> params \<Rightarrow> w64 \<Rightarrow> w32 \<Rightarrow> unit prog" where
  "stm_store_uint junk n P addr value = stm_store_u32 junk n P addr value"

definition stm_store_ulong :: "nat \<Rightarrow> params \<Rightarrow> w64 \<Rightarrow> w64 \<Rightarrow> unit prog" where
  "stm_store_ulong n P addr value = stm_store_u64 n P addr value"

definition stm_store_float :: "w64 \<Rightarrow> nat \<Rightarrow> params \<Rightarrow> w64 \<Rightarrow> w32 \<Rightarrow> unit prog" where
  "stm_store_float junk n P addr value = stm_store_u32 junk n P addr value"

definition stm_store_double :: "nat \<Rightarrow> params \<Rightarrow> w64 \<Rightarrow> w64 \<Rightarrow> unit prog" where
  "stm_store_double n P addr value = stm_store_u64 n P addr value"

definition stm_store_ptr :: "nat \<Rightarrow> params \<Rightarrow> w64 \<Rightarrow> w64 \<Rightarrow> unit prog" where
  "stm_store_ptr n P addr value = stm_store n P addr value"

end
