(* ===== verification/Txmem.thy ===== *)
theory Txmem
  imports Wrappers
begin

text \<open>
  The contract between the designs and everything built on \<open>stm_load\<close> and \<open>stm_store2\<close>: inside
  a transaction, memory behaves like memory.  \<open>txmem\<close> states it for one load and one masked
  store, \<open>tx_design\<close> adds the commit.  The clients proved from it once are a straight-line
  transaction (\<open>run_ops\<close>) and the loads and stores of bytes (\<open>src/wrappers.c\<close>).

  \<open>ok k s\<close> says that the transaction in \<open>s\<close> has room for \<open>k\<close> more stores and that nothing it
  may touch is contended; \<open>vw s\<close> is what it sees.
\<close>

section \<open>Transactions as lists of accesses\<close>

datatype tx_op = Load w64 | Store w64 w64 w64

fun is_store :: "tx_op \<Rightarrow> bool" where
  "is_store (Load a) = False"
| "is_store (Store a v m) = True"

definition stores :: "tx_op list \<Rightarrow> nat" where
  "stores ops = length (filter is_store ops)"

fun run_ops :: "(w64 \<Rightarrow> w64 prog) \<Rightarrow> (w64 \<Rightarrow> w64 \<Rightarrow> w64 \<Rightarrow> unit prog) \<Rightarrow> tx_op list \<Rightarrow> w64 list prog" where
  "run_ops ld st2 [] = ret []"
| "run_ops ld st2 (Load a # ops) = bnd (ld a) (\<lambda>v. bnd (run_ops ld st2 ops) (\<lambda>vs. ret (v # vs)))"
| "run_ops ld st2 (Store a v m # ops) = thn (st2 a v m) (run_ops ld st2 ops)"

text \<open>The same accesses on plain memory: the specification.\<close>

fun spec_ops :: "tx_op list \<Rightarrow> (w64 \<Rightarrow> w64) \<Rightarrow> w64 list \<times> (w64 \<Rightarrow> w64)" where
  "spec_ops [] mem = ([], mem)"
| "spec_ops (Load a # ops) mem = (case spec_ops ops mem of (vs, mem') \<Rightarrow> (mem a # vs, mem'))"
| "spec_ops (Store a v m # ops) mem = spec_ops ops (mem(a := merge_mask (mem a) v m))"

section \<open>The contract\<close>

locale txmem =
  fixes ld :: "w64 \<Rightarrow> w64 prog" and st2 :: "w64 \<Rightarrow> w64 \<Rightarrow> w64 \<Rightarrow> unit prog"
    and ok :: "nat \<Rightarrow> st \<Rightarrow> bool" and vw :: "st \<Rightarrow> w64 \<Rightarrow> w64"
  assumes load: "ok k s \<Longrightarrow> wp (ld a) s (\<lambda>v t. v = vw s a \<and> ok k t \<and> vw t = vw s) never"
    and store: "ok (Suc k) s \<Longrightarrow>
      wp (st2 a v m) s (\<lambda>_ t. ok k t \<and> vw t = (vw s)(a := merge_mask (vw s a) v m)) never"
begin

lemma run_ops_spec:
  "ok (stores ops + k) s \<Longrightarrow>
    wp (run_ops ld st2 ops) s
      (\<lambda>vs t. vs = fst (spec_ops ops (vw s)) \<and> vw t = snd (spec_ops ops (vw s)) \<and> ok k t) never"
proof (induction ops arbitrary: s)
  case Nil
  then show ?case by (simp add: stores_def)
next
  case (Cons x ops)
  show ?case
  proof (cases x)
    case (Load a)
    have "ok (stores ops + k) s" using Cons.prems Load by (simp add: stores_def)
    then show ?thesis
      using Load by (auto intro!: wp_mono [OF load] wp_mono [OF Cons.IH] split: prod.split)
  next
    case (Store a v m)
    have "ok (Suc (stores ops + k)) s" using Cons.prems Store by (simp add: stores_def)
    have rest: "wp (run_ops ld st2 ops) t
        (\<lambda>vs u. vs = fst (spec_ops ops mem) \<and> vw u = snd (spec_ops ops mem) \<and> ok k u) never"
      if "ok (stores ops + k) t" "vw t = mem" for t mem
      using Cons.IH [OF that(1)] that(2) by simp
    show ?thesis
      using Store \<open>ok (Suc (stores ops + k)) s\<close> by (auto intro!: wp_mono [OF store] rest)
  qed
qed

end

text \<open>Starting and committing: \<open>idle\<close> holds between transactions of at most \<open>M\<close> stores each.\<close>

definition run_tx :: "bool prog \<Rightarrow> bool prog \<Rightarrow> w64 list prog \<Rightarrow> w64 list prog" where
  "run_tx start commit body = thn start (bnd body (\<lambda>vs. thn commit (ret vs)))"

fun run_txs :: "(tx_op list \<Rightarrow> w64 list prog) \<Rightarrow> tx_op list list \<Rightarrow> w64 list list prog" where
  "run_txs one [] = ret []"
| "run_txs one (ops # txs) = bnd (one ops) (\<lambda>vs. bnd (run_txs one txs) (\<lambda>vss. ret (vs # vss)))"

fun spec_txs :: "tx_op list list \<Rightarrow> (w64 \<Rightarrow> w64) \<Rightarrow> w64 list list \<times> (w64 \<Rightarrow> w64)" where
  "spec_txs [] mem = ([], mem)"
| "spec_txs (ops # txs) mem =
     (case spec_ops ops mem of (vs, mem1) \<Rightarrow> case spec_txs txs mem1 of (vss, mem2) \<Rightarrow> (vs # vss, mem2))"

locale tx_design = txmem +
  fixes start :: "bool prog" and cm :: "bool prog" and idle :: "st \<Rightarrow> bool" and M :: nat
  assumes fewer: "ok k s \<Longrightarrow> j \<le> k \<Longrightarrow> ok j s"
    and start: "idle s \<Longrightarrow> wp start s (\<lambda>_ t. ok M t \<and> vw t = g_mem (s_glob s)) never"
    and commit: "ok k s \<Longrightarrow> wp cm s (\<lambda>r t. r \<and> idle t \<and> g_mem (s_glob t) = vw s) never"
begin

text \<open>Any body of loads and stores commits what it saw itself write.\<close>

lemma run_body:
  assumes "idle s"
    and body: "\<And>t. ok M t \<Longrightarrow> vw t = g_mem (s_glob s) \<Longrightarrow> wp body t (\<lambda>x u. R x (vw u) \<and> (\<exists>k. ok k u)) never"
  shows "wp (thn start (bnd body (\<lambda>x. thn cm (ret x)))) s (\<lambda>x t. R x (g_mem (s_glob t)) \<and> idle t) never"
proof -
  have last: "wp cm t (\<lambda>_ u. R x (g_mem (s_glob u)) \<and> idle u) never" if "R x (vw t)" "ok k t" for x t k
    using that(1) by (auto intro!: wp_mono [OF commit [OF that(2)]])
  show ?thesis
    unfolding wp_thn wp_bnd wp_ret
    by (rule wp_mono [OF start [OF assms(1)]], rule wp_mono [OF body]) (use last in auto)
qed

text \<open>A transaction that runs and commits is one atomic update of memory.\<close>

lemma run_tx_spec:
  assumes "idle s" "stores ops \<le> M"
  shows "wp (run_tx start cm (run_ops ld st2 ops)) s
    (\<lambda>vs t. (vs, g_mem (s_glob t)) = spec_ops ops (g_mem (s_glob s)) \<and> idle t) never"
proof -
  let ?m = "g_mem (s_glob s)"
  have body: "wp (run_ops ld st2 ops) t
      (\<lambda>vs t. vs = fst (spec_ops ops ?m) \<and> vw t = snd (spec_ops ops ?m) \<and> ok 0 t) never"
    if "ok M t" "vw t = ?m" for t
    using run_ops_spec [of ops 0 t] fewer [OF that(1), of "stores ops"] assms(2) that(2) by simp
  have last: "wp cm t (\<lambda>r u. (vs, g_mem (s_glob u)) = spec_ops ops ?m \<and> idle u) never"
    if "vs = fst (spec_ops ops ?m)" "vw t = snd (spec_ops ops ?m)" "ok 0 t" for vs t
    using that(1,2) by (auto intro!: wp_mono [OF commit [OF that(3)]])
  show ?thesis
    unfolding run_tx_def wp_thn wp_bnd wp_ret
    by (rule wp_mono [OF start [OF assms(1)]], rule wp_mono [OF body]) (simp_all add: last)
qed

lemma run_txs_spec:
  "idle s \<Longrightarrow> \<forall>ops \<in> set txs. stores ops \<le> M \<Longrightarrow>
    wp (run_txs (\<lambda>ops. run_tx start cm (run_ops ld st2 ops)) txs) s
      (\<lambda>vss t. (vss, g_mem (s_glob t)) = spec_txs txs (g_mem (s_glob s)) \<and> idle t) never"
proof (induction txs arbitrary: s)
  case Nil
  then show ?case by simp
next
  case (Cons ops txs)
  have IH: "wp (run_txs (\<lambda>ops. run_tx start cm (run_ops ld st2 ops)) txs) t
      (\<lambda>vss u. (vss, g_mem (s_glob u)) = spec_txs txs mem1 \<and> idle u) never"
    if "g_mem (s_glob t) = mem1" "idle t" for mem1 t
    using Cons.IH [OF that(2)] Cons.prems(2) that(1) by simp
  have here: "wp (run_tx start cm (run_ops ld st2 ops)) s
      (\<lambda>vs t. (vs, g_mem (s_glob t)) = spec_ops ops (g_mem (s_glob s)) \<and> idle t) never"
    by (rule run_tx_spec) (use Cons.prems in simp_all)
  show ?case
    unfolding run_txs.simps wp_bnd wp_ret
    by (rule wp_mono [OF here], rule wp_mono [OF IH]) (auto split: prod.splits)
qed

end

section \<open>Aborting and retrying\<close>

text \<open>
  \<open>stm_abort\<close> undoes the attempt, starts the next one and jumps to the \<open>sigsetjmp\<close> before the
  transaction: \<open>on_jump m h\<close> runs \<open>m\<close> and goes on with \<open>h\<close> when it jumps.
\<close>

definition on_jump :: "'a prog \<Rightarrow> 'a prog \<Rightarrow> 'a prog" where
  "on_jump m h s = (case m s of (Jump r, t) \<Rightarrow> h t | (r, t) \<Rightarrow> (r, t))"

lemma wp_on_jump [wp_simps, simp]:
  "wp (on_jump m h) s Q E \<longleftrightarrow> wp m s Q (\<lambda>r t. case r of Jump x \<Rightarrow> wp h t Q E | _ \<Rightarrow> E r t)"
  by (cases "m s"; cases "fst (m s)") (simp_all add: wp_def on_jump_def)

text \<open>Attempts that give up after their accesses, then one that commits.\<close>

fun attempts :: "(tx_op list \<Rightarrow> w64 list prog) \<Rightarrow> unit prog \<Rightarrow> bool prog \<Rightarrow> tx_op list list \<Rightarrow> tx_op list \<Rightarrow> w64 list prog" where
  "attempts body ab commit [] ops = bnd (body ops) (\<lambda>vs. thn commit (ret vs))"
| "attempts body ab commit (given # giv) ops =
     on_jump (bnd (body given) (\<lambda>vs. thn ab (ret vs))) (attempts body ab commit giv ops)"

definition real_stores :: "tx_op list \<Rightarrow> bool" where
  "real_stores ops \<longleftrightarrow> (\<forall>op \<in> set ops. case op of Load a \<Rightarrow> True | Store a v m \<Rightarrow> m \<noteq> 0)"

text \<open>
  \<open>base s\<close> is the memory an abort goes back to; \<open>logged s\<close> says that the log of the transaction
  can do so.
\<close>

locale tx_retry = tx_design +
  fixes ab :: "unit prog" and base :: "st \<Rightarrow> w64 \<Rightarrow> w64" and logged :: "st \<Rightarrow> bool"
  assumes load_base: "ok k s \<Longrightarrow> logged s \<Longrightarrow> wp (ld a) s (\<lambda>_ t. logged t \<and> base t = base s) never"
    and store_base: "ok (Suc k) s \<Longrightarrow> logged s \<Longrightarrow> m \<noteq> 0 \<Longrightarrow>
      wp (st2 a v m) s (\<lambda>_ t. logged t \<and> base t = base s) never"
    and start_base: "idle s \<Longrightarrow> wp start s (\<lambda>_ t. logged t \<and> base t = g_mem (s_glob s)) never"
    and abort_base: "ok k s \<Longrightarrow> logged s \<Longrightarrow>
      wp ab s (\<lambda>_ _. False) (\<lambda>r t. (\<exists>x. r = Jump x) \<and> ok M t \<and> logged t \<and> vw t = base s \<and> base t = base s)"
begin

lemma run_ops_base:
  "ok (stores ops) s \<Longrightarrow> logged s \<Longrightarrow> real_stores ops \<Longrightarrow>
    wp (run_ops ld st2 ops) s (\<lambda>_ t. ok 0 t \<and> logged t \<and> base t = base s) never"
proof (induction ops arbitrary: s)
  case Nil
  then show ?case by (simp add: stores_def)
next
  case (Cons x ops)
  have IH: "wp (run_ops ld st2 ops) t (\<lambda>_ u. ok 0 u \<and> logged u \<and> base u = base s) never"
    if "ok (stores ops) t" "logged t" "base t = base s" for t
    using Cons.IH [OF that(1,2)] Cons.prems(3) that(3) by (simp add: real_stores_def)
  show ?case
  proof (cases x)
    case (Load a)
    have ok: "ok (stores ops) s" using Cons.prems Load by (simp add: stores_def)
    have "wp (ld a) s (\<lambda>_ t. ok (stores ops) t \<and> logged t \<and> base t = base s) never"
      by (rule wp_mono [OF wp_conj_never [OF load [OF ok] load_base [OF ok Cons.prems(2)]]]) simp_all
    then show ?thesis
      unfolding Load run_ops.simps wp_bnd wp_ret by (rule wp_mono) (use IH in simp_all)
  next
    case (Store a v m)
    have ok: "ok (Suc (stores ops)) s" "m \<noteq> 0" using Cons.prems Store by (simp_all add: stores_def real_stores_def)
    have "wp (st2 a v m) s (\<lambda>_ t. ok (stores ops) t \<and> logged t \<and> base t = base s) never"
      by (rule wp_mono [OF wp_conj_never [OF store [OF ok(1)] store_base [OF ok(1) Cons.prems(2) ok(2)]]]) simp_all
    then show ?thesis
      unfolding Store run_ops.simps wp_thn by (rule wp_mono) (use IH in simp_all)
  qed
qed

lemma attempts_spec:
  "ok M s \<Longrightarrow> logged s \<Longrightarrow> vw s = mem \<Longrightarrow> base s = mem \<Longrightarrow>
    \<forall>ops \<in> set given. stores ops \<le> M \<and> real_stores ops \<Longrightarrow> stores ops \<le> M \<Longrightarrow>
    wp (attempts (run_ops ld st2) ab cm given ops) s
      (\<lambda>vs t. (vs, g_mem (s_glob t)) = spec_ops ops mem \<and> idle t) never"
proof (induction given arbitrary: s)
  case Nil
  have ok: "ok (stores ops + 0) s" using fewer [OF Nil.prems(1) Nil.prems(6)] by simp
  have last: "wp cm t (\<lambda>r u. (vs, g_mem (s_glob u)) = spec_ops ops mem \<and> idle u) never"
    if "vs = fst (spec_ops ops mem)" "vw t = snd (spec_ops ops mem)" "ok 0 t" for vs t
    using that(1,2) by (auto intro!: wp_mono [OF commit [OF that(3)]])
  show ?case
    unfolding attempts.simps wp_bnd wp_thn wp_ret
    by (rule wp_mono [OF run_ops_spec [OF ok]]) (use last Nil.prems(3) in simp_all)
next
  case (Cons g given)
  let ?Q = "\<lambda>vs t. (vs, g_mem (s_glob t)) = spec_ops ops mem \<and> idle t"
  let ?E = "\<lambda>r t. case r of Jump x \<Rightarrow> wp (attempts (run_ops ld st2) ab cm given ops) t ?Q never | _ \<Rightarrow> False"
  have ok: "ok (stores g) s" "real_stores g" using fewer [OF Cons.prems(1)] Cons.prems(5) by simp_all
  have again: "wp ab t (\<lambda>_ u. wp (ret vs) u ?Q ?E) ?E" if "ok 0 t" "logged t" "base t = mem" for t and vs :: "w64 list"
  proof (rule wp_mono [OF abort_base [OF that(1,2)]])
    fix r u assume u: "(\<exists>x. r = Jump x) \<and> ok M u \<and> logged u \<and> vw u = base t \<and> base u = base t"
    have "wp (attempts (run_ops ld st2) ab cm given ops) u ?Q never"
      by (rule Cons.IH) (use u that(3) Cons.prems in simp_all)
    then show "?E r u" using u by auto
  qed simp
  have "wp (run_ops ld st2 g) s (\<lambda>_ t. ok 0 t \<and> logged t \<and> base t = mem) ?E"
    by (rule wp_mono [OF run_ops_base [OF ok(1) Cons.prems(2) ok(2)]]) (simp_all add: Cons.prems(4))
  then show ?case
    unfolding attempts.simps wp_on_jump wp_bnd wp_thn
    by (rule wp_mono) (use again in simp_all)
qed

text \<open>Attempts that were given up leave no trace: only the last one counts.\<close>

lemma retry_spec:
  assumes "idle s" "\<forall>ops \<in> set given. stores ops \<le> M \<and> real_stores ops" "stores ops \<le> M"
  shows "wp (thn start (attempts (run_ops ld st2) ab cm given ops)) s
    (\<lambda>vs t. (vs, g_mem (s_glob t)) = spec_ops ops (g_mem (s_glob s)) \<and> idle t) never"
  unfolding wp_thn
  by (rule wp_mono [OF wp_conj_never [OF start [OF assms(1)] start_base [OF assms(1)]]])
    (use attempts_spec [OF _ _ _ _ assms(2,3)] in simp_all)

end

end
