(* ===== verification/Seq.thy ===== *)
theory Seq
  imports Txmem
begin

text \<open>
  A thread that runs alone: what holds between transactions (\<open>idle\<close>) and inside one
  (\<open>running\<close>), what the accesses of a transaction leave alone, and \<open>stm_start\<close> and
  \<open>stm_commit\<close> in these terms.  The three designs are instances of \<open>tx_design\<close> over them
  (\<open>SeqEtl\<close>, \<open>SeqCtl\<close>, \<open>SeqWt\<close>).
\<close>

section \<open>Frames\<close>

text \<open>The descriptor without its read and write sets, the shared state without memory and locks.\<close>

definition steady :: "stm_tx \<Rightarrow> stm_tx" where
  "steady tx = tx\<lparr>tx_rs := [], tx_rs_size := 0, tx_rs_base := 0, tx_ws := [], tx_count := 0\<rparr>"

definition still :: "glob \<Rightarrow> glob" where
  "still g = g\<lparr>g_mem := (\<lambda>_. 0), g_locks := (\<lambda>_. 0)\<rparr>"

lemma steady_upd [simp]:
  "steady (tx\<lparr>tx_rs := r\<rparr>) = steady tx" "steady (tx\<lparr>tx_rs_size := z\<rparr>) = steady tx"
  "steady (tx\<lparr>tx_rs_base := b\<rparr>) = steady tx" "steady (tx\<lparr>tx_ws := w\<rparr>) = steady tx"
  "steady (tx\<lparr>tx_count := c\<rparr>) = steady tx"
  by (simp_all add: steady_def)

lemma still_upd [simp]:
  "still (g\<lparr>g_mem := m\<rparr>) = still g" "still (g\<lparr>g_locks := l\<rparr>) = still g"
  by (simp_all add: still_def)

lemma steady_proj [simp]:
  "tx_attr (steady tx) = tx_attr tx" "tx_status (steady tx) = tx_status tx"
  "tx_start (steady tx) = tx_start tx" "tx_end (steady tx) = tx_end tx"
  "tx_base (steady tx) = tx_base tx" "tx_ws_size (steady tx) = tx_ws_size tx"
  "tx_irrevocable (steady tx) = tx_irrevocable tx" "tx_nesting (steady tx) = tx_nesting tx"
  "tx_thread_idx (steady tx) = tx_thread_idx tx"
  by (simp_all add: steady_def)

lemma still_proj [simp]:
  "g_clock (still g) = g_clock g" "g_irrevocable (still g) = g_irrevocable g"
  "g_quiesce (still g) = g_quiesce g" "g_threads_nb (still g) = g_threads_nb g"
  "g_mutex (still g) = g_mutex g" "g_start_cb (still g) = g_start_cb g"
  "g_precommit_cb (still g) = g_precommit_cb g" "g_commit_cb (still g) = g_commit_cb g"
  "g_abort_cb (still g) = g_abort_cb g" "g_delay_time (still g) = g_delay_time g"
  by (simp_all add: still_def)

lemma steady_eqD:
  assumes "steady tx' = steady tx"
  shows "tx_attr tx' = tx_attr tx" "tx_status tx' = tx_status tx" "tx_start tx' = tx_start tx"
    "tx_end tx' = tx_end tx" "tx_base tx' = tx_base tx" "tx_ws_size tx' = tx_ws_size tx"
    "tx_irrevocable tx' = tx_irrevocable tx" "tx_nesting tx' = tx_nesting tx"
    "tx_thread_idx tx' = tx_thread_idx tx"
  using assms by (metis steady_proj)+

lemma still_eqD:
  assumes "still g' = still g"
  shows "g_clock g' = g_clock g" "g_irrevocable g' = g_irrevocable g" "g_quiesce g' = g_quiesce g"
    "g_threads_nb g' = g_threads_nb g" "g_mutex g' = g_mutex g" "g_start_cb g' = g_start_cb g"
    "g_precommit_cb g' = g_precommit_cb g" "g_commit_cb g' = g_commit_cb g"
    "g_abort_cb g' = g_abort_cb g" "g_delay_time g' = g_delay_time g"
  using assms by (metis still_proj)+

definition same_world :: "st \<Rightarrow> st \<Rightarrow> bool" where
  "same_world s t \<longleftrightarrow> steady (s_tx t) = steady (s_tx s) \<and> still (s_glob t) = still (s_glob s)
     \<and> s_cur t = s_cur s"

lemma same_world_refl [simp]: "same_world s s" "same_world s (tock t) = same_world s t"
  "same_world (tock s) t = same_world s t"
  by (simp_all add: same_world_def)

text \<open>A step that only adds to the read set.\<close>

definition reads_only :: "st \<Rightarrow> st \<Rightarrow> bool" where
  "reads_only s t \<longleftrightarrow> same_world s t \<and> s_glob t = s_glob s \<and> tx_ws (s_tx t) = tx_ws (s_tx s)
     \<and> tx_count (s_tx t) = tx_count (s_tx s)"

lemma reads_only_refl [simp]: "reads_only s s"
  by (simp add: reads_only_def)

lemma reads_only_tock [simp]: "reads_only s (tock t) = reads_only s t" "reads_only (tock s) t = reads_only s t"
  by (simp_all add: reads_only_def)

lemma reads_only_ticked: "ticked s t \<Longrightarrow> reads_only s t"
  by (simp add: reads_only_def ticked_def same_world_def)

definition allocs :: "params \<Rightarrow> bool" where
  "allocs P \<longleftrightarrow> (\<forall>i. alloc P i \<noteq> 0 \<and> alloc P i AND OWNED_MASK = 0)"

lemma add_read:
  assumes "allocs P"
  shows "wp (add_to_read_set P v l) s (\<lambda>_ t. reads_only s t) never"
  using assms
  by (auto simp: add_to_read_set_def stm_allocate_rs_entries_def xmalloc_def reads_only_def same_world_def allocs_def)

section \<open>A thread alone\<close>

text \<open>No irrevocable transaction, no barrier, no module callbacks, one registered thread.\<close>

definition alone :: "glob \<Rightarrow> bool" where
  "alone g \<longleftrightarrow> g_irrevocable g = 0 \<and> g_quiesce g = 0 \<and> g_threads_nb g = 1 \<and> \<not> g_mutex g
     \<and> g_start_cb g = [] \<and> g_precommit_cb g = [] \<and> g_commit_cb g = [] \<and> g_abort_cb g = []"

lemma alone_cong: "still g' = still g \<Longrightarrow> alone g' = alone g"
  using still_eqD [of g' g] by (simp add: alone_def)

text \<open>A free lock with a version the snapshot includes (only the array's words have one).\<close>

definition free_at :: "w64 \<Rightarrow> glob \<Rightarrow> w64 \<Rightarrow> bool" where
  "free_at now g k \<longleftrightarrow> LOCK_GET_OWNED (g_locks g k) = 0
     \<and> (k < LOCK_ARRAY_SIZE \<longrightarrow> LOCK_GET_TIMESTAMP (g_locks g k) \<le> now)"

definition all_free :: "glob \<Rightarrow> bool" where
  "all_free g \<longleftrightarrow> (\<forall>k. free_at (g_clock g) g k)"

lemma free_at_lock:
  "free_at now g (GET_LOCK a) \<longleftrightarrow> LOCK_GET_OWNED (g_locks g (GET_LOCK a)) = 0
     \<and> LOCK_GET_TIMESTAMP (g_locks g (GET_LOCK a)) \<le> now"
  by (simp add: free_at_def GET_LOCK_def lock_idx_bound)

text \<open>The write-set array: at an even address, with room for \<open>M\<close> entries.\<close>

definition room :: "nat \<Rightarrow> stm_tx \<Rightarrow> bool" where
  "room M tx \<longleftrightarrow> even (unat (tx_base tx)) \<and> unat (tx_base tx) + 64 * tx_ws_size tx < 2 ^ 64
     \<and> M \<le> tx_ws_size tx"

lemma room_cong:
  assumes "steady tx' = steady tx"
  shows "room M tx' = room M tx"
  unfolding room_def steady_eqD [OF assms] ..

text \<open>The back-off of a rollback finds this thread's slot of \<open>delay_time\<close>, with a count it can reach.\<close>

definition backoff_ok :: "stm_tx \<Rightarrow> glob \<Rightarrow> bool" where
  "backoff_ok tx g \<longleftrightarrow> unat (tx_thread_idx tx) < length (g_delay_time g)
     \<and> unat (g_delay_time g ! unat (tx_thread_idx tx)) < 2 ^ 31"

lemma backoff_cong:
  assumes "steady tx' = steady tx" "g_delay_time g' = g_delay_time g"
  shows "backoff_ok tx' g' = backoff_ok tx g"
  unfolding backoff_ok_def steady_eqD [OF assms(1)] assms(2) ..

definition idle :: "params \<Rightarrow> nat \<Rightarrow> st \<Rightarrow> bool" where
  "idle P M s \<longleftrightarrow> quiet P \<and> allocs P \<and> s_cur s \<noteq> 0 \<and> \<not> IS_ACTIVE (tx_status (s_tx s))
     \<and> tx_irrevocable (s_tx s) = 0 \<and> tx_nesting (s_tx s) = 0 \<and> room M (s_tx s)
     \<and> backoff_ok (s_tx s) (s_glob s) \<and> alone (s_glob s) \<and> g_clock (s_glob s) \<le> VERSION_MAX \<and> all_free (s_glob s)"

definition running :: "params \<Rightarrow> nat \<Rightarrow> st \<Rightarrow> bool" where
  "running P M s \<longleftrightarrow> quiet P \<and> allocs P \<and> s_cur s \<noteq> 0 \<and> IS_ACTIVE (tx_status (s_tx s))
     \<and> \<not> at_read_only (tx_attr (s_tx s)) \<and> tx_irrevocable (s_tx s) = 0 \<and> tx_nesting (s_tx s) = 1
     \<and> room M (s_tx s) \<and> backoff_ok (s_tx s) (s_glob s) \<and> alone (s_glob s)
     \<and> g_clock (s_glob s) < VERSION_MAX
     \<and> tx_start (s_tx s) = g_clock (s_glob s) \<and> tx_end (s_tx s) = g_clock (s_glob s)"

lemma running_same:
  assumes "same_world s t"
  shows "running P M t = running P M s"
proof -
  have st: "steady (s_tx t) = steady (s_tx s)" and sl: "still (s_glob t) = still (s_glob s)"
    and c: "s_cur t = s_cur s"
    using assms by (simp_all add: same_world_def)
  show ?thesis
    unfolding running_def c steady_eqD [OF st] room_cong [OF st] still_eqD [OF sl] alone_cong [OF sl]
      backoff_cong [OF st still_eqD(10) [OF sl]] ..
qed

lemma uses_cong:
  "tx_attr tx' = tx_attr tx \<Longrightarrow> uses_ctl P tx' = uses_ctl P tx"
  "tx_attr tx' = tx_attr tx \<Longrightarrow> uses_wt P tx' = uses_wt P tx"
  by (simp_all add: uses_ctl_def uses_wt_def split: design.split)

text \<open>The exported accesses of a running transaction, by design.\<close>

lemma running_load:
  assumes "running P M s"
  shows "wp (stm_load n P a) s Q E = (if uses_ctl P (s_tx s) then wp (stm_wbctl_read n P a) s Q E
    else if uses_wt P (s_tx s) then wp (stm_wt_read n P a) s Q E else wp (stm_wbetl_read n P a) s Q E)"
  using assms by (simp add: stm_load_def with_tx_def tls_get_tx_def int_stm_load_def running_def)

lemma running_store2:
  assumes "running P M s"
  shows "wp (stm_store2 n P a v m) s Q E =
    (if uses_ctl P (s_tx s) then wp (stm_wbctl_write n P a v m) s (\<lambda>_. Q ()) E
     else if uses_wt P (s_tx s) then wp (stm_wt_write n P a v m) s (\<lambda>_. Q ()) E
     else wp (stm_wbetl_write n P a v m) s (\<lambda>_. Q ()) E)"
  using assms
  by (simp add: stm_store2_def with_tx_def tls_get_tx_def int_stm_store2_def stm_write_def running_def)

section \<open>Starting\<close>

text \<open>A clock at its maximum goes through the barrier and starts again from 0.\<close>

lemma barrier_alone:
  assumes "quiet P" "alone (s_glob s)" "\<not> IS_ACTIVE (tx_status (s_tx s))" "2 \<le> n" "all_free (s_glob s)"
  shows "wp (stm_quiesce_barrier n P False rollover_clock) s
    (\<lambda>_ t. s_tx t = s_tx s \<and> s_cur t = s_cur s \<and> alone (s_glob t) \<and> g_clock (s_glob t) = 0
       \<and> g_mem (s_glob t) = g_mem (s_glob s) \<and> g_delay_time (s_glob t) = g_delay_time (s_glob s)
       \<and> all_free (s_glob t)) never"
proof -
  obtain m where n: "n = Suc (Suc m)" using assms(4) by (metis add_2_eq_Suc le_Suc_ex)
  show ?thesis
    using assms
    by (simp add: stm_quiesce_barrier_def n rollover_clock_def alone_def mutex_unlock_def all_free_def free_at_def
        lock_defs)
qed

lemma prepare_clock_alone:
  assumes "quiet P" "alone (s_glob s)" "\<not> IS_ACTIVE (tx_status (s_tx s))" "3 \<le> n"
    "g_clock (s_glob s) \<le> VERSION_MAX" "all_free (s_glob s)"
  shows "wp (prepare_clock n P) s
    (\<lambda>_ t. alone (s_glob t) \<and> g_clock (s_glob t) < VERSION_MAX \<and> g_mem (s_glob t) = g_mem (s_glob s)
       \<and> g_delay_time (s_glob t) = g_delay_time (s_glob s) \<and> all_free (s_glob t) \<and> s_cur t = s_cur s
       \<and> s_tx t = (s_tx s)\<lparr>tx_start := g_clock (s_glob t), tx_end := g_clock (s_glob t)\<rparr>) never"
proof -
  obtain m where n: "n = Suc (Suc m)" "2 \<le> Suc m" using assms(4) by (cases n; cases "n - 1") auto
  have z: "(0::w64) < VERSION_MAX" by (simp add: version_max_value)
  show ?thesis
  proof (cases "g_clock (s_glob s) < VERSION_MAX")
    case True
    then have "(VERSION_MAX \<le> g_clock (s_glob s)) = False" by simp
    then show ?thesis using assms True by (simp add: n)
  next
    case False
    then have eq: "g_clock (s_glob s) = VERSION_MAX" using assms(5) by simp
    show ?thesis
      using assms n(2) z eq
      by (auto simp: n(1) not_le intro!: wp_mono [OF barrier_alone])
  qed
qed

lemma check_quiesce_alone:
  assumes "quiet P" "alone (s_glob s)" "IS_ACTIVE (tx_status (s_tx s))"
  shows "wp (stm_check_quiesce n P) s Q never = Q False (tock s)"
  using assms check_quiesce_idle [of P s n] by (simp add: wp_def alone_def)

lemma run_cbs_none: "f (s_glob s) = [] \<Longrightarrow> wp (run_cbs P f) s Q E = Q () s"
  by (simp add: run_cbs_def)

lemma prepare_alone:
  assumes "quiet P" "alone (s_glob s)" "\<not> IS_ACTIVE (tx_status (s_tx s))" "3 \<le> n"
    "g_clock (s_glob s) \<le> VERSION_MAX" "all_free (s_glob s)" "tx_irrevocable (s_tx s) = 0"
  shows "wp (int_stm_prepare_body n P irr) s
    (\<lambda>_ t. alone (s_glob t) \<and> g_clock (s_glob t) < VERSION_MAX \<and> g_mem (s_glob t) = g_mem (s_glob s)
       \<and> g_delay_time (s_glob t) = g_delay_time (s_glob s) \<and> all_free (s_glob t) \<and> s_cur t = s_cur s
       \<and> s_tx t = (s_tx s)\<lparr>tx_count := 0, tx_ws := [], tx_rs := [], tx_start := g_clock (s_glob t),
             tx_end := g_clock (s_glob t), tx_status := TX_ACTIVE\<rparr>) never"
proof -
  let ?s = "upd_tx (\<lambda>t. t\<lparr>tx_count := 0, tx_ws := [], tx_rs := []\<rparr>) s"
  have "wp (prepare_clock n P) ?s
    (\<lambda>_ t. alone (s_glob t) \<and> g_clock (s_glob t) < VERSION_MAX \<and> g_mem (s_glob t) = g_mem (s_glob ?s)
       \<and> g_delay_time (s_glob t) = g_delay_time (s_glob ?s) \<and> all_free (s_glob t) \<and> s_cur t = s_cur ?s
       \<and> s_tx t = (s_tx ?s)\<lparr>tx_start := g_clock (s_glob t), tx_end := g_clock (s_glob t)\<rparr>) never"
    by (rule prepare_clock_alone) (use assms in simp_all)
  then show ?thesis
    unfolding int_stm_prepare_body_def wp_thn
    by (simp, elim wp_mono) (simp_all add: check_quiesce_alone assms(1,7))
qed

lemma start_alone:
  assumes "idle P M s" "3 \<le> n" "\<not> at_read_only a"
  shows "wp (stm_start n P a) s
    (\<lambda>_ t. running P M t \<and> all_free (s_glob t) \<and> tx_attr (s_tx t) = a \<and> tx_ws (s_tx t) = []
       \<and> tx_count (s_tx t) = 0 \<and> g_mem (s_glob t) = g_mem (s_glob s)) never"
proof -
  let ?s = "upd_tx (\<lambda>t. t\<lparr>tx_attr := a\<rparr>) (upd_tx (\<lambda>t. t\<lparr>tx_nesting := tx_nesting t + 1\<rparr>) s)"
  have i: "quiet P" "allocs P" "s_cur s \<noteq> 0" "\<not> IS_ACTIVE (tx_status (s_tx s))" "tx_irrevocable (s_tx s) = 0"
    "tx_nesting (s_tx s) = 0" "room M (s_tx s)" "backoff_ok (s_tx s) (s_glob s)" "alone (s_glob s)" "g_clock (s_glob s) \<le> VERSION_MAX"
    "all_free (s_glob s)"
    using assms(1) by (simp_all add: idle_def)
  have "wp (int_stm_prepare n P) ?s
    (\<lambda>_ t. alone (s_glob t) \<and> g_clock (s_glob t) < VERSION_MAX \<and> g_mem (s_glob t) = g_mem (s_glob ?s)
       \<and> g_delay_time (s_glob t) = g_delay_time (s_glob ?s) \<and> all_free (s_glob t) \<and> s_cur t = s_cur ?s
       \<and> s_tx t = (s_tx ?s)\<lparr>tx_count := 0, tx_ws := [], tx_rs := [], tx_start := g_clock (s_glob t),
             tx_end := g_clock (s_glob t), tx_status := TX_ACTIVE\<rparr>) never"
    unfolding int_stm_prepare_def by (rule prepare_alone) (use assms(2) i in simp_all)
  then have "wp (int_stm_prepare n P) ?s
    (\<lambda>_ t. (running P M t \<and> all_free (s_glob t) \<and> tx_attr (s_tx t) = a \<and> tx_ws (s_tx t) = []
       \<and> tx_count (s_tx t) = 0 \<and> g_mem (s_glob t) = g_mem (s_glob s)) \<and> g_start_cb (s_glob t) = []) never"
    by (rule wp_mono) (use i(1-3,5-8) assms(3) in \<open>simp_all add: running_def room_def backoff_ok_def alone_def\<close>)
  then have "wp (int_stm_prepare n P) ?s
    (\<lambda>_ t. wp (run_cbs P g_start_cb) t (\<lambda>_ t. running P M t \<and> all_free (s_glob t) \<and> tx_attr (s_tx t) = a
       \<and> tx_ws (s_tx t) = [] \<and> tx_count (s_tx t) = 0 \<and> g_mem (s_glob t) = g_mem (s_glob s)) never) never"
    by (rule wp_mono) (simp_all add: run_cbs_none)
  then show ?thesis
    using i(3,6) by (simp add: stm_start_def with_tx_def tls_get_tx_def int_stm_start_def)
qed

section \<open>Committing\<close>

text \<open>What a design's commit leaves behind.\<close>

definition landed :: "st \<Rightarrow> st \<Rightarrow> bool" where
  "landed s t \<longleftrightarrow> steady (s_tx t) = steady (s_tx s) \<and> s_cur t = s_cur s \<and> alone (s_glob t)
     \<and> g_delay_time (s_glob t) = g_delay_time (s_glob s) \<and> g_clock (s_glob t) \<le> VERSION_MAX \<and> all_free (s_glob t)"

text \<open>The state a design's commit runs in: the nesting level is already counted down.\<close>

definition unnested :: "st \<Rightarrow> st" where
  "unnested s = upd_tx (\<lambda>t. t\<lparr>tx_nesting := tx_nesting t - 1\<rparr>) s"

lemma unnested_fields [simp]:
  "s_glob (unnested s) = s_glob s" "s_cur (unnested s) = s_cur s"
  "tx_status (s_tx (unnested s)) = tx_status (s_tx s)" "tx_attr (s_tx (unnested s)) = tx_attr (s_tx s)"
  "tx_irrevocable (s_tx (unnested s)) = tx_irrevocable (s_tx s)" "tx_ws (s_tx (unnested s)) = tx_ws (s_tx s)"
  "tx_start (s_tx (unnested s)) = tx_start (s_tx s)" "tx_end (s_tx (unnested s)) = tx_end (s_tx s)"
  "tx_base (s_tx (unnested s)) = tx_base (s_tx s)" "tx_ws_size (s_tx (unnested s)) = tx_ws_size (s_tx s)"
  "tx_count (s_tx (unnested s)) = tx_count (s_tx s)" "tx_rs (s_tx (unnested s)) = tx_rs (s_tx s)"
  "tx_nesting (s_tx (unnested s)) = tx_nesting (s_tx s) - 1"
  "tx_thread_idx (s_tx (unnested s)) = tx_thread_idx (s_tx s)"
  by (simp_all add: unnested_def)

lemma commit_alone:
  assumes run: "running P M s"
    and ro: "tx_ws (s_tx s) = [] \<Longrightarrow> g_mem (s_glob s) = m \<and> all_free (s_glob s)"
    and upd: "tx_ws (s_tx s) \<noteq> [] \<Longrightarrow>
      wp (design_commit n P) (unnested s) (\<lambda>_ t. landed (unnested s) t \<and> g_mem (s_glob t) = m) never"
  shows "wp (stm_commit n P) s (\<lambda>r t. r \<and> idle P M t \<and> g_mem (s_glob t) = m) never"
proof -
  let ?s = "unnested s"
  let ?rest = "thn (set_tx commit_stats) (thn (leave_irrevocable P)
    (thn (set_tx (\<lambda>t. t\<lparr>tx_status := TX_COMMITTED\<rparr>)) (thn (run_cbs P g_commit_cb) (ret True))))"
  have r: "quiet P" "allocs P" "s_cur s \<noteq> 0" "IS_ACTIVE (tx_status (s_tx s))" "tx_irrevocable (s_tx s) = 0"
    "tx_nesting (s_tx s) = 1" "room M (s_tx s)" "backoff_ok (s_tx s) (s_glob s)" "alone (s_glob s)" "g_clock (s_glob s) < VERSION_MAX"
    using run by (simp_all add: running_def)
  have last: "wp ?rest t (\<lambda>r t. r \<and> idle P M t \<and> g_mem (s_glob t) = m) never"
    if "landed ?s t" "g_mem (s_glob t) = m" for t
  proof -
    have st: "steady (s_tx t) = steady (s_tx ?s)" using that(1) by (simp add: landed_def)
    have d: "g_delay_time (s_glob t) = g_delay_time (s_glob ?s)" using that(1) by (simp add: landed_def)
    have fields: "tx_irrevocable (s_tx t) = 0" "tx_nesting (s_tx t) = 0" "room M (s_tx t)"
        "backoff_ok (s_tx t) (s_glob t)"
      using steady_eqD(7,8) [OF st] room_cong [OF st, of M] backoff_cong [OF st d] r(5-8)
      by (simp_all add: room_def backoff_ok_def)
    have gl: "alone (s_glob t)" "g_commit_cb (s_glob t) = []" "g_clock (s_glob t) \<le> VERSION_MAX"
        "all_free (s_glob t)" "s_cur t \<noteq> 0"
      using that(1) r(3) by (simp_all add: landed_def alone_def)
    show ?thesis
      using that(2) r(1,2) fields gl
      by (simp add: leave_irrevocable_def commit_stats_def run_cbs_none idle_def room_def backoff_ok_def)
  qed
  have "wp (if tx_ws (s_tx s) = [] then ret () else bnd (design_commit n P) (\<lambda>_. ret ())) ?s
    (\<lambda>_ t. landed ?s t \<and> g_mem (s_glob t) = m) never"
    using ro upd r(9,10) by (auto simp: landed_def)
  then have "wp (thn (if tx_ws (s_tx s) = [] then ret () else bnd (design_commit n P) (\<lambda>_. ret ())) ?rest) ?s
    (\<lambda>r t. r \<and> idle P M t \<and> g_mem (s_glob t) = m) never"
    unfolding wp_thn by (rule wp_mono) (use last in \<open>simp_all only: wp_thn conj_imp_eq_imp_imp\<close>)
  then show ?thesis
    using r by (simp add: stm_commit_def with_tx_def tls_get_tx_def int_stm_commit_def run_cbs_none alone_def
        unnested_def [symmetric])
qed

section \<open>Aborting\<close>

text \<open>
  An abort undoes the attempt, then starts the next one and jumps back to it; with retrying
  switched off it returns between transactions.
\<close>

lemma no_more_retry_upd [simp]:
  "no_more_retry reason (tx\<lparr>tx_status := x\<rparr>) = no_more_retry reason tx"
  "no_more_retry reason (tx\<lparr>tx_nesting := k\<rparr>) = no_more_retry reason tx"
  by (simp_all add: no_more_retry_def)

lemma rollback_alone:
  assumes run: "running P M s" and n: "3 \<le> n" and reason: "reason \<noteq> STM_ABORT_EXTEND_WS"
    and undo: "wp (design_rollback P) s (\<lambda>_ t. landed s t \<and> g_mem (s_glob t) = m) never"
  shows "wp (stm_rollback n P reason) s
    (\<lambda>_ t. no_more_retry reason (s_tx s) \<and> idle P M t \<and> g_mem (s_glob t) = m)
    (\<lambda>r t. \<not> no_more_retry reason (s_tx s) \<and> (\<exists>x. r = Jump x) \<and> running P M t \<and> all_free (s_glob t)
       \<and> tx_ws (s_tx t) = [] \<and> tx_count (s_tx t) = 0 \<and> tx_attr (s_tx t) = tx_attr (s_tx s)
       \<and> g_mem (s_glob t) = m)"
    (is "wp _ _ ?Q ?E")
proof -
  obtain n' where n': "n = Suc n'" using n by (cases n) simp_all
  have r: "quiet P" "allocs P" "s_cur s \<noteq> 0" "IS_ACTIVE (tx_status (s_tx s))" "tx_irrevocable (s_tx s) = 0"
    "room M (s_tx s)" "backoff_ok (s_tx s) (s_glob s)" "\<not> at_read_only (tx_attr (s_tx s))"
    using run by (simp_all add: running_def)
  let ?finish = "\<lambda>irr. thn (set_tx (abort_stats reason))
    (thn (set_tx (\<lambda>t. t\<lparr>tx_status := TX_ABORTED\<rparr>))
    (thn (when_c (reason = STM_ABORT_EXTEND_WS) (stm_allocate_ws_entries P True))
    (thn (set_tx (\<lambda>t. t\<lparr>tx_nesting := 1\<rparr>))
    (thn (run_cbs P g_abort_cb)
    (thn (backoff_wait P)
    (bnd get_tx (\<lambda>tx.
       if no_more_retry reason tx
       then set_tx (\<lambda>t. t\<lparr>tx_nesting := 0\<rparr>)
       else thn (int_stm_prepare_body n P irr)
           (bnd get_tx (\<lambda>tx.
              stop (Jump (reason OR (if tx_irrevocable tx = 0x0B
                                     then STM_PATH_UNINSTRUMENTED else STM_PATH_INSTRUMENTED))))))))))))"
  have rest: "wp (?finish irr) t ?Q ?E" if t: "landed s t" "g_mem (s_glob t) = m" for t irr
  proof -
    have st: "steady (s_tx t) = steady (s_tx s)" and d: "g_delay_time (s_glob t) = g_delay_time (s_glob s)"
      and g: "alone (s_glob t)" "g_clock (s_glob t) \<le> VERSION_MAX" "all_free (s_glob t)" "s_cur t = s_cur s"
      using t(1) by (simp_all add: landed_def)
    have f: "tx_irrevocable (s_tx t) = 0" "tx_attr (s_tx t) = tx_attr (s_tx s)" "room M (s_tx t)"
      "backoff_ok (s_tx t) (s_glob t)" "g_abort_cb (s_glob t) = []"
      using steady_eqD [OF st] room_cong [OF st, of M] backoff_cong [OF st d] r(5-7) g(1)
      by (simp_all add: room_def backoff_ok_def alone_def)
    let ?t = "upd_tx (\<lambda>t. t\<lparr>tx_nesting := 1\<rparr>) (upd_tx (\<lambda>t. t\<lparr>tx_status := TX_ABORTED\<rparr>) (upd_tx (abort_stats reason) t))"
    have stats: "tx_irrevocable (abort_stats reason (s_tx t)) = 0"
      "tx_attr (abort_stats reason (s_tx t)) = tx_attr (s_tx s)"
      "tx_thread_idx (abort_stats reason (s_tx t)) = tx_thread_idx (s_tx t)"
      "room M (abort_stats reason (s_tx t))"
      using f by (simp_all add: abort_stats_def Let_def room_def)
    have more: "no_more_retry reason (abort_stats reason (s_tx t)) = no_more_retry reason (s_tx s)"
      using stats(2) by (simp add: no_more_retry_def)
    have prep: "wp (int_stm_prepare_body n P irr) (tock ?t)
      (\<lambda>_ u. alone (s_glob u) \<and> g_clock (s_glob u) < VERSION_MAX \<and> g_mem (s_glob u) = g_mem (s_glob (tock ?t))
         \<and> g_delay_time (s_glob u) = g_delay_time (s_glob (tock ?t)) \<and> all_free (s_glob u) \<and> s_cur u = s_cur (tock ?t)
         \<and> s_tx u = (s_tx (tock ?t))\<lparr>tx_count := 0, tx_ws := [], tx_rs := [], tx_start := g_clock (s_glob u),
             tx_end := g_clock (s_glob u), tx_status := TX_ACTIVE\<rparr>) never"
      by (rule prepare_alone) (use r(1) n g f stats in simp_all)
    have wait: "wp (backoff_wait P) ?t Q E = Q () (tock ?t)" for Q E
      using r(1) f(4) stats(3) by (simp add: backoff_wait_def backoff_ok_def not_le)
    show ?thesis
    proof (cases "no_more_retry reason (s_tx s)")
      case True
      then show ?thesis
        using reason f g stats t(2) r wait by (simp add: run_cbs_none more idle_def room_def backoff_ok_def)
    next
      case False
      have "wp (int_stm_prepare_body n P irr) (tock ?t)
        (\<lambda>_ u. running P M u \<and> all_free (s_glob u) \<and> tx_ws (s_tx u) = [] \<and> tx_count (s_tx u) = 0
           \<and> tx_attr (s_tx u) = tx_attr (s_tx s) \<and> g_mem (s_glob u) = m) never"
        by (rule wp_mono [OF prep])
          (use r f g(4) stats t(2) in \<open>simp_all add: running_def room_def backoff_ok_def\<close>)
      then have "wp (int_stm_prepare_body n P irr) (tock ?t)
        (\<lambda>_ u. running P M u \<and> all_free (s_glob u) \<and> tx_ws (s_tx u) = [] \<and> tx_count (s_tx u) = 0
           \<and> tx_attr (s_tx u) = tx_attr (s_tx s) \<and> g_mem (s_glob u) = m) ?E"
        by (rule wp_mono) simp_all
      then show ?thesis
        using False reason f(5) stats(2) wait by (simp add: run_cbs_none more)
    qed
  qed
  have "wp (design_rollback P) s (\<lambda>_ t. landed s t \<and> g_mem (s_glob t) = m) ?E"
    by (rule wp_mono [OF undo]) simp_all
  then have "wp (design_rollback P) s (\<lambda>_ t. wp (?finish irr) t ?Q ?E) ?E" for irr
    by (rule wp_mono) (use rest in blast)+
  then show ?thesis
    unfolding n' stm_rollback.simps stm_rollback_body_def using r(4,5) by (simp add: n')
qed

text \<open>\<open>stm_abort\<close> with a reason and an attribute that let the transaction run again.\<close>

definition retries :: "attr \<Rightarrow> w64 \<Rightarrow> bool" where
  "retries a reason \<longleftrightarrow> \<not> at_no_retry a \<and> reason OR STM_ABORT_EXPLICIT \<noteq> STM_ABORT_EXTEND_WS
     \<and> (reason OR STM_ABORT_EXPLICIT) AND STM_ABORT_NO_RETRY \<noteq> STM_ABORT_NO_RETRY"

lemma abort_alone:
  assumes run: "running P M s" and n: "3 \<le> n" and again: "retries (tx_attr (s_tx s)) reason"
    and undo: "wp (design_rollback P) s (\<lambda>_ t. landed s t \<and> g_mem (s_glob t) = m) never"
  shows "wp (stm_abort n P reason) s (\<lambda>_ _. False)
    (\<lambda>r t. (\<exists>x. r = Jump x) \<and> running P M t \<and> all_free (s_glob t) \<and> tx_ws (s_tx t) = []
       \<and> tx_count (s_tx t) = 0 \<and> tx_attr (s_tx t) = tx_attr (s_tx s) \<and> g_mem (s_glob t) = m)"
proof -
  have "\<not> no_more_retry (reason OR STM_ABORT_EXPLICIT) (s_tx s)" "reason OR STM_ABORT_EXPLICIT \<noteq> STM_ABORT_EXTEND_WS"
    "s_cur s \<noteq> 0"
    using again run by (simp_all add: retries_def no_more_retry_def running_def)
  then show ?thesis
    using rollback_alone [OF run n _ undo, of "reason OR STM_ABORT_EXPLICIT"]
    by (simp add: stm_abort_def with_tx_def tls_get_tx_def)
qed

section \<open>A concrete idle thread\<close>

lemma sample_is_idle: "idle (sample_params d) 4 sample_idle"
  by (simp add: idle_def allocs_def room_def backoff_ok_def alone_def all_free_def free_at_def sample_defs quiet_def lock_defs DELAY_SLOTS_def
      version_max_value)

end
