(* ===== verification/SeqEtl.thy ===== *)
theory SeqEtl
  imports Seq
begin

text \<open>
  The encounter-time designs meet the contract \<open>tx_design\<close> when nothing the transaction
  touches is contended: every lock is free with a version of its snapshot, or its own.
\<close>

section \<open>Frames\<close>

text \<open>
  What a write of an entry under lock \<open>k\<close> leaves alone, \<open>ver\<close> being the version it may log;
  \<open>log_frame\<close> without memory.
\<close>

definition versions :: "stm_tx \<Rightarrow> w64 set" where
  "versions tx = we_version ` set (tx_ws tx)"

definition log_frame :: "w64 \<Rightarrow> st \<Rightarrow> st \<Rightarrow> w64 \<Rightarrow> bool" where
  "log_frame ver s t k \<longleftrightarrow> same_world s t
     \<and> (\<forall>j. j \<noteq> k \<longrightarrow> g_locks (s_glob t) j = g_locks (s_glob s) j)
     \<and> length (tx_ws (s_tx t)) \<le> Suc (length (tx_ws (s_tx s)))
     \<and> (\<forall>j. covered (s_tx s) j \<longrightarrow> covered (s_tx t) j)
     \<and> versions (s_tx t) \<subseteq> insert ver (versions (s_tx s))"

definition write_frame :: "w64 \<Rightarrow> st \<Rightarrow> st \<Rightarrow> w64 \<Rightarrow> bool" where
  "write_frame ver s t k \<longleftrightarrow> log_frame ver s t k \<and> g_mem (s_glob t) = g_mem (s_glob s)"

lemma versions_upd [simp]:
  "versions (tx\<lparr>tx_rs := r\<rparr>) = versions tx" "versions (tx\<lparr>tx_count := c\<rparr>) = versions tx"
  by (simp_all add: versions_def)

lemma versions_link [simp]:
  "versions (tx\<lparr>tx_ws := link_entry prev e (tx_ws tx)\<rparr>) = insert (we_version e) (versions tx)"
proof -
  have "we_version ` set (link_entry prev e ws) = insert (we_version e) (we_version ` set ws)" for ws
  proof (intro equalityI subsetI)
    fix x assume "x \<in> we_version ` set (link_entry prev e ws)"
    then obtain i where "i < Suc (length ws)" "x = we_version (link_entry prev e ws ! i)"
      by (auto simp: in_set_conv_nth)
    then show "x \<in> insert (we_version e) (we_version ` set ws)"
      by (cases "i = length ws") (auto simp: link_entry_fields)
  next
    fix x assume x: "x \<in> insert (we_version e) (we_version ` set ws)"
    show "x \<in> we_version ` set (link_entry prev e ws)"
    proof (cases "x = we_version e")
      case False
      then obtain i where "i < length ws" "x = we_version (ws ! i)" using x by (auto simp: in_set_conv_nth)
      then have "x = we_version (link_entry prev e ws ! i)" "i < length (link_entry prev e ws)"
        by (simp_all add: link_entry_fields)
      then show ?thesis using nth_mem by blast
    qed (simp add: link_entry_def)
  qed
  then show ?thesis by (simp add: versions_def)
qed

lemma versions_update:
  "i < length (tx_ws tx) \<Longrightarrow>
     versions (tx\<lparr>tx_ws := (tx_ws tx)[i := (tx_ws tx ! i)\<lparr>we_value := v, we_mask := m\<rparr>]\<rparr>) \<subseteq> versions tx"
  using set_update_subset_insert [of "tx_ws tx" i "(tx_ws tx ! i)\<lparr>we_value := v, we_mask := m\<rparr>"]
  by (fastforce simp: versions_def)

lemma versions_nth: "i < length (tx_ws tx) \<Longrightarrow> we_version (tx_ws tx ! i) \<in> versions tx"
  by (simp add: versions_def)

lemmas frame_defs = write_frame_def log_frame_def same_world_def

section \<open>Write-back, encounter-time locking\<close>

text \<open>The log with its locks, its budget, and free locks everywhere else.\<close>

definition etl_log :: "nat \<Rightarrow> st \<Rightarrow> bool" where
  "etl_log k s \<longleftrightarrow> etl_inv (s_tx s) (g_locks (s_glob s))
     \<and> length (tx_ws (s_tx s)) + k \<le> tx_ws_size (s_tx s)
     \<and> (\<forall>j. \<not> covered (s_tx s) j \<longrightarrow> free_at (tx_end (s_tx s)) (s_glob s) j)"

text \<open>The lock word a write to \<open>a\<close> saves when it acquires the lock (0 when it holds the lock).\<close>

definition fresh_word :: "st \<Rightarrow> w64 \<Rightarrow> w64" where
  "fresh_word s a = (if covered (s_tx s) (GET_LOCK a) then 0 else g_locks (s_glob s) (GET_LOCK a))"

lemma fresh_word_le: "etl_log k s \<Longrightarrow> LOCK_GET_TIMESTAMP (fresh_word s a) \<le> tx_end (s_tx s)"
  by (auto simp: fresh_word_def etl_log_def free_at_lock LOCK_GET_TIMESTAMP_def)

definition etl_ok :: "params \<Rightarrow> nat \<Rightarrow> nat \<Rightarrow> st \<Rightarrow> bool" where
  "etl_ok P M k s \<longleftrightarrow> running P M s \<and> \<not> uses_ctl P (s_tx s) \<and> \<not> uses_wt P (s_tx s) \<and> etl_log k s
     \<and> (\<forall>v \<in> versions (s_tx s). v \<le> tx_end (s_tx s))"

definition etl_view :: "st \<Rightarrow> w64 \<Rightarrow> w64" where
  "etl_view s = wview (s_tx s) (g_mem (s_glob s))"

lemma etl_inv_upd [simp]:
  "etl_inv (tx\<lparr>tx_rs := r\<rparr>) locks = etl_inv tx locks"
  "etl_inv (tx\<lparr>tx_rs_size := z\<rparr>) locks = etl_inv tx locks"
  "etl_inv (tx\<lparr>tx_rs_base := b\<rparr>) locks = etl_inv tx locks"
  "etl_inv (tx\<lparr>tx_count := c\<rparr>) locks = etl_inv tx locks"
  by (rule etl_inv_cong; simp)+

lemma covered_upd [simp]:
  "covered (tx\<lparr>tx_rs := r\<rparr>) = covered tx"
  "covered (tx\<lparr>tx_rs_size := z\<rparr>) = covered tx"
  "covered (tx\<lparr>tx_rs_base := b\<rparr>) = covered tx"
  "covered (tx\<lparr>tx_count := c\<rparr>) = covered tx"
  by (rule covered_cong; simp)+

lemma wview_upd [simp]:
  "wview (tx\<lparr>tx_rs := r\<rparr>) = wview tx"
  "wview (tx\<lparr>tx_rs_size := z\<rparr>) = wview tx"
  "wview (tx\<lparr>tx_rs_base := b\<rparr>) = wview tx"
  "wview (tx\<lparr>tx_count := c\<rparr>) = wview tx"
  by (rule wview_cong; simp)+

lemma etl_log_reads:
  assumes "etl_log k s" "reads_only s t"
  shows "etl_log k t"
proof -
  have st: "steady (s_tx t) = steady (s_tx s)" and ws: "tx_ws (s_tx t) = tx_ws (s_tx s)"
    and g: "s_glob t = s_glob s"
    using assms(2) by (simp_all add: reads_only_def same_world_def)
  show ?thesis
    using assms(1) etl_inv_cong [OF steady_eqD(5,6) [OF st] ws] covered_cong [OF ws]
    unfolding etl_log_def g ws steady_eqD [OF st] by simp
qed

lemma etl_ok_reads:
  assumes "etl_ok P M k s" "reads_only s t"
  shows "etl_ok P M k t" "etl_view t = etl_view s"
proof -
  have st: "steady (s_tx t) = steady (s_tx s)" and ws: "tx_ws (s_tx t) = tx_ws (s_tx s)"
    and g: "s_glob t = s_glob s" and sw: "same_world s t"
    using assms(2) by (simp_all add: reads_only_def same_world_def)
  have "versions (s_tx t) = versions (s_tx s)" by (simp add: versions_def ws)
  then show "etl_ok P M k t"
    using assms(1) uses_cong [OF steady_eqD(1) [OF st]] running_same [OF sw] etl_log_reads [OF _ assms(2)]
    unfolding etl_ok_def steady_eqD(4) [OF st] by simp
  show "etl_view t = etl_view s" using wview_cong [OF ws] g by (simp add: etl_view_def)
qed

lemma read_free:
  assumes "running P M s" "free_at (tx_end (s_tx s)) (s_glob s) (GET_LOCK a)" "0 < n"
  shows "wp (stm_wbetl_read n P a) s (\<lambda>v t. v = g_mem (s_glob s) a \<and> reads_only s t) never"
proof -
  obtain m where n: "n = Suc m" using assms(3) by (cases n) simp_all
  have al: "allocs P" and q: "quiet P" using assms(1) by (simp_all add: running_def)
  have "LOCK_GET_WRITE (g_locks (s_glob s) (GET_LOCK a)) = 0"
    using assms(2) by (simp add: free_at_lock get_write_eq_owned)
  moreover have "\<not> LOCK_GET_TIMESTAMP (g_locks (s_glob s) (GET_LOCK a)) > tx_end (s_tx s)"
    using assms(2) by (simp add: free_at_lock not_less)
  ultimately show ?thesis
    using assms(1) q
    by (auto simp: stm_wbetl_read_def stm_wbetl_read_invisible_def n wbetl_read_done_def running_def
        intro!: wp_mono [OF add_read [OF al]])
qed

lemma etl_read:
  assumes "etl_ok P M k s" "0 < n"
  shows "wp (stm_wbetl_read n P a) s (\<lambda>v t. v = etl_view s a \<and> reads_only s t) never"
proof -
  have run: "running P M s" using assms(1) by (simp add: etl_ok_def)
  then have q: "quiet P" "IS_ACTIVE (tx_status (s_tx s))" by (simp_all add: running_def)
  have inv: "etl_inv (s_tx s) (g_locks (s_glob s))" using assms(1) by (simp add: etl_ok_def etl_log_def)
  show ?thesis
  proof (cases "covered (s_tx s) (GET_LOCK a)")
    case True
    show ?thesis
      using q(1) by (auto simp: etl_view_def reads_only_ticked
          intro!: wp_mono [OF read_covered [OF inv quiet_rely [OF q(1)] q(2) True assms(2)]])
  next
    case False
    then have "free_at (tx_end (s_tx s)) (s_glob s) (GET_LOCK a)" using assms(1) by (simp add: etl_ok_def etl_log_def)
    moreover have "etl_view s a = g_mem (s_glob s) a"
      using wview_uncovered [of "s_tx s" a "g_mem (s_glob s)"] inv False
      by (simp add: etl_view_def etl_inv_def)
    ultimately show ?thesis using read_free [OF run _ assms(2)] by simp
  qed
qed

lemma etl_stm_load:
  assumes "etl_ok P M k s" "0 < n"
  shows "wp (stm_load n P a) s (\<lambda>v t. v = etl_view s a \<and> reads_only s t) never"
  using etl_read [OF assms] assms(1) running_load [of P M s] by (simp add: etl_ok_def)

lemma etl_load:
  assumes "etl_ok P M k s" "0 < n"
  shows "wp (stm_load n P a) s (\<lambda>v t. v = etl_view s a \<and> etl_ok P M k t \<and> etl_view t = etl_view s) never"
  by (rule wp_mono [OF etl_stm_load [OF assms]]) (auto intro: etl_ok_reads [OF assms(1)])

text \<open>A write when nothing is contended: it returns, and only its own lock can change.\<close>

lemma frame_link:
  "covered tx j \<Longrightarrow> covered (tx\<lparr>tx_ws := link_entry prev e (tx_ws tx)\<rparr>) j"
  by (simp add: covered_link)

lemma frame_update:
  "i < length (tx_ws tx) \<Longrightarrow> covered tx j \<Longrightarrow>
     covered (tx\<lparr>tx_ws := (tx_ws tx)[i := (tx_ws tx ! i)\<lparr>we_value := v, we_mask := m\<rparr>]\<rparr>) j"
  using covered_from_update [of "(tx_ws tx ! i)\<lparr>we_value := v, we_mask := m\<rparr>" "tx_ws tx" i j 0]
  by (simp add: covered_def)

lemma do_write_frame:
  "quiet P \<Longrightarrow> ver = new \<or> ver \<in> versions (s_tx s) \<Longrightarrow>
     wp (wbetl_do_write P prev a v m k ver) s (\<lambda>_ t. write_frame new s t k) never"
  by (auto simp: wbetl_do_write_def frame_defs frame_link)

lemma update_entry_frame:
  assumes "quiet P" "i < length (tx_ws (s_tx s))"
  shows "wp (wbetl_update_entry P i a v m) s (\<lambda>_ t. write_frame ver s t k) never"
  using assms
  by (cases "we_mask (tx_ws (s_tx s) ! i) = 0"; cases "m = - 1")
    (simp_all add: wbetl_update_entry_def Let_def frame_defs frame_update subset_insertI2 versions_update)

lemma write_frame_acquire:
  "write_frame ver (upd_glob (\<lambda>g. g\<lparr>g_locks := (g_locks g)(k := x)\<rparr>) s) t k \<Longrightarrow> write_frame ver s t k"
  by (simp add: frame_defs)

lemma write_frame_tock [simp]: "write_frame ver (tock s) t k = write_frame ver s t k"
  by (simp add: frame_defs)

lemma write_frame_refl [simp]: "write_frame ver s s k" "write_frame ver s (tock s) k"
  by (auto simp: frame_defs)

lemma write_owned_frame:
  assumes inv: "etl_inv (s_tx s) (g_locks (s_glob s))" and q: "quiet P"
    and room: "length (tx_ws (s_tx s)) < tx_ws_size (s_tx s)"
    and i: "covered_from (tx_ws (s_tx s)) (GET_LOCK a) 0 = Some i"
  shows "wp (wbetl_write_owned P rb (LOCK_GET_ADDR (own_word (s_tx s) i)) a v m) s
           (\<lambda>r t. write_frame ver s t (GET_LOCK a)) never"
proof (cases "m = 0")
  case True
  then show ?thesis by (simp add: wbetl_write_owned_def)
next
  case False
  let ?tx = "s_tx s"
  have "i < length (tx_ws ?tx)" "ws_placed ?tx"
    using i inv by (simp_all add: covered_from_Some etl_inv_def)
  then have ix: "we_index ?tx (LOCK_GET_ADDR (own_word ?tx i)) = i" by (simp add: own_word_facts)
  obtain j where j: "chase (Suc (length (tx_ws ?tx))) (tx_ws ?tx) a i = Some (j, stm_has_written ?tx a \<noteq> None)"
      "j < length (tx_ws ?tx)" "we_lock (tx_ws ?tx ! j) = GET_LOCK a"
      "stm_has_written ?tx a \<noteq> None \<longrightarrow> stm_has_written ?tx a = Some j"
      "stm_has_written ?tx a = None \<longrightarrow> covered_from (tx_ws ?tx) (GET_LOCK a) (Suc j) = None"
    using chase_viewE [OF inv i] .
  show ?thesis
    using False j(1) room update_entry_frame [OF q j(2)] do_write_frame [OF q disjI2 [OF versions_nth [OF j(2)]]]
    by (simp add: wbetl_write_owned_def ix del: chase.simps)
qed

lemma etl_write:
  assumes ok: "etl_ok P M (Suc k) s" and n: "0 < n"
  shows "wp (stm_wbetl_write n P a v m) s
    (\<lambda>r t. wrote (s_tx s) (g_mem (s_glob s)) a v m t
       \<and> write_frame (LOCK_GET_TIMESTAMP (fresh_word s a)) s t (GET_LOCK a)) never"
proof -
  let ?tx = "s_tx s" and ?k = "GET_LOCK a" and ?g = "s_glob s"
  let ?v = "LOCK_GET_TIMESTAMP (fresh_word s a)"
  obtain n' where n': "n = Suc n'" using n by (cases n) simp_all
  have q: "quiet P" and irr: "tx_irrevocable ?tx = 0" using ok by (simp_all add: etl_ok_def running_def)
  have inv: "etl_inv ?tx (g_locks ?g)" and room: "length (tx_ws ?tx) < tx_ws_size ?tx"
    using ok by (simp_all add: etl_ok_def etl_log_def)
  have pl: "ws_placed ?tx" using inv by (simp add: etl_inv_def)
  note r = quiet_rely [OF q, of ?tx]
  show ?thesis
  proof (cases "covered ?tx ?k")
    case True
    obtain i where i: "covered_from (tx_ws ?tx) ?k 0 = Some i" "i < length (tx_ws ?tx)"
      "g_locks ?g ?k = own_word ?tx i"
      using covered_first [OF inv True] .
    note own = own_word_facts [OF pl i(2)]
    have "wp (wbetl_write_owned P rb (LOCK_GET_ADDR (own_word ?tx i)) a v m) (tock s)
        (\<lambda>r t. wrote ?tx (g_mem ?g) a v m t \<and> write_frame ?v s t ?k) never" for rb
    proof (rule wp_conj_never)
      show "wp (wbetl_write_owned P rb (LOCK_GET_ADDR (own_word ?tx i)) a v m) (tock s)
          (\<lambda>r t. wrote ?tx (g_mem ?g) a v m t) never"
        using write_owned [of ?tx "tock s" P a i rb v m] inv r room i(1) by simp
      show "wp (wbetl_write_owned P rb (LOCK_GET_ADDR (own_word ?tx i)) a v m) (tock s)
          (\<lambda>r t. write_frame ?v s t ?k) never"
        using write_owned_frame [of "tock s" P a i rb v m] inv q room i(1) by simp
    qed
    then show ?thesis
      using q own i(3) by (simp add: stm_wbetl_write_def n')
  next
    case False
    then have fr: "LOCK_GET_OWNED (g_locks ?g ?k) = 0" "(tx_end ?tx < LOCK_GET_TIMESTAMP (g_locks ?g ?k)) = False"
      using ok by (auto simp: etl_ok_def etl_log_def free_at_lock not_less)
    let ?w = "tock (tock s)"
    have fw: "LOCK_GET_TIMESTAMP (g_locks ?g ?k) = ?v" using False by (simp add: fresh_word_def)
    have "wp (wbetl_do_write P None a v m ?k ?v)
        (upd_glob (\<lambda>g. g\<lparr>g_locks := (g_locks g)(?k := own_word ?tx (length (tx_ws ?tx)))\<rparr>) ?w)
        (\<lambda>r t. wrote ?tx (g_mem ?g) a v m t \<and> write_frame ?v s t ?k) never"
    proof (rule wp_conj_never)
      show "wp (wbetl_do_write P None a v m ?k ?v)
          (upd_glob (\<lambda>g. g\<lparr>g_locks := (g_locks g)(?k := own_word ?tx (length (tx_ws ?tx)))\<rparr>) ?w)
          (\<lambda>r t. wrote ?tx (g_mem ?g) a v m t) never"
        using acquire [of ?tx ?w P a v m ?v] inv r room False by simp
      show "wp (wbetl_do_write P None a v m ?k ?v)
          (upd_glob (\<lambda>g. g\<lparr>g_locks := (g_locks g)(?k := own_word ?tx (length (tx_ws ?tx)))\<rparr>) ?w)
          (\<lambda>r t. write_frame ?v s t ?k) never"
        by (rule wp_mono [OF do_write_frame [OF q disjI1 [OF refl]]]) (use write_frame_acquire in force)+
    qed
    then show ?thesis
      using q irr room by (simp add: stm_wbetl_write_def n' own_word_def fr fw [symmetric])
  qed
qed

lemma etl_log_write:
  assumes l: "etl_log (Suc k) s" and inv: "etl_inv (s_tx t) (g_locks (s_glob t))"
    and c: "covered (s_tx t) j" and f: "log_frame ver s t j"
  shows "etl_log k t"
proof -
  have st: "steady (s_tx t) = steady (s_tx s)" using f by (simp add: frame_defs)
  have "free_at (tx_end (s_tx t)) (s_glob t) i" if "\<not> covered (s_tx t) i" for i
  proof -
    have "i \<noteq> j" "\<not> covered (s_tx s) i" using that c f by (auto simp: log_frame_def)
    then show ?thesis using l f unfolding steady_eqD(4) [OF st] by (simp add: etl_log_def free_at_def log_frame_def)
  qed
  moreover have "length (tx_ws (s_tx t)) + k \<le> tx_ws_size (s_tx t)"
    using l f unfolding steady_eqD(6) [OF st] by (simp add: etl_log_def log_frame_def)
  ultimately show ?thesis using inv by (simp add: etl_log_def)
qed

lemma etl_ok_write:
  assumes ok: "etl_ok P M (Suc k) s" and w: "wrote (s_tx s) (g_mem (s_glob s)) a v m t"
    and f: "write_frame ver s t (GET_LOCK a)" and v: "ver \<le> tx_end (s_tx s)"
  shows "etl_ok P M k t" "etl_view t = (etl_view s)(a := merge_mask (etl_view s a) v m)"
proof -
  have lf: "log_frame ver s t (GET_LOCK a)" and mem: "g_mem (s_glob t) = g_mem (s_glob s)"
    using f by (simp_all add: write_frame_def)
  have sw: "same_world s t" and st: "steady (s_tx t) = steady (s_tx s)"
    using lf by (simp_all add: log_frame_def same_world_def)
  show "etl_view t = (etl_view s)(a := merge_mask (etl_view s a) v m)"
    using w mem by (intro ext) (simp add: etl_view_def wrote_def writes_def)
  have vs: "\<forall>v \<in> versions (s_tx t). v \<le> tx_end (s_tx s)"
    using ok v lf by (auto simp: etl_ok_def log_frame_def)
  show "etl_ok P M k t"
    using ok w running_same [OF sw] uses_cong [OF steady_eqD(1) [OF st]] etl_log_write [OF _ _ _ lf]
    unfolding etl_ok_def steady_eqD(4) [OF st] by (simp add: wrote_def vs)
qed

lemma etl_stm_store2:
  assumes "etl_ok P M (Suc k) s" "0 < n"
  shows "wp (stm_store2 n P a v m) s
    (\<lambda>_ t. wrote (s_tx s) (g_mem (s_glob s)) a v m t
       \<and> write_frame (LOCK_GET_TIMESTAMP (fresh_word s a)) s t (GET_LOCK a)) never"
  using etl_write [OF assms, of a v m] assms(1) running_store2 [of P M s] by (simp add: etl_ok_def)

lemma etl_store:
  assumes "etl_ok P M (Suc k) s" "0 < n"
  shows "wp (stm_store2 n P a v m) s
    (\<lambda>_ t. etl_ok P M k t \<and> etl_view t = (etl_view s)(a := merge_mask (etl_view s a) v m)) never"
proof -
  have le: "LOCK_GET_TIMESTAMP (fresh_word s a) \<le> tx_end (s_tx s)"
    using assms(1) unfolding etl_ok_def by (blast intro: fresh_word_le)
  show ?thesis
    by (rule wp_mono [OF etl_stm_store2 [OF assms]]) (use etl_ok_write [OF assms(1) _ _ le] in blast)+
qed

text \<open>Starting with an empty log.\<close>

lemma etl_log_start:
  assumes "running P M s" "all_free (s_glob s)" "tx_ws (s_tx s) = []"
  shows "etl_log M s"
  using assms
  by (auto simp: etl_log_def etl_inv_def ws_placed_def running_def room_def locks_wf_def mine_def
      all_free_def free_at_def ws_wf_def covered_def chained_def covered_from_def)

lemma etl_start:
  assumes "idle P M s" "3 \<le> n" "\<not> at_read_only a" "\<And>tx. tx_attr tx = a \<Longrightarrow> \<not> uses_ctl P tx \<and> \<not> uses_wt P tx"
  shows "wp (stm_start n P a) s (\<lambda>_ t. etl_ok P M M t \<and> etl_view t = g_mem (s_glob s)) never"
  by (rule wp_mono [OF start_alone [OF assms(1-3)]])
    (use assms(4) etl_log_start in \<open>auto simp: etl_ok_def etl_view_def wview_def stm_has_written_def versions_def\<close>)

text \<open>After a commit every lock is free again, at the new time or before.\<close>

lemma landed_locks:
  assumes run: "running P M s" and free: "\<forall>k. \<not> mn k \<longrightarrow> free_at (tx_end (s_tx s)) (s_glob s) k"
    and g: "s_glob t = (s_glob s)\<lparr>g_clock := g_clock (s_glob s) + 1, g_mem := mem,
      g_locks := (\<lambda>k. if mn k then LOCK_SET_TIMESTAMP (g_clock (s_glob s) + 1) else g_locks (s_glob s) k)\<rparr>"
  shows "alone (s_glob t) \<and> g_clock (s_glob t) \<le> VERSION_MAX \<and> all_free (s_glob t)"
proof -
  let ?c = "g_clock (s_glob s)"
  have c: "?c < VERSION_MAX" and al: "alone (s_glob s)" and e: "tx_end (s_tx s) = ?c"
    using run by (simp_all add: running_def)
  have le: "?c + 1 \<le> VERSION_MAX" using c by (rule word_inc_less)
  have up: "?c < ?c + 1" using c by (rule word_inc_less)
  have "LOCK_GET_TIMESTAMP (LOCK_SET_TIMESTAMP (?c + 1)) = ?c + 1"
    using le by (rule version_read_back)
  then show ?thesis
    using al le up free e unfolding g all_free_def alone_def free_at_def by auto
qed

lemma etl_commit:
  assumes ok: "etl_ok P M k s"
  shows "wp (stm_commit n P) s (\<lambda>r t. r \<and> idle P M t \<and> g_mem (s_glob t) = etl_view s) never"
proof (rule commit_alone)
  let ?s = "unnested s" and ?tx = "s_tx s"
  show run: "running P M s" using ok by (simp add: etl_ok_def)
  have inv: "etl_inv ?tx (g_locks (s_glob s))"
    and free: "\<forall>j. \<not> covered ?tx j \<longrightarrow> free_at (tx_end ?tx) (s_glob s) j"
    using ok by (simp_all add: etl_ok_def etl_log_def)
  have e: "tx_end ?tx = g_clock (s_glob s)" using run by (simp add: running_def)
  show "g_mem (s_glob s) = etl_view s \<and> all_free (s_glob s)" if "tx_ws ?tx = []"
    using that free e by (auto simp: etl_view_def wview_def stm_has_written_def all_free_def covered_def
        covered_from_def)
  have may: "may_commit (s_tx ?s) (s_glob ?s)" using run by (simp add: may_commit_def running_def alone_def)
  have inv': "etl_inv (s_tx ?s) (g_locks (s_glob ?s))" using inv etl_inv_cong [of "s_tx ?s" ?tx] by simp
  have "wp (stm_wbetl_commit n P) ?s (\<lambda>r t. r \<and> s_tx t = s_tx ?s \<and> s_cur t = s_cur ?s
      \<and> s_nalloc t = s_nalloc ?s \<and> s_glob t = committed (s_tx ?s) (s_glob ?s)) never"
    by (rule commit_quiet [OF _ inv' may]) (use run in \<open>simp add: running_def\<close>)
  moreover have "landed ?s t \<and> g_mem (s_glob t) = etl_view s"
    if t: "s_tx t = s_tx ?s" "s_cur t = s_cur ?s" "s_glob t = committed (s_tx ?s) (s_glob ?s)" for t
  proof -
    have cv: "covered (s_tx ?s) = covered ?tx" "wview (s_tx ?s) = wview ?tx"
      by (rule covered_cong wview_cong; simp)+
    show ?thesis
      using landed_locks [OF run free, of t] t unfolding committed_def cv unnested_fields landed_def etl_view_def
      by simp
  qed
  ultimately have "wp (stm_wbetl_commit n P) ?s (\<lambda>_ t. landed ?s t \<and> g_mem (s_glob t) = etl_view s) never"
    by (rule wp_mono) auto
  then show "wp (design_commit n P) ?s (\<lambda>_ t. landed ?s t \<and> g_mem (s_glob t) = etl_view s) never"
    using ok uses_cong [of "s_tx ?s" ?tx] by (simp add: design_commit_def etl_ok_def)
qed

lemma etl_fewer: "etl_ok P M k s \<Longrightarrow> j \<le> k \<Longrightarrow> etl_ok P M j s"
  by (simp add: etl_ok_def etl_log_def)

text \<open>An update attribute that selects write-back with encounter-time locking.\<close>

definition etl_attr :: "params \<Rightarrow> attr \<Rightarrow> bool" where
  "etl_attr P a \<longleftrightarrow> \<not> at_read_only a
     \<and> (case p_design P of WRITE_BACK_ETL \<Rightarrow> True | MODULAR \<Rightarrow> at_id a \<noteq> 1 \<and> at_id a \<noteq> 2 | _ \<Rightarrow> False)"

lemma etl_attrD: "etl_attr P a \<Longrightarrow> tx_attr tx = a \<Longrightarrow> \<not> uses_ctl P tx \<and> \<not> uses_wt P tx"
  by (auto simp: etl_attr_def uses_ctl_def uses_wt_def split: design.splits)

text \<open>An abort releases every lock with the version it had.\<close>

lemma etl_undo:
  assumes ok: "etl_ok P M k s"
  shows "wp (design_rollback P) s (\<lambda>_ t. landed s t \<and> g_mem (s_glob t) = g_mem (s_glob s)) never"
proof -
  let ?tx = "s_tx s" and ?g = "s_glob s"
  have run: "running P M s" and inv: "etl_inv ?tx (g_locks ?g)"
    and free: "\<forall>j. \<not> covered ?tx j \<longrightarrow> free_at (tx_end ?tx) ?g j"
    and ver: "\<forall>v \<in> versions ?tx. v \<le> tx_end ?tx"
    using ok by (simp_all add: etl_ok_def etl_log_def)
  have r: "quiet P" "IS_ACTIVE (tx_status ?tx)" "tx_end ?tx = g_clock ?g" "g_clock ?g < VERSION_MAX" "alone ?g"
    using run by (simp_all add: running_def)
  have "free_at (g_clock ?g) (rolled_back ?tx ?g) j" for j
  proof (cases "covered_from (tx_ws ?tx) j 0")
    case None
    then show ?thesis using free r(3) by (simp add: covered_def free_at_def rolled_back_def)
  next
    case (Some i)
    then have "we_version (tx_ws ?tx ! i) \<le> g_clock ?g"
      using ver versions_nth [of i ?tx] r(3) by (simp add: covered_from_Some)
    moreover from this have "LOCK_GET_TIMESTAMP (LOCK_SET_TIMESTAMP (we_version (tx_ws ?tx ! i))) = we_version (tx_ws ?tx ! i)"
      using r(4) by (intro version_read_back) simp
    ultimately show ?thesis using Some by (simp add: free_at_def rolled_back_def)
  qed
  then have L: "landed s t \<and> g_mem (s_glob t) = g_mem ?g"
    if "s_tx t = ?tx" "s_cur t = s_cur s" "s_glob t = rolled_back ?tx ?g" for t
    using that r(4,5) by (simp add: landed_def all_free_def rolled_back_def alone_def)
  have "wp (stm_wbetl_rollback P) s (\<lambda>_ t. landed s t \<and> g_mem (s_glob t) = g_mem ?g) never"
    by (rule wp_mono [OF rollback_quiet [OF r(1) inv r(2)]]) (use L in blast)+
  then show ?thesis using ok by (simp add: design_rollback_def etl_ok_def)
qed

lemma etl_abort:
  assumes ok: "etl_ok P M k s" and a: "etl_attr P (tx_attr (s_tx s))" "retries (tx_attr (s_tx s)) reason" and n: "3 \<le> n"
  shows "wp (stm_abort n P reason) s (\<lambda>_ _. False)
    (\<lambda>r t. (\<exists>x. r = Jump x) \<and> etl_ok P M M t \<and> tx_attr (s_tx t) = tx_attr (s_tx s)
       \<and> etl_view t = g_mem (s_glob s) \<and> g_mem (s_glob t) = g_mem (s_glob s))"
  by (rule wp_mono [OF abort_alone [OF _ n a(2) etl_undo [OF ok]]])
    (use ok etl_attrD [OF a(1)] etl_log_start in
      \<open>auto simp: etl_ok_def etl_view_def wview_def stm_has_written_def versions_def\<close>)

interpretation etl: tx_design "stm_load (n + 3) P" "stm_store2 (n + 3) P"
    "\<lambda>k s. etl_attr P a \<and> etl_ok P M k s" etl_view
    "stm_start (n + 3) P a" "stm_commit (n + 3) P" "\<lambda>s. etl_attr P a \<and> idle P M s" M
  for n P M a
proof unfold_locales
  show "wp (stm_start (n + 3) P a) s
      (\<lambda>_ t. (etl_attr P a \<and> etl_ok P M M t) \<and> etl_view t = g_mem (s_glob s)) never"
    if "etl_attr P a \<and> idle P M s" for s
    using that etl_start [of P M s "n + 3" a] etl_attrD [of P a] by (simp add: etl_attr_def)
qed (auto simp: etl_load etl_store intro: etl_commit etl_fewer)

end
