(* ===== verification/SeqCtl.thy ===== *)
theory SeqCtl
  imports SeqEtl
begin

text \<open>
  Commit-time locking meets the contract \<open>tx_design\<close>: until the commit a write only changes the
  log, and a read merges the pending bits over memory.
\<close>

section \<open>The log\<close>

definition ctl_log :: "nat \<Rightarrow> st \<Rightarrow> bool" where
  "ctl_log k s \<longleftrightarrow> ctl_inv (s_tx s) \<and> length (tx_ws (s_tx s)) + k \<le> tx_ws_size (s_tx s)
     \<and> (\<forall>j. free_at (tx_end (s_tx s)) (s_glob s) j)"

definition ctl_ok :: "params \<Rightarrow> nat \<Rightarrow> nat \<Rightarrow> st \<Rightarrow> bool" where
  "ctl_ok P M k s \<longleftrightarrow> running P M s \<and> uses_ctl P (s_tx s) \<and> ctl_log k s"

definition ctl_view :: "st \<Rightarrow> w64 \<Rightarrow> w64" where
  "ctl_view s = ctl_wview (s_tx s) (g_mem (s_glob s))"

lemma ctl_wview_cong: "tx_ws tx = tx_ws tx' \<Longrightarrow> ctl_wview tx = ctl_wview tx'"
  by (intro ext) (simp add: ctl_wview_def stm_has_written_def split: option.split)

lemma ctl_inv_cong:
  assumes "tx_base tx' = tx_base tx" "tx_ws_size tx' = tx_ws_size tx" "tx_ws tx' = tx_ws tx"
    "tx_count tx' = tx_count tx"
  shows "ctl_inv tx' = ctl_inv tx"
  using assms by (simp add: ctl_inv_def ws_placed_def)

lemma ctl_log_reads:
  assumes "ctl_log k s" "reads_only s t"
  shows "ctl_log k t"
proof -
  have st: "steady (s_tx t) = steady (s_tx s)" and ws: "tx_ws (s_tx t) = tx_ws (s_tx s)"
    and g: "s_glob t = s_glob s" and c: "tx_count (s_tx t) = tx_count (s_tx s)"
    using assms(2) by (simp_all add: reads_only_def same_world_def)
  show ?thesis
    using assms(1) ctl_inv_cong [OF steady_eqD(5,6) [OF st] ws c]
    unfolding ctl_log_def g ws steady_eqD [OF st] by auto
qed

lemma ctl_ok_reads:
  assumes "ctl_ok P M k s" "reads_only s t"
  shows "ctl_ok P M k t" "ctl_view t = ctl_view s"
proof -
  have st: "steady (s_tx t) = steady (s_tx s)" and ws: "tx_ws (s_tx t) = tx_ws (s_tx s)"
    and g: "s_glob t = s_glob s" and sw: "same_world s t"
    using assms(2) by (simp_all add: reads_only_def same_world_def)
  show "ctl_ok P M k t"
    using assms(1) uses_cong [OF steady_eqD(1) [OF st]] running_same [OF sw] ctl_log_reads [OF _ assms(2)]
    by (simp add: ctl_ok_def)
  show "ctl_view t = ctl_view s" using ctl_wview_cong [OF ws] g by (simp add: ctl_view_def)
qed

section \<open>Reading\<close>

lemma ctl_read_loop:
  assumes "running P M s" "free_at (tx_end (s_tx s)) (s_glob s) (GET_LOCK a)" "0 < n"
  shows "wp (wbctl_read_loop n P rb written a None) s
    (\<lambda>v t. v = (case written of None \<Rightarrow> g_mem (s_glob s) a
                | Some w \<Rightarrow> merge_mask (g_mem (s_glob s) a) (we_value w) (we_mask w)) \<and> reads_only s t) never"
proof -
  obtain m where n: "n = Suc m" using assms(3) by (cases n) simp_all
  have al: "allocs P" and q: "quiet P" and i: "tx_irrevocable (s_tx s) = 0"
    using assms(1) by (simp_all add: running_def)
  have "LOCK_GET_WRITE (g_locks (s_glob s) (GET_LOCK a)) = 0"
    using assms(2) by (simp add: free_at_lock get_write_eq_owned)
  moreover have "\<not> LOCK_GET_TIMESTAMP (g_locks (s_glob s) (GET_LOCK a)) > tx_end (s_tx s)"
    using assms(2) by (simp add: free_at_lock not_less)
  ultimately show ?thesis
    using q i assms(1)
    by (auto simp: n wbctl_read_done_def Let_def running_def intro!: wp_mono [OF add_read [OF al]])
qed

lemma ctl_read:
  assumes "ctl_ok P M k s" "0 < n"
  shows "wp (stm_wbctl_read n P a) s (\<lambda>v t. v = ctl_view s a \<and> reads_only s t) never"
proof -
  have run: "running P M s" and fr: "free_at (tx_end (s_tx s)) (s_glob s) (GET_LOCK a)"
    using assms(1) by (simp_all add: ctl_ok_def ctl_log_def)
  have act: "IS_ACTIVE (tx_status (s_tx s))" using run by (simp add: running_def)
  note loop = ctl_read_loop [OF run fr assms(2)]
  show ?thesis
  proof (cases "stm_has_written (s_tx s) a")
    case None
    then show ?thesis using act loop [of _ None] by (simp add: stm_wbctl_read_def ctl_view_def ctl_wview_def)
  next
    case (Some i)
    then show ?thesis
      using act loop [of _ "Some (tx_ws (s_tx s) ! i)"]
      by (simp add: stm_wbctl_read_def ctl_view_def ctl_wview_def Let_def)
  qed
qed

lemma ctl_stm_load:
  assumes "ctl_ok P M k s" "0 < n"
  shows "wp (stm_load n P a) s (\<lambda>v t. v = ctl_view s a \<and> reads_only s t) never"
  using ctl_read [OF assms] assms(1) running_load [of P M s] by (simp add: ctl_ok_def)

lemma ctl_load:
  assumes "ctl_ok P M k s" "0 < n"
  shows "wp (stm_load n P a) s (\<lambda>v t. v = ctl_view s a \<and> ctl_ok P M k t \<and> ctl_view t = ctl_view s) never"
  by (rule wp_mono [OF ctl_stm_load [OF assms]]) (auto intro: ctl_ok_reads [OF assms(1)])

section \<open>Writing\<close>

lemma ctl_view_append:
  assumes "stm_has_written tx (we_addr e) = None" "tx_ws tx' = tx_ws tx @ [e]"
  shows "ctl_wview tx' mem = (ctl_wview tx mem)(we_addr e := merge_mask (mem (we_addr e)) (we_value e) (we_mask e))"
proof
  fix b
  have hw: "stm_has_written tx' b = (if b = we_addr e then Some (length (tx_ws tx)) else stm_has_written tx b)"
    using assms by (simp add: stm_has_written_def find_index_append split: option.split)
  show "ctl_wview tx' mem b = ((ctl_wview tx mem)(we_addr e := merge_mask (mem (we_addr e)) (we_value e) (we_mask e))) b"
  proof (cases "stm_has_written tx b")
    case (Some i)
    then have "i < length (tx_ws tx)" using has_written_Some by blast
    then show ?thesis using Some assms by (simp add: ctl_wview_def hw nth_append)
  qed (use assms in \<open>simp add: ctl_wview_def hw\<close>)
qed

lemma ctl_view_update:
  assumes i: "stm_has_written tx a = Some i" and d: "distinct (map we_addr (tx_ws tx))"
    and ws: "tx_ws tx' = (tx_ws tx)[i := e]" and e: "we_addr e = a"
  shows "ctl_wview tx' mem = (ctl_wview tx mem)(a := merge_mask (mem a) (we_value e) (we_mask e))"
proof
  fix b
  have il: "i < length (tx_ws tx)" "we_addr (tx_ws tx ! i) = a" using has_written_Some [OF i] by simp_all
  have "map we_addr ((tx_ws tx)[i := e]) = map we_addr (tx_ws tx)"
    by (rule nth_equalityI) (use il e in \<open>auto simp: nth_list_update\<close>)
  then have hw: "stm_has_written tx' b = stm_has_written tx b" for b
    using find_index_cong [of "(tx_ws tx)[i := e]" "tx_ws tx" b 0] by (simp add: stm_has_written_def ws)
  have other: "j \<noteq> i" if "stm_has_written tx b = Some j" "b \<noteq> a" for j
    using has_written_Some [OF that(1)] il(2) that(2) by blast
  show "ctl_wview tx' mem b = ((ctl_wview tx mem)(a := merge_mask (mem a) (we_value e) (we_mask e))) b"
  proof (cases "b = a")
    case False
    show ?thesis
    proof (cases "stm_has_written tx b")
      case (Some j)
      then show ?thesis using False other [OF Some False] by (simp add: ctl_wview_def hw ws)
    qed (use False in \<open>simp add: ctl_wview_def hw\<close>)
  qed (use i il(1) in \<open>simp add: ctl_wview_def hw ws\<close>)
qed

definition ctl_wrote :: "st \<Rightarrow> w64 \<Rightarrow> w64 \<Rightarrow> w64 \<Rightarrow> st \<Rightarrow> bool" where
  "ctl_wrote s a v m t \<longleftrightarrow> same_world s t \<and> s_glob t = s_glob s \<and> ctl_inv (s_tx t)
     \<and> length (tx_ws (s_tx t)) \<le> Suc (length (tx_ws (s_tx s)))
     \<and> ctl_view t = (ctl_view s)(a := merge_mask (ctl_view s a) v m)"

lemma ctl_merge:
  assumes inv: "ctl_inv (s_tx s)" and i: "stm_has_written (s_tx s) a = Some i"
  shows "wp (wbctl_merge_entry i v m) s (\<lambda>_ t. ctl_wrote s a v m t) never"
proof -
  let ?ws = "tx_ws (s_tx s)"
  let ?e = "(?ws ! i)\<lparr>we_value := merge_mask (we_value (?ws ! i)) v m, we_mask := we_mask (?ws ! i) OR m\<rparr>"
  let ?tx = "(s_tx s)\<lparr>tx_ws := ?ws[i := ?e]\<rparr>"
  have il: "i < length ?ws" "we_addr (?ws ! i) = a" using has_written_Some [OF i] by simp_all
  have d: "distinct (map we_addr ?ws)" using inv by (simp add: ctl_inv_def)
  have addr: "map we_addr (?ws[i := ?e]) = map we_addr ?ws"
    by (rule nth_equalityI) (use il in \<open>auto simp: nth_list_update\<close>)
  have "we_lock w = GET_LOCK (we_addr w) \<and> we_no_drop w" if "w \<in> set (?ws[i := ?e])" for w
    using that inv il(1) set_update_subset_insert [of ?ws i ?e] by (auto simp: ctl_inv_def)
  then have inv': "ctl_inv ?tx"
    using inv addr by (simp add: ctl_inv_def ws_placed_def)
  have "ctl_wview ?tx mem = (ctl_wview (s_tx s) mem)(a := merge_mask (ctl_wview (s_tx s) mem a) v m)" for mem
    using ctl_view_update [OF i d, of ?tx ?e] il(2) i by (simp add: ctl_wview_def merge_mask_merge)
  then show ?thesis
    using inv' by (simp add: wbctl_merge_entry_def ctl_wrote_def same_world_def ctl_view_def)
qed

lemma ctl_add:
  assumes inv: "ctl_inv (s_tx s)" and none: "stm_has_written (s_tx s) a = None"
    and room: "length (tx_ws (s_tx s)) < tx_ws_size (s_tx s)"
  shows "wp (wbctl_add_entry P a v m (GET_LOCK a) ver) s (\<lambda>_ t. ctl_wrote s a v m t) never"
proof -
  let ?e = "\<lparr>we_addr = a, we_value = (if m = 0 then 0 else v), we_mask = m, we_version = ver, we_lock = GET_LOCK a,
    we_next = None, we_no_drop = True\<rparr>"
  let ?tx = "(s_tx s)\<lparr>tx_ws := tx_ws (s_tx s) @ [?e]\<rparr>"
  have "a \<notin> we_addr ` set (tx_ws (s_tx s))"
    using none find_index_None [of a "tx_ws (s_tx s)" 0] by (auto simp: stm_has_written_def)
  then have inv': "ctl_inv ?tx" using inv room by (auto simp: ctl_inv_def ws_placed_def)
  have "ctl_wview ?tx mem = (ctl_wview (s_tx s) mem)(a := merge_mask (ctl_wview (s_tx s) mem a) v m)" for mem
    using ctl_view_append [of "s_tx s" ?e ?tx mem] none by (simp add: ctl_wview_def)
  then show ?thesis
    using inv' room by (simp add: wbctl_add_entry_def ctl_wrote_def same_world_def ctl_view_def)
qed

lemma ctl_write:
  assumes ok: "ctl_ok P M (Suc k) s" and n: "0 < n"
  shows "wp (stm_wbctl_write n P a v m) s (\<lambda>_ t. ctl_wrote s a v m t) never"
proof -
  obtain n' where n': "n = Suc n'" using n by (cases n) simp_all
  have q: "quiet P" using ok by (simp add: ctl_ok_def running_def)
  have inv: "ctl_inv (s_tx s)" and room: "length (tx_ws (s_tx s)) < tx_ws_size (s_tx s)"
    and free: "free_at (tx_end (s_tx s)) (s_glob s) (GET_LOCK a)"
    using ok by (simp_all add: ctl_ok_def ctl_log_def)
  have fr: "LOCK_GET_OWNED (g_locks (s_glob s) (GET_LOCK a)) = 0"
      "(tx_end (s_tx s) < LOCK_GET_TIMESTAMP (g_locks (s_glob s) (GET_LOCK a))) = False"
    using free by (simp_all add: free_at_lock not_less)
  have tick: "ctl_wrote (tock s) a v m t = ctl_wrote s a v m t" for t
    by (simp add: ctl_wrote_def ctl_view_def)
  show ?thesis
    using q fr ctl_add [of "tock s" a P v m] ctl_merge [of "tock s" a _ v m] inv room
    by (auto simp: stm_wbctl_write_def n' tick split: option.split)
qed

lemma ctl_ok_write:
  assumes ok: "ctl_ok P M (Suc k) s" and w: "ctl_wrote s a v m t"
  shows "ctl_ok P M k t" "ctl_view t = (ctl_view s)(a := merge_mask (ctl_view s a) v m)"
proof -
  have sw: "same_world s t" and st: "steady (s_tx t) = steady (s_tx s)" and g: "s_glob t = s_glob s"
    using w by (simp_all add: ctl_wrote_def same_world_def)
  have "ctl_log k t"
    using ok w unfolding ctl_ok_def ctl_log_def g steady_eqD [OF st] by (auto simp: ctl_wrote_def)
  then show "ctl_ok P M k t"
    using ok running_same [OF sw] uses_cong [OF steady_eqD(1) [OF st]] by (simp add: ctl_ok_def)
  show "ctl_view t = (ctl_view s)(a := merge_mask (ctl_view s a) v m)" using w by (simp add: ctl_wrote_def)
qed

lemma ctl_stm_store2:
  assumes "ctl_ok P M (Suc k) s" "0 < n"
  shows "wp (stm_store2 n P a v m) s (\<lambda>_ t. ctl_wrote s a v m t) never"
  using ctl_write [OF assms, of a v m] assms(1) running_store2 [of P M s] by (simp add: ctl_ok_def)

lemma ctl_store:
  assumes "ctl_ok P M (Suc k) s" "0 < n"
  shows "wp (stm_store2 n P a v m) s
    (\<lambda>_ t. ctl_ok P M k t \<and> ctl_view t = (ctl_view s)(a := merge_mask (ctl_view s a) v m)) never"
  by (rule wp_mono [OF ctl_stm_store2 [OF assms]]) (use ctl_ok_write [OF assms(1)] in blast)+

section \<open>Starting and committing\<close>

lemma ctl_start:
  assumes "idle P M s" "3 \<le> n" "\<not> at_read_only a" "\<And>tx. tx_attr tx = a \<Longrightarrow> uses_ctl P tx"
  shows "wp (stm_start n P a) s (\<lambda>_ t. ctl_ok P M M t \<and> ctl_view t = g_mem (s_glob s)) never"
  by (rule wp_mono [OF start_alone [OF assms(1-3)]])
    (use assms(4) in \<open>auto simp: ctl_ok_def ctl_log_def ctl_view_def ctl_wview_def stm_has_written_def ctl_inv_def
      ws_placed_def running_def room_def all_free_def\<close>)

lemma ctl_commit:
  assumes ok: "ctl_ok P M k s" and n: "0 < n"
  shows "wp (stm_commit n P) s (\<lambda>r t. r \<and> idle P M t \<and> g_mem (s_glob t) = ctl_view s) never"
proof (rule commit_alone)
  let ?s = "unnested s" and ?tx = "s_tx s"
  show run: "running P M s" using ok by (simp add: ctl_ok_def)
  have inv: "ctl_inv ?tx" and free: "\<forall>j. free_at (tx_end ?tx) (s_glob s) j"
    using ok by (simp_all add: ctl_ok_def ctl_log_def)
  have e: "tx_end ?tx = g_clock (s_glob s)" using run by (simp add: running_def)
  show "g_mem (s_glob s) = ctl_view s \<and> all_free (s_glob s)" if "tx_ws ?tx = []"
    using that free e by (auto simp: ctl_view_def ctl_wview_def stm_has_written_def all_free_def)
  show "wp (design_commit n P) ?s (\<lambda>_ t. landed ?s t \<and> g_mem (s_glob t) = ctl_view s) never"
    if ne: "tx_ws ?tx \<noteq> []"
  proof -
    have may: "ctl_may_commit (s_tx ?s) (s_glob ?s)" using run by (simp add: ctl_may_commit_def running_def alone_def)
    have inv': "ctl_inv (s_tx ?s)" using inv ctl_inv_cong [of "s_tx ?s" ?tx] by simp
    have "wp (stm_wbctl_commit n P) ?s (\<lambda>r t. r \<and> s_cur t = s_cur ?s
        \<and> (\<exists>ws c. s_tx t = (s_tx ?s)\<lparr>tx_ws := ws, tx_count := c\<rparr>)
        \<and> s_glob t = ctl_committed (s_tx ?s) (s_glob ?s)) never"
      by (rule ctl_commit_quiet [OF _ inv' n _ _ may])
        (use run ne free in \<open>simp_all add: running_def free_at_def\<close>)
    moreover have "landed ?s t \<and> g_mem (s_glob t) = ctl_view s"
      if t: "\<exists>ws c. s_tx t = (s_tx ?s)\<lparr>tx_ws := ws, tx_count := c\<rparr>" "s_cur t = s_cur ?s"
        "s_glob t = ctl_committed (s_tx ?s) (s_glob ?s)" for t
    proof -
      have st: "steady (s_tx t) = steady (s_tx ?s)" using t(1) by auto
      have cv: "covered (s_tx ?s) = covered ?tx" "ctl_wview (s_tx ?s) = ctl_wview ?tx"
        by (rule covered_cong ctl_wview_cong; simp)+
      have "\<forall>j. \<not> covered ?tx j \<longrightarrow> free_at (tx_end ?tx) (s_glob s) j" using free by simp
      from landed_locks [OF run this, of t] show ?thesis
        using st t(2,3) unfolding ctl_committed_def cv unnested_fields landed_def ctl_view_def by simp
    qed
    ultimately have "wp (stm_wbctl_commit n P) ?s (\<lambda>_ t. landed ?s t \<and> g_mem (s_glob t) = ctl_view s) never"
      by (rule wp_mono) blast+
    then show ?thesis
      using ok uses_cong [of "s_tx ?s" ?tx] by (simp add: design_commit_def ctl_ok_def)
  qed
qed

lemma ctl_fewer: "ctl_ok P M k s \<Longrightarrow> j \<le> k \<Longrightarrow> ctl_ok P M j s"
  by (simp add: ctl_ok_def ctl_log_def)

text \<open>An update attribute that selects write-back with commit-time locking.\<close>

definition ctl_attr :: "params \<Rightarrow> attr \<Rightarrow> bool" where
  "ctl_attr P a \<longleftrightarrow> \<not> at_read_only a
     \<and> (case p_design P of WRITE_BACK_CTL \<Rightarrow> True | MODULAR \<Rightarrow> at_id a = 1 | _ \<Rightarrow> False)"

lemma ctl_attrD: "ctl_attr P a \<Longrightarrow> tx_attr tx = a \<Longrightarrow> uses_ctl P tx"
  by (auto simp: ctl_attr_def uses_ctl_def split: design.splits)

interpretation ctl: tx_design "stm_load (n + 3) P" "stm_store2 (n + 3) P"
    "\<lambda>k s. ctl_attr P a \<and> ctl_ok P M k s" ctl_view
    "stm_start (n + 3) P a" "stm_commit (n + 3) P" "\<lambda>s. ctl_attr P a \<and> idle P M s" M
  for n P M a
proof unfold_locales
  show "wp (stm_start (n + 3) P a) s
      (\<lambda>_ t. (ctl_attr P a \<and> ctl_ok P M M t) \<and> ctl_view t = g_mem (s_glob s)) never"
    if "ctl_attr P a \<and> idle P M s" for s
    using that ctl_start [of P M s "n + 3" a] ctl_attrD [of P a] by (simp add: ctl_attr_def)
qed (auto simp: ctl_load ctl_store intro: ctl_commit ctl_fewer)

section \<open>Aborting\<close>

text \<open>Before the commit no lock is held, so an abort has nothing to release.\<close>

lemma ctl_undo:
  assumes ok: "ctl_ok P M k s"
  shows "wp (design_rollback P) s (\<lambda>_ t. landed s t \<and> g_mem (s_glob t) = g_mem (s_glob s)) never"
  using ok
  by (auto simp: design_rollback_def stm_wbctl_rollback_def ctl_ok_def ctl_log_def ctl_inv_def running_def landed_def
      all_free_def)

lemma ctl_abort:
  assumes ok: "ctl_ok P M k s" and a: "ctl_attr P (tx_attr (s_tx s))" "retries (tx_attr (s_tx s)) reason" and n: "3 \<le> n"
  shows "wp (stm_abort n P reason) s (\<lambda>_ _. False)
    (\<lambda>r t. (\<exists>x. r = Jump x) \<and> ctl_ok P M M t \<and> tx_attr (s_tx t) = tx_attr (s_tx s)
       \<and> ctl_view t = g_mem (s_glob s) \<and> g_mem (s_glob t) = g_mem (s_glob s))"
  by (rule wp_mono [OF abort_alone [OF _ n a(2) ctl_undo [OF ok]]])
    (use ok ctl_attrD [OF a(1)] in \<open>auto simp: ctl_ok_def ctl_log_def ctl_view_def ctl_wview_def stm_has_written_def
      ctl_inv_def ws_placed_def running_def room_def all_free_def\<close>)

end
