(* ===== verification/SeqWt.thy ===== *)
theory SeqWt
  imports SeqEtl
begin

text \<open>
  Write-through meets the contract \<open>tx_design\<close>: what a transaction sees is memory itself, and
  the log keeps what a rollback goes back to.
\<close>

definition wt_ok :: "params \<Rightarrow> nat \<Rightarrow> nat \<Rightarrow> st \<Rightarrow> bool" where
  "wt_ok P M k s \<longleftrightarrow> running P M s \<and> \<not> uses_ctl P (s_tx s) \<and> uses_wt P (s_tx s) \<and> etl_log k s
     \<and> (\<forall>v \<in> versions (s_tx s). LOCK_GET_TIMESTAMP v \<le> tx_end (s_tx s))"

definition wt_view :: "st \<Rightarrow> w64 \<Rightarrow> w64" where
  "wt_view s = g_mem (s_glob s)"

section \<open>Reading\<close>

lemma wt_ok_reads:
  assumes "wt_ok P M k s" "reads_only s t"
  shows "wt_ok P M k t" "wt_view t = wt_view s"
proof -
  have st: "steady (s_tx t) = steady (s_tx s)" and g: "s_glob t = s_glob s" and sw: "same_world s t"
    using assms(2) by (simp_all add: reads_only_def same_world_def)
  have "versions (s_tx t) = versions (s_tx s)"
    using assms(2) by (simp add: versions_def reads_only_def)
  then show "wt_ok P M k t"
    using assms(1) uses_cong [OF steady_eqD(1) [OF st]] running_same [OF sw] etl_log_reads [OF _ assms(2)]
    unfolding wt_ok_def steady_eqD(4) [OF st] by simp
  show "wt_view t = wt_view s" by (simp add: wt_view_def g)
qed

lemma wt_read:
  assumes ok: "wt_ok P M k s" and n: "0 < n"
  shows "wp (stm_wt_read n P a) s (\<lambda>v t. v = g_mem (s_glob s) a \<and> reads_only s t) never"
proof -
  obtain m where n': "n = Suc m" using n by (cases n) simp_all
  let ?tx = "s_tx s" and ?k = "GET_LOCK a" and ?g = "s_glob s"
  have run: "quiet P" "allocs P" "IS_ACTIVE (tx_status ?tx)" "tx_irrevocable ?tx = 0"
    and inv: "etl_inv ?tx (g_locks ?g)"
    using ok by (simp_all add: wt_ok_def running_def etl_log_def)
  show ?thesis
  proof (cases "covered ?tx ?k")
    case True
    obtain i where i: "i < length (tx_ws ?tx)" "g_locks ?g ?k = own_word ?tx i"
      using covered_first [OF inv True] .
    have "ws_placed ?tx" using inv by (simp add: etl_inv_def)
    from own_word_facts [OF this i(1)] show ?thesis
      using run i(2) by (simp add: stm_wt_read_def n')
  next
    case False
    then have fr: "LOCK_GET_WRITE (g_locks ?g ?k) = 0" "(tx_end ?tx < LOCK_GET_TIMESTAMP (g_locks ?g ?k)) = False"
      using ok by (auto simp: wt_ok_def etl_log_def free_at_lock not_less get_write_eq_owned)
    show ?thesis
      using run by (auto simp: stm_wt_read_def n' fr stm_wt_add_to_rs_def intro!: wp_mono [OF add_read [OF run(2)]])
  qed
qed

lemma wt_stm_load:
  assumes "wt_ok P M k s" "0 < n"
  shows "wp (stm_load n P a) s (\<lambda>v t. v = wt_view s a \<and> reads_only s t) never"
  using wt_read [OF assms] assms(1) running_load [of P M s] by (simp add: wt_ok_def wt_view_def)

lemma wt_load:
  assumes "wt_ok P M k s" "0 < n"
  shows "wp (stm_load n P a) s (\<lambda>v t. v = wt_view s a \<and> wt_ok P M k t \<and> wt_view t = wt_view s) never"
  by (rule wp_mono [OF wt_stm_load [OF assms]]) (auto intro: wt_ok_reads [OF assms(1)])

section \<open>Writing\<close>

lemma wt_do_write_frame:
  "quiet P \<Longrightarrow> ver = new \<or> ver \<in> versions (s_tx s) \<Longrightarrow>
     wp (wt_do_write P prev a v m k ver) s (\<lambda>_ t. log_frame new s t k) never"
  by (cases "m = 0"; cases "m = - 1") (auto simp: wt_do_write_def frame_defs frame_link)

lemma wt_found_frame:
  assumes "quiet P" "h < length (tx_ws (s_tx s))"
  shows "wp (wt_write_found P h a v m) s (\<lambda>_ t. log_frame ver s t k) never"
  using assms
  by (cases "we_mask (tx_ws (s_tx s) ! h) = 0"; cases "m = - 1")
    (simp_all add: wt_write_found_def Let_def frame_defs frame_update subset_insertI2 subset_insertI versions_update)

lemma wt_owned_frame:
  assumes inv: "etl_inv (s_tx s) (g_locks (s_glob s))" and q: "quiet P"
    and room: "length (tx_ws (s_tx s)) < tx_ws_size (s_tx s)"
    and i: "covered_from (tx_ws (s_tx s)) (GET_LOCK a) 0 = Some i"
  shows "wp (wt_write_owned P rb (LOCK_GET_ADDR (own_word (s_tx s) i)) a v m) s
           (\<lambda>r t. log_frame ver s t (GET_LOCK a)) never"
proof (cases "m = 0")
  case True
  then show ?thesis by (auto simp: wt_write_owned_def frame_defs)
next
  case False
  let ?tx = "s_tx s"
  have il: "i < length (tx_ws ?tx)" "ws_placed ?tx"
    using i inv by (simp_all add: covered_from_Some etl_inv_def)
  then have ix: "we_index ?tx (LOCK_GET_ADDR (own_word ?tx i)) = i" by (simp add: own_word_facts)
  obtain j where j: "chase (Suc (length (tx_ws ?tx))) (tx_ws ?tx) a i = Some (j, stm_has_written ?tx a \<noteq> None)"
      "j < length (tx_ws ?tx)" "we_lock (tx_ws ?tx ! j) = GET_LOCK a"
      "stm_has_written ?tx a \<noteq> None \<longrightarrow> stm_has_written ?tx a = Some j"
      "stm_has_written ?tx a = None \<longrightarrow> covered_from (tx_ws ?tx) (GET_LOCK a) (Suc j) = None"
    using chase_viewE [OF inv i] .
  show ?thesis
    using False j(1) room wt_found_frame [OF q il(1)] wt_do_write_frame [OF q disjI2 [OF versions_nth [OF j(2)]]]
    by (simp add: wt_write_owned_def ix del: chase.simps)
qed

lemma wt_write:
  assumes ok: "wt_ok P M (Suc k) s" and n: "0 < n"
  shows "wp (stm_wt_write n P a v m) s (\<lambda>r t. wt_wrote s a v m t \<and> log_frame (fresh_word s a) s t (GET_LOCK a)) never"
proof -
  let ?tx = "s_tx s" and ?k = "GET_LOCK a" and ?g = "s_glob s"
  let ?v = "fresh_word s a"
  obtain n' where n': "n = Suc n'" using n by (cases n) simp_all
  have q: "quiet P" and irr: "tx_irrevocable ?tx = 0" using ok by (simp_all add: wt_ok_def running_def)
  have inv: "etl_inv ?tx (g_locks ?g)" and room: "length (tx_ws ?tx) < tx_ws_size ?tx"
    using ok by (simp_all add: wt_ok_def etl_log_def)
  have pl: "ws_placed ?tx" using inv by (simp add: etl_inv_def)
  have ticks: "wt_wrote (tock s) a v m t = wt_wrote s a v m t"
    "log_frame ?v (tock s) t ?k = log_frame ?v s t ?k" for t s
    by (simp_all add: wt_wrote_def log_frame_def)
  show ?thesis
  proof (cases "covered ?tx ?k")
    case True
    obtain i where i: "covered_from (tx_ws ?tx) ?k 0 = Some i" "i < length (tx_ws ?tx)"
      "g_locks ?g ?k = own_word ?tx i"
      using covered_first [OF inv True] .
    note own = own_word_facts [OF pl i(2)]
    have "wp (wt_write_owned P rb (LOCK_GET_ADDR (own_word ?tx i)) a v m) (tock s)
        (\<lambda>r t. wt_wrote (tock s) a v m t \<and> log_frame ?v (tock s) t ?k) never" for rb
      by (rule wp_conj_never [OF wt_write_owned_wrote [of P ?tx] wt_owned_frame [of "tock s" P a i rb v m, simplified]])
        (use inv q room i(1) in simp_all)
    then show ?thesis
      using q own i(3) by (simp add: stm_wt_write_def n' ticks)
  next
    case False
    then have fr: "LOCK_GET_OWNED (g_locks ?g ?k) = 0" "(tx_end ?tx < LOCK_GET_TIMESTAMP (g_locks ?g ?k)) = False"
      using ok by (auto simp: wt_ok_def etl_log_def free_at_lock not_less)
    have fw: "g_locks ?g ?k = ?v" using False by (simp add: fresh_word_def)
    let ?w = "tock (tock s)"
    let ?u = "upd_glob (\<lambda>g. g\<lparr>g_locks := (g_locks g)(?k := own_word ?tx (length (tx_ws ?tx)))\<rparr>) ?w"
    have "wp (wt_do_write P None a v m ?k ?v) ?u (\<lambda>r t. wt_wrote ?w a v m t \<and> log_frame ?v s t ?k) never"
    proof (rule wp_conj_never)
      show "wp (wt_do_write P None a v m ?k ?v) ?u (\<lambda>r t. wt_wrote ?w a v m t) never"
        using wt_acquire [of P ?tx ?w a v m ?v] inv q room False by simp
      have "log_frame ?v s t ?k" if "log_frame ?v ?u t ?k" for t
        using that by (simp add: frame_defs)
      then show "wp (wt_do_write P None a v m ?k ?v) ?u (\<lambda>r t. log_frame ?v s t ?k) never"
        by (intro wp_mono [OF wt_do_write_frame [OF q disjI1 [OF refl]]]) simp_all
    qed
    then show ?thesis
      using q irr room by (simp add: stm_wt_write_def n' own_word_def fr ticks fw [symmetric])
  qed
qed

lemma wt_ok_write:
  assumes ok: "wt_ok P M (Suc k) s" and w: "wt_wrote s a v m t" and f: "log_frame (fresh_word s a) s t (GET_LOCK a)"
  shows "wt_ok P M k t" "wt_view t = (wt_view s)(a := merge_mask (wt_view s a) v m)"
proof -
  have sw: "same_world s t" and st: "steady (s_tx t) = steady (s_tx s)"
    using f by (simp_all add: log_frame_def same_world_def)
  show "wt_view t = (wt_view s)(a := merge_mask (wt_view s a) v m)"
    using w by (simp add: wt_view_def wt_wrote_def)
  have vs: "\<forall>v \<in> versions (s_tx t). LOCK_GET_TIMESTAMP v \<le> tx_end (s_tx s)"
  proof -
    have "LOCK_GET_TIMESTAMP (fresh_word s a) \<le> tx_end (s_tx s)"
      using ok unfolding wt_ok_def by (blast intro: fresh_word_le)
    then show ?thesis using ok f by (auto simp: wt_ok_def log_frame_def)
  qed
  show "wt_ok P M k t"
    using ok w running_same [OF sw] uses_cong [OF steady_eqD(1) [OF st]] etl_log_write [OF _ _ _ f]
    unfolding wt_ok_def steady_eqD(4) [OF st] by (simp add: wt_wrote_def vs)
qed

lemma wt_store2:
  assumes "wt_ok P M (Suc k) s" "0 < n"
  shows "wp (stm_store2 n P a v m) s (\<lambda>_ t. wt_wrote s a v m t \<and> log_frame (fresh_word s a) s t (GET_LOCK a)) never"
  using wt_write [OF assms, of a v m] assms(1) running_store2 [of P M s] by (simp add: wt_ok_def)

lemma wt_store:
  assumes "wt_ok P M (Suc k) s" "0 < n"
  shows "wp (stm_store2 n P a v m) s
    (\<lambda>_ t. wt_ok P M k t \<and> wt_view t = (wt_view s)(a := merge_mask (wt_view s a) v m)) never"
  by (rule wp_mono [OF wt_store2 [OF assms]]) (use wt_ok_write [OF assms(1)] in blast)+

section \<open>Starting and committing\<close>

lemma wt_start:
  assumes "idle P M s" "3 \<le> n" "\<not> at_read_only a" "\<And>tx. tx_attr tx = a \<Longrightarrow> \<not> uses_ctl P tx \<and> uses_wt P tx"
  shows "wp (stm_start n P a) s (\<lambda>_ t. wt_ok P M M t \<and> wt_view t = g_mem (s_glob s)) never"
  by (rule wp_mono [OF start_alone [OF assms(1-3)]])
    (use assms(4) etl_log_start in \<open>auto simp: wt_ok_def wt_view_def versions_def\<close>)

lemma wt_commit:
  assumes ok: "wt_ok P M k s"
  shows "wp (stm_commit n P) s (\<lambda>r t. r \<and> idle P M t \<and> g_mem (s_glob t) = wt_view s) never"
proof (rule commit_alone)
  let ?s = "unnested s" and ?tx = "s_tx s"
  show run: "running P M s" using ok by (simp add: wt_ok_def)
  have inv: "etl_inv ?tx (g_locks (s_glob s))"
    and free: "\<forall>j. \<not> covered ?tx j \<longrightarrow> free_at (tx_end ?tx) (s_glob s) j"
    using ok by (simp_all add: wt_ok_def etl_log_def)
  have e: "tx_end ?tx = g_clock (s_glob s)" using run by (simp add: running_def)
  show "g_mem (s_glob s) = wt_view s \<and> all_free (s_glob s)" if "tx_ws ?tx = []"
    using that free e by (auto simp: wt_view_def all_free_def covered_def covered_from_def)
  have may: "may_commit (s_tx ?s) (s_glob ?s)" using run by (simp add: may_commit_def running_def alone_def)
  have inv': "etl_inv (s_tx ?s) (g_locks (s_glob ?s))" using inv etl_inv_cong [of "s_tx ?s" ?tx] by simp
  have "wp (stm_wt_commit n P) ?s (\<lambda>r t. r \<and> s_tx t = s_tx ?s \<and> s_cur t = s_cur ?s
      \<and> s_nalloc t = s_nalloc ?s \<and> s_glob t = wt_committed (s_tx ?s) (s_glob ?s)) never"
    by (rule wt_commit_quiet [OF _ inv' may]) (use run in \<open>simp add: running_def\<close>)
  moreover have "landed ?s t \<and> g_mem (s_glob t) = wt_view s"
    if t: "s_tx t = s_tx ?s" "s_cur t = s_cur ?s" "s_glob t = wt_committed (s_tx ?s) (s_glob ?s)" for t
  proof -
    have cv: "covered (s_tx ?s) = covered ?tx" by (rule covered_cong) simp
    show ?thesis
      using landed_locks [OF run free, of t "g_mem (s_glob s)"] t
      unfolding wt_committed_def cv unnested_fields landed_def wt_view_def by simp
  qed
  ultimately have "wp (stm_wt_commit n P) ?s (\<lambda>_ t. landed ?s t \<and> g_mem (s_glob t) = wt_view s) never"
    by (rule wp_mono) auto
  then show "wp (design_commit n P) ?s (\<lambda>_ t. landed ?s t \<and> g_mem (s_glob t) = wt_view s) never"
    using ok uses_cong [of "s_tx ?s" ?tx] by (simp add: design_commit_def wt_ok_def)
qed

lemma wt_fewer: "wt_ok P M k s \<Longrightarrow> j \<le> k \<Longrightarrow> wt_ok P M j s"
  by (simp add: wt_ok_def etl_log_def)

definition wt_attr :: "params \<Rightarrow> attr \<Rightarrow> bool" where
  "wt_attr P a \<longleftrightarrow> \<not> at_read_only a
     \<and> (case p_design P of WRITE_THROUGH \<Rightarrow> True | MODULAR \<Rightarrow> at_id a = 2 | _ \<Rightarrow> False)"

lemma wt_attrD: "wt_attr P a \<Longrightarrow> tx_attr tx = a \<Longrightarrow> \<not> uses_ctl P tx \<and> uses_wt P tx"
  by (auto simp: wt_attr_def uses_ctl_def uses_wt_def split: design.splits)

interpretation wt: tx_design "stm_load (n + 3) P" "stm_store2 (n + 3) P"
    "\<lambda>k s. wt_attr P a \<and> wt_ok P M k s" wt_view
    "stm_start (n + 3) P a" "stm_commit (n + 3) P" "\<lambda>s. wt_attr P a \<and> idle P M s" M
  for n P M a
proof unfold_locales
  show "wp (stm_start (n + 3) P a) s
      (\<lambda>_ t. (wt_attr P a \<and> wt_ok P M M t) \<and> wt_view t = g_mem (s_glob s)) never"
    if "wt_attr P a \<and> idle P M s" for s
    using that wt_start [of P M s "n + 3" a] wt_attrD [of P a] by (simp add: wt_attr_def)
qed (auto simp: wt_load wt_store intro: wt_commit wt_fewer)

section \<open>Aborting\<close>

text \<open>What a rollback of the log restores.\<close>

definition wt_base :: "st \<Rightarrow> w64 \<Rightarrow> w64" where
  "wt_base s = wview (s_tx s) (g_mem (s_glob s))"

text \<open>
  The freed locks: the next incarnation of the old version, or the new time, which the clock
  has then reached.
\<close>

lemma wt_rolled_back_free:
  assumes inv: "etl_inv tx (g_locks g)" and c: "g_clock g < VERSION_MAX"
    and free: "\<And>j. \<not> covered tx j \<Longrightarrow> free_at (g_clock g) g j"
    and ver: "\<And>v. v \<in> versions tx \<Longrightarrow> LOCK_GET_TIMESTAMP v \<le> g_clock g"
  shows "all_free (wt_rolled_back tx g)" "g_clock (wt_rolled_back tx g) \<le> VERSION_MAX"
proof -
  have le: "g_clock g + 1 \<le> VERSION_MAX" and up: "g_clock g < g_clock g + 1" using c by (rule word_inc_less)+
  have wf: "ws_wf (tx_ws tx)" using inv by (simp add: etl_inv_def)
  show "g_clock (wt_rolled_back tx g) \<le> VERSION_MAX" using less_imp_le [OF c] le by (simp add: wt_rolled_back_def)
  have mono: "g_clock g \<le> g_clock (wt_rolled_back tx g)" using less_imp_le [OF up] by (simp add: wt_rolled_back_def)
  have "free_at (g_clock (wt_rolled_back tx g)) (wt_rolled_back tx g) j" for j
  proof (cases "covered_from (tx_ws tx) j 0")
    case None
    then have "free_at (g_clock g) g j" using free by (simp add: covered_def)
    then show ?thesis using None mono by (auto simp: free_at_def wt_rolled_back_def split: if_splits)
  next
    case (Some i)
    let ?w = "tx_ws tx ! i"
    have i: "?w \<in> set (tx_ws tx)" "we_lock ?w = j" "we_version ?w \<in> versions tx"
      using Some versions_nth [of i tx] by (simp_all add: covered_from_Some)
    have lock: "g_locks (wt_rolled_back tx g) j = wt_freed (g_clock g) ?w" using Some by (simp add: wt_rolled_back_def)
    have own: "LOCK_GET_OWNED (wt_freed (g_clock g) ?w) = 0" using wt_freed_differs(2) [OF ver [OF i(3)] c] .
    have "LOCK_GET_TIMESTAMP (wt_freed (g_clock g) ?w) \<le> g_clock (wt_rolled_back tx g)"
    proof (cases "wt_spent ?w")
      case True
      obtain w where w: "w \<in> set (tx_ws tx)" "we_next w = None" "we_lock w = j"
        using chain_end [OF wf, of j] Some by blast
      then have "wt_spent w" using True version_of_lock [OF wf w(1) i(1)] i(2) by (simp add: wt_spent_def)
      then have "g_clock (wt_rolled_back tx g) = g_clock g + 1" using w by (auto simp: wt_rolled_back_def)
      then show ?thesis using True version_read_back [OF le] by (simp add: wt_freed_def)
    next
      case False
      then have "LOCK_GET_INCARNATION (we_version ?w) + 1 \<le> INCARNATION_MAX"
        by (simp add: wt_spent_def not_less)
      then have "LOCK_GET_TIMESTAMP (wt_freed (g_clock g) ?w) = LOCK_GET_TIMESTAMP (we_version ?w)"
        using False by (simp add: wt_freed_def upd_incarnation_timestamp)
      then show ?thesis using ver [OF i(3)] mono by simp
    qed
    then show ?thesis by (simp add: free_at_def lock own)
  qed
  then show "all_free (wt_rolled_back tx g)" by (simp add: all_free_def)
qed

lemma wt_undo_all:
  assumes ok: "wt_ok P M k s"
  shows "wp (design_rollback P) s (\<lambda>_ t. landed s t \<and> g_mem (s_glob t) = wt_base s) never"
proof -
  let ?tx = "s_tx s" and ?g = "s_glob s"
  have run: "running P M s" and inv: "etl_inv ?tx (g_locks ?g)"
    and free: "\<And>j. \<not> covered ?tx j \<Longrightarrow> free_at (tx_end ?tx) ?g j"
    and ver: "\<And>v. v \<in> versions ?tx \<Longrightarrow> LOCK_GET_TIMESTAMP v \<le> tx_end ?tx"
    using ok by (simp_all add: wt_ok_def etl_log_def)
  have r: "quiet P" "IS_ACTIVE (tx_status ?tx)" "tx_end ?tx = g_clock ?g" "g_clock ?g < VERSION_MAX" "alone ?g"
    using run by (simp_all add: running_def)
  have "g_clock ?g < g_clock ?g + 1" using r(4) by (rule word_inc_less)
  then have nz: "g_clock ?g + 1 \<noteq> 0" by auto
  have L: "landed s t \<and> g_mem (s_glob t) = wt_base s"
    if "s_tx t = ?tx" "s_cur t = s_cur s" "s_glob t = wt_rolled_back ?tx ?g" for t
    using that r(5) wt_rolled_back_free [OF inv r(4)] free ver
    by (simp add: landed_def r(3) wt_base_def) (simp add: wt_rolled_back_def alone_def)
  have "wp (stm_wt_rollback P) s (\<lambda>_ t. landed s t \<and> g_mem (s_glob t) = wt_base s) never"
    by (rule wp_mono [OF wt_rollback_quiet [OF r(1) inv r(2) nz]]) (use L in blast)+
  then show ?thesis using ok by (simp add: design_rollback_def wt_ok_def)
qed

lemma wt_base_empty: "tx_ws (s_tx s) = [] \<Longrightarrow> wt_base s = g_mem (s_glob s)"
  by (auto simp: wt_base_def wview_def stm_has_written_def)

lemma wt_abort:
  assumes ok: "wt_ok P M k s" and a: "wt_attr P (tx_attr (s_tx s))" "retries (tx_attr (s_tx s)) reason" and n: "3 \<le> n"
  shows "wp (stm_abort n P reason) s (\<lambda>_ _. False)
    (\<lambda>r t. (\<exists>x. r = Jump x) \<and> wt_ok P M M t \<and> tx_attr (s_tx t) = tx_attr (s_tx s) \<and> full_log (s_tx t)
       \<and> wt_view t = wt_base s \<and> wt_base t = wt_base s)"
proof (rule wp_mono [OF abort_alone [OF _ n a(2) wt_undo_all [OF ok]]])
  show "running P M s" using ok by (simp add: wt_ok_def)
  fix r t
  assume t: "(\<exists>x. r = Jump x) \<and> running P M t \<and> all_free (s_glob t) \<and> tx_ws (s_tx t) = []
    \<and> tx_count (s_tx t) = 0 \<and> tx_attr (s_tx t) = tx_attr (s_tx s) \<and> g_mem (s_glob t) = wt_base s"
  then have "etl_log M t" using etl_log_start [of P M t] by simp
  moreover have "versions (s_tx t) = {}" "full_log (s_tx t)" "wt_base t = g_mem (s_glob t)"
    using t by (simp_all add: versions_def full_log_def wt_base_empty)
  ultimately show "(\<exists>x. r = Jump x) \<and> wt_ok P M M t \<and> tx_attr (s_tx t) = tx_attr (s_tx s) \<and> full_log (s_tx t)
       \<and> wt_view t = wt_base s \<and> wt_base t = wt_base s"
    using t wt_attrD [OF a(1), of "s_tx t"] by (simp add: wt_ok_def wt_view_def)
qed simp

end
