(* ===== verification/ByteMem.thy ===== *)
theory ByteMem
  imports Txmem
begin

text \<open>
  The loads and stores of \<open>src/wrappers.c\<close> over transactional memory: every one of them reads
  or writes the bytes at its address, whatever its alignment.  Proved once from the contract
  \<open>txmem\<close>.
\<close>

section \<open>Fields\<close>

lemma bit_by_byte: "bit w n = bit (byte w (n div 8)) (n mod 8)"
  by (simp add: bit_byte)

lemma bit_word_of:
  "length bs \<le> 8 \<Longrightarrow> bit (word_of bs) n \<longleftrightarrow> n div 8 < length bs \<and> bit (bs ! (n div 8)) (n mod 8)"
proof -
  assume l: "length bs \<le> 8"
  show ?thesis
  proof (cases "n < 64")
    case True
    then have "n div 8 < 8" by simp
    then show ?thesis using bit_by_byte [of "word_of bs" n] byte_word_of [OF l] by simp
  next
    case False
    then have "\<not> n div 8 < length bs" using l by simp
    moreover have "\<not> bit (word_of bs) n" using False bit_imp_le_length by fastforce
    ultimately show ?thesis by simp
  qed
qed

lemma partial_store_patch:
  "i + length bs \<le> 8 \<Longrightarrow>
     partial_store i bs vm = (patch (fst vm) i bs, patch (snd vm) i (replicate (length bs) 0xFF))"
  by (induction bs arbitrary: i vm) simp_all

lemma merge_255: "merge_mask x y (0xFF :: 8 word) = y"
proof -
  have e: "(0xFF :: 8 word) = - 1" by simp
  show ?thesis unfolding e by (rule merge_mask_minus_one)
qed

lemma merge_patch:
  "i + length bs \<le> 8 \<Longrightarrow>
     merge_mask w (patch v i bs) (patch 0 i (replicate (length bs) 0xFF)) = patch w i bs"
proof (rule byte_eqI)
  fix j :: nat assume "i + length bs \<le> 8" "j < 8"
  then show "byte (merge_mask w (patch v i bs) (patch 0 i (replicate (length bs) 0xFF))) j = byte (patch w i bs) j"
    by (auto simp: byte_merge byte_patch merge_255)
qed

lemma merge_fill:
  "i + c \<le> 8 \<Longrightarrow> merge_mask w (word_of (replicate 8 b)) (mask_bytes i c) = patch w i (replicate c b)"
  by (rule byte_eqI) (auto simp: byte_merge mask_bytes_def partial_store_patch byte_patch byte_word_of merge_255)

lemma merge_wide:
  assumes "off + n \<le> 8" "n \<le> 8"
  shows "merge_mask w (place junk (8 * off) (mask (8 * n)) v) (place 0 (8 * off) (mask (8 * n)) (mask (8 * n)))
    = patch w off (take n (bytes_of v))"
proof (rule byte_eqI)
  fix j :: nat assume j: "j < 8"
  have p: "byte (patch w off (take n (bytes_of v))) j = (if off \<le> j \<and> j < off + n then byte v (j - off) else byte w j)"
    using assms j by (auto simp: byte_patch bytes_of_nth)
  show "byte (merge_mask w (place junk (8 * off) (mask (8 * n)) v) (place 0 (8 * off) (mask (8 * n)) (mask (8 * n)))) j
      = byte (patch w off (take n (bytes_of v))) j"
    unfolding p
  proof (rule bit_word_eqI)
    fix b assume b: "b < LENGTH(8)"
    have "(off \<le> j \<and> j < off + n) = (8 * off \<le> 8 * j + b \<and> 8 * j + b - 8 * off < 8 * n)"
      using b by auto
    moreover have "8 * j + b - 8 * off = 8 * (j - off) + b" if "off \<le> j" using that by simp
    ultimately show "bit (byte (merge_mask w (place junk (8 * off) (mask (8 * n)) v)
        (place 0 (8 * off) (mask (8 * n)) (mask (8 * n)))) j) b
      = bit (if off \<le> j \<and> j < off + n then byte v (j - off) else byte w j) b"
      using j b by (auto simp: bit_byte place_def bit_simps)
  qed
qed

text \<open>The field a smaller load picks out of the word.\<close>

lemma load_field:
  assumes "off + n \<le> 8" "LENGTH('a) = 8 * n"
  shows "(ucast (drop_bit (8 * off) (w :: w64)) :: 'a::len word) = ucast (word_of (take n (drop off (bytes_of w))))"
proof (rule bit_word_eqI)
  fix b assume b: "b < LENGTH('a)"
  then have "b div 8 < n" using assms(2) by simp
  then have "bit (word_of (take n (drop off (bytes_of w)))) b = bit (byte w (off + b div 8)) (b mod 8)"
    using assms(1) by (simp add: bit_word_of bytes_of_nth)
  also have "\<dots> = bit w (8 * off + b)" by (simp add: bit_byte add.commute)
  finally show "bit (ucast (drop_bit (8 * off) w) :: 'a word) b = bit (ucast (word_of (take n (drop off (bytes_of w)))) :: 'a word) b"
    using b by (simp add: bit_simps)
qed

lemma aligned_field: "addr AND mask k = 0 \<Longrightarrow> k \<le> 3 \<Longrightarrow> 2 ^ k dvd OFFSET addr"
proof -
  assume a: "addr AND mask k = 0" "k \<le> 3"
  then have "unat addr mod 2 ^ k = 0"
    by (metis take_bit_eq_mask unsigned_take_bit_eq take_bit_eq_mod unsigned_0)
  then have "2 ^ k dvd unat addr" by auto
  moreover have "(2 :: nat) ^ k dvd 8" using a(2) le_imp_power_dvd [of k 3 "2 :: nat"] by simp
  ultimately show ?thesis unfolding offset_mod by (simp add: dvd_mod)
qed

lemma field_at:
  assumes "d dvd OFFSET addr" "d dvd 8" "0 < d"
  shows "OFFSET addr + d \<le> 8" "8 * d * (OFFSET addr div d) = 8 * OFFSET addr"
proof -
  obtain q where q: "OFFSET addr = d * q" using assms(1) by (rule dvdE)
  obtain r where r: "8 = d * r" using assms(2) by (rule dvdE)
  have "d * q < d * r" using offset_less [of addr] unfolding q [symmetric] r [symmetric] .
  then have "d * Suc q \<le> d * r" using assms(3) by (intro mult_le_mono2) simp
  then show "OFFSET addr + d \<le> 8" unfolding q r by simp
  show "8 * d * (OFFSET addr div d) = 8 * OFFSET addr" using q assms(3) by simp
qed

lemma next_word: "addr + of_nat (8 - OFFSET addr) = ALIGN_DOWN addr + 8"
proof -
  have "OFFSET addr + (8 - OFFSET addr) = 8" using offset_less [of addr] by linarith
  then have "(of_nat (OFFSET addr) :: w64) + of_nat (8 - OFFSET addr) = of_nat 8"
    by (simp only: of_nat_add [symmetric])
  then show ?thesis using align_offset [of addr] by (metis add.assoc of_nat_numeral)
qed

section \<open>Stores of a full word\<close>

text \<open>\<open>stm_store\<close> is \<open>stm_store2\<close> with a full mask.\<close>

locale bytemem = txmem +
  fixes sto :: "w64 \<Rightarrow> w64 \<Rightarrow> unit prog"
  assumes full: "sto a v = st2 a v (NOT 0)"
begin

lemma load_words_spec:
  "OFFSET a = 0 \<Longrightarrow> ok k s \<Longrightarrow>
    wp (load_words ld a sz) s (\<lambda>bs t. bs = read_bytes (vw s) a sz \<and> ok k t \<and> vw t = vw s) never"
proof (induction sz arbitrary: a s rule: less_induct)
  case (less sz)
  show ?case
  proof (cases "8 \<le> sz")
    case True
    have first: "read_bytes (vw s) a sz = bytes_of (vw s a) @ read_bytes (vw s) (a + 8) (sz - 8)"
      using read_bytes_add [of "vw s" a 8 "sz - 8"] read_bytes_word [OF less.prems(1), of 0 8] True by simp
    have rest: "wp (load_words ld (a + 8) (sz - 8)) t
        (\<lambda>bs u. bs = read_bytes (vw s) (a + 8) (sz - 8) \<and> ok k u \<and> vw u = vw s) never"
      if "ok k t" "vw t = vw s" for t
      using less.IH [OF _ aligned_next [OF less.prems(1)] that(1), of "sz - 8"] True that(2) by simp
    show ?thesis
      unfolding load_words.simps [of ld a sz] if_P [OF True] wp_bnd wp_ret first
      by (rule wp_mono [OF load [OF less.prems(2)]], elim conjE, rule wp_mono [OF rest]) simp_all
  next
    case False
    have "read_bytes (vw s) a sz = take sz (bytes_of (vw s a))"
      using read_bytes_word [OF less.prems(1), of 0 sz] False by simp
    then show ?thesis
      using False less.prems(2)
      by (auto simp: load_words.simps [of ld a sz] intro!: wp_mono [OF load [OF less.prems(2)]])
  qed
qed

lemma load_bytes_spec:
  assumes "ok k s"
  shows "wp (load_bytes_with ld addr sz) s (\<lambda>bs t. bs = read_bytes (vw s) addr sz \<and> ok k t \<and> vw t = vw s) never"
proof (cases "sz = 0 \<or> OFFSET addr = 0")
  case True
  then show ?thesis
    using assms load_words_spec [of addr k s sz] by (auto simp: load_bytes_with_def Let_def)
next
  case False
  let ?a = "ALIGN_DOWN addr" and ?i = "OFFSET addr"
  have addr: "addr = ?a + of_nat ?i" by (rule align_offset)
  have split: "read_bytes (vw s) addr sz = take sz (drop ?i (bytes_of (vw s ?a))) @ read_bytes (vw s) (?a + 8) (sz - (8 - ?i))"
  proof (cases "sz \<le> 8 - ?i")
    case True
    then have "?i + sz \<le> 8" using offset_less [of addr] by linarith
    then have "read_bytes (vw s) (?a + of_nat ?i) sz = take sz (drop ?i (bytes_of (vw s ?a)))"
      by (intro read_bytes_word) simp_all
    then show ?thesis using True addr by simp
  next
    case long: False
    have o: "?i < 8" by simp
    then have o8: "?i + (8 - ?i) \<le> 8" by linarith
    have "read_bytes (vw s) addr sz = read_bytes (vw s) addr (8 - ?i) @ read_bytes (vw s) (addr + of_nat (8 - ?i)) (sz - (8 - ?i))"
      using read_bytes_add [of "vw s" addr "8 - ?i" "sz - (8 - ?i)"] long by simp
    moreover have "read_bytes (vw s) (?a + of_nat ?i) (8 - ?i) = take (8 - ?i) (drop ?i (bytes_of (vw s ?a)))"
      by (rule read_bytes_word [OF _ o8]) simp
    moreover have "addr + of_nat (8 - ?i) = ?a + 8" by (rule next_word)
    moreover have "take sz (drop ?i (bytes_of (vw s ?a))) = take (8 - ?i) (drop ?i (bytes_of (vw s ?a)))"
      using long by (simp add: take_all)
    ultimately show ?thesis using addr by simp
  qed
  have rest: "wp (load_words ld (?a + 8) (sz - (8 - ?i))) t
      (\<lambda>bs u. bs = read_bytes (vw s) (?a + 8) (sz - (8 - ?i)) \<and> ok k u \<and> vw u = vw s) never"
    if "ok k t" "vw t = vw s" for t
    using load_words_spec [OF aligned_next that(1), of ?a] that(2) by simp
  show ?thesis
    unfolding load_bytes_with_def split using False
    by (auto simp: Let_def intro!: wp_mono [OF load [OF assms]] wp_mono [OF rest])
qed

lemma store_patch:
  assumes "ok (Suc k) s" "OFFSET a = 0" "i + length bs \<le> 8"
  shows "wp (st2 a (patch v i bs) (patch 0 i (replicate (length bs) 0xFF))) s
    (\<lambda>_ t. ok k t \<and> vw t = write_bytes (vw s) (a + of_nat i) bs) never"
  by (rule wp_mono [OF store [OF assms(1)]]) (simp_all add: merge_patch [OF assms(3)] write_bytes_word [OF assms(2,3)])

lemma store_words_spec:
  "OFFSET a = 0 \<Longrightarrow> ok ((length buf + 7) div 8 + k) s \<Longrightarrow>
    wp (store_words sto st2 a buf) s (\<lambda>_ t. ok k t \<and> vw t = write_bytes (vw s) a buf) never"
proof (induction buf arbitrary: a s rule: length_induct)
  case (1 buf)
  show ?case
  proof (cases "8 \<le> length buf")
    case True
    have n: "(length buf + 7) div 8 + k = Suc ((length (drop 8 buf) + 7) div 8 + k)" using True by simp
    have ok: "ok (Suc ((length (drop 8 buf) + 7) div 8 + k)) s" using "1.prems"(2) unfolding n .
    have first: "write_bytes (vw s) a (take 8 buf) = (vw s)(a := word_of (take 8 buf))"
      by (rule write_bytes_full) (use "1.prems"(1) True in simp_all)
    have split: "write_bytes (vw s) a buf = write_bytes ((vw s)(a := word_of (take 8 buf))) (a + 8) (drop 8 buf)"
      using write_bytes_append [of "vw s" a "take 8 buf" "drop 8 buf"] first True by simp
    have rest: "wp (store_words sto st2 (a + 8) (drop 8 buf)) t
        (\<lambda>_ u. ok k u \<and> vw u = write_bytes (vw s) a buf) never"
      if "ok ((length (drop 8 buf) + 7) div 8 + k) t" "vw t = (vw s)(a := word_of (take 8 buf))" for t
      using "1.IH" [rule_format, of "drop 8 buf" "a + 8" t] aligned_next [OF "1.prems"(1)] that True split by simp
    show ?thesis
      unfolding store_words.simps [of sto st2 a buf] if_P [OF True] wp_thn full [of a "word_of (take 8 buf)"]
      by (rule wp_mono [OF store [OF ok]]) (use rest in simp_all)
  next
    case False
    show ?thesis
    proof (cases "buf = []")
      case True
      then show ?thesis using "1.prems"(2) by (simp add: store_words.simps)
    next
      case ne: False
      have "(length buf + 7) div 8 = 1" using False ne by (cases buf) (auto simp: div_nat_eqI)
      then have "ok (Suc k) s" using "1.prems"(2) by simp
      from store_patch [OF this "1.prems"(1), of 0 buf 0] show ?thesis
        using False ne by (simp add: store_words.simps [of sto st2 a buf] partial_store_patch)
    qed
  qed
qed

text \<open>The number of word accesses a block of bytes takes.\<close>

lemma store_bytes_spec:
  assumes "ok ((OFFSET addr + length buf + 7) div 8 + k) s" "buf \<noteq> []"
  shows "wp (store_bytes_with sto st2 addr buf) s (\<lambda>_ t. ok k t \<and> vw t = write_bytes (vw s) addr buf) never"
proof (cases "OFFSET addr = 0")
  case True
  then show ?thesis using assms store_words_spec [of addr buf k s] by (simp add: store_bytes_with_def Let_def)
next
  case False
  let ?a = "ALIGN_DOWN addr" and ?i = "OFFSET addr"
  let ?h = "take (8 - ?i) buf" and ?r = "drop (8 - ?i) buf"
  have i: "?i < 8" by simp
  have len: "?i + length ?h \<le> 8" using i min.cobounded2 [of "length buf" "8 - ?i"] unfolding length_take by linarith
  have "(?i + length buf + 7) div 8 = Suc ((length ?r + 7) div 8)"
  proof (cases "?i + length buf \<le> 8")
    case True
    then have "length ?r = 0" by simp
    moreover have "(?i + length buf + 7) div 8 = 1" using True False assms(2) by (cases buf) (auto simp: div_nat_eqI)
    ultimately show ?thesis by simp
  next
    case long: False
    then have "?i + length buf + 7 = 8 + (length ?r + 7)" using i unfolding length_drop by linarith
    then show ?thesis by simp
  qed
  then have ok: "ok (Suc ((length ?r + 7) div 8 + k)) s" using assms(1) by simp
  have addr: "addr = ?a + of_nat ?i" by (rule align_offset)
  have split: "write_bytes (vw s) addr buf = write_bytes (write_bytes (vw s) addr ?h) (?a + 8) ?r"
  proof (cases "length buf \<le> 8 - ?i")
    case False
    then have "length ?h = 8 - ?i" by simp
    then show ?thesis
      using write_bytes_append [of "vw s" addr ?h ?r] next_word [of addr] by simp
  qed simp
  have rest: "wp (store_words sto st2 (?a + 8) ?r) t (\<lambda>_ u. ok k u \<and> vw u = write_bytes (vw s) addr buf) never"
    if "ok ((length ?r + 7) div 8 + k) t" "vw t = write_bytes (vw s) addr ?h" for t
    using store_words_spec [OF aligned_next that(1), of ?a] that(2) split by simp
  have head: "wp (st2 ?a (patch 0 ?i ?h) (patch 0 ?i (replicate (length ?h) 0xFF))) s
      (\<lambda>_ t. ok ((length ?r + 7) div 8 + k) t \<and> vw t = write_bytes (vw s) addr ?h) never"
    using store_patch [OF ok _ len, of ?a 0] addr by simp
  have "wp (thn (st2 ?a (patch 0 ?i ?h) (patch 0 ?i (replicate (length ?h) 0xFF)))
      (store_words sto st2 (?a + 8) ?r)) s (\<lambda>_ t. ok k t \<and> vw t = write_bytes (vw s) addr buf) never"
    unfolding wp_thn by (rule wp_mono [OF head]) (use rest in simp_all)
  then show ?thesis
    using False assms(2) by (simp add: store_bytes_with_def Let_def partial_store_patch [OF len] del: length_take)
qed

text \<open>The sized loads return the bytes at their address, aligned or not.\<close>

lemma load_u8_spec:
  "ok k s \<Longrightarrow> wp (load_u8_with ld addr) s (\<lambda>v t. v = read_byte (vw s) addr \<and> ok k t \<and> vw t = vw s) never"
  unfolding load_u8_with_def wp_bnd wp_ret
  by (rule wp_mono [OF load]) (simp_all add: read_byte_def)

lemma load_sized:
  assumes ok: "ok k s" and n: "OFFSET addr + n \<le> 8" and w: "LENGTH('a) = 8 * n"
  shows "wp (bnd (ld (ALIGN_DOWN addr)) (\<lambda>w. ret (ucast (drop_bit (8 * OFFSET addr) w) :: 'a::len word))) s
    (\<lambda>v t. v = ucast (word_of (read_bytes (vw s) addr n)) \<and> ok k t \<and> vw t = vw s) never"
proof -
  have "read_bytes (vw s) addr n = take n (drop (OFFSET addr) (bytes_of (vw s (ALIGN_DOWN addr))))"
    using read_bytes_word [of "ALIGN_DOWN addr" "OFFSET addr" n "vw s"] n align_offset [of addr] by simp
  then show ?thesis
    unfolding wp_bnd wp_ret by (intro wp_mono [OF load [OF ok]]) (simp_all add: load_field [OF n w])
qed

lemma load_odd:
  assumes ok: "ok k s"
  shows "wp (bnd (load_bytes_with ld addr n) (\<lambda>bs. ret (ucast (word_of bs) :: 'a::len word))) s
    (\<lambda>v t. v = ucast (word_of (read_bytes (vw s) addr n)) \<and> ok k t \<and> vw t = vw s) never"
  unfolding wp_bnd wp_ret by (rule wp_mono [OF load_bytes_spec [OF ok]]) simp_all

lemma load_u16_spec:
  assumes "ok k s"
  shows "wp (load_u16_with ld addr) s
    (\<lambda>v t. v = ucast (word_of (read_bytes (vw s) addr 2)) \<and> ok k t \<and> vw t = vw s) never"
proof (cases "addr AND 0x01 = 0")
  case True
  then have "2 dvd OFFSET addr" using aligned_field [of addr 1] by (simp add: mask_eq_exp_minus_1)
  from field_at [OF this] have f: "OFFSET addr + 2 \<le> 8" "16 * (OFFSET addr div 2) = 8 * OFFSET addr" by simp_all
  show ?thesis using True load_sized [OF assms f(1), where 'a = 16] unfolding load_u16_with_def f(2) by simp
next
  case False
  then show ?thesis using load_odd [OF assms] by (simp add: load_u16_with_def)
qed

lemma load_u32_spec:
  assumes "ok k s"
  shows "wp (load_u32_with ld addr) s
    (\<lambda>v t. v = ucast (word_of (read_bytes (vw s) addr 4)) \<and> ok k t \<and> vw t = vw s) never"
proof (cases "addr AND 0x03 = 0")
  case True
  then have "4 dvd OFFSET addr" using aligned_field [of addr 2] by (simp add: mask_eq_exp_minus_1)
  from field_at [OF this] have f: "OFFSET addr + 4 \<le> 8" "32 * (OFFSET addr div 4) = 8 * OFFSET addr" by simp_all
  show ?thesis using True load_sized [OF assms f(1), where 'a = 32] unfolding load_u32_with_def f(2) by simp
next
  case False
  then show ?thesis using load_odd [OF assms] by (simp add: load_u32_with_def)
qed

lemma load_u64_spec:
  assumes "ok k s"
  shows "wp (load_u64_with ld addr) s
    (\<lambda>v t. v = word_of (read_bytes (vw s) addr 8) \<and> ok k t \<and> vw t = vw s) never"
proof (cases "addr AND 0x07 = 0")
  case True
  then have o: "OFFSET addr = 0" by (simp add: OFFSET_def)
  then have "word_of (read_bytes (vw s) addr 8) = vw s addr"
    using read_bytes_word [OF o, of 0 8] by (simp add: word_of_bytes_of)
  then show ?thesis using True by (simp add: load_u64_with_def) (rule wp_mono [OF load [OF assms]]; simp)
next
  case False
  then show ?thesis using load_odd [OF assms, of addr 8, where 'a = 64] by (simp add: load_u64_with_def)
qed

text \<open>The sized stores write the bytes at their address.  One or two words are touched.\<close>

lemma store_sized:
  assumes ok: "ok (Suc k) s" and n: "OFFSET addr + n \<le> 8"
  shows "wp (st2 (ALIGN_DOWN addr) (place junk (8 * OFFSET addr) (mask (8 * n)) v)
      (place 0 (8 * OFFSET addr) (mask (8 * n)) (mask (8 * n)))) s
    (\<lambda>_ t. ok k t \<and> vw t = write_bytes (vw s) addr (take n (bytes_of v))) never"
proof -
  have n8: "n \<le> 8" using n by simp
  have len: "OFFSET addr + length (take n (bytes_of v)) \<le> 8" using n n8 by (simp add: min_def)
  have "write_bytes (vw s) addr (take n (bytes_of v)) =
      (vw s)(ALIGN_DOWN addr := patch (vw s (ALIGN_DOWN addr)) (OFFSET addr) (take n (bytes_of v)))"
    using write_bytes_word [OF _ len, of "ALIGN_DOWN addr" "vw s"] align_offset [of addr] by simp
  then show ?thesis by (intro wp_mono [OF store [OF ok]]) (simp_all add: merge_wide [OF n n8])
qed

lemma store_u8_spec:
  assumes "ok (Suc k) s"
  shows "wp (store_u8_with junk st2 addr value) s (\<lambda>_ t. ok k t \<and> vw t = write_bytes (vw s) addr [value]) never"
proof -
  have "byte (ucast value) 0 = value" by (rule bit_word_eqI) (simp add: bit_byte bit_simps)
  then have "take 1 (bytes_of (ucast value)) = [value]" by (simp add: bytes_of_def upt_conv_Cons)
  moreover have "OFFSET addr + 1 \<le> 8" using offset_less [of addr] by linarith
  ultimately show ?thesis
    using store_sized [OF assms, of addr 1 junk "ucast value"]
    by (simp add: store_u8_with_def mask_eq_exp_minus_1)
qed

lemma store_odd:
  assumes "ok (Suc (Suc k)) s" "n \<le> 8" "0 < n" "\<And>j t. ok (Suc j) t \<Longrightarrow> ok j t"
  shows "wp (store_bytes_with sto st2 addr (take n (bytes_of v))) s
    (\<lambda>_ t. ok k t \<and> vw t = write_bytes (vw s) addr (take n (bytes_of v))) never"
proof -
  let ?m = "(OFFSET addr + length (take n (bytes_of v)) + 7) div 8"
  have o: "OFFSET addr < 8" by simp
  have "OFFSET addr + length (take n (bytes_of v)) + 7 \<le> 22" using o assms(2) unfolding length_take by linarith
  then have m: "?m \<le> 2" by linarith
  have "0 < length (take n (bytes_of v))" using assms(2,3) by simp
  then have "?m = 1 \<or> ?m = 2" using m by linarith
  then have "ok (?m + k) s" using assms(1,4) by auto
  moreover have "take n (bytes_of v) \<noteq> []" using assms(2,3) by (simp flip: length_greater_0_conv)
  ultimately show ?thesis by (rule store_bytes_spec)
qed

lemma store_u16_spec:
  assumes "ok (Suc (Suc k)) s" "\<And>j t. ok (Suc j) t \<Longrightarrow> ok j t"
  shows "wp (store_u16_with junk sto st2 addr value) s
    (\<lambda>_ t. ok k t \<and> vw t = write_bytes (vw s) addr (take 2 (bytes_of (ucast value)))) never"
proof (cases "addr AND 0x01 = 0")
  case True
  then have "2 dvd OFFSET addr" using aligned_field [of addr 1] by (simp add: mask_eq_exp_minus_1)
  from field_at [OF this] have f: "OFFSET addr + 2 \<le> 8" "16 * (OFFSET addr div 2) = 8 * OFFSET addr" by simp_all
  show ?thesis
    using True store_sized [OF assms(2) [OF assms(1)] f(1), of junk "ucast value"]
    unfolding store_u16_with_def f(2) by (simp add: mask_eq_exp_minus_1)
next
  case False
  then show ?thesis using store_odd [OF assms(1) _ _ assms(2), of 2] by (simp add: store_u16_with_def)
qed

lemma store_u32_spec:
  assumes "ok (Suc (Suc k)) s" "\<And>j t. ok (Suc j) t \<Longrightarrow> ok j t"
  shows "wp (store_u32_with junk sto st2 addr value) s
    (\<lambda>_ t. ok k t \<and> vw t = write_bytes (vw s) addr (take 4 (bytes_of (ucast value)))) never"
proof (cases "addr AND 0x03 = 0")
  case True
  then have "4 dvd OFFSET addr" using aligned_field [of addr 2] by (simp add: mask_eq_exp_minus_1)
  from field_at [OF this] have f: "OFFSET addr + 4 \<le> 8" "32 * (OFFSET addr div 4) = 8 * OFFSET addr" by simp_all
  show ?thesis
    using True store_sized [OF assms(2) [OF assms(1)] f(1), of junk "ucast value"]
    unfolding store_u32_with_def f(2) by (simp add: mask_eq_exp_minus_1)
next
  case False
  then show ?thesis using store_odd [OF assms(1) _ _ assms(2), of 4] by (simp add: store_u32_with_def)
qed

lemma store_u64_spec:
  assumes "ok (Suc (Suc k)) s" "\<And>j t. ok (Suc j) t \<Longrightarrow> ok j t"
  shows "wp (store_u64_with sto st2 addr value) s
    (\<lambda>_ t. ok k t \<and> vw t = write_bytes (vw s) addr (bytes_of value)) never"
proof (cases "addr AND 0x07 = 0")
  case True
  then have "write_bytes (vw s) addr (bytes_of value) = (vw s)(addr := value)"
    using write_bytes_full [of addr "bytes_of value" "vw s"] by (simp add: OFFSET_def word_of_bytes_of)
  then show ?thesis
    using True by (simp add: store_u64_with_def full) (rule wp_mono [OF store [OF assms(2) [OF assms(1)]]]; simp)
next
  case False
  have "take 8 (bytes_of value) = bytes_of value" by simp
  then show ?thesis
    using False store_odd [OF assms(1) _ _ assms(2), of 8 addr "value"] by (simp add: store_u64_with_def)
qed

text \<open>\<open>stm_set_bytes\<close> fills the range with one byte.\<close>

lemma set_words_spec:
  "OFFSET a = 0 \<Longrightarrow> ok ((cnt + 7) div 8 + k) s \<Longrightarrow>
    wp (set_words sto st2 (word_of (replicate 8 b)) a cnt) s
      (\<lambda>_ t. ok k t \<and> vw t = write_bytes (vw s) a (replicate cnt b)) never"
proof (induction cnt arbitrary: a s rule: less_induct)
  case (less cnt)
  let ?v = "word_of (replicate 8 b)"
  show ?case
  proof (cases "8 \<le> cnt")
    case True
    have n: "(cnt + 7) div 8 + k = Suc ((cnt - 8 + 7) div 8 + k)" using True by simp
    have ok: "ok (Suc ((cnt - 8 + 7) div 8 + k)) s" using less.prems(2) unfolding n .
    have "write_bytes (vw s) a (replicate 8 b) = (vw s)(a := ?v)"
      by (rule write_bytes_full) (use less.prems(1) in simp_all)
    moreover have "replicate cnt b = replicate 8 b @ replicate (cnt - 8) b"
      using True by (simp flip: replicate_add)
    ultimately have split: "write_bytes (vw s) a (replicate cnt b) =
        write_bytes ((vw s)(a := ?v)) (a + 8) (replicate (cnt - 8) b)"
      using write_bytes_append [of "vw s" a "replicate 8 b" "replicate (cnt - 8) b"] by simp
    have rest: "wp (set_words sto st2 ?v (a + 8) (cnt - 8)) t
        (\<lambda>_ u. ok k u \<and> vw u = write_bytes (vw s) a (replicate cnt b)) never"
      if "ok ((cnt - 8 + 7) div 8 + k) t" "vw t = (vw s)(a := ?v)" for t
      using less.IH [OF _ aligned_next [OF less.prems(1)] that(1)] True unfolding split that(2) by (simp add: fun_upd_def)
    show ?thesis
      unfolding set_words.simps [of sto st2 _ a cnt] if_P [OF True] wp_thn full [of a ?v]
      by (rule wp_mono [OF store [OF ok]]) (use rest in simp_all)
  next
    case False
    show ?thesis
    proof (cases "cnt = 0")
      case True
      then show ?thesis using less.prems(2) by (simp add: set_words.simps)
    next
      case ne: False
      have "(cnt + 7) div 8 = 1" using False ne by (auto simp: div_nat_eqI)
      then have ok: "ok (Suc k) s" using less.prems(2) by simp
      have m: "merge_mask w ?v (mask_bytes 0 cnt) = patch w 0 (replicate cnt b)" for w
        using merge_fill [of 0 cnt w b] False by simp
      show ?thesis
        using False ne write_bytes_word [OF less.prems(1), of 0 "replicate cnt b" "vw s"]
        by (simp add: set_words.simps [of sto st2 _ a cnt]) (rule wp_mono [OF store [OF ok]]; simp add: m)
    qed
  qed
qed

lemma set_bytes_spec:
  assumes "ok ((OFFSET addr + cnt + 7) div 8 + k) s" "0 < cnt"
  shows "wp (set_bytes_with sto st2 addr b cnt) s
    (\<lambda>_ t. ok k t \<and> vw t = write_bytes (vw s) addr (replicate cnt b)) never"
proof (cases "OFFSET addr = 0")
  case True
  then show ?thesis using assms set_words_spec [of addr cnt k s b] by (simp add: set_bytes_with_def Let_def)
next
  case False
  let ?a = "ALIGN_DOWN addr" and ?i = "OFFSET addr" and ?v = "word_of (replicate 8 b)"
  let ?h = "min (8 - ?i) cnt" and ?r = "cnt - (8 - ?i)"
  have i: "?i < 8" by simp
  have len: "?i + ?h \<le> 8" using i min.cobounded1 [of "8 - ?i" cnt] by linarith
  have "(?i + cnt + 7) div 8 = Suc ((?r + 7) div 8)"
  proof (cases "?i + cnt \<le> 8")
    case True
    then have "?r = 0" by simp
    moreover have "(?i + cnt + 7) div 8 = 1" using True False assms(2) by (auto simp: div_nat_eqI)
    ultimately show ?thesis by simp
  next
    case long: False
    then have "?i + cnt + 7 = 8 + (?r + 7)" using i by linarith
    then show ?thesis by simp
  qed
  then have ok: "ok (Suc ((?r + 7) div 8 + k)) s" using assms(1) by simp
  have addr: "addr = ?a + of_nat ?i" by (rule align_offset)
  have split: "write_bytes (vw s) addr (replicate cnt b) =
      write_bytes (write_bytes (vw s) addr (replicate ?h b)) (?a + 8) (replicate ?r b)"
  proof (cases "cnt \<le> 8 - ?i")
    case False
    then have h: "?h = 8 - ?i" "replicate cnt b = replicate (8 - ?i) b @ replicate ?r b"
      by (simp_all flip: replicate_add)
    show ?thesis
      unfolding h write_bytes_append using next_word [of addr] by simp
  qed (simp add: min_def)
  note m = merge_fill [OF len]
  have head: "write_bytes (vw s) addr (replicate ?h b) = (vw s)(?a := patch (vw s ?a) ?i (replicate ?h b))"
    using write_bytes_word [of ?a ?i "replicate ?h b" "vw s"] len addr by simp
  have rest: "wp (set_words sto st2 ?v (?a + 8) ?r) t
      (\<lambda>_ u. ok k u \<and> vw u = write_bytes (vw s) addr (replicate cnt b)) never"
    if "ok ((?r + 7) div 8 + k) t" "vw t = write_bytes (vw s) addr (replicate ?h b)" for t
    using set_words_spec [OF aligned_next that(1), of ?a b] unfolding split that(2) by simp
  have "wp (st2 ?a ?v (mask_bytes ?i ?h)) s
      (\<lambda>_ t. ok ((?r + 7) div 8 + k) t \<and> vw t = write_bytes (vw s) addr (replicate ?h b)) never"
    by (rule wp_mono [OF store [OF ok]]) (simp_all add: m head)
  then have "wp (thn (st2 ?a ?v (mask_bytes ?i ?h)) (set_words sto st2 ?v (?a + 8) ?r)) s
      (\<lambda>_ t. ok k t \<and> vw t = write_bytes (vw s) addr (replicate cnt b)) never"
    unfolding wp_thn by (rule wp_mono) (use rest in simp_all)
  then show ?thesis using False assms(2) by (simp add: set_bytes_with_def Let_def)
qed

end

text \<open>A value of 8, 16, 32 or 64 bits comes back from its bytes.\<close>

lemma value_of_bytes:
  assumes "LENGTH('a) = 8 * n" "n \<le> 8"
  shows "(ucast (word_of (take n (bytes_of (ucast v)))) :: 'a::len word) = v"
proof -
  have "(ucast (drop_bit (8 * 0) (ucast v :: w64)) :: 'a word) = ucast (word_of (take n (drop 0 (bytes_of (ucast v)))))"
    by (rule load_field) (use assms in simp_all)
  moreover have "(ucast (ucast v :: w64) :: 'a word) = v"
    by (rule bit_word_eqI) (use assms in \<open>simp add: bit_simps\<close>)
  ultimately show ?thesis by simp
qed

end
