(* ===== verification/SeqAll.thy ===== *)
theory SeqAll
  imports SeqCtl SeqWt ByteMem
begin

text \<open>
  The three designs as one: whatever design the library was built with, and with \<open>MODULAR\<close>
  whatever the attribute of the transaction selects, the exported functions meet the contract
  \<open>tx_retry\<close> on a thread that runs alone.
\<close>

definition tx_ok :: "params \<Rightarrow> nat \<Rightarrow> nat \<Rightarrow> st \<Rightarrow> bool" where
  "tx_ok P M k s \<longleftrightarrow> etl_ok P M k s \<or> ctl_ok P M k s \<or> wt_ok P M k s"

definition tx_view :: "params \<Rightarrow> st \<Rightarrow> w64 \<Rightarrow> w64" where
  "tx_view P s = (if uses_ctl P (s_tx s) then ctl_view s else if uses_wt P (s_tx s) then wt_view s else etl_view s)"

definition undo_base :: "params \<Rightarrow> st \<Rightarrow> w64 \<Rightarrow> w64" where
  "undo_base P s = (if \<not> uses_ctl P (s_tx s) \<and> uses_wt P (s_tx s) then wt_base s else g_mem (s_glob s))"

definition tx_logged :: "params \<Rightarrow> attr \<Rightarrow> st \<Rightarrow> bool" where
  "tx_logged P a s \<longleftrightarrow> tx_attr (s_tx s) = a
     \<and> (\<not> uses_ctl P (s_tx s) \<and> uses_wt P (s_tx s) \<longrightarrow> full_log (s_tx s))"

lemma tx_okE:
  assumes "tx_ok P M k s"
  obtains (etl) "etl_ok P M k s" "tx_view P s = etl_view s" "undo_base P s = g_mem (s_glob s)"
    | (ctl) "ctl_ok P M k s" "tx_view P s = ctl_view s" "undo_base P s = g_mem (s_glob s)"
    | (wt) "wt_ok P M k s" "tx_view P s = wt_view s" "undo_base P s = wt_base s"
  using assms by (auto simp: tx_ok_def tx_view_def undo_base_def etl_ok_def ctl_ok_def wt_ok_def)

lemma tx_okI:
  "etl_ok P M k s \<Longrightarrow> tx_ok P M k s \<and> tx_view P s = etl_view s \<and> undo_base P s = g_mem (s_glob s)
     \<and> tx_logged P a s = (tx_attr (s_tx s) = a)"
  "ctl_ok P M k s \<Longrightarrow> tx_ok P M k s \<and> tx_view P s = ctl_view s \<and> undo_base P s = g_mem (s_glob s)
     \<and> tx_logged P a s = (tx_attr (s_tx s) = a)"
  "wt_ok P M k s \<Longrightarrow> tx_ok P M k s \<and> tx_view P s = wt_view s \<and> undo_base P s = wt_base s
     \<and> tx_logged P a s = (tx_attr (s_tx s) = a \<and> full_log (s_tx s))"
  by (auto simp: tx_ok_def tx_view_def undo_base_def tx_logged_def etl_ok_def ctl_ok_def wt_ok_def)

lemma any_design:
  assumes "\<not> at_read_only a"
  obtains "etl_attr P a" | "ctl_attr P a" | "wt_attr P a"
  using assms by (cases "p_design P") (auto simp: etl_attr_def ctl_attr_def wt_attr_def)

lemma tx_load:
  assumes "tx_ok P M k s"
  shows "wp (stm_load (n + 3) P a) s (\<lambda>v t. v = tx_view P s a \<and> tx_ok P M k t \<and> tx_view P t = tx_view P s) never"
  using assms
proof (cases rule: tx_okE)
  case etl
  show ?thesis by (rule wp_mono [OF etl_load [OF etl(1)]]) (use etl(2) tx_okI(1) in auto)
next
  case ctl
  show ?thesis by (rule wp_mono [OF ctl_load [OF ctl(1)]]) (use ctl(2) tx_okI(2) in auto)
next
  case wt
  show ?thesis by (rule wp_mono [OF wt_load [OF wt(1)]]) (use wt(2) tx_okI(3) in auto)
qed

lemma tx_store:
  assumes "tx_ok P M (Suc k) s"
  shows "wp (stm_store2 (n + 3) P a v m) s
    (\<lambda>_ t. tx_ok P M k t \<and> tx_view P t = (tx_view P s)(a := merge_mask (tx_view P s a) v m)) never"
  using assms
proof (cases rule: tx_okE)
  case etl
  show ?thesis by (rule wp_mono [OF etl_store [OF etl(1)]]) (use etl(2) tx_okI(1) in auto)
next
  case ctl
  show ?thesis by (rule wp_mono [OF ctl_store [OF ctl(1)]]) (use ctl(2) tx_okI(2) in auto)
next
  case wt
  show ?thesis by (rule wp_mono [OF wt_store [OF wt(1)]]) (use wt(2) tx_okI(3) in auto)
qed

lemma tx_commit:
  assumes "tx_ok P M k s"
  shows "wp (stm_commit (n + 3) P) s (\<lambda>r t. r \<and> idle P M t \<and> g_mem (s_glob t) = tx_view P s) never"
  using assms
proof (cases rule: tx_okE)
  case etl
  then show ?thesis using etl_commit [OF etl(1)] by simp
next
  case ctl
  then show ?thesis using ctl_commit [OF ctl(1)] by simp
next
  case wt
  then show ?thesis using wt_commit [OF wt(1)] by simp
qed

lemma tx_fewer: "tx_ok P M k s \<Longrightarrow> j \<le> k \<Longrightarrow> tx_ok P M j s"
  by (auto simp: tx_ok_def intro: etl_fewer ctl_fewer wt_fewer)

lemma tx_start:
  assumes "idle P M s" "\<not> at_read_only a"
  shows "wp (stm_start (n + 3) P a) s
    (\<lambda>_ t. tx_ok P M M t \<and> tx_view P t = g_mem (s_glob s) \<and> tx_logged P a t \<and> undo_base P t = g_mem (s_glob s)) never"
proof -
  have fresh: "tx_attr (s_tx t) = a \<and> full_log (s_tx t) \<and> wt_base t = g_mem (s_glob s) \<and> g_mem (s_glob t) = g_mem (s_glob s)"
    if "tx_attr (s_tx t) = a" "tx_ws (s_tx t) = []" "g_mem (s_glob t) = g_mem (s_glob s)" for t
    using that by (simp add: full_log_def wt_base_empty)
  have st: "wp (stm_start (n + 3) P a) s (\<lambda>_ t. tx_attr (s_tx t) = a \<and> full_log (s_tx t)
      \<and> wt_base t = g_mem (s_glob s) \<and> g_mem (s_glob t) = g_mem (s_glob s)) never"
    by (rule wp_mono [OF start_alone [OF assms(1) _ assms(2)]]) (use fresh in auto)
  have add: ?thesis
    if start: "wp (stm_start (n + 3) P a) s (\<lambda>_ t. ok t \<and> vw t = g_mem (s_glob s)) never"
      and here: "\<And>t. ok t \<Longrightarrow> tx_attr (s_tx t) = a \<Longrightarrow> full_log (s_tx t) \<Longrightarrow> wt_base t = g_mem (s_glob t) \<Longrightarrow>
        tx_ok P M M t \<and> tx_view P t = vw t \<and> tx_logged P a t \<and> undo_base P t = g_mem (s_glob t)" for ok vw
    by (rule wp_mono [OF wp_conj_never [OF start st]]) (use here in auto)
  from assms(2) show ?thesis
  proof (cases rule: any_design [of a P])
    case 1
    show ?thesis by (rule add [OF etl_start [OF assms(1) _ assms(2) etl_attrD [OF 1]]]) (use tx_okI(1) in auto)
  next
    case 2
    show ?thesis by (rule add [OF ctl_start [OF assms(1) _ assms(2) ctl_attrD [OF 2]]]) (use tx_okI(2) in auto)
  next
    case 3
    show ?thesis by (rule add [OF wt_start [OF assms(1) _ assms(2) wt_attrD [OF 3]]]) (use tx_okI(3) in auto)
  qed
qed

interpretation stm: tx_design "stm_load (n + 3) P" "stm_store2 (n + 3) P"
    "\<lambda>k s. \<not> at_read_only a \<and> tx_ok P M k s" "tx_view P"
    "stm_start (n + 3) P a" "stm_commit (n + 3) P" "\<lambda>s. \<not> at_read_only a \<and> idle P M s" M
  for n P M a
  by unfold_locales (auto simp: tx_load tx_store intro: tx_commit tx_fewer wp_mono [OF tx_start])

lemma tx_load_base:
  assumes ok: "tx_ok P M k s" and l: "tx_logged P a s"
  shows "wp (stm_load (n + 3) P b) s (\<lambda>_ t. tx_logged P a t \<and> undo_base P t = undo_base P s) never"
proof -
  have keep: "tx_logged P a t \<and> undo_base P t = undo_base P s" if t: "reads_only s t" for t
  proof -
    have eq: "tx_ws (s_tx t) = tx_ws (s_tx s)" "s_glob t = s_glob s" and st: "steady (s_tx t) = steady (s_tx s)"
      using t by (simp_all add: reads_only_def same_world_def)
    have at: "tx_attr (s_tx t) = tx_attr (s_tx s)" using steady_eqD(1) [OF st] .
    show ?thesis
      using l unfolding tx_logged_def undo_base_def uses_cong [OF at] wt_base_def full_log_def eq wview_cong [OF eq(1)] at
      by simp
  qed
  have "wp (stm_load (n + 3) P b) s (\<lambda>_ t. reads_only s t) never"
    using ok
  proof (cases rule: tx_okE)
    case etl
    then show ?thesis by (intro wp_mono [OF etl_stm_load [OF etl(1)]]) simp_all
  next
    case ctl
    then show ?thesis by (intro wp_mono [OF ctl_stm_load [OF ctl(1)]]) simp_all
  next
    case wt
    then show ?thesis by (intro wp_mono [OF wt_stm_load [OF wt(1)]]) simp_all
  qed
  then show ?thesis by (rule wp_mono) (use keep in blast)+
qed

lemma tx_store_base:
  assumes ok: "tx_ok P M (Suc k) s" and l: "tx_logged P a s" and m: "m \<noteq> 0"
  shows "wp (stm_store2 (n + 3) P b v m) s (\<lambda>_ t. tx_logged P a t \<and> undo_base P t = undo_base P s) never"
proof -
  have n: "0 < n + 3" by simp
  have at: "tx_attr (s_tx t) = tx_attr (s_tx s)" if "same_world s t" for t
    using that steady_eqD(1) unfolding same_world_def by blast
  have keep: "tx_logged P a t = (tx_attr (s_tx s) = a \<and> (\<not> uses_ctl P (s_tx s) \<and> uses_wt P (s_tx s) \<longrightarrow> full_log (s_tx t)))
      \<and> undo_base P t = (if \<not> uses_ctl P (s_tx s) \<and> uses_wt P (s_tx s) then wt_base t else g_mem (s_glob t))"
    if "same_world s t" for t
    unfolding tx_logged_def undo_base_def uses_cong [OF at [OF that]] at [OF that] by simp
  from ok show ?thesis
  proof (cases rule: tx_okE)
    case etl
    have "tx_logged P a t \<and> undo_base P t = undo_base P s" if "write_frame ver s t k" for t ver k
      using keep [of t] that etl l by (simp add: write_frame_def log_frame_def etl_ok_def tx_logged_def)
    then show ?thesis by (intro wp_mono [OF etl_stm_store2 [OF etl(1) n]]) blast+
  next
    case ctl
    have "tx_logged P a t \<and> undo_base P t = undo_base P s" if "ctl_wrote s b v m t" for t
      using keep [of t] that ctl l by (simp add: ctl_wrote_def ctl_ok_def tx_logged_def)
    then show ?thesis by (intro wp_mono [OF ctl_stm_store2 [OF ctl(1) n]]) blast+
  next
    case wt
    have fl: "full_log (s_tx s)" using l wt(1) by (simp add: tx_logged_def wt_ok_def)
    have "tx_logged P a t \<and> undo_base P t = undo_base P s"
      if t: "wt_wrote s b v m t" "log_frame ver s t k" for t ver k
    proof -
      have "full_log (s_tx t)" "wt_base t = wt_base s"
        using t(1) fl m unfolding wt_wrote_def wt_base_def by blast+
      then show ?thesis using keep [of t] t(2) wt l by (simp add: log_frame_def wt_ok_def tx_logged_def)
    qed
    then show ?thesis by (intro wp_mono [OF wt_store2 [OF wt(1) n]]) blast+
  qed
qed

lemma tx_abort:
  assumes ok: "tx_ok P M k s" and l: "tx_logged P a s" and a: "\<not> at_read_only a" "retries a reason"
  shows "wp (stm_abort (n + 3) P reason) s (\<lambda>_ _. False) (\<lambda>r t. (\<exists>x. r = Jump x) \<and> tx_ok P M M t
    \<and> tx_logged P a t \<and> tx_view P t = undo_base P s \<and> undo_base P t = undo_base P s)"
proof -
  have at: "tx_attr (s_tx s) = a" using l by (simp add: tx_logged_def)
  from ok show ?thesis
  proof (cases rule: tx_okE)
    case etl
    have "etl_attr P a" using etl(1) at a(1)
      by (cases "p_design P") (auto simp: etl_ok_def etl_attr_def uses_ctl_def uses_wt_def)
    then show ?thesis
      by (intro wp_mono [OF etl_abort [OF etl(1)]]) (use a at etl(3) tx_okI(1) in auto)
  next
    case ctl
    have "ctl_attr P a" using ctl(1) at a(1)
      by (cases "p_design P") (auto simp: ctl_ok_def ctl_attr_def uses_ctl_def)
    then show ?thesis
      by (intro wp_mono [OF ctl_abort [OF ctl(1)]]) (use a at ctl(3) tx_okI(2) in auto)
  next
    case wt
    have "wt_attr P a" using wt(1) at a(1)
      by (cases "p_design P") (auto simp: wt_ok_def wt_attr_def uses_ctl_def uses_wt_def)
    then show ?thesis
      by (intro wp_mono [OF wt_abort [OF wt(1)]]) (use a at wt(3) tx_okI(3) in auto)
  qed
qed

interpretation stm_again: tx_retry "stm_load (n + 3) P" "stm_store2 (n + 3) P"
    "\<lambda>k s. (\<not> at_read_only a \<and> retries a reason) \<and> tx_ok P M k s" "tx_view P"
    "stm_start (n + 3) P a" "stm_commit (n + 3) P" "\<lambda>s. (\<not> at_read_only a \<and> retries a reason) \<and> idle P M s" M
    "stm_abort (n + 3) P reason" "undo_base P" "tx_logged P a"
  for n P M a reason
  by unfold_locales (auto simp: tx_load tx_store tx_load_base tx_store_base
    intro: tx_commit tx_fewer wp_mono [OF tx_start] wp_mono [OF tx_abort])

text \<open>The loads and stores of \<open>src/wrappers.c\<close> on top.\<close>

interpretation stm_bytes: bytemem "stm_load (n + 3) P" "stm_store2 (n + 3) P" "tx_ok P M" "tx_view P"
    "stm_store (n + 3) P"
  for n P M
proof unfold_locales
  show "stm_store (n + 3) P a v = stm_store2 (n + 3) P a v (NOT 0)" for a v
    by (simp add: stm_store_def stm_store2_def int_stm_store_def int_stm_store2_def)
qed (rule tx_load tx_store; assumption)+

end
