(* ===== verification/History.thy ===== *)
theory History
  imports Wbetl
begin

text \<open>
  What a transaction may assume of the threads that run beside it, in terms of the history of
  committed memories.  \<open>H T\<close> is the memory made by the commits up to time \<open>T\<close> of the clock.
  The locking protocol makes memory tell this history: a free lock of version \<open>v\<close> says that
  the memory under it has been the committed one ever since time \<open>v\<close>, and under a lock that this
  transaction holds nobody else commits.
\<close>

type_synonym history = "w64 \<Rightarrow> w64 \<Rightarrow> w64"

section \<open>Memory tells the history\<close>

text \<open>Address \<open>a\<close> holds \<open>x\<close> in every committed memory from time \<open>v\<close> to the clock \<open>c\<close>, up to time \<open>B\<close>.\<close>

definition told :: "history \<Rightarrow> w64 \<Rightarrow> w64 \<Rightarrow> w64 \<Rightarrow> w64 \<Rightarrow> w64 \<Rightarrow> bool" where
  "told H B a v c x \<longleftrightarrow> v \<le> c \<and> (\<forall>T. v \<le> T \<and> T \<le> c \<and> T \<le> B \<longrightarrow> H T a = x)"

text \<open>
  For the locks that point into the write set of \<open>tx\<close>, \<open>vf\<close> gives the version and \<open>xf\<close> the
  value; for a free lock they are the version in the lock word and the value in memory.
\<close>

definition tells :: "history \<Rightarrow> w64 \<Rightarrow> (w64 \<Rightarrow> w64) \<Rightarrow> (w64 \<Rightarrow> w64) \<Rightarrow> stm_tx \<Rightarrow> glob \<Rightarrow> bool" where
  "tells H B vf xf tx g \<longleftrightarrow> (\<forall>a. let k = GET_LOCK a; l = g_locks g k in
       (LOCK_GET_OWNED l = 0 \<longrightarrow> told H B a (LOCK_GET_TIMESTAMP l) (g_clock g) (g_mem g a))
     \<and> (mine tx l \<longrightarrow> told H B a (vf k) (g_clock g) (xf a)))"

text \<open>
  The other threads follow the protocol: they leave alone what this transaction has locked, never
  turn the clock back nor up to \<open>VERSION_MAX\<close>, keep memory telling the history, and never put
  back a free lock word after they have changed the memory under it.
\<close>

definition follows :: "params \<Rightarrow> history \<Rightarrow> stm_tx \<Rightarrow> bool" where
  "follows P H tx \<longleftrightarrow> rely P tx
     \<and> (\<forall>n g. g_clock g \<le> g_clock (env P n g))
     \<and> (\<forall>n g. g_clock g < VERSION_MAX \<longrightarrow> g_clock (env P n g) < VERSION_MAX)
     \<and> (\<forall>B vf xf n g. tells H B vf xf tx g \<longrightarrow> tells H B vf xf tx (env P n g))
     \<and> (\<forall>n g a. let k = GET_LOCK a in
          LOCK_GET_OWNED (g_locks g k) = 0
          \<and> g_locks (env P (Suc n) (env P n g)) k = g_locks g k \<longrightarrow> g_mem (env P n g) a = g_mem g a)"

lemma mine_owned: "mine tx l \<Longrightarrow> LOCK_GET_OWNED l \<noteq> 0"
  by (simp add: mine_def)

lemma followsD:
  assumes "follows P H tx"
  shows "rely P tx" "g_clock g \<le> g_clock (env P n g)"
    "g_clock g < VERSION_MAX \<Longrightarrow> g_clock (env P n g) < VERSION_MAX"
    "tells H B vf xf tx g \<Longrightarrow> tells H B vf xf tx (env P n g)"
    "LOCK_GET_OWNED (g_locks g (GET_LOCK a)) = 0 \<Longrightarrow>
       g_locks (env P (Suc n) (env P n g)) (GET_LOCK a) = g_locks g (GET_LOCK a) \<Longrightarrow>
       g_mem (env P n g) a = g_mem g a"
  using assms unfolding follows_def Let_def by blast+

lemma tells_cong: "mine tx = mine tx' \<Longrightarrow> tells H B vf xf tx g = tells H B vf xf tx' g"
  by (simp add: tells_def)

lemma follows_cong:
  assumes "tx_base tx = tx_base tx'" "tx_ws_size tx = tx_ws_size tx'"
  shows "follows P H tx = follows P H tx'"
  using rely_cong [OF assms] tells_cong [OF mine_cong [OF assms]] by (simp add: follows_def)

lemma tellsD:
  assumes "tells H B vf xf tx g"
  shows "LOCK_GET_OWNED (g_locks g (GET_LOCK a)) = 0 \<Longrightarrow>
      told H B a (LOCK_GET_TIMESTAMP (g_locks g (GET_LOCK a))) (g_clock g) (g_mem g a)"
    "mine tx (g_locks g (GET_LOCK a)) \<Longrightarrow> told H B a (vf (GET_LOCK a)) (g_clock g) (xf a)"
  using assms unfolding tells_def Let_def by blast+

lemma tellsI:
  assumes "\<And>a. LOCK_GET_OWNED (g_locks g (GET_LOCK a)) = 0 \<Longrightarrow>
      told H B a (LOCK_GET_TIMESTAMP (g_locks g (GET_LOCK a))) (g_clock g) (g_mem g a)"
    "\<And>a. mine tx (g_locks g (GET_LOCK a)) \<Longrightarrow> told H B a (vf (GET_LOCK a)) (g_clock g) (xf a)"
  shows "tells H B vf xf tx g"
  using assms unfolding tells_def Let_def by blast

lemma toldD: "told H B a v c x \<Longrightarrow> v \<le> T \<Longrightarrow> T \<le> c \<Longrightarrow> T \<le> B \<Longrightarrow> H T a = x"
  by (simp add: told_def)

lemma told_le: "told H B a v c x \<Longrightarrow> v \<le> c"
  by (simp add: told_def)

lemma told_mono: "told H B a v c x \<Longrightarrow> B' \<le> B \<Longrightarrow> told H B' a v c x"
  by (auto simp: told_def)

text \<open>A clock that passes the bound \<open>B\<close> tells nothing new.\<close>

lemma told_later: "told H B a v c x \<Longrightarrow> c \<le> c' \<Longrightarrow> B \<le> c \<Longrightarrow> told H B a v c' x"
  by (auto simp: told_def)

lemma told_extend:
  assumes "told H B a v c x" "c < c'" "\<And>T. c < T \<Longrightarrow> T \<le> c' \<Longrightarrow> H T a = x"
  shows "told H B a v c' x"
proof -
  have "H T a = x" if "v \<le> T" "T \<le> c'" "T \<le> B" for T
    using that assms(1,3) by (cases "T \<le> c") (auto simp: told_def)
  then show ?thesis using assms by (auto simp: told_def)
qed

lemma tells_mono: "tells H B vf xf tx g \<Longrightarrow> B' \<le> B \<Longrightarrow> tells H B' vf xf tx g"
  unfolding tells_def Let_def using told_mono by blast

text \<open>A quiet environment follows every protocol.\<close>

lemma quiet_follows: "quiet P \<Longrightarrow> follows P H tx"
  by (simp add: follows_def quiet_rely)

section \<open>What a transaction has seen\<close>

text \<open>The version under which the transaction took a lock it holds.\<close>

definition held_version :: "stm_tx \<Rightarrow> w64 \<Rightarrow> w64" where
  "held_version tx k = (case covered_from (tx_ws tx) k 0 of Some i \<Rightarrow> we_version (tx_ws tx ! i) | None \<Rightarrow> 0)"

text \<open>
  \<open>obs\<close> are the addresses read from memory and the values they had.  Each is the committed value
  at the end of the snapshot, is in the read set unless the transaction is read-only, and if
  its lock has been taken since, was taken at a version within the snapshot.
\<close>

definition recalls :: "history \<Rightarrow> (w64 \<times> w64) set \<Rightarrow> stm_tx \<Rightarrow> bool" where
  "recalls H obs tx \<longleftrightarrow> (\<forall>(a, x) \<in> obs. H (tx_end tx) a = x
     \<and> (at_read_only (tx_attr tx) \<or> (\<exists>r \<in> set (tx_rs tx). re_lock r = GET_LOCK a \<and> re_version r \<le> tx_end tx))
     \<and> (covered tx (GET_LOCK a) \<longrightarrow> held_version tx (GET_LOCK a) \<le> tx_end tx))"

definition judging :: "history \<Rightarrow> w64 \<Rightarrow> w64 \<Rightarrow> (w64 \<times> w64) set \<Rightarrow> stm_tx \<Rightarrow> glob \<Rightarrow> bool" where
  "judging H B now obs tx g \<longleftrightarrow> etl_inv tx (g_locks g) \<and> tells H B (held_version tx) (g_mem g) tx g
     \<and> tx_end tx \<le> now \<and> now \<le> g_clock g \<and> now \<le> B \<and> recalls H obs tx"

definition reading :: "history \<Rightarrow> (w64 \<times> w64) set \<Rightarrow> stm_tx \<Rightarrow> glob \<Rightarrow> bool" where
  "reading H obs tx g \<longleftrightarrow> etl_inv tx (g_locks g) \<and> tells H (NOT 0) (held_version tx) (g_mem g) tx g
     \<and> g_clock g < VERSION_MAX \<and> tx_start tx \<le> tx_end tx \<and> tx_end tx \<le> g_clock g \<and> recalls H obs tx"

text \<open>The descriptors agree on everything a read or an extension leaves alone.\<close>

definition same_log :: "stm_tx \<Rightarrow> stm_tx \<Rightarrow> bool" where
  "same_log tx tx' \<longleftrightarrow> tx_base tx' = tx_base tx \<and> tx_ws_size tx' = tx_ws_size tx \<and> tx_ws tx' = tx_ws tx
     \<and> tx_attr tx' = tx_attr tx \<and> tx_irrevocable tx' = tx_irrevocable tx \<and> tx_status tx' = tx_status tx
     \<and> tx_start tx' = tx_start tx \<and> tx_nesting tx' = tx_nesting tx"

lemma same_log_refl [simp]: "same_log tx tx"
  by (simp add: same_log_def)

lemma same_log_trans: "same_log t u \<Longrightarrow> same_log u v \<Longrightarrow> same_log t v"
  by (simp add: same_log_def)

lemma same_log_upd [simp]:
  "same_log tx (tx\<lparr>tx_end := c\<rparr>)" "same_log tx (tx\<lparr>tx_rs := rs\<rparr>)"
  "same_log tx (tx\<lparr>tx_rs_size := n\<rparr>)" "same_log tx (tx\<lparr>tx_rs_base := b\<rparr>)"
  by (simp_all add: same_log_def)

lemma held_version_cong: "tx_ws tx = tx_ws tx' \<Longrightarrow> held_version tx = held_version tx'"
  by (rule ext) (simp add: held_version_def cong: option.case_cong)

lemma same_log_facts:
  assumes "same_log tx tx'"
  shows "follows P H tx' = follows P H tx" "etl_inv tx' l = etl_inv tx l" "covered tx' = covered tx"
    "held_version tx' = held_version tx" "mine tx' = mine tx" "wview tx' = wview tx"
  using assms follows_cong [of tx tx'] etl_inv_cong [of tx tx'] covered_cong [of tx tx']
    held_version_cong [of tx tx'] mine_cong [of tx tx'] wview_cong [of tx tx']
  by (simp_all add: same_log_def)

section \<open>Stability\<close>

text \<open>Memory under the locks held stays, so the values told of it may be read off again.\<close>

lemma tells_env:
  assumes f: "follows P H tx" and inv: "etl_inv tx (g_locks g)" and t: "tells H B vf (g_mem g) tx g"
  shows "tells H B vf (g_mem (env P n g)) tx (env P n g)"
proof -
  note r = followsD(1) [OF f]
  have t': "tells H B vf (g_mem g) tx (env P n g)" by (rule followsD(4) [OF f t])
  have pl: "ws_placed tx" and lw: "locks_wf tx (g_locks (env P n g))"
    using rely_env(1) [OF r inv, of n] by (simp_all add: etl_inv_def)
  have m: "g_mem (env P n g) a = g_mem g a" if "mine tx (g_locks (env P n g) (GET_LOCK a))" for a
    using that rely_env(2) [OF r inv] locks_wf_covered(3) [OF pl lw] by blast
  show ?thesis
  proof (rule tellsI)
    show "told H B a (vf (GET_LOCK a)) (g_clock (env P n g)) (g_mem (env P n g) a)"
      if "mine tx (g_locks (env P n g) (GET_LOCK a))" for a
      using tellsD(2) [OF t' that] m [OF that] by simp
  qed (rule tellsD(1) [OF t'])
qed

lemma reading_env:
  assumes "follows P H tx" "reading H obs tx g"
  shows "reading H obs tx (env P n g)"
  using assms tells_env [OF assms(1)] rely_env(1) [OF followsD(1) [OF assms(1)]] followsD(2,3) [OF assms(1)]
  by (auto simp: reading_def intro: order_trans)

lemma judging_env:
  assumes "follows P H tx" "judging H B now obs tx g"
  shows "judging H B now obs tx (env P n g)"
  using assms tells_env [OF assms(1)] rely_env(1) [OF followsD(1) [OF assms(1)]] followsD(2) [OF assms(1)]
  by (auto simp: judging_def intro: order_trans)

lemma same_covered_step:
  assumes "follows P H tx" "etl_inv tx (g_locks g)" "same_covered tx mem (g_mem g)"
  shows "same_covered tx mem (g_mem (env P n g))"
  using same_covered_env [OF followsD(1) [OF assms(1)] assms(2)] assms(3) same_covered_trans by blast

section \<open>Validation under interference\<close>

text \<open>A read that is found valid had its value at time \<open>now\<close> as well.\<close>

lemma check_read:
  assumes c: "judging H B now obs tx g" and v: "read_valid tx (g_locks g) r"
    and o: "(a, x) \<in> obs" and r: "re_lock r = GET_LOCK a" "re_version r \<le> tx_end tx"
  shows "H now a = x"
proof -
  have t: "tells H B (held_version tx) (g_mem g) tx g" and e: "tx_end tx \<le> now" "now \<le> g_clock g" "now \<le> B"
    and x: "H (tx_end tx) a = x" "covered tx (GET_LOCK a) \<Longrightarrow> held_version tx (GET_LOCK a) \<le> tx_end tx"
    and pl: "ws_placed tx" and lw: "locks_wf tx (g_locks g)"
    using c o by (auto simp: judging_def recalls_def etl_inv_def)
  note e' = order_trans [OF e(1,2)] order_trans [OF e(1,3)]
  show ?thesis
  proof (cases "LOCK_GET_OWNED (g_locks g (GET_LOCK a)) = 0")
    case True
    then have "LOCK_GET_TIMESTAMP (g_locks g (GET_LOCK a)) = re_version r"
      using v r(1) by (simp add: read_valid_def)
    with tellsD(1) [OF t True] r(2) have "told H B a (re_version r) (g_clock g) (g_mem g a)" by simp
    from toldD [OF this r(2)] toldD [OF this order_trans [OF r(2) e(1)]] show ?thesis using e e' x by simp
  next
    case False
    then have c: "covered tx (GET_LOCK a)"
      using v r(1) locks_wf_test [OF pl lw, of "GET_LOCK a"] by (simp add: read_valid_def)
    then have "mine tx (g_locks g (GET_LOCK a))" using locks_wf_covered(3) [OF pl lw] by simp
    note told = tellsD(2) [OF t this]
    from toldD [OF told x(2) [OF c]] toldD [OF told order_trans [OF x(2) [OF c] e(1)]]
    show ?thesis using e e' x(1) by simp
  qed
qed

text \<open>Validation keeps whatever the environment keeps; a success says that each read passed its test.\<close>

lemma validate_loop_env:
  assumes env: "\<And>n g. J g \<Longrightarrow> J (env P n g)"
    and test: "\<And>r g. J g \<Longrightarrow> read_valid tx (g_locks g) r \<Longrightarrow> R r"
  shows "J (s_glob s) \<Longrightarrow> s_tx s = tx \<Longrightarrow> wp (wbetl_validate_loop P rs) s
    (\<lambda>b t. J (s_glob t) \<and> s_tx t = tx \<and> (b \<longrightarrow> (\<forall>r \<in> set rs. R r))) never"
proof (induction rs arbitrary: s)
  case Nil
  then show ?case by simp
next
  case (Cons r rs)
  let ?u = "env_step P s"
  have u: "J (s_glob ?u)" "s_tx ?u = tx" using env Cons.prems by simp_all
  have rest: "wp (wbetl_validate_loop P rs) ?u
      (\<lambda>b t. J (s_glob t) \<and> s_tx t = tx \<and> (b \<longrightarrow> R r \<and> (\<forall>r \<in> set rs. R r))) never"
    if "read_valid tx (g_locks (s_glob ?u)) r"
    by (rule wp_mono [OF Cons.IH [OF u]]) (use test [OF u(1) that] in auto)
  show ?case
    using u rest by (simp add: read_valid_def Let_def)
qed

end
