(* ===== verification/Snapshot.thy ===== *)
theory Snapshot
  imports History Seq
begin

text \<open>
  Reads beside other threads, under encounter-time locking.  The environment is any that follows
  the protocol (\<open>History\<close>).  A read is followed through its retries and extensions: it returns
  the value committed at the end of the snapshot, and leaves the log and everything the
  transaction has locked alone.
\<close>

section \<open>Rollback does not return\<close>

text \<open>Callbacks leave the descriptor and the shared state alone.\<close>

definition polite :: "params \<Rightarrow> bool" where
  "polite P \<longleftrightarrow> (\<forall>f a s. s_tx (callf P f a s) = s_tx s \<and> s_glob (callf P f a s) = s_glob s)"

definition keeps_attr :: "'a prog \<Rightarrow> bool" where
  "keeps_attr m \<longleftrightarrow> (\<forall>s. wp m s (\<lambda>_ t. tx_attr (s_tx t) = tx_attr (s_tx s)) anyhow)"

lemma keeps_bnd: "keeps_attr m \<Longrightarrow> (\<And>x. keeps_attr (f x)) \<Longrightarrow> keeps_attr (bnd m f)"
  unfolding keeps_attr_def wp_bnd
proof (intro allI)
  fix s :: st
  assume m: "\<forall>s. wp m s (\<lambda>_ t. tx_attr (s_tx t) = tx_attr (s_tx s)) anyhow"
    and f: "\<And>x. \<forall>s. wp (f x) s (\<lambda>_ t. tx_attr (s_tx t) = tx_attr (s_tx s)) anyhow"
  show "wp m s (\<lambda>x t. wp (f x) t (\<lambda>_ u. tx_attr (s_tx u) = tx_attr (s_tx s)) anyhow) anyhow"
  proof (rule wp_mono [OF m [rule_format]])
    fix x and t :: st assume "tx_attr (s_tx t) = tx_attr (s_tx s)"
    then show "wp (f x) t (\<lambda>_ u. tx_attr (s_tx u) = tx_attr (s_tx s)) anyhow"
      using spec [OF f [of x], of t] by simp
  qed
qed

lemma keeps_thn: "keeps_attr m \<Longrightarrow> keeps_attr k \<Longrightarrow> keeps_attr (thn m k)"
  unfolding thn_def by (rule keeps_bnd)

lemma keeps_basic:
  "keeps_attr (ret x)" "keeps_attr (stop r)" "keeps_attr (Pair r)" "keeps_attr get_tx" "keeps_attr (assert_c b)"
  "keeps_attr (load_mem P a)" "keeps_attr (store_mem P a v)" "keeps_attr (store_lock P k v)"
  "keeps_attr (fetch_inc_clock P)" "keeps_attr (atomic_get P g)" "keeps_attr (gets h)"
  "keeps_attr (xmalloc P)"
  by (simp_all add: keeps_attr_def xmalloc_def split: outcome.split)

lemma keeps_set_tx: "(\<And>t. tx_attr (f t) = tx_attr t) \<Longrightarrow> keeps_attr (set_tx f)"
  by (simp add: keeps_attr_def)

lemma keeps_when: "keeps_attr m \<Longrightarrow> keeps_attr (when_c b m)"
  by (simp add: keeps_attr_def)

lemma keeps_each: "(\<And>x. keeps_attr (f x)) \<Longrightarrow> keeps_attr (each_c f xs)"
  by (induction xs) (simp_all add: keeps_basic keeps_thn)

lemmas keeps = keeps_basic keeps_bnd keeps_thn keeps_set_tx keeps_when keeps_each

lemma keeps_drop_loop: "keeps_attr (wbctl_drop_loop P ws)"
  by (induction ws) (auto intro!: keeps)

lemma keeps_undo_loop: "keeps_attr (wt_undo_loop P t ws)"
proof (induction ws arbitrary: t)
  case (Cons w ws)
  then show ?case by (auto simp: Let_def intro!: keeps)
qed (simp add: keeps)

lemma keeps_design_rollback: "keeps_attr (design_rollback P)"
  by (auto simp: design_rollback_def stm_wbetl_rollback_def stm_wbctl_rollback_def stm_wt_rollback_def
      wbetl_drop_def intro!: keeps keeps_drop_loop keeps_undo_loop)

lemma keeps_abort_stats: "tx_attr (abort_stats reason t) = tx_attr t"
  by (simp add: abort_stats_def Let_def)

lemma keeps_backoff: "keeps_attr (backoff_wait P)"
  by (auto simp: backoff_wait_def intro!: keeps)

lemma keeps_allocate: "keeps_attr (stm_allocate_ws_entries P b)"
  by (auto simp: stm_allocate_ws_entries_def intro!: keeps)

lemma keeps_callbacks: "polite P \<Longrightarrow> keeps_attr (run_cbs P f)"
  unfolding run_cbs_def by (intro keeps) (simp add: keeps_attr_def polite_def)

definition may_retry :: "w64 \<Rightarrow> bool" where
  "may_retry reason \<longleftrightarrow> reason AND STM_ABORT_NO_RETRY \<noteq> STM_ABORT_NO_RETRY"

lemma rollback_jumps:
  assumes "polite P" "\<not> at_no_retry (tx_attr (s_tx s))" "may_retry reason"
  shows "wp (stm_rollback n P reason) s (\<lambda>_ _. False) anyhow"
proof (cases n)
  case 0
  then show ?thesis by (simp add: stm_rollback.simps)
next
  case (Suc m)
  let ?last = "\<lambda>prep. bnd get_tx (\<lambda>tx. if no_more_retry reason tx
       then set_tx (\<lambda>t. t\<lparr>tx_nesting := 0\<rparr>)
       else thn prep (bnd get_tx (\<lambda>tx. stop (Jump (reason OR (if tx_irrevocable tx = 0x0B
                                     then STM_PATH_UNINSTRUMENTED else STM_PATH_INSTRUMENTED))))))"
  let ?Q = "\<lambda>t :: st. \<not> at_no_retry (tx_attr (s_tx t))"
  have fin: "wp (?last prep) t (\<lambda>_ _. False) anyhow" if "?Q t" for prep t
  proof -
    have "wp prep t (\<lambda>_ _. True) anyhow" by (simp add: wp_def split: prod.split outcome.split)
    then show ?thesis using that assms(3) by (simp add: no_more_retry_def may_retry_def)
  qed
  have step: "wp (thn m k) t (\<lambda>_ _. False) anyhow"
    if "keeps_attr m" "?Q t" "\<And>u. ?Q u \<Longrightarrow> wp k u (\<lambda>_ _. False) anyhow" for m :: "unit prog" and k t
    unfolding wp_thn by (rule wp_mono [OF that(1) [unfolded keeps_attr_def, rule_format]]) (use that in auto)
  show ?thesis
    unfolding Suc stm_rollback.simps stm_rollback_body_def
    by (intro step fin keeps keeps_design_rollback keeps_backoff keeps_allocate
        keeps_callbacks [OF assms(1)] assms(2)) (simp_all add: keeps_abort_stats)
qed

section \<open>Reading memory\<close>

definition live :: "stm_tx \<Rightarrow> bool" where
  "live tx \<longleftrightarrow> tx_irrevocable tx = 0 \<and> \<not> at_no_retry (tx_attr tx)"

lemma live_same_log: "same_log tx tx' \<Longrightarrow> live tx' = live tx"
  by (simp add: live_def same_log_def)

text \<open>The state after a read, or part of one: the log, and memory under the locks held, are the same.\<close>

definition onward :: "history \<Rightarrow> (w64 \<times> w64) set \<Rightarrow> st \<Rightarrow> st \<Rightarrow> bool" where
  "onward H obs s t \<longleftrightarrow> reading H obs (s_tx t) (s_glob t) \<and> same_log (s_tx s) (s_tx t)
     \<and> same_covered (s_tx s) (g_mem (s_glob s)) (g_mem (s_glob t))"

lemma onward_refl: "reading H obs (s_tx s) (s_glob s) \<Longrightarrow> onward H obs s s"
  by (simp add: onward_def)

lemma onward_trans: "onward H obs s t \<Longrightarrow> onward H obs' t u \<Longrightarrow> onward H obs' s u"
  using same_log_facts(3) by (auto simp: onward_def same_covered_def intro: same_log_trans)

lemma onward_env:
  assumes "follows P H (s_tx s)" "onward H obs s t"
  shows "onward H obs s (env_step P t)"
proof -
  have t: "reading H obs (s_tx t) (s_glob t)" "same_log (s_tx s) (s_tx t)"
    "same_covered (s_tx s) (g_mem (s_glob s)) (g_mem (s_glob t))" using assms(2) by (simp_all add: onward_def)
  have f: "follows P H (s_tx t)" using same_log_facts(1) [OF t(2)] assms(1) by simp
  have "etl_inv (s_tx s) (g_locks (s_glob t))"
    using t(1) same_log_facts(2) [OF t(2)] by (simp add: reading_def)
  from same_covered_step [OF assms(1) this t(3)] reading_env [OF f t(1)] t(2) show ?thesis
    by (simp add: onward_def)
qed

text \<open>The value found is recorded with the version of the lock.\<close>

lemma recalls_insert:
  assumes "recalls H obs tx" "H (tx_end tx) a = v" "ver \<le> tx_end tx" "\<not> covered tx (GET_LOCK a)"
    and "tx' = tx \<or> tx_rs tx' = tx_rs tx @ [\<lparr>re_version = ver, re_lock = GET_LOCK a\<rparr>]"
    and "at_read_only (tx_attr tx) \<or> tx' \<noteq> tx" "tx_end tx' = tx_end tx" "same_log tx tx'"
  shows "recalls H (insert (a, v) obs) tx'"
  using assms same_log_facts(3,4) [OF assms(8)] unfolding recalls_def same_log_def by fastforce

lemma read_done_records:
  assumes "reading H obs (s_tx s) (s_glob s)" "H (tx_end (s_tx s)) a = v" "ver \<le> tx_end (s_tx s)"
    and "\<not> covered (s_tx s) (GET_LOCK a)"
  shows "wp (wbetl_read_done P ver (GET_LOCK a) v) s (\<lambda>x t. onward H (insert (a, x) obs) s t) anyhow"
proof -
  let ?tx = "s_tx s" and ?e = "\<lparr>re_version = ver, re_lock = GET_LOCK a\<rparr>"
  have add: "onward H (insert (a, v) obs) s t"
    if "s_tx t = tx'" "s_glob t = s_glob s" "same_log ?tx tx'" "tx_end tx' = tx_end ?tx"
      "tx' = ?tx \<or> tx_rs tx' = tx_rs ?tx @ [?e]" "at_read_only (tx_attr ?tx) \<or> tx' \<noteq> ?tx" for t tx'
  proof -
    have "recalls H (insert (a, v) obs) tx'"
      by (rule recalls_insert [of H obs ?tx]) (use assms that in \<open>simp_all add: reading_def\<close>)
    moreover have "tells H B vf xf tx' g = tells H B vf xf ?tx g" for B vf xf g
      by (rule tells_cong) (rule same_log_facts(5) [OF that(3)])
    ultimately show ?thesis
      using assms(1) that same_log_facts(2,4) [OF that(3)] by (simp add: onward_def reading_def same_log_def)
  qed
  have new: "?tx\<lparr>tx_rs_size := x, tx_rs_base := y, tx_rs := tx_rs ?tx @ [?e]\<rparr> \<noteq> ?tx"
    "?tx\<lparr>tx_rs := tx_rs ?tx @ [?e]\<rparr> \<noteq> ?tx" for x y
    by (auto dest: arg_cong [where f = tx_rs])
  show ?thesis
    using new by (auto simp: wbetl_read_done_def add_to_read_set_def stm_allocate_rs_entries_def xmalloc_def
        same_log_def intro!: add split: outcome.split)
qed

text \<open>An extension that succeeds moves the end of the snapshot to a later time at which all reads still hold.\<close>

lemma extend_recalls:
  assumes f: "follows P H (s_tx s)" and rd: "reading H obs (s_tx s) (s_glob s)"
    and rw: "\<not> at_read_only (tx_attr (s_tx s))"
  shows "wp (stm_wbetl_extend P) s
    (\<lambda>ok t. if ok then onward H obs s t \<and> g_clock (s_glob s) \<le> tx_end (s_tx t) else s_tx t = s_tx s) anyhow"
proof -
  let ?tx = "s_tx s" and ?u = "env_step P s"
  let ?now = "g_clock (s_glob ?u)"
  define J where "J g \<longleftrightarrow> judging H (NOT 0) ?now obs ?tx g \<and> reading H obs ?tx g
     \<and> same_covered ?tx (g_mem (s_glob s)) (g_mem g)" for g
  define R where "R r \<longleftrightarrow> (\<forall>(a, x) \<in> obs. re_lock r = GET_LOCK a \<and> re_version r \<le> tx_end ?tx \<longrightarrow> H ?now a = x)" for r :: r_entry
  have env: "J (env P n g)" if "J g" for n g
    using that judging_env [OF f] reading_env [OF f] same_covered_step [OF f]
    unfolding J_def reading_def by blast
  have test: "R r" if "J g" "read_valid ?tx (g_locks g) r" for r g
    using that check_read by (auto simp: J_def R_def)
  have c: "g_clock (s_glob s) \<le> ?now" using followsD(2) [OF f] by simp
  have "reading H obs ?tx (s_glob ?u)" using reading_env [OF f rd] by simp
  moreover have "tx_end ?tx \<le> ?now" using rd c by (auto simp: reading_def)
  moreover have "same_covered ?tx (g_mem (s_glob s)) (g_mem (s_glob ?u))"
    using same_covered_step [OF f, of "s_glob s"] rd by (simp add: reading_def)
  ultimately have start: "J (s_glob ?u)" by (simp add: J_def judging_def reading_def)
  have done': "onward H obs s (upd_tx (\<lambda>t. t\<lparr>tx_end := ?now\<rparr>) t)"
    if t: "J (s_glob t)" "s_tx t = ?tx" "\<forall>r \<in> set (tx_rs ?tx). R r" for t
  proof -
    have old: "recalls H obs ?tx" "tx_end ?tx \<le> ?now" using t(1) by (simp_all add: J_def judging_def)
    have "recalls H obs (?tx\<lparr>tx_end := ?now\<rparr>)"
      unfolding recalls_def
    proof (intro ballI, clarify)
      fix a x assume o: "(a, x) \<in> obs"
      then obtain r where r: "r \<in> set (tx_rs ?tx)" "re_lock r = GET_LOCK a" "re_version r \<le> tx_end ?tx"
        using old(1) rw by (auto simp: recalls_def)
      then have "H ?now a = x" using t(3) o by (auto simp: R_def)
      then show "H (tx_end (?tx\<lparr>tx_end := ?now\<rparr>)) a = x
          \<and> (at_read_only (tx_attr (?tx\<lparr>tx_end := ?now\<rparr>)) \<or> (\<exists>r \<in> set (tx_rs (?tx\<lparr>tx_end := ?now\<rparr>)).
              re_lock r = GET_LOCK a \<and> re_version r \<le> tx_end (?tx\<lparr>tx_end := ?now\<rparr>)))
          \<and> (covered (?tx\<lparr>tx_end := ?now\<rparr>) (GET_LOCK a) \<longrightarrow>
              held_version (?tx\<lparr>tx_end := ?now\<rparr>) (GET_LOCK a) \<le> tx_end (?tx\<lparr>tx_end := ?now\<rparr>))"
        using r old o same_log_facts(3,4) [of ?tx "?tx\<lparr>tx_end := ?now\<rparr>"]
        by (auto simp: recalls_def intro: order_trans)
    qed
    moreover have "tells H B vf xf (?tx\<lparr>tx_end := ?now\<rparr>) g = tells H B vf xf ?tx g" for B vf xf g
      by (rule tells_cong) (rule same_log_facts(5), simp)
    ultimately show ?thesis
      using t old same_log_facts(2,4) [of ?tx "?tx\<lparr>tx_end := ?now\<rparr>"]
      by (auto simp: onward_def J_def reading_def judging_def)
  qed
  have val: "wp (wbetl_validate_loop P (tx_rs ?tx)) ?u
      (\<lambda>b t. J (s_glob t) \<and> s_tx t = ?tx \<and> (b \<longrightarrow> (\<forall>r \<in> set (tx_rs ?tx). R r))) never"
    by (rule validate_loop_env [of J P ?tx R]) (use env test start in simp_all)
  have "wp (wbetl_validate_loop P (tx_rs ?tx)) ?u (\<lambda>ok t.
      if ok then onward H obs s (upd_tx (\<lambda>t. t\<lparr>tx_end := ?now\<rparr>) t) else s_tx t = ?tx) anyhow"
    by (rule wp_mono [OF val]) (use done' in simp_all)
  then show ?thesis
    unfolding stm_wbetl_extend_def stm_wbetl_validate_def
    by (auto elim!: wp_mono simp: c [simplified])
qed

lemma word_max: "x \<le> NOT (0 :: w64)"
  by simp

text \<open>The value between two loads of the same free lock word is the committed one.\<close>

lemma stable_value:
  assumes f: "follows P H tx" and u: "reading H obs tx g" and l: "LOCK_GET_OWNED (g_locks g (GET_LOCK a)) = 0"
    and same: "g_locks (env P (Suc n) (env P n g)) (GET_LOCK a) = g_locks g (GET_LOCK a)"
  shows "g_mem (env P n g) a = g_mem g a"
    "told H (NOT 0) a (LOCK_GET_TIMESTAMP (g_locks g (GET_LOCK a))) (g_clock g) (g_mem g a)"
  using followsD(5) [OF f l same] tellsD(1) [OF _ l] u unfolding reading_def by blast+

text \<open>
  The read loop once the value lies between two loads of the free word \<open>l\<close>; \<open>again\<close> is the
  rest of the loop, started with a lock word already loaded.
\<close>

definition read_tail :: "params \<Rightarrow> (w64 \<Rightarrow> unit prog) \<Rightarrow> (w64 \<Rightarrow> w64 prog) \<Rightarrow> w64 \<Rightarrow> w64 \<Rightarrow> w64 \<Rightarrow> w64 prog" where
  "read_tail P rb again a l value = bnd get_tx (\<lambda>tx.
     if LOCK_GET_TIMESTAMP l > tx_end tx then
       bnd (if at_read_only (tx_attr tx) then ret False else stm_wbetl_extend P) (\<lambda>ok.
         if \<not> ok then thn (rb STM_ABORT_VAL_READ) (ret 0)
         else bnd (load_lock P (GET_LOCK a)) (\<lambda>l3.
           if l \<noteq> l3 then again l3
           else wbetl_read_done P (LOCK_GET_TIMESTAMP l) (GET_LOCK a) value))
     else wbetl_read_done P (LOCK_GET_TIMESTAMP l) (GET_LOCK a) value)"

lemma read_loop_step:
  fixes u :: st and a :: w64 and P :: params and l :: w64
  defines "v \<equiv> env_step P u" and "k \<equiv> GET_LOCK a"
  defines "w \<equiv> env_step P v"
  assumes lv: "live (s_tx u)" and not_ours: "LOCK_GET_OWNED l \<noteq> 0 \<Longrightarrow> \<not> in_ws (s_tx u) (LOCK_GET_ADDR l)"
    and start: "(case lo of None \<Rightarrow> load_lock P k | Some l \<Rightarrow> ret l) s = (Ret l, u)"
    and owned: "LOCK_GET_OWNED l \<noteq> 0 \<Longrightarrow> wp (thn (rb STM_ABORT_RW_CONFLICT) (ret 0)) u Q E"
    and moved: "\<And>l2. g_locks (s_glob w) k = l2 \<Longrightarrow> wp (wbetl_read_loop n P rb a (Some l2)) w Q E"
    and same: "LOCK_GET_OWNED l = 0 \<Longrightarrow> g_locks (s_glob w) k = l \<Longrightarrow>
      wp (read_tail P rb (\<lambda>l. wbetl_read_loop n P rb a (Some l)) a l (g_mem (s_glob v) a)) w Q E"
  shows "wp (wbetl_read_loop (Suc n) P rb a lo) s Q E"
proof -
  have irr: "tx_irrevocable (s_tx u) = 0" using lv by (simp add: live_def)
  let ?l2 = "g_locks (s_glob w) k" and ?x = "g_mem (s_glob v) a"
  have free: "wp (bnd (load_mem P a) (\<lambda>value. bnd (load_lock P k) (\<lambda>l2.
      if l \<noteq> l2 then wbetl_read_loop n P rb a (Some l2)
      else if tx_irrevocable (s_tx u) \<noteq> 0 then ret value
      else if LOCK_GET_TIMESTAMP l > tx_end (s_tx u) then
        bnd (if at_read_only (tx_attr (s_tx u)) then ret False else stm_wbetl_extend P) (\<lambda>ok.
          if \<not> ok then thn (rb STM_ABORT_VAL_READ) (ret 0)
          else bnd (load_lock P k) (\<lambda>l3.
            if l \<noteq> l3 then wbetl_read_loop n P rb a (Some l3)
            else wbetl_read_done P (LOCK_GET_TIMESTAMP l) k value))
      else wbetl_read_done P (LOCK_GET_TIMESTAMP l) k value))) u Q E" if "LOCK_GET_OWNED l = 0"
    unfolding wp_bnd load_mem_exec [THEN wp_exec] load_lock_exec [THEN wp_exec] v_def [symmetric] w_def [symmetric]
  proof (cases "l = ?l2")
    case True
    have "s_tx w = s_tx u" by (simp add: w_def v_def)
    with same [OF that True [symmetric]]
    show "wp (if l \<noteq> ?l2 then wbetl_read_loop n P rb a (Some ?l2)
      else if tx_irrevocable (s_tx u) \<noteq> 0 then ret ?x
      else if LOCK_GET_TIMESTAMP l > tx_end (s_tx u) then
        bnd (if at_read_only (tx_attr (s_tx u)) then ret False else stm_wbetl_extend P) (\<lambda>ok.
          if \<not> ok then thn (rb STM_ABORT_VAL_READ) (ret 0)
          else bnd (load_lock P k) (\<lambda>l3.
            if l \<noteq> l3 then wbetl_read_loop n P rb a (Some l3)
            else wbetl_read_done P (LOCK_GET_TIMESTAMP l) k ?x))
      else wbetl_read_done P (LOCK_GET_TIMESTAMP l) k ?x) w Q E"
      unfolding read_tail_def wp_bnd get_tx_exec [THEN wp_exec] k_def [symmetric]
      by (simp only: True [symmetric] irr not_True_eq_False if_False if_True simp_thms wp_bnd)
  qed (simp only: moved [OF refl] if_True simp_thms)
  note step = wbetl_read_loop.simps wp_bnd k_def [symmetric] get_tx_exec [THEN wp_exec] get_write_eq_owned
    wp_exec [where m = "\<lambda>s. (case lo of None \<Rightarrow> load_lock P k | Some l \<Rightarrow> ret l) s", OF start]
  show ?thesis
  proof (cases "LOCK_GET_OWNED l = 0")
    case True
    show ?thesis using free [OF True] unfolding step True by (simp only: not_True_eq_False if_False simp_thms wp_bnd)
  next
    case False
    then show ?thesis using owned [OF False] not_ours [OF False] unfolding step by (simp add: irr)
  qed
qed

lemma read_tail_records:
  fixes s w :: st and a :: w64 and H obs
  defines "k \<equiv> GET_LOCK a" and "Q \<equiv> \<lambda>v t. onward H (insert (a, v) obs) s t"
  assumes f: "follows P H (s_tx s)" and lv: "live (s_tx s)" and unc: "\<not> covered (s_tx s) k"
    and rb: "\<And>c t. live (s_tx t) \<Longrightarrow> may_retry c \<Longrightarrow> wp (rb c) t (\<lambda>_ _. False) anyhow"
    and again: "\<And>t l. onward H obs s t \<Longrightarrow> g_locks (s_glob t) k = l \<Longrightarrow> wp (again l) t Q anyhow"
    and w: "onward H obs s w" "g_locks (s_glob w) k = l" and free: "LOCK_GET_OWNED l = 0"
    and x: "H (LOCK_GET_TIMESTAMP l) a = x" "LOCK_GET_TIMESTAMP l \<le> g_clock (s_glob w)"
  shows "wp (read_tail P rb again a l x) w Q anyhow"
proof -
  let ?ver = "LOCK_GET_TIMESTAMP l"
  have finish: "wp (wbetl_read_done P ?ver k x) t Q anyhow"
    if t: "onward H obs s t" "g_locks (s_glob t) k = l" "?ver \<le> tx_end (s_tx t)" for t
  proof -
    have sl: "same_log (s_tx s) (s_tx t)" and rt: "reading H obs (s_tx t) (s_glob t)"
      using t(1) by (simp_all add: onward_def)
    have told: "told H (NOT 0) a ?ver (g_clock (s_glob t)) (g_mem (s_glob t) a)"
      using tellsD(1) [of H "NOT 0" "held_version (s_tx t)" "g_mem (s_glob t)" "s_tx t" "s_glob t" a]
        rt t(2) free by (simp add: reading_def k_def)
    have c: "?ver \<le> g_clock (s_glob t)" "tx_end (s_tx t) \<le> g_clock (s_glob t)"
      using told_le [OF told] rt unfolding reading_def by blast+
    have "H (tx_end (s_tx t)) a = H ?ver a"
      by (rule trans [OF toldD [OF told t(3) c(2) word_max] toldD [OF told order_refl c(1) word_max, symmetric]])
    then have x': "H (tx_end (s_tx t)) a = x" using x(1) by simp
    have unc': "\<not> covered (s_tx t) (GET_LOCK a)" using unc same_log_facts(3) [OF sl] by (simp add: k_def)
    have "wp (wbetl_read_done P ?ver k x) t (\<lambda>v u. onward H (insert (a, v) obs) t u) anyhow"
      unfolding k_def by (rule read_done_records [OF rt x' t(3) unc'])
    then show ?thesis unfolding Q_def by (rule wp_mono) (auto intro: onward_trans [OF t(1)])
  qed
  have jump: "wp (rb STM_ABORT_VAL_READ) t R anyhow" if "same_log (s_tx s) (s_tx t)" for t R
  proof -
    have m: "may_retry STM_ABORT_VAL_READ" by (simp add: may_retry_def reason_defs)
    have "live (s_tx t)" using live_same_log [OF that] lv by simp
    from wp_mono [OF rb [OF this m]] show ?thesis by simp
  qed
  have sl: "same_log (s_tx s) (s_tx w)" and rw: "reading H obs (s_tx w) (s_glob w)"
    using w(1) by (simp_all add: onward_def)
  have ext: "wp (stm_wbetl_extend P) w (\<lambda>ok t. if ok then onward H obs w t
      \<and> g_clock (s_glob w) \<le> tx_end (s_tx t) else s_tx t = s_tx w) anyhow"
    if "\<not> at_read_only (tx_attr (s_tx w))"
    by (rule extend_recalls) (use f rw that same_log_facts(1) [OF sl] in simp_all)
  have after: "wp (if \<not> ok then thn (rb STM_ABORT_VAL_READ) (ret 0)
      else bnd (load_lock P k) (\<lambda>l3. if l \<noteq> l3 then again l3 else wbetl_read_done P ?ver k x)) t Q anyhow"
    if t: "if ok then onward H obs w t \<and> g_clock (s_glob w) \<le> tx_end (s_tx t) else s_tx t = s_tx w" for ok t
  proof (cases ok)
    case False
    then show ?thesis using jump [of t] t sl by simp
  next
    case True
    then have o: "onward H obs s (env_step P t)" and e: "?ver \<le> tx_end (s_tx t)"
      using t onward_env [OF f onward_trans [OF w(1)]] x(2) by (auto intro: order_trans)
    show ?thesis using True again [OF o] finish [OF o] e by (cases "g_locks (s_glob (env_step P t)) k = l") auto
  qed
  let ?rest = "\<lambda>ok. if \<not> ok then thn (rb STM_ABORT_VAL_READ) (ret 0)
      else bnd (load_lock P k) (\<lambda>l3. if l \<noteq> l3 then again l3 else wbetl_read_done P ?ver k x)"
  have late: "wp (bnd (if at_read_only (tx_attr (s_tx w)) then ret False else stm_wbetl_extend P) ?rest) w Q anyhow"
  proof (cases "at_read_only (tx_attr (s_tx w))")
    case True
    then show ?thesis using jump [OF sl] by simp
  next
    case False
    show ?thesis unfolding wp_bnd if_not_P [OF False] by (rule wp_mono [OF ext [OF False] after]) simp_all
  qed
  show ?thesis
    using late finish [OF w]
    unfolding read_tail_def wp_bnd get_tx_exec [THEN wp_exec] k_def [symmetric] by (auto simp: not_less)
qed

lemma read_loop_records:
  assumes rb: "\<And>c t. live (s_tx t) \<Longrightarrow> may_retry c \<Longrightarrow> wp (rb c) t (\<lambda>_ _. False) anyhow"
  shows "follows P H (s_tx s) \<Longrightarrow> live (s_tx s) \<Longrightarrow> reading H obs (s_tx s) (s_glob s) \<Longrightarrow>
    \<not> covered (s_tx s) (GET_LOCK a) \<Longrightarrow> (\<forall>l. lo = Some l \<longrightarrow> g_locks (s_glob s) (GET_LOCK a) = l) \<Longrightarrow>
    wp (wbetl_read_loop n P rb a lo) s (\<lambda>v t. onward H (insert (a, v) obs) s t) anyhow"
proof (induction n arbitrary: s lo)
  case 0
  then show ?case by simp
next
  case (Suc n)
  let ?k = "GET_LOCK a" and ?tx = "s_tx s" and ?Q = "\<lambda>v t. onward H (insert (a, v) obs) s t"
  note f = Suc.prems(1) and lv = Suc.prems(2) and rd = Suc.prems(3) and unc = Suc.prems(4)
  define u where "u = (if lo = None then env_step P s else s)"
  let ?l = "g_locks (s_glob u) ?k" and ?v = "env_step P u" and ?w = "env_step P (env_step P u)"
  have start: "(case lo of None \<Rightarrow> load_lock P ?k | Some l \<Rightarrow> ret l) s = (Ret ?l, u)"
    using Suc.prems(5) by (cases lo) (simp_all add: u_def)
  have u: "onward H obs s u" "s_tx u = ?tx"
    using onward_refl [OF rd] onward_env [OF f onward_refl [OF rd]] by (simp_all add: u_def)
  then have ru: "reading H obs ?tx (s_glob u)" by (simp add: onward_def)
  then have not_ours: "LOCK_GET_OWNED ?l \<noteq> 0 \<Longrightarrow> \<not> in_ws ?tx (LOCK_GET_ADDR ?l)"
    using locks_wf_test [of ?tx "g_locks (s_glob u)" ?k] unc by (auto simp: reading_def etl_inv_def)
  have w: "onward H obs s ?w" using onward_env [OF f onward_env [OF f u(1)]] .
  have again: "wp (wbetl_read_loop n P rb a (Some l)) t ?Q anyhow"
    if t: "onward H obs s t" "g_locks (s_glob t) ?k = l" for t l
  proof -
    have sl: "same_log ?tx (s_tx t)" "reading H obs (s_tx t) (s_glob t)" using t by (simp_all add: onward_def)
    have "wp (wbetl_read_loop n P rb a (Some l)) t (\<lambda>v u. onward H (insert (a, v) obs) t u) anyhow"
      by (rule Suc.IH) (use sl same_log_facts(1,3) [OF sl(1)] live_same_log [OF sl(1)] f lv unc t in simp_all)
    then show ?thesis by (rule wp_mono) (use onward_trans [OF t(1)] in auto)
  qed
  have "may_retry STM_ABORT_RW_CONFLICT" by (simp add: may_retry_def reason_defs)
  then have jump: "wp (thn (rb STM_ABORT_RW_CONFLICT) (ret 0)) u ?Q anyhow"
    unfolding wp_thn by (rule wp_mono [OF rb, rotated]) (use lv u(2) in auto)
  have "wp (read_tail P rb (\<lambda>l. wbetl_read_loop n P rb a (Some l)) a ?l (g_mem (s_glob ?v) a)) ?w ?Q anyhow"
    if free: "LOCK_GET_OWNED ?l = 0" and same: "g_locks (s_glob ?w) ?k = ?l"
  proof (rule read_tail_records [OF f lv unc rb again w same free])
    have x: "g_mem (s_glob ?v) a = g_mem (s_glob u) a"
      and t: "told H (NOT 0) a (LOCK_GET_TIMESTAMP ?l) (g_clock (s_glob u)) (g_mem (s_glob u) a)"
      using stable_value [OF f ru free, of "s_tick u"] same by (simp_all add: env_step_def)
    show "H (LOCK_GET_TIMESTAMP ?l) a = g_mem (s_glob ?v) a"
      unfolding x using toldD [OF t] t by (auto simp: told_def)
    show "LOCK_GET_TIMESTAMP ?l \<le> g_clock (s_glob ?w)"
      using t order_trans [OF followsD(2) [OF f] followsD(2) [OF f]] by (auto simp: told_def intro: order_trans)
  qed
  then show ?case
    by (intro read_loop_step [OF _ _ start]) (use lv not_ours u(2) jump again [OF w] in simp_all)
qed

end
