(* ===== verification/Serial.thy ===== *)
theory Serial
  imports Snapshot
begin

text \<open>
  Update transactions beside other threads, under encounter-time locking: each write is followed
  through the acquisition of its lock, and the commit through clock and validation.  A
  transaction that commits read the memory committed just before its own time, and its writes
  make the memory of that time.
\<close>

section \<open>The log grows\<close>

text \<open>Everything but the write set; and two logs with the same locks and versions.\<close>

definition same_snap :: "stm_tx \<Rightarrow> stm_tx \<Rightarrow> bool" where
  "same_snap tx tx' \<longleftrightarrow> tx_base tx' = tx_base tx \<and> tx_ws_size tx' = tx_ws_size tx
     \<and> tx_attr tx' = tx_attr tx \<and> tx_irrevocable tx' = tx_irrevocable tx \<and> tx_status tx' = tx_status tx
     \<and> tx_start tx' = tx_start tx \<and> tx_end tx' = tx_end tx \<and> tx_rs tx' = tx_rs tx"

definition like_log :: "w_entry list \<Rightarrow> w_entry list \<Rightarrow> bool" where
  "like_log ws ws' \<longleftrightarrow> length ws' = length ws
     \<and> (\<forall>i < length ws. we_lock (ws' ! i) = we_lock (ws ! i) \<and> we_version (ws' ! i) = we_version (ws ! i))"

lemma like_log_covered: "like_log ws ws' \<Longrightarrow> covered_from ws' k i = covered_from ws k i"
  unfolding covered_from_def like_log_def by (rule find_cong) simp_all

lemma like_log_held:
  assumes "like_log (tx_ws tx) (tx_ws tx')"
  shows "covered tx' = covered tx" "held_version tx' = held_version tx"
proof -
  show "covered tx' = covered tx" using like_log_covered [OF assms] by (intro ext) (simp add: covered_def)
  show "held_version tx' = held_version tx"
  proof
    fix k
    show "held_version tx' k = held_version tx k"
    proof (cases "covered_from (tx_ws tx) k 0")
      case None
      then show ?thesis by (simp add: held_version_def like_log_covered [OF assms])
    next
      case (Some i)
      then have "i < length (tx_ws tx)" by (simp add: covered_from_Some)
      with Some show ?thesis
        using assms by (simp add: held_version_def like_log_covered [OF assms] like_log_def)
    qed
  qed
qed

text \<open>Values and masks of the entries do not matter to what a transaction has read.\<close>

lemma reading_like:
  assumes "reading H obs tx g" "same_snap tx tx'" "like_log (tx_ws tx) (tx_ws tx')" "etl_inv tx' (g_locks g)"
  shows "reading H obs tx' g"
proof -
  note l = like_log_held [OF assms(3)]
  have "mine tx' = mine tx" by (rule mine_cong) (use assms(2) in \<open>simp_all add: same_snap_def\<close>)
  then have "tells H B vf xf tx' g = tells H B vf xf tx g" for B vf xf by (rule tells_cong)
  then show ?thesis using assms unfolding reading_def recalls_def same_snap_def l by simp
qed

lemma held_version_uncovered: "\<not> covered tx k \<Longrightarrow> held_version tx k = 0"
  by (simp add: held_version_def covered_def)

lemma held_version_link:
  "held_version (tx\<lparr>tx_ws := link_entry prev e (tx_ws tx)\<rparr>) k =
     (if covered tx k then held_version tx k else if k = we_lock e then we_version e else 0)"
proof (cases "covered_from (tx_ws tx) k 0")
  case None
  then show ?thesis by (simp add: held_version_def covered_def covered_from_link link_entry_fields)
next
  case (Some i)
  then have "i < length (tx_ws tx)" by (simp add: covered_from_Some)
  with Some show ?thesis by (simp add: held_version_def covered_def covered_from_link link_entry_fields)
qed

text \<open>Another entry under a lock that is held already.\<close>

lemma reading_link:
  assumes rd: "reading H obs tx g" and cov: "covered tx (we_lock e)"
    and inv: "etl_inv (tx\<lparr>tx_ws := link_entry prev e (tx_ws tx)\<rparr>) (g_locks g)"
  shows "reading H obs (tx\<lparr>tx_ws := link_entry prev e (tx_ws tx)\<rparr>) g"
proof -
  let ?tx = "tx\<lparr>tx_ws := link_entry prev e (tx_ws tx)\<rparr>"
  have c: "covered ?tx k = covered tx k" for k using cov by (auto simp: covered_link)
  have h: "held_version ?tx = held_version tx"
    using cov by (intro ext) (auto simp: held_version_link held_version_uncovered)
  have "mine ?tx = mine tx" by (rule mine_cong) simp_all
  then have "tells H B vf xf ?tx g = tells H B vf xf tx g" for B vf xf by (rule tells_cong)
  then show ?thesis using rd inv unfolding reading_def recalls_def c h by simp
qed

text \<open>The first entry under a lock that was free at version \<open>we_version e\<close> until now.\<close>

lemma reading_acquire:
  fixes g :: glob and tx :: stm_tx
  defines "g' \<equiv> \<lambda>w. g\<lparr>g_locks := (g_locks g)(w := own_word tx (length (tx_ws tx)))\<rparr>"
  assumes rd: "reading H obs tx g" and e: "we_lock e = k"
    and free: "LOCK_GET_OWNED (g_locks g k) = 0" "we_version e = LOCK_GET_TIMESTAMP (g_locks g k)"
    and ok: "\<not> at_read_only (tx_attr tx)" "stm_has_read tx k \<noteq> None \<Longrightarrow> we_version e \<le> tx_end tx"
    and inv: "etl_inv (tx\<lparr>tx_ws := link_entry None e (tx_ws tx)\<rparr>) (g_locks (g' k))"
  shows "reading H obs (tx\<lparr>tx_ws := link_entry None e (tx_ws tx)\<rparr>) (g' k)"
proof -
  let ?tx = "tx\<lparr>tx_ws := link_entry None e (tx_ws tx)\<rparr>"
  have pl: "ws_placed tx" and lw: "locks_wf tx (g_locks g)" and t: "tells H (NOT 0) (held_version tx) (g_mem g) tx g"
    and rc: "recalls H obs tx" and c: "g_clock g < VERSION_MAX" "tx_start tx \<le> tx_end tx" "tx_end tx \<le> g_clock g"
    using rd by (simp_all add: reading_def etl_inv_def)
  have "\<not> mine tx (g_locks g k)" using free(1) mine_owned by blast
  then have unc: "\<not> covered tx k" using locks_wf_covered(3) [OF pl lw] by simp
  have mn: "mine ?tx = mine tx" by (rule mine_cong) simp_all
  have "tells H (NOT 0) (held_version ?tx) (g_mem (g' k)) ?tx (g' k)"
  proof (rule tellsI)
    fix a
    assume l: "LOCK_GET_OWNED (g_locks (g' k) (GET_LOCK a)) = 0"
    then have "GET_LOCK a \<noteq> k" by (auto simp: g'_def own_word_def split: if_splits)
    then show "told H (NOT 0) a (LOCK_GET_TIMESTAMP (g_locks (g' k) (GET_LOCK a))) (g_clock (g' k)) (g_mem (g' k) a)"
      using tellsD(1) [OF t, of a] l by (simp add: g'_def)
  next
    fix a
    assume m: "mine ?tx (g_locks (g' k) (GET_LOCK a))"
    show "told H (NOT 0) a (held_version ?tx (GET_LOCK a)) (g_clock (g' k)) (g_mem (g' k) a)"
    proof (cases "GET_LOCK a = k")
      case True
      then show ?thesis
        using tellsD(1) [OF t, of a] free e unc by (simp add: g'_def held_version_link)
    next
      case False
      then have "mine tx (g_locks g (GET_LOCK a))" using m mn by (simp add: g'_def)
      then show ?thesis
        using tellsD(2) [OF t, of a] locks_wf_covered(3) [OF pl lw, of "GET_LOCK a"]
        by (simp add: g'_def held_version_link)
    qed
  qed
  moreover have "recalls H obs ?tx"
    unfolding recalls_def
  proof (intro ballI, clarify)
    fix a x assume o: "(a, x) \<in> obs"
    then obtain r where r: "H (tx_end tx) a = x" "r \<in> set (tx_rs tx)" "re_lock r = GET_LOCK a" "re_version r \<le> tx_end tx"
      and h: "covered tx (GET_LOCK a) \<longrightarrow> held_version tx (GET_LOCK a) \<le> tx_end tx"
      using rc ok(1) by (auto simp: recalls_def)
    have "we_version e \<le> tx_end tx" if "GET_LOCK a = k"
    proof (rule ok(2))
      show "stm_has_read tx k \<noteq> None" using r(2,3) that unfolding stm_has_read_def find_None_iff by auto
    qed
    then show "H (tx_end ?tx) a = x
        \<and> (at_read_only (tx_attr ?tx) \<or> (\<exists>r \<in> set (tx_rs ?tx). re_lock r = GET_LOCK a \<and> re_version r \<le> tx_end ?tx))
        \<and> (covered ?tx (GET_LOCK a) \<longrightarrow> held_version ?tx (GET_LOCK a) \<le> tx_end ?tx)"
      using r h e unc by (auto simp: held_version_link covered_link)
  qed
  ultimately show ?thesis using inv c by (simp add: reading_def g'_def)
qed

section \<open>Writing beside others\<close>

text \<open>
  What a write of \<open>v\<close> under \<open>m\<close> at \<open>a\<close> leaves: the sequential effect, the reads still committed at
  the end of the snapshot, and nothing but the write set changed.
\<close>

definition stored :: "history \<Rightarrow> (w64 \<times> w64) set \<Rightarrow> st \<Rightarrow> w64 \<Rightarrow> w64 \<Rightarrow> w64 \<Rightarrow> st \<Rightarrow> bool" where
  "stored H obs s a v m t \<longleftrightarrow> wrote (s_tx s) (g_mem (s_glob s)) a v m t
     \<and> reading H obs (s_tx t) (s_glob t) \<and> same_snap (s_tx s) (s_tx t)
     \<and> tx_nesting (s_tx t) = tx_nesting (s_tx s) \<and> (\<forall>j. covered (s_tx s) j \<longrightarrow> covered (s_tx t) j)"

lemma stored_later:
  assumes "s_tx u = s_tx s" "same_covered (s_tx s) (g_mem (s_glob s)) (g_mem (s_glob u))" "stored H obs u a v m t"
  shows "stored H obs s a v m t"
  using assms wrote_later [OF assms(2)] by (simp add: stored_def)

definition new_entry :: "w64 \<Rightarrow> w64 \<Rightarrow> w64 \<Rightarrow> w64 \<Rightarrow> w_entry" where
  "new_entry a x m ver = \<lparr>we_addr = a, we_value = x, we_mask = m, we_version = ver,
     we_lock = GET_LOCK a, we_next = None, we_no_drop = False\<rparr>"

text \<open>The accesses of a write look at memory at most once.\<close>

definition looked :: "params \<Rightarrow> st \<Rightarrow> st \<Rightarrow> bool" where
  "looked P s t \<longleftrightarrow> s_glob t = s_glob s \<or> s_glob t = s_glob (env_step P s)"

lemma do_write_shape:
  "wp (wbetl_do_write P prev a v m (GET_LOCK a) ver) s (\<lambda>r t. looked P s t
     \<and> (\<exists>x. s_tx t = (s_tx s)\<lparr>tx_ws := link_entry prev (new_entry a x m ver) (tx_ws (s_tx s)),
          tx_count := Suc (tx_count (s_tx s))\<rparr>)) never"
  by (cases "m = 0"; cases "m = - 1") (auto simp: wbetl_do_write_def looked_def new_entry_def)

lemma update_entry_shape:
  "wp (wbetl_update_entry P i a v m) s (\<lambda>r t. looked P s t
     \<and> (\<exists>x y. s_tx t = (s_tx s)\<lparr>tx_ws := (tx_ws (s_tx s))[i := (tx_ws (s_tx s) ! i)\<lparr>we_value := x, we_mask := y\<rparr>]\<rparr>)) never"
  by (cases "we_mask (tx_ws (s_tx s) ! i) = 0"; cases "m = - 1")
    (auto simp: wbetl_update_entry_def Let_def looked_def)

lemma same_snap_follows: "same_snap tx tx' \<Longrightarrow> follows P H tx' = follows P H tx"
  by (rule follows_cong) (simp_all add: same_snap_def)

lemma looked_reading:
  assumes "follows P H tx" "reading H obs tx (s_glob s)" "looked P s t" "same_snap tx tx'"
    "like_log (tx_ws tx) (tx_ws tx')" "etl_inv tx' (g_locks (s_glob t))"
  shows "reading H obs tx' (s_glob t)"
proof -
  have "reading H obs tx (s_glob t)"
    using assms(2,3) reading_env [OF assms(1,2)] by (auto simp: looked_def)
  from reading_like [OF this assms(4-6)] show ?thesis .
qed

lemma like_log_link:
  "we_lock e' = we_lock e \<Longrightarrow> we_version e' = we_version e \<Longrightarrow> like_log (link_entry prev e ws) (link_entry prev e' ws)"
  by (auto simp: like_log_def link_entry_fields less_Suc_eq)

lemma do_write_stored:
  assumes inv: "etl_inv ((s_tx s)\<lparr>tx_ws := link_entry prev (new_entry a 0 0 ver) (tx_ws (s_tx s))\<rparr>) (g_locks (s_glob s))"
    and f: "follows P H (s_tx s)" and nw: "stm_has_written (s_tx s) a = None"
    and rd: "reading H obs ((s_tx s)\<lparr>tx_ws := link_entry prev (new_entry a 0 0 ver) (tx_ws (s_tx s))\<rparr>) (s_glob s)"
  shows "wp (wbetl_do_write P prev a v m (GET_LOCK a) ver) s (\<lambda>r t. stored H obs s a v m t) never"
proof -
  let ?tx = "(s_tx s)\<lparr>tx_ws := link_entry prev (new_entry a 0 0 ver) (tx_ws (s_tx s))\<rparr>"
  have e: "we_addr (new_entry a 0 0 ver) = a" "we_lock (new_entry a 0 0 ver) = GET_LOCK a"
    "we_next (new_entry a 0 0 ver) = None" "we_version (new_entry a 0 0 ver) = ver"
    by (simp_all add: new_entry_def)
  have f': "follows P H ?tx" using f follows_cong [of ?tx "s_tx s"] by simp
  have fin: "stored H obs s a v m t" if w: "wrote (s_tx s) (g_mem (s_glob s)) a v m t" and l: "looked P s t"
    and x: "s_tx t = (s_tx s)\<lparr>tx_ws := link_entry prev (new_entry a x m ver) (tx_ws (s_tx s)),
      tx_count := Suc (tx_count (s_tx s))\<rparr>" for t x
  proof -
    have "like_log (tx_ws ?tx) (tx_ws (s_tx t))" using x by (simp add: like_log_link new_entry_def)
    moreover have "same_snap ?tx (s_tx t)" "same_snap (s_tx s) (s_tx t)" using x by (simp_all add: same_snap_def)
    moreover have "covered (s_tx t) j" if "covered (s_tx s) j" for j
      using that x covered_link [of prev "new_entry a x m ver" "s_tx s" j] by (simp add: covered_def)
    ultimately show ?thesis
      using looked_reading [OF f' rd l, of "s_tx t"] w x by (simp add: stored_def wrote_def)
  qed
  show ?thesis
    by (rule wp_mono [OF wp_conj_never [OF do_write [OF inv refl followsD(1) [OF f] nw e] do_write_shape]])
      (use fin in blast)+
qed

lemma update_entry_stored:
  assumes rd: "reading H obs (s_tx s) (s_glob s)" and f: "follows P H (s_tx s)"
    and hw: "stm_has_written (s_tx s) a = Some i" and m: "m \<noteq> 0"
  shows "wp (wbetl_update_entry P i a v m) s (\<lambda>r t. stored H obs s a v m t) never"
proof -
  have inv: "etl_inv (s_tx s) (g_locks (s_glob s))" using rd by (simp add: reading_def)
  have fin: "stored H obs s a v m t" if w: "wrote (s_tx s) (g_mem (s_glob s)) a v m t" and l: "looked P s t"
    and x: "s_tx t = (s_tx s)\<lparr>tx_ws := (tx_ws (s_tx s))[i := (tx_ws (s_tx s) ! i)\<lparr>we_value := x, we_mask := y\<rparr>]\<rparr>"
    for t x y
  proof -
    have "i < length (tx_ws (s_tx s))" using has_written_Some [OF hw] by simp
    then have "like_log (tx_ws (s_tx s)) (tx_ws (s_tx t))" using x by (simp add: like_log_def nth_list_update)
    moreover have "same_snap (s_tx s) (s_tx t)" using x by (simp add: same_snap_def)
    ultimately show ?thesis
      using looked_reading [OF f rd l, of "s_tx t"] w x like_log_held(1) [of "s_tx s" "s_tx t"]
      by (simp add: stored_def wrote_def)
  qed
  show ?thesis
    by (rule wp_mono [OF wp_conj_never [OF update_entry [OF inv refl followsD(1) [OF f] hw m] update_entry_shape]])
      (use fin in blast)+
qed

lemma link_step:
  assumes rd: "reading H obs tx g" and room: "length (tx_ws tx) < tx_ws_size tx"
    and nw: "stm_has_written tx a = None" and e: "e = new_entry a 0 0 (we_version (tx_ws tx ! j))"
    and j: "j < length (tx_ws tx)" "we_lock (tx_ws tx ! j) = GET_LOCK a"
      "covered_from (tx_ws tx) (GET_LOCK a) (Suc j) = None" and c: "covered tx (GET_LOCK a)"
  shows "etl_inv (tx\<lparr>tx_ws := link_entry (Some j) e (tx_ws tx)\<rparr>) (g_locks g)"
    "reading H obs (tx\<lparr>tx_ws := link_entry (Some j) e (tx_ws tx)\<rparr>) g"
proof -
  have inv: "etl_inv tx (g_locks g)" using rd by (simp add: reading_def)
  have e': "we_addr e = a" "we_lock e = GET_LOCK a" "we_next e = None" "we_version e = we_version (tx_ws tx ! j)"
    by (simp_all add: e new_entry_def)
  have "last_covered (tx_ws tx) (GET_LOCK a) (Some j)" using j by (simp add: last_covered_def)
  then show inv': "etl_inv (tx\<lparr>tx_ws := link_entry (Some j) e (tx_ws tx)\<rparr>) (g_locks g)"
    using etl_inv_link [OF inv room nw e'(1-3), of "Some j" "g_locks g"] e'(4) by simp
  show "reading H obs (tx\<lparr>tx_ws := link_entry (Some j) e (tx_ws tx)\<rparr>) g"
    by (rule reading_link [OF rd _ inv']) (simp add: e' c)
qed

lemma write_owned_stored:
  assumes rd: "reading H obs (s_tx s) (s_glob s)" and f: "follows P H (s_tx s)"
    and rb: "\<And>c. may_retry c \<Longrightarrow> wp (rb c) s (\<lambda>_ _. False) anyhow"
    and i: "covered_from (tx_ws (s_tx s)) (GET_LOCK a) 0 = Some i"
  shows "wp (wbetl_write_owned P rb (LOCK_GET_ADDR (own_word (s_tx s) i)) a v m) s
           (\<lambda>r t. stored H obs s a v m t) anyhow"
proof -
  let ?tx = "s_tx s"
  have inv: "etl_inv ?tx (g_locks (s_glob s))" using rd by (simp add: reading_def)
  have cov: "covered ?tx (GET_LOCK a)" using i by (simp add: covered_def)
  have "i < length (tx_ws ?tx)" "ws_placed ?tx" using i inv by (simp_all add: covered_from_Some etl_inv_def)
  then have ix: "we_index ?tx (LOCK_GET_ADDR (own_word ?tx i)) = i" by (simp add: own_word_facts)
  obtain j where j: "chase (Suc (length (tx_ws ?tx))) (tx_ws ?tx) a i = Some (j, stm_has_written ?tx a \<noteq> None)"
      "j < length (tx_ws ?tx)" "we_lock (tx_ws ?tx ! j) = GET_LOCK a"
      "stm_has_written ?tx a \<noteq> None \<longrightarrow> stm_has_written ?tx a = Some j"
      "stm_has_written ?tx a = None \<longrightarrow> covered_from (tx_ws ?tx) (GET_LOCK a) (Suc j) = None"
    using chase_viewE [OF inv i] .
  have "may_retry STM_ABORT_EXTEND_WS" by (simp add: may_retry_def reason_defs)
  note rb_full = rb [OF this]
  consider (zero) "m = 0" | (found) "m \<noteq> 0" "stm_has_written ?tx a = Some j"
    | (full) "m \<noteq> 0" "stm_has_written ?tx a = None" "length (tx_ws ?tx) = tx_ws_size ?tx"
    | (link) "m \<noteq> 0" "stm_has_written ?tx a = None" "length (tx_ws ?tx) < tx_ws_size ?tx"
    using j(4) inv by (cases "stm_has_written ?tx a") (auto simp: etl_inv_def ws_placed_def le_less)
  then show ?thesis
  proof cases
    case zero
    then show ?thesis
      using rd inv cov by (simp add: wbetl_write_owned_def stored_def wrote_def writes_zero same_snap_def)
  next
    case found
    have "wp (wbetl_update_entry P j a v m) s (\<lambda>r t. stored H obs s a v m t) anyhow"
      by (rule wp_mono [OF update_entry_stored [OF rd f found(2,1)]]) simp_all
    then show ?thesis using found j(1) by (simp add: wbetl_write_owned_def ix del: chase.simps)
  next
    case full
    have "wp (rb STM_ABORT_EXTEND_WS) s (\<lambda>_ _. True) anyhow" by (rule wp_mono [OF rb_full]) simp_all
    then show ?thesis using full j(1) by (simp add: wbetl_write_owned_def ix del: chase.simps)
  next
    case link
    have "covered_from (tx_ws ?tx) (GET_LOCK a) (Suc j) = None" using j(5) link(2) by simp
    note step = link_step [OF rd link(3,2) refl j(2,3) this cov]
    have "wp (wbetl_do_write P (Some j) a v m (GET_LOCK a) (we_version (tx_ws ?tx ! j))) s
        (\<lambda>r t. stored H obs s a v m t) anyhow"
      by (rule wp_mono [OF do_write_stored [OF step(1) f link(2) step(2)]]) simp_all
    then show ?thesis using link j(1) by (simp add: wbetl_write_owned_def ix del: chase.simps)
  qed
qed

lemma acquire_stored:
  assumes rd: "reading H obs (s_tx s) (s_glob s)" and f: "follows P H (s_tx s)"
    and room: "length (tx_ws (s_tx s)) < tx_ws_size (s_tx s)"
    and free: "LOCK_GET_OWNED (g_locks (s_glob s) (GET_LOCK a)) = 0" "ver = LOCK_GET_TIMESTAMP (g_locks (s_glob s) (GET_LOCK a))"
    and ok: "\<not> at_read_only (tx_attr (s_tx s))" "stm_has_read (s_tx s) (GET_LOCK a) \<noteq> None \<Longrightarrow> ver \<le> tx_end (s_tx s)"
  shows "wp (wbetl_do_write P None a v m (GET_LOCK a) ver)
           (upd_glob (\<lambda>g. g\<lparr>g_locks := (g_locks g)(GET_LOCK a := own_word (s_tx s) (length (tx_ws (s_tx s))))\<rparr>) s)
           (\<lambda>r t. stored H obs s a v m t) never"
proof -
  let ?tx = "s_tx s" and ?k = "GET_LOCK a" and ?e = "new_entry a 0 0 ver"
  let ?u = "upd_glob (\<lambda>g. g\<lparr>g_locks := (g_locks g)(?k := own_word ?tx (length (tx_ws ?tx)))\<rparr>) s"
  have inv: "etl_inv ?tx (g_locks (s_glob s))" using rd by (simp add: reading_def)
  then have pl: "ws_placed ?tx" and lw: "locks_wf ?tx (g_locks (s_glob s))" and wf: "ws_wf (tx_ws ?tx)"
    by (simp_all add: etl_inv_def)
  have "\<not> mine ?tx (g_locks (s_glob s) ?k)" using free(1) mine_owned by blast
  then have unc: "\<not> covered ?tx ?k" using locks_wf_covered(3) [OF pl lw] by simp
  have nw: "stm_has_written ?tx a = None"
    using has_written_covered [OF wf, of a] unc by (cases "stm_has_written ?tx a") auto
  have e: "we_addr ?e = a" "we_lock ?e = ?k" "we_next ?e = None" "we_version ?e = ver"
    by (simp_all add: new_entry_def)
  have "last_covered (tx_ws ?tx) ?k None" using unc by (simp add: last_covered_def covered_def)
  then have inv': "etl_inv (?tx\<lparr>tx_ws := link_entry None ?e (tx_ws ?tx)\<rparr>) (g_locks (s_glob ?u))"
    using etl_inv_link [OF inv room nw e(1-3), of None "g_locks (s_glob ?u)"] by simp
  have "reading H obs (?tx\<lparr>tx_ws := link_entry None ?e (tx_ws ?tx)\<rparr>)
      ((s_glob s)\<lparr>g_locks := (g_locks (s_glob s))(?k := own_word ?tx (length (tx_ws ?tx)))\<rparr>)"
    by (rule reading_acquire [OF rd e(2) free(1)]) (use free(2) e(4) ok inv' in simp_all)
  then have "wp (wbetl_do_write P None a v m ?k ver) ?u (\<lambda>r t. stored H obs ?u a v m t) never"
    by (intro do_write_stored) (use inv' f nw in simp_all)
  then show ?thesis by (simp add: stored_def)
qed

lemma write_loop_stored:
  assumes f: "follows P H tx" and lv: "live tx" and ro: "\<not> at_read_only (tx_attr tx)"
    and rb: "\<And>c t. live (s_tx t) \<Longrightarrow> may_retry c \<Longrightarrow> wp (rb c) t (\<lambda>_ _. False) anyhow"
  shows "s_tx s = tx \<Longrightarrow> reading H obs tx (s_glob s) \<Longrightarrow>
    wp (wbetl_write_loop n P rb a v m) s (\<lambda>r t. stored H obs s a v m t) anyhow"
proof (induction n arbitrary: s)
  case 0
  then show ?case by simp
next
  case (Suc n)
  let ?k = "GET_LOCK a" and ?u = "env_step P s" and ?w = "env_step P (env_step P s)"
  let ?Q = "\<lambda>r t. stored H obs s a v m t"
  note tx = Suc.prems(1) and rd = Suc.prems(2)
  have u: "reading H obs tx (s_glob ?u)" and w: "reading H obs tx (s_glob ?w)"
    using reading_env [OF f rd] reading_env [OF f reading_env [OF f rd]] by simp_all
  have inv: "etl_inv tx (g_locks (s_glob s))" "etl_inv tx (g_locks (s_glob ?u))"
    using rd u by (simp_all add: reading_def)
  have su: "same_covered tx (g_mem (s_glob s)) (g_mem (s_glob ?u))"
    using same_covered_env [OF followsD(1) [OF f] inv(1)] by simp
  have sw: "same_covered tx (g_mem (s_glob s)) (g_mem (s_glob ?w))"
    using same_covered_trans [OF su] same_covered_env [OF followsD(1) [OF f] inv(2)] by simp
  have later: "wp c x Q' anyhow \<Longrightarrow> (\<And>r t. Q' r t \<Longrightarrow> stored H obs x a v m t) \<Longrightarrow>
      s_tx x = tx \<Longrightarrow> same_covered tx (g_mem (s_glob s)) (g_mem (s_glob x)) \<Longrightarrow> wp c x ?Q anyhow"
    for c :: "nat option prog" and x Q'
    using stored_later [of x s] tx by (auto elim!: wp_mono)
  have jump: "wp (rb c) x R anyhow" if "s_tx x = tx" "may_retry c" for x c R
    by (rule wp_mono [OF rb [OF _ that(2)]]) (use that lv in simp_all)
  have mr: "may_retry STM_ABORT_WW_CONFLICT" "may_retry STM_ABORT_VAL_WRITE" "may_retry STM_ABORT_EXTEND_WS"
    by (simp_all add: may_retry_def reason_defs)
  let ?l = "g_locks (s_glob ?u) ?k"
  have irr: "tx_irrevocable tx = 0" using lv by (simp add: live_def)
  show ?case
  proof (cases "LOCK_GET_OWNED ?l = 0")
    case owned: False
    have "wp (wbetl_write_owned P rb (LOCK_GET_ADDR ?l) a v m) ?u ?Q anyhow" if "in_ws tx (LOCK_GET_ADDR ?l)"
    proof -
      have "covered tx ?k" using locks_wf_test [of tx "g_locks (s_glob ?u)" ?k] inv(2) owned that
        by (simp add: etl_inv_def)
      then obtain i where i: "covered_from (tx_ws tx) ?k 0 = Some i" "?l = own_word tx i"
        using covered_first [OF inv(2)] by blast
      have "wp (wbetl_write_owned P rb (LOCK_GET_ADDR (own_word (s_tx ?u) i)) a v m) ?u
          (\<lambda>r t. stored H obs ?u a v m t) anyhow"
        by (rule write_owned_stored) (use u f i(1) tx rb lv in simp_all)
      then show ?thesis using later [OF _ _ _ su] i(2) tx by simp
    qed
    then show ?thesis using owned irr jump [of ?u] mr tx by simp
  next
    case free: True
    let ?big = "tx_end tx < LOCK_GET_TIMESTAMP ?l \<and> stm_has_read tx ?k \<noteq> None"
    have again: "wp (wbetl_write_loop n P rb a v m) ?w ?Q anyhow"
      by (rule later [OF Suc.IH]) (use w sw tx in simp_all)
    have got: "wp (wbetl_do_write P None a v m ?k (LOCK_GET_TIMESTAMP ?l))
        (upd_glob (\<lambda>g. g\<lparr>g_locks := (g_locks g)(?k := own_word tx (length (tx_ws tx)))\<rparr>) ?w) ?Q anyhow"
      if "\<not> ?big" "length (tx_ws tx) \<noteq> tx_ws_size tx" "g_locks (s_glob ?w) ?k = ?l"
    proof -
      have "length (tx_ws tx) < tx_ws_size tx"
        using that(2) inv by (auto simp: etl_inv_def ws_placed_def)
      then have "wp (wbetl_do_write P None a v m ?k (LOCK_GET_TIMESTAMP ?l))
          (upd_glob (\<lambda>g. g\<lparr>g_locks := (g_locks g)(?k := own_word (s_tx ?w) (length (tx_ws (s_tx ?w))))\<rparr>) ?w)
          (\<lambda>r t. stored H obs ?w a v m t) never"
        by (intro acquire_stored) (use w f free that ro tx in \<open>auto simp: not_less\<close>)
      from wp_mono [OF this, of "\<lambda>r t. stored H obs s a v m t" anyhow] show ?thesis
        using stored_later [of ?w s H obs a v m] tx sw by simp
    qed
    show ?thesis
    proof (cases ?big)
      case True
      then show ?thesis using free irr jump [of ?u] mr tx by simp
    next
      case small: False
      then show ?thesis
        using free irr tx again got jump [of ?u] mr
        by (cases "length (tx_ws tx) = tx_ws_size tx") (auto simp: own_word_def)
    qed
  qed
qed

section \<open>Reading beside others\<close>

lemma wp_true: "wp m s (\<lambda>_ _. True) anyhow"
  by (simp add: wp_def split: prod.split outcome.split)

lemma own_entry_shape:
  "wp (wbetl_read_own_entry P a w) s (\<lambda>v t. looked P s t) anyhow"
  by (simp add: wbetl_read_own_entry_def looked_def del: chase.simps split: option.split prod.split)

lemma looked_onward:
  assumes "follows P H (s_tx s)" "onward H obs s u" "looked P u t" "s_tx t = s_tx u"
  shows "onward H obs s t"
  using assms(2-4) onward_env [OF assms(1,2)] by (auto simp: looked_def onward_def)

lemma read_covered_onward:
  assumes f: "follows P H (s_tx s)" and rd: "reading H obs (s_tx s) (s_glob s)"
    and c: "covered (s_tx s) (GET_LOCK a)"
  shows "wp (wbetl_read_loop n P rb a None) s
    (\<lambda>v t. v = wview (s_tx s) (g_mem (s_glob s)) a \<and> onward H obs s t) anyhow"
proof (cases n)
  case 0
  then show ?thesis by simp
next
  case (Suc m)
  let ?tx = "s_tx s" and ?u = "env_step P s"
  have u: "onward H obs s ?u" using onward_env [OF f onward_refl [OF rd]] .
  have inv: "etl_inv ?tx (g_locks (s_glob s))" "etl_inv ?tx (g_locks (s_glob ?u))"
    using rd u by (simp_all add: onward_def reading_def)
  obtain i where i: "covered_from (tx_ws ?tx) (GET_LOCK a) 0 = Some i" "i < length (tx_ws ?tx)"
    "g_locks (s_glob ?u) (GET_LOCK a) = own_word ?tx i"
    using covered_first [OF inv(2) c] .
  have pl: "ws_placed ?tx" using inv by (simp add: etl_inv_def)
  note own = own_word_facts [OF pl i(2)]
  have mem: "wview ?tx (g_mem (s_glob ?u)) a = wview ?tx (g_mem (s_glob s)) a"
    using wview_stable [OF followsD(1) [OF f] inv(1) c] by simp
  have "wp (wbetl_read_own_entry P a (LOCK_GET_ADDR (own_word ?tx i))) ?u
      (\<lambda>v t. v = wview ?tx (g_mem (s_glob ?u)) a \<and> s_tx t = ?tx \<and> (quiet P \<longrightarrow> ticked ?u t)) never"
    by (rule read_own_entry [OF inv(2) _ followsD(1) [OF f] i(1)]) simp
  then have "wp (wbetl_read_own_entry P a (LOCK_GET_ADDR (own_word ?tx i))) ?u
      (\<lambda>v t. v = wview ?tx (g_mem (s_glob s)) a \<and> onward H obs s t) anyhow"
    by (rule wp_mono [OF wp_conj [OF _ own_entry_shape]]) (use looked_onward [OF f u] mem in auto)
  then show ?thesis using i(3) own by (simp add: Suc)
qed

text \<open>
  A memory \<open>m\<close> agrees with what the transaction knows: with the values it read, and with memory
  under the locks it holds.
\<close>

definition agrees :: "(w64 \<times> w64) set \<Rightarrow> st \<Rightarrow> (w64 \<Rightarrow> w64) \<Rightarrow> bool" where
  "agrees obs s m \<longleftrightarrow> (\<forall>(a, x) \<in> obs. m a = x)
     \<and> (\<forall>a. covered (s_tx s) (GET_LOCK a) \<longrightarrow> m a = g_mem (s_glob s) a)"

definition beside :: "params \<Rightarrow> history \<Rightarrow> w64 \<Rightarrow> (w64 \<times> w64) set \<Rightarrow> st \<Rightarrow> bool" where
  "beside P H now obs s \<longleftrightarrow> polite P \<and> follows P H (s_tx s) \<and> live (s_tx s)
     \<and> \<not> uses_ctl P (s_tx s) \<and> \<not> uses_wt P (s_tx s)
     \<and> tx_nesting (s_tx s) = 1 \<and> (tx_ws (s_tx s) = [] \<or> \<not> at_read_only (tx_attr (s_tx s)))
     \<and> now \<le> tx_start (s_tx s) \<and> reading H obs (s_tx s) (s_glob s)"

lemma rollback_live:
  "polite P \<Longrightarrow> live (s_tx t) \<Longrightarrow> may_retry c \<Longrightarrow> wp (stm_rollback n P c) t (\<lambda>_ _. False) anyhow"
  by (rule rollback_jumps) (simp_all add: live_def)

lemma onward_beside:
  assumes "beside P H now obs s" "onward H obs' s t"
  shows "beside P H now obs' t"
proof -
  have sl: "same_log (s_tx s) (s_tx t)" using assms(2) by (simp add: onward_def)
  have "tx_attr (s_tx t) = tx_attr (s_tx s)" using sl by (simp add: same_log_def)
  note u = uses_cong [OF this]
  show ?thesis
    using assms sl same_log_facts(1) [OF sl] live_same_log [OF sl] u
    by (simp add: beside_def onward_def same_log_def)
qed

lemma onward_agrees:
  assumes "onward H obs' s t" "obs \<subseteq> obs'" "agrees obs' t m"
  shows "agrees obs s m" "wview (s_tx t) m = wview (s_tx s) m"
proof -
  have sl: "same_log (s_tx s) (s_tx t)" and sc: "same_covered (s_tx s) (g_mem (s_glob s)) (g_mem (s_glob t))"
    using assms(1) by (simp_all add: onward_def)
  show "wview (s_tx t) m = wview (s_tx s) m" using same_log_facts(6) [OF sl] by simp
  show "agrees obs s m"
    using assms(2,3) sc same_log_facts(3) [OF sl] by (auto simp: agrees_def same_covered_def)
qed

lemma wp_dispatch:
  assumes "\<not> uses_ctl P (s_tx s)" "\<not> uses_wt P (s_tx s)"
  shows "wp (stm_wbetl_read n P a) s Q anyhow \<Longrightarrow> wp (stm_load n P a) s Q anyhow"
    "(\<not> at_read_only (tx_attr (s_tx s)) \<Longrightarrow> wp (stm_wbetl_write n P a v m) s (\<lambda>_. R ()) anyhow) \<Longrightarrow>
       wp (stm_store2 n P a v m) s R anyhow"
  using assms
  by (simp_all add: stm_load_def stm_store2_def with_tx_def tls_get_tx_def int_stm_load_def int_stm_store2_def stm_write_def)

lemma load_beside:
  assumes b: "beside P H now obs s"
  shows "wp (stm_load n P a) s (\<lambda>v t. \<exists>obs'. (beside P H now obs' t \<and> tx_ws (s_tx t) = tx_ws (s_tx s)) \<and> (\<forall>m. agrees obs' t m \<longrightarrow>
    agrees obs s m \<and> v = wview (s_tx s) m a \<and> wview (s_tx t) m = wview (s_tx s) m)) anyhow"
    (is "wp _ _ ?Q _")
proof -
  let ?tx = "s_tx s"
  have f: "follows P H ?tx" and lv: "live ?tx" and rd: "reading H obs ?tx (s_glob s)" and po: "polite P"
    and u: "\<not> uses_ctl P ?tx" "\<not> uses_wt P ?tx" using b by (simp_all add: beside_def)
  have wf: "ws_wf (tx_ws ?tx)" using rd by (simp add: reading_def etl_inv_def)
  have "wp (wbetl_read_loop n P (stm_rollback n P) a None) s ?Q anyhow"
  proof (cases "covered ?tx (GET_LOCK a)")
    case True
    have "?Q v t" if "v = wview ?tx (g_mem (s_glob s)) a \<and> onward H obs s t" for v t
    proof (intro exI [of _ obs] conjI allI impI)
      show "beside P H now obs t" using onward_beside [OF b] that by blast
      have o: "onward H obs s t" using that by simp
      then show "tx_ws (s_tx t) = tx_ws ?tx" by (simp add: onward_def same_log_def)
      fix m assume m: "agrees obs t m"
      from onward_agrees [OF o subset_refl m]
      show ag: "agrees obs s m" "wview (s_tx t) m = wview ?tx m" .
      then have "m a = g_mem (s_glob s) a" using True by (simp add: agrees_def)
      then show "v = wview ?tx m a" using that by (simp add: wview_def split: option.split)
    qed
    then show ?thesis by (rule wp_mono [OF read_covered_onward [OF f rd True]]) simp_all
  next
    case False
    have fin: "?Q v t" if o: "onward H (insert (a, v) obs) s t" for v t
    proof (intro exI [of _ "insert (a, v) obs"] conjI allI impI)
      show "beside P H now (insert (a, v) obs) t" using onward_beside [OF b o] .
      show "tx_ws (s_tx t) = tx_ws ?tx" using o by (simp add: onward_def same_log_def)
      fix m assume m: "agrees (insert (a, v) obs) t m"
      from onward_agrees [OF o subset_insertI m]
      show "agrees obs s m" "wview (s_tx t) m = wview ?tx m" .
      show "v = wview ?tx m a" using m wview_uncovered [OF wf False] by (simp add: agrees_def)
    qed
    have reads: "wp (wbetl_read_loop n P (stm_rollback n P) a None) s (\<lambda>v t. onward H (insert (a, v) obs) s t) anyhow"
      by (rule read_loop_records [OF rollback_live [OF po] f lv rd False]) auto
    show ?thesis by (rule wp_mono [OF reads fin]) (assumption | rule TrueI)+
  qed
  then show ?thesis
    by (intro wp_dispatch(1) [OF u]) (simp add: stm_wbetl_read_def stm_wbetl_read_invisible_def)
qed

lemma store_beside:
  assumes b: "beside P H now obs s"
  shows "wp (stm_store2 n P a v k) s (\<lambda>_ t. \<exists>obs'. beside P H now obs' t \<and> (\<forall>m. agrees obs' t m \<longrightarrow>
    agrees obs s m \<and> wview (s_tx t) m = (wview (s_tx s) m)(a := merge_mask (wview (s_tx s) m a) v k))) anyhow"
    (is "wp _ _ ?Q _")
proof -
  let ?tx = "s_tx s"
  have f: "follows P H ?tx" and lv: "live ?tx" and rd: "reading H obs ?tx (s_glob s)" and po: "polite P"
    and u: "\<not> uses_ctl P ?tx" "\<not> uses_wt P ?tx" using b by (simp_all add: beside_def)
  have fin: "?Q () t" if st: "stored H obs s a v k t" and ro: "\<not> at_read_only (tx_attr ?tx)" for t
  proof (intro exI [of _ obs] conjI allI impI)
    have sn: "same_snap ?tx (s_tx t)" and w: "wrote ?tx (g_mem (s_glob s)) a v k t"
      using st by (simp_all add: stored_def)
    have "tx_attr (s_tx t) = tx_attr ?tx" using sn by (simp add: same_snap_def)
    note us = uses_cong [OF this]
    show "beside P H now obs t"
      using b st sn ro same_snap_follows [OF sn] us by (simp add: beside_def stored_def live_def same_snap_def)
    fix m assume m: "agrees obs t m"
    have sc: "same_covered ?tx (g_mem (s_glob s)) (g_mem (s_glob t))" and c: "covered (s_tx t) (GET_LOCK a)"
      and wr: "writes ?tx (s_tx t) m a v k"
      using w m by (auto simp: wrote_def agrees_def)
    show "wview (s_tx t) m = (wview ?tx m)(a := merge_mask (wview ?tx m a) v k)"
      using wr by (intro ext) (simp add: writes_def)
    have "\<forall>j. covered ?tx j \<longrightarrow> covered (s_tx t) j" using st by (simp add: stored_def)
    then show "agrees obs s m" using m sc by (auto simp: agrees_def same_covered_def)
  qed
  have "wp (stm_wbetl_write n P a v k) s (\<lambda>_. ?Q ()) anyhow" if ro: "\<not> at_read_only (tx_attr ?tx)"
    unfolding stm_wbetl_write_def
    by (rule wp_mono [OF write_loop_stored [OF f lv ro rollback_live [OF po] refl rd] fin [OF _ ro]])
      (assumption | rule TrueI)+
  then show ?thesis by (rule wp_dispatch(2) [OF u])
qed

section \<open>The contract under interference\<close>

text \<open>
  Memory that other threads change: an access is explained by every memory that agrees with what
  the transaction knows afterwards.  \<open>ok o s\<close>: the transaction in \<open>s\<close> has observed \<open>o\<close>; \<open>vw s m\<close>:
  what it sees when committed memory is \<open>m\<close>.
\<close>

locale observed =
  fixes ld :: "w64 \<Rightarrow> w64 prog" and st2 :: "w64 \<Rightarrow> w64 \<Rightarrow> w64 \<Rightarrow> unit prog"
    and ok :: "'o \<Rightarrow> st \<Rightarrow> bool" and ag :: "'o \<Rightarrow> st \<Rightarrow> (w64 \<Rightarrow> w64) \<Rightarrow> bool"
    and vw :: "st \<Rightarrow> (w64 \<Rightarrow> w64) \<Rightarrow> w64 \<Rightarrow> w64"
  assumes load: "ok obs s \<Longrightarrow> wp (ld a) s (\<lambda>v t. \<exists>obs'. ok obs' t \<and> (\<forall>m. ag obs' t m \<longrightarrow>
      ag obs s m \<and> v = vw s m a \<and> vw t m = vw s m)) anyhow"
    and store: "ok obs s \<Longrightarrow> wp (st2 a v k) s (\<lambda>_ t. \<exists>obs'. ok obs' t \<and> (\<forall>m. ag obs' t m \<longrightarrow>
      ag obs s m \<and> vw t m = (vw s m)(a := merge_mask (vw s m a) v k))) anyhow"
begin

lemma run_ops_explained:
  "ok obs s \<Longrightarrow> wp (run_ops ld st2 ops) s (\<lambda>vs t. \<exists>obs'. ok obs' t \<and> (\<forall>m. ag obs' t m \<longrightarrow>
     ag obs s m \<and> (vs, vw t m) = spec_ops ops (vw s m))) anyhow"
proof (induction ops arbitrary: obs s)
  case Nil
  then show ?case by auto
next
  case (Cons x ops)
  let ?Q = "\<lambda>vs t. \<exists>obs'. ok obs' t \<and> (\<forall>m. ag obs' t m \<longrightarrow> ag obs s m \<and> (vs, vw t m) = spec_ops (x # ops) (vw s m))"
  show ?case
  proof (cases x)
    case (Load a)
    have rest: "wp (run_ops ld st2 ops) t (\<lambda>vs. ?Q (v # vs)) anyhow"
      if o: "ok obs1 t" "\<forall>m. ag obs1 t m \<longrightarrow> ag obs s m \<and> v = vw s m a \<and> vw t m = vw s m" for v t obs1
    proof (rule wp_mono [OF Cons.IH [OF o(1)]])
      fix vs u
      assume "\<exists>obs'. ok obs' u \<and> (\<forall>m. ag obs' u m \<longrightarrow> ag obs1 t m \<and> (vs, vw u m) = spec_ops ops (vw t m))"
      then obtain obs' where "ok obs' u" "\<And>m. ag obs' u m \<Longrightarrow> ag obs1 t m \<and> (vs, vw u m) = spec_ops ops (vw t m)"
        by blast
      then show "?Q (v # vs) u" using o(2) by (intro exI [of _ obs']) (force simp: Load split: prod.split)
    qed simp
    show ?thesis
      unfolding Load run_ops.simps wp_bnd wp_ret
      by (rule wp_mono [OF load [OF Cons.prems]]) (use rest Load in blast)+
  next
    case (Store a v k)
    have rest: "wp (run_ops ld st2 ops) t ?Q anyhow"
      if o: "ok obs1 t" "\<forall>m. ag obs1 t m \<longrightarrow> ag obs s m \<and> vw t m = (vw s m)(a := merge_mask (vw s m a) v k)" for t obs1
    proof (rule wp_mono [OF Cons.IH [OF o(1)]])
      fix vs u
      assume "\<exists>obs'. ok obs' u \<and> (\<forall>m. ag obs' u m \<longrightarrow> ag obs1 t m \<and> (vs, vw u m) = spec_ops ops (vw t m))"
      then obtain obs' where "ok obs' u" "\<And>m. ag obs' u m \<Longrightarrow> ag obs1 t m \<and> (vs, vw u m) = spec_ops ops (vw t m)"
        by blast
      then show "?Q vs u" using o(2) by (intro exI [of _ obs']) (force simp: Store)
    qed simp
    show ?thesis
      unfolding Store run_ops.simps wp_thn
      by (rule wp_mono [OF store [OF Cons.prems]]) (use rest Store in blast)+
  qed
qed

end

interpretation etl_beside: observed "stm_load n P" "stm_store2 n P" "beside P H now" agrees "\<lambda>s. wview (s_tx s)"
  for n P H now
proof unfold_locales
  fix obs :: "(w64 \<times> w64) set" and s a
  assume b: "beside P H now obs s"
  show "wp (stm_load n P a) s (\<lambda>v t. \<exists>obs'. beside P H now obs' t \<and> (\<forall>m. agrees obs' t m \<longrightarrow>
      agrees obs s m \<and> v = wview (s_tx s) m a \<and> wview (s_tx t) m = wview (s_tx s) m)) anyhow"
    by (rule wp_mono [OF load_beside [OF b]]) blast+
qed (rule store_beside)

end
