(* ===== verification/Publish.thy ===== *)
theory Publish
  imports Serial
begin

text \<open>
  The commit of an update transaction beside other threads: validation finds every read still
  good at the time before the commit's own, and the copying of the write set makes memory tell
  the history again, now with the memory this transaction made.
\<close>

section \<open>Copying the write set\<close>

text \<open>
  At commit time \<open>T\<close>: entries from index \<open>i\<close> on still hold their locks, memory under those
  locks is \<open>base\<close> with the entries \<open>ws\<close> installed, and what is told of it is the memory to come.
\<close>

definition publishing ::
    "history \<Rightarrow> w64 \<Rightarrow> (w64 \<Rightarrow> w64) \<Rightarrow> stm_tx \<Rightarrow> nat \<Rightarrow> w_entry list \<Rightarrow> glob \<Rightarrow> bool" where
  "publishing H T base tx i ws g \<longleftrightarrow>
     (\<forall>k. mine tx (g_locks g k) \<longleftrightarrow> covered_from (tx_ws tx) k i \<noteq> None)
     \<and> tells H (NOT 0) (\<lambda>_. T) (wview tx base) tx g
     \<and> (\<forall>a. mine tx (g_locks g (GET_LOCK a)) \<longrightarrow> g_mem g a = install ws base a)"

lemma publishing_env:
  assumes "follows P H tx" "publishing H T base tx i ws g"
  shows "publishing H T base tx i ws (env P n g)"
proof -
  have m: "mine tx (g_locks (env P n g) k) = mine tx (g_locks g k)" for k
    using followsD(1) [OF assms(1)] unfolding rely_def by metis
  have "g_mem (env P n g) a = g_mem g a" if "mine tx (g_locks g (GET_LOCK a))" for a
    using followsD(1) [OF assms(1)] that unfolding rely_def by blast
  then show ?thesis
    using assms(2) followsD(4) [OF assms(1)] by (simp add: publishing_def m)
qed

lemma covered_from_step:
  "i < length ws \<Longrightarrow> covered_from ws k i = (if we_lock (ws ! i) = k then Some i else covered_from ws k (Suc i))"
  by (simp add: covered_from_def upt_conv_Cons del: upt_Suc)

lemma install_append: "install (xs @ ys) mem = install ys (install xs mem)"
  by (simp add: install_def)

lemma install_settled:
  assumes "ws_wf ws" "ws = xs @ ys" "covered_from ws (GET_LOCK a) (length xs) = None"
  shows "install xs mem a = install ws mem a"
proof -
  have "we_addr w \<noteq> a" if w: "w \<in> set ys" for w
  proof
    assume eq: "we_addr w = a"
    obtain j where j: "j < length ys" "w = ys ! j" using w by (auto simp: in_set_conv_nth)
    have "we_lock (ws ! (length xs + j)) \<noteq> GET_LOCK a"
      using assms(3) [unfolded covered_from_None, rule_format, of "length xs + j"] assms(2) j(1) by simp
    then show False using ws_wf_lock [OF assms(1), of "length xs + j"] assms(2) j eq by simp
  qed
  then show ?thesis
    unfolding assms(2) install_append by (intro install_other [symmetric]) auto
qed

lemma publish_store:
  assumes p: "publishing H T base tx i ws g" and m: "mine tx (g_locks g (GET_LOCK (we_addr e)))"
  shows "publishing H T base tx i (ws @ [e])
    (if we_mask e \<noteq> 0 then g\<lparr>g_mem := (g_mem g)(we_addr e := we_value e)\<rparr> else g)"
proof -
  let ?g = "g\<lparr>g_mem := (g_mem g)(we_addr e := we_value e)\<rparr>"
  have t: "tells H (NOT 0) (\<lambda>_. T) (wview tx base) tx g" using p by (simp add: publishing_def)
  have "tells H (NOT 0) (\<lambda>_. T) (wview tx base) tx ?g"
  proof (rule tellsI)
    fix a
    assume "LOCK_GET_OWNED (g_locks ?g (GET_LOCK a)) = 0"
    moreover from this have "a \<noteq> we_addr e" using m mine_owned by auto
    ultimately show "told H (NOT 0) a (LOCK_GET_TIMESTAMP (g_locks ?g (GET_LOCK a))) (g_clock ?g) (g_mem ?g a)"
      using tellsD(1) [OF t, of a] by simp
  qed (use tellsD(2) [OF t] in simp)
  then show ?thesis using p by (auto simp: publishing_def install_append)
qed

lemma publish_release:
  assumes p: "publishing H T base tx i ws g" and wf: "ws_wf (tx_ws tx)" and d: "distinct (map we_addr (tx_ws tx))"
    and T: "T \<le> VERSION_MAX" and split: "tx_ws tx = ws @ rest" "ws = front @ [e]" "i = length front"
  shows "publishing H T base tx (Suc i) ws
    (if we_next e = None then g\<lparr>g_locks := (g_locks g)(we_lock e := LOCK_SET_TIMESTAMP T)\<rparr> else g)"
proof -
  let ?g = "g\<lparr>g_locks := (g_locks g)(we_lock e := LOCK_SET_TIMESTAMP T)\<rparr>" and ?ws = "tx_ws tx"
  have t: "tells H (NOT 0) (\<lambda>_. T) (wview tx base) tx g"
    and mn: "\<And>k. mine tx (g_locks g k) \<longleftrightarrow> covered_from ?ws k i \<noteq> None"
    and mem: "\<And>a. mine tx (g_locks g (GET_LOCK a)) \<Longrightarrow> g_mem g a = install ws base a"
    using p by (simp_all add: publishing_def)
  have i: "i < length ?ws" "?ws ! i = e" using split by simp_all
  have here: "covered_from ?ws k i = (if we_lock e = k then Some i else covered_from ?ws k (Suc i))" for k
    using covered_from_step [OF i(1), of k] i(2) by simp
  have nx: "we_next e = covered_from ?ws (we_lock e) (Suc i)" using ws_wf_next [OF wf i(1)] i(2) by simp
  show ?thesis
  proof (cases "we_next e = None")
    case False
    then have "covered_from ?ws k i \<noteq> None \<longleftrightarrow> covered_from ?ws k (Suc i) \<noteq> None" for k
      using here nx by auto
    then show ?thesis using p False unfolding publishing_def by auto
  next
    case True
    have free: "LOCK_GET_OWNED (LOCK_SET_TIMESTAMP T) = 0" by simp
    then have "\<not> mine tx (LOCK_SET_TIMESTAMP T)" using mine_owned by blast
    then have mn': "mine tx (g_locks ?g k) \<longleftrightarrow> covered_from ?ws k (Suc i) \<noteq> None" for k
      using mn [of k] here [of k] nx True by auto
    have "tells H (NOT 0) (\<lambda>_. T) (wview tx base) tx ?g"
    proof (rule tellsI)
      fix a
      assume l: "LOCK_GET_OWNED (g_locks ?g (GET_LOCK a)) = 0"
      show "told H (NOT 0) a (LOCK_GET_TIMESTAMP (g_locks ?g (GET_LOCK a))) (g_clock ?g) (g_mem ?g a)"
      proof (cases "GET_LOCK a = we_lock e")
        case False
        then show ?thesis using tellsD(1) [OF t, of a] l by simp
      next
        case same: True
        have m: "mine tx (g_locks g (GET_LOCK a))" using mn here same by simp
        have "covered_from ?ws (GET_LOCK a) (length ws) = None" using nx True same split by simp
        then have "install ws base a = wview tx base a"
          using install_settled [OF wf split(1)] install_view [OF d] by simp
        then show ?thesis
          using tellsD(2) [OF t m] mem [OF m] same version_read_back [OF T] by simp
      qed
    next
      fix a
      assume "mine tx (g_locks ?g (GET_LOCK a))"
      then have "mine tx (g_locks g (GET_LOCK a))" using mn mn' here by auto
      then show "told H (NOT 0) a T (g_clock ?g) (wview tx base a)" using tellsD(2) [OF t] by simp
    qed
    moreover have "g_mem ?g a = install ws base a" if "mine tx (g_locks ?g (GET_LOCK a))" for a
      using that mn mn' here mem by auto
    ultimately show ?thesis using True mn' unfolding publishing_def by simp
  qed
qed

lemma publish_step:
  assumes f: "follows P H tx" and wf: "ws_wf (tx_ws tx)" "distinct (map we_addr (tx_ws tx))" and T: "T \<le> VERSION_MAX"
    and split: "tx_ws tx = front @ e # rest"
    and p: "publishing H T base tx (length front) front (s_glob s)" and tx: "s_tx s = tx"
  shows "wp (wbetl_install P T e) s
    (\<lambda>_ t. publishing H T base tx (length (front @ [e])) (front @ [e]) (s_glob t) \<and> s_tx t = tx) never"
proof -
  let ?i = "length front"
  define u where "u = (if we_mask e \<noteq> 0 then upd_glob (\<lambda>g. g\<lparr>g_mem := (g_mem g)(we_addr e := we_value e)\<rparr>) (env_step P s) else s)"
  define w where "w = (if we_next e = None then upd_glob (\<lambda>g. g\<lparr>g_locks := (g_locks g)(we_lock e := LOCK_SET_TIMESTAMP T)\<rparr>) (env_step P u) else u)"
  have lk: "we_lock e = GET_LOCK (we_addr e)" using ws_wf_lock [OF wf(1), of ?i] split by simp
  have own: "covered_from (tx_ws tx) (we_lock e) ?i \<noteq> None"
    using split by (simp add: covered_from_step)
  have mine: "mine tx (g_locks g (GET_LOCK (we_addr e)))" if "publishing H T base tx ?i front g" for g
    using that own lk by (simp add: publishing_def)
  have pe: "publishing H T base tx ?i front (s_glob (env_step P s))" using publishing_env [OF f p] by simp
  have u: "publishing H T base tx ?i (front @ [e]) (s_glob u)"
    using publish_store [OF p mine [OF p]] publish_store [OF pe mine [OF pe]]
    by (cases "we_mask e = 0") (simp_all add: u_def)
  have ue: "publishing H T base tx ?i (front @ [e]) (s_glob (env_step P u))" using publishing_env [OF f u] by simp
  have split': "tx_ws tx = (front @ [e]) @ rest" using split by simp
  have "publishing H T base tx (Suc ?i) (front @ [e]) (s_glob w)"
    using publish_release [OF u wf T split' refl refl] publish_release [OF ue wf T split' refl refl]
    by (cases "we_next e = None") (auto simp: w_def)
  moreover have "s_tx w = tx" using tx by (simp add: w_def u_def)
  moreover have "wp (wbetl_install P T e) s Q never = Q () w" for Q
    by (simp add: wbetl_install_def u_def w_def)
  ultimately show ?thesis by simp
qed

lemma publish_all:
  assumes f: "follows P H tx" and wf: "ws_wf (tx_ws tx)" "distinct (map we_addr (tx_ws tx))" and T: "T \<le> VERSION_MAX"
    and p: "publishing H T base tx 0 [] (s_glob s)" and tx: "s_tx s = tx"
  shows "wp (each_c (wbetl_install P T) (tx_ws tx)) s
    (\<lambda>_ t. publishing H T base tx (length (tx_ws tx)) (tx_ws tx) (s_glob t) \<and> s_tx t = tx) never"
  by (rule wp_each_inv [where I = "\<lambda>front t. publishing H T base tx (length front) front (s_glob t) \<and> s_tx t = tx"])
    (use publish_step [OF f wf T] p tx in auto)

section \<open>Clock and validation\<close>

text \<open>Between transactions: no lock is held, and every free lock tells the history.\<close>

definition at_rest :: "history \<Rightarrow> stm_tx \<Rightarrow> glob \<Rightarrow> bool" where
  "at_rest H tx g \<longleftrightarrow> (\<forall>k. \<not> mine tx (g_locks g k)) \<and> tells H (NOT 0) (\<lambda>_. 0) (\<lambda>_. 0) tx g"

lemma tells_free: "\<forall>k. \<not> mine tx (g_locks g k) \<Longrightarrow> tells H B vf xf tx g = tells H B vf' xf' tx g"
  by (simp add: tells_def Let_def)

lemma published_rest:
  assumes "publishing H T base tx (length (tx_ws tx)) ws g"
  shows "at_rest H tx g"
proof -
  have "covered_from (tx_ws tx) k (length (tx_ws tx)) = None" for k by (auto simp: covered_from_None)
  then have "\<forall>k. \<not> mine tx (g_locks g k)" using assms by (simp add: publishing_def)
  with tells_free [OF this, of H "NOT 0" "\<lambda>_. T" "wview tx base"] assms show ?thesis
    unfolding at_rest_def publishing_def by blast
qed

text \<open>The committed memory at the time the clock is taken, as far as the transaction knows it.\<close>

lemma reading_now:
  assumes rd: "reading H obs tx g"
  shows "LOCK_GET_OWNED (g_locks g (GET_LOCK a)) = 0 \<Longrightarrow> H (g_clock g) a = g_mem g a"
    "mine tx (g_locks g (GET_LOCK a)) \<Longrightarrow> H (g_clock g) a = g_mem g a"
proof -
  have t: "tells H (NOT 0) (held_version tx) (g_mem g) tx g" using rd by (simp add: reading_def)
  show "LOCK_GET_OWNED (g_locks g (GET_LOCK a)) = 0 \<Longrightarrow> H (g_clock g) a = g_mem g a"
    using toldD [OF tellsD(1) [OF t] told_le [OF tellsD(1) [OF t]] order_refl word_max] .
  show "mine tx (g_locks g (GET_LOCK a)) \<Longrightarrow> H (g_clock g) a = g_mem g a"
    using toldD [OF tellsD(2) [OF t] told_le [OF tellsD(2) [OF t]] order_refl word_max] .
qed

text \<open>Taking a commit time: the reads are still to be judged, the new memory is to be published.\<close>

lemma take_time:
  fixes g :: glob
  defines "c \<equiv> g_clock g"
  assumes rd: "reading H obs tx g"
  shows "judging H c c obs tx (g\<lparr>g_clock := c + 1\<rparr>)"
    "H (c + 1) = wview tx (H c) \<Longrightarrow> publishing H (c + 1) (H c) tx 0 [] (g\<lparr>g_clock := c + 1\<rparr>)"
proof -
  let ?g = "g\<lparr>g_clock := c + 1\<rparr>"
  have inv: "etl_inv tx (g_locks g)" and t: "tells H (NOT 0) (held_version tx) (g_mem g) tx g"
    and c: "g_clock g < VERSION_MAX" and e: "tx_end tx \<le> c" and rc: "recalls H obs tx"
    using rd by (simp_all add: reading_def c_def)
  have pl: "ws_placed tx" and lw: "locks_wf tx (g_locks g)" and wf: "ws_wf (tx_ws tx)"
    using inv by (simp_all add: etl_inv_def)
  have up: "c \<le> c + 1" "c < c + 1" using word_inc_less [of c VERSION_MAX] c by (simp_all add: c_def)
  have tc: "tells H c (held_version tx) (g_mem g) tx g" by (rule tells_mono [OF t word_max])
  have "tells H c (held_version tx) (g_mem ?g) tx ?g"
  proof (rule tellsI)
    show "told H c a (LOCK_GET_TIMESTAMP (g_locks ?g (GET_LOCK a))) (g_clock ?g) (g_mem ?g a)"
      if "LOCK_GET_OWNED (g_locks ?g (GET_LOCK a)) = 0" for a
      using told_later [OF tellsD(1) [OF tc, of a], of "c + 1"] that up by (simp add: c_def)
    show "told H c a (held_version tx (GET_LOCK a)) (g_clock ?g) (g_mem ?g a)"
      if "mine tx (g_locks ?g (GET_LOCK a))" for a
      using told_later [OF tellsD(2) [OF tc, of a], of "c + 1"] that up by (simp add: c_def)
  qed
  then show "judging H c c obs tx ?g" using inv e up rc by (simp add: judging_def)
  assume w: "H (c + 1) = wview tx (H c)"
  have "tells H (NOT 0) (\<lambda>_. c + 1) (wview tx (H c)) tx ?g"
  proof (rule tellsI)
    fix a
    assume "LOCK_GET_OWNED (g_locks ?g (GET_LOCK a)) = 0"
    then have l: "LOCK_GET_OWNED (g_locks g (GET_LOCK a)) = 0" by simp
    then have "\<not> mine tx (g_locks g (GET_LOCK a))" using mine_owned by blast
    then have "\<not> covered tx (GET_LOCK a)" using locks_wf_covered(3) [OF pl lw] by simp
    then have "H (c + 1) a = g_mem g a"
      using wview_uncovered [OF wf] reading_now(1) [OF rd l] w by (simp add: c_def)
    then have "H T a = g_mem g a" if "c < T" "T \<le> c + 1" for T
      using that word_inc_less(1) [OF that(1)] by (metis order_antisym)
    from told_extend [OF tellsD(1) [OF t l, folded c_def] up(2) this]
    show "told H (NOT 0) a (LOCK_GET_TIMESTAMP (g_locks ?g (GET_LOCK a))) (g_clock ?g) (g_mem ?g a)" by simp
  next
    fix a
    show "told H (NOT 0) a (c + 1) (g_clock ?g) (wview tx (H c) a)"
      using w unfolding told_def by (auto dest: order_antisym)
  qed
  moreover have "mine tx (g_locks ?g k) \<longleftrightarrow> covered_from (tx_ws tx) k 0 \<noteq> None" for k
    using locks_wf_covered(3) [OF pl lw] by (simp add: covered_def)
  ultimately show "publishing H (c + 1) (H c) tx 0 [] ?g"
    using reading_now(2) [OF rd] by (simp add: publishing_def c_def)
qed

text \<open>The state while a commit at time \<open>c + 1\<close> validates.\<close>

definition deciding :: "history \<Rightarrow> w64 \<Rightarrow> (w64 \<times> w64) set \<Rightarrow> st \<Rightarrow> glob \<Rightarrow> bool" where
  "deciding H c obs s g \<longleftrightarrow> judging H c c obs (s_tx s) g
     \<and> (H (c + 1) = wview (s_tx s) (H c) \<longrightarrow> publishing H (c + 1) (H c) (s_tx s) 0 [] g)"

lemma deciding_env:
  assumes "follows P H (s_tx s)" "deciding H c obs s g"
  shows "deciding H c obs s (env P n g)"
  using assms(2) judging_env [OF assms(1)] publishing_env [OF assms(1)] by (simp add: deciding_def)

lemma clock_mono:
  assumes "follows P H tx"
  shows "wp (each_c (wbetl_install P T) ws) s
    (\<lambda>_ t. g_clock (s_glob s) \<le> g_clock (s_glob t) \<and> s_tx t = s_tx s) never"
proof (induction ws arbitrary: s)
  case (Cons w ws)
  note m = followsD(2) [OF assms]
  have two: "g_clock g \<le> g_clock (env P k ((env P n g)\<lparr>g_mem := x\<rparr>))" for g k n x
    using order_trans [OF m [of g n] m [of "(env P n g)\<lparr>g_mem := x\<rparr>" k, simplified]] by simp
  have "wp (wbetl_install P T w) s (\<lambda>_ t. g_clock (s_glob s) \<le> g_clock (s_glob t) \<and> s_tx t = s_tx s) never"
    using m [of "s_glob s" "s_tick s"] two [of "s_glob s"] by (auto simp: wbetl_install_def)
  then show ?case
    unfolding each_c.simps wp_thn by (rule wp_mono) (auto intro: wp_mono [OF Cons.IH] order_trans)
qed simp

lemma commit_beside:
  assumes f: "follows P H (s_tx s)" and lv: "live (s_tx s)" and po: "polite P"
    and rd: "reading H obs (s_tx s) (s_glob s)" and ro: "\<not> at_read_only (tx_attr (s_tx s))"
  shows "wp (stm_wbetl_commit n P) s (\<lambda>r t. \<exists>c. tx_end (s_tx s) \<le> c \<and> c \<le> g_clock (s_glob t) \<and> agrees obs s (H c)
    \<and> s_tx t = s_tx s \<and> (H (c + 1) = wview (s_tx s) (H c) \<longrightarrow> at_rest H (s_tx s) (s_glob t))) anyhow"
    (is "wp _ _ ?Q _")
proof -
  let ?tx = "s_tx s" and ?u = "env_step P s" and ?w = "env_step P (env_step P s)"
  have inv: "etl_inv ?tx (g_locks (s_glob s))" using rd by (simp add: reading_def)
  have irr: "tx_irrevocable ?tx = 0" using lv by (simp add: live_def)
  have jump: "wp (thn (stm_rollback n P r) (ret x)) t R anyhow" if "s_tx t = ?tx" "may_retry r"
    for t :: st and x :: bool and r R
    unfolding wp_thn by (rule wp_mono [OF rollback_live [OF po _ that(2)]]) (use that(1) lv in simp_all)
  have mr: "may_retry STM_ABORT_IRREVOCABLE" "may_retry STM_ABORT_VALIDATE"
    by (simp_all add: may_retry_def reason_defs)
  let ?c = "g_clock (s_glob ?w)"
  let ?v = "upd_glob (\<lambda>g. g\<lparr>g_clock := ?c + 1\<rparr>) ?w"
  have rw: "reading H obs ?tx (s_glob ?w)" using reading_env [OF f reading_env [OF f rd]] by simp
  have sw: "same_covered ?tx (g_mem (s_glob s)) (g_mem (s_glob ?w))"
    using same_covered_step [OF f _ same_covered_step [OF f inv same_covered_refl]] reading_env [OF f rd]
    by (simp add: reading_def)
  have e: "tx_start ?tx \<le> tx_end ?tx" "tx_end ?tx \<le> ?c" using rw by (simp_all add: reading_def)
  have start: "deciding H ?c obs s (s_glob ?v)"
    using take_time [OF rw] by (simp add: deciding_def)
  have cT: "?c + 1 \<le> VERSION_MAX" using rw word_inc_less(1) [of ?c VERSION_MAX] by (simp add: reading_def)
  have held: "H ?c a = g_mem (s_glob s) a" if "covered ?tx (GET_LOCK a)" for a
  proof -
    have "mine ?tx (g_locks (s_glob ?w) (GET_LOCK a))"
      using locks_wf_covered(3) [of ?tx "g_locks (s_glob ?w)"] rw that by (simp add: reading_def etl_inv_def)
    from reading_now(2) [OF rw this] show ?thesis using sw that by (simp add: same_covered_def)
  qed
  define K where "K \<longleftrightarrow> (\<forall>(a, x) \<in> obs. H ?c a = x)"
  have finish: "wp (each_c (wbetl_install P (?c + 1)) (tx_ws ?tx)) t (\<lambda>_. ?Q True) anyhow"
    if t: "deciding H ?c obs s (s_glob t)" "s_tx t = ?tx" K for t :: st
  proof -
    have ag: "agrees obs s (H ?c)" using t(3) held by (simp add: agrees_def K_def)
    have ct: "?c \<le> g_clock (s_glob t)" using t(1) by (simp add: deciding_def judging_def)
    note clk = clock_mono [OF f, of "?c + 1" "tx_ws ?tx" t]
    show ?thesis
    proof (cases "H (?c + 1) = wview ?tx (H ?c)")
      case False
      show ?thesis by (rule wp_mono [OF clk]) (use ag e(2) False order_trans [OF ct] t(2) in auto)
    next
      case True
      then have p: "publishing H (?c + 1) (H ?c) ?tx 0 [] (s_glob t)" using t(1) by (simp add: deciding_def)
      have wf: "ws_wf (tx_ws ?tx)" "distinct (map we_addr (tx_ws ?tx))" using inv by (simp_all add: etl_inv_def)
      show ?thesis
        by (rule wp_mono [OF wp_conj_never [OF clk publish_all [OF f wf cT p t(2)]]])
          (use ag e(2) published_rest order_trans [OF ct] t(2) in auto)
    qed
  qed
  define R where "R r \<longleftrightarrow> (\<forall>(a, x) \<in> obs. re_lock r = GET_LOCK a \<and> re_version r \<le> tx_end ?tx \<longrightarrow> H ?c a = x)" for r :: r_entry
  have test: "R r" if "deciding H ?c obs s g" "read_valid ?tx (g_locks g) r" for r g
    using that check_read by (auto simp: deciding_def R_def)
  have all: K if "\<forall>r \<in> set (tx_rs ?tx). R r"
    using that rd ro by (fastforce simp: reading_def recalls_def R_def K_def)
  have early: K if "tx_start ?tx = ?c"
  proof -
    have "tx_end ?tx = ?c" using e that by simp
    then show ?thesis using rd by (auto simp: reading_def recalls_def K_def)
  qed
  have val: "wp (wbetl_validate_loop P (tx_rs ?tx)) ?v
      (\<lambda>b t. deciding H ?c obs s (s_glob t) \<and> s_tx t = ?tx \<and> (b \<longrightarrow> (\<forall>r \<in> set (tx_rs ?tx). R r))) never"
    by (rule validate_loop_env [of "deciding H ?c obs s" P ?tx R])
      (use deciding_env [OF f] test start in simp_all)
  let ?fin = "\<lambda>ok. if \<not> ok then thn (stm_rollback n P STM_ABORT_VALIDATE) (ret False)
      else bnd get_tx (\<lambda>tx'. thn (each_c (wbetl_install P (?c + 1)) (tx_ws tx')) (ret True))"
  have after: "wp (?fin ok) t ?Q anyhow"
    if "deciding H ?c obs s (s_glob t) \<and> s_tx t = ?tx \<and> (ok \<longrightarrow> K)" for ok t
    using that finish [of t] jump [of t] mr by (cases ok) simp_all
  have "wp (bnd (if tx_start ?tx \<noteq> ?c then stm_wbetl_validate P else ret True) ?fin) ?v ?Q anyhow"
  proof (cases "tx_start ?tx = ?c")
    case True
    then show ?thesis using after [of ?v True] start early by simp
  next
    case False
    have "wp (wbetl_validate_loop P (tx_rs ?tx)) ?v (\<lambda>ok t. wp (?fin ok) t ?Q anyhow) anyhow"
      by (rule wp_mono [OF val after]) (use all in blast)+
    then show ?thesis using False by (simp add: stm_wbetl_validate_def)
  qed
  moreover have "wp (thn (stm_rollback n P STM_ABORT_IRREVOCABLE) (ret False)) ?u ?Q anyhow"
    by (rule jump) (simp_all add: mr)
  ultimately show ?thesis
    using irr unfolding stm_wbetl_commit_def by (simp add: Let_def)
qed

section \<open>The exported functions\<close>

lemma run_cbs_polite:
  assumes "polite P"
  shows "wp (run_cbs P f) s (\<lambda>_ t. s_tx t = s_tx s \<and> s_glob t = s_glob s) never"
proof -
  have "wp (each_c (run_cb P) cs) s (\<lambda>_ t. s_tx t = s_tx s \<and> s_glob t = s_glob s) never" for cs
  proof (induction cs arbitrary: s)
    case (Cons c cs)
    have p: "s_tx (callf P f a s) = s_tx s" "s_glob (callf P f a s) = s_glob s" for f a and s :: st
      using assms by (simp_all add: polite_def)
    have "wp (each_c (run_cb P) cs) (callf P (cb_f c) (cb_arg c) s) (\<lambda>_ t. s_tx t = s_tx s \<and> s_glob t = s_glob s) never"
      using Cons.IH [of "callf P (cb_f c) (cb_arg c) s"] unfolding p .
    then show ?case unfolding each_c.simps wp_thn run_cb_exec [THEN wp_exec] .
  qed simp
  then show ?thesis by (simp add: run_cbs_def)
qed

text \<open>Nesting level, counters and status mean nothing to the log.\<close>

lemma reading_upd [simp]:
  "reading H obs (tx\<lparr>tx_nesting := k\<rparr>) g = reading H obs tx g"
  "reading H obs (tx\<lparr>tx_status := x\<rparr>) g = reading H obs tx g"
proof -
  have "reading H obs tx' g = reading H obs tx g"
    if "tx_base tx' = tx_base tx" "tx_ws_size tx' = tx_ws_size tx" "tx_ws tx' = tx_ws tx" "tx_rs tx' = tx_rs tx"
      "tx_attr tx' = tx_attr tx" "tx_start tx' = tx_start tx" "tx_end tx' = tx_end tx" for tx'
    using that etl_inv_cong [OF that(1-3)] covered_cong [OF that(3)] held_version_cong [OF that(3)]
      tells_cong [OF mine_cong [OF that(1,2)]]
    by (simp add: reading_def recalls_def)
  from this [of "tx\<lparr>tx_nesting := k\<rparr>"] this [of "tx\<lparr>tx_status := x\<rparr>"]
  show "reading H obs (tx\<lparr>tx_nesting := k\<rparr>) g = reading H obs tx g"
    "reading H obs (tx\<lparr>tx_status := x\<rparr>) g = reading H obs tx g" by simp_all
qed

lemma at_rest_cong:
  "tx_base tx' = tx_base tx \<Longrightarrow> tx_ws_size tx' = tx_ws_size tx \<Longrightarrow> at_rest H tx' g = at_rest H tx g"
  unfolding at_rest_def using mine_cong [of tx' tx] tells_cong [OF mine_cong [of tx' tx]] by simp

text \<open>What a commit says of the accesses before it: the time \<open>c\<close> they took effect, and the memory after.\<close>

definition settled :: "history \<Rightarrow> w64 \<Rightarrow> (w64 \<times> w64) set \<Rightarrow> st \<Rightarrow> w64 \<Rightarrow> st \<Rightarrow> bool" where
  "settled H now obs s c t \<longleftrightarrow> now \<le> c \<and> c \<le> g_clock (s_glob t) \<and> agrees obs s (H c)
     \<and> (let w = wview (s_tx s) (H c) in
          w = H c \<and> at_rest H (s_tx t) (s_glob t) \<or> (H (c + 1) = w \<longrightarrow> at_rest H (s_tx t) (s_glob t)))"

lemma read_only_settled:
  assumes rd: "reading H obs (s_tx s) (s_glob s)" and ws: "tx_ws (s_tx s) = []" and now: "now \<le> tx_start (s_tx s)"
    and t: "s_glob t = s_glob s" "tx_base (s_tx t) = tx_base (s_tx s)" "tx_ws_size (s_tx t) = tx_ws_size (s_tx s)"
  shows "settled H now obs s (tx_end (s_tx s)) t"
proof -
  let ?tx = "s_tx s" and ?g = "s_glob s"
  have inv: "ws_placed ?tx" "locks_wf ?tx (g_locks ?g)" and te: "tells H (NOT 0) (held_version ?tx) (g_mem ?g) ?tx ?g"
    and rc: "recalls H obs ?tx" and e: "tx_start ?tx \<le> tx_end ?tx" "tx_end ?tx \<le> g_clock ?g"
    using rd by (simp_all add: reading_def etl_inv_def)
  have unc: "\<not> covered ?tx k" for k by (simp add: covered_def covered_from_def ws)
  then have free: "\<forall>k. \<not> mine ?tx (g_locks ?g k)" using locks_wf_covered(3) [OF inv] by simp
  have "tells H (NOT 0) (\<lambda>_. 0) (\<lambda>_. 0) ?tx ?g"
    using tells_free [OF free] te by (rule iffD1)
  then have "at_rest H (s_tx t) (s_glob t)"
    unfolding at_rest_cong [OF t(2,3)] t(1) using free by (simp add: at_rest_def)
  moreover have "wview ?tx (H (tx_end ?tx)) = H (tx_end ?tx)"
    by (rule ext) (simp add: wview_def stm_has_written_def ws)
  moreover have "agrees obs s (H (tx_end ?tx))" using rc unc by (auto simp: agrees_def recalls_def)
  ultimately show ?thesis using now e t(1) by (simp add: settled_def)
qed

lemma stm_commit_beside:
  assumes b: "beside P H now obs s"
  shows "wp (stm_commit n P) s (\<lambda>r t. \<exists>c. settled H now obs s c t) anyhow"
proof -
  let ?tx = "s_tx s" and ?s = "unnested s"
  have f: "follows P H ?tx" and lv: "live ?tx" and po: "polite P" and rd: "reading H obs ?tx (s_glob s)"
    and u: "\<not> uses_ctl P ?tx" "\<not> uses_wt P ?tx" and nest: "tx_nesting ?tx = 1"
    and now: "now \<le> tx_start ?tx" and ro: "tx_ws ?tx = [] \<or> \<not> at_read_only (tx_attr ?tx)"
    using b by (simp_all add: beside_def)
  let ?rest = "thn (set_tx commit_stats) (thn (leave_irrevocable P)
    (thn (set_tx (\<lambda>t. t\<lparr>tx_status := TX_COMMITTED\<rparr>)) (thn (run_cbs P g_commit_cb) (ret True))))"
  let ?go = "\<lambda>tx'. thn (if tx_ws tx' = [] then ret () else bnd (design_commit n P) (\<lambda>_. ret ())) ?rest"
  have rest: "wp ?rest t (\<lambda>r t. \<exists>c. settled H now obs s c t) anyhow"
    if t: "s_tx t = s_tx ?s" and se: "settled H now obs s c t" for t :: st and c
  proof -
    let ?t = "upd_tx (\<lambda>t. t\<lparr>tx_status := TX_COMMITTED\<rparr>) (upd_tx commit_stats t)"
    have "settled H now obs s c v" if "s_tx v = s_tx ?t" "s_glob v = s_glob t" for v :: st
    proof -
      have "at_rest H (s_tx v) (s_glob v) = at_rest H (s_tx t) (s_glob t)"
        unfolding that(2) by (rule at_rest_cong) (simp_all add: that(1) commit_stats_def)
      with se that show ?thesis by (simp add: settled_def)
    qed
    then have "wp (run_cbs P g_commit_cb) ?t (\<lambda>_ t. \<exists>c. settled H now obs s c t) anyhow"
      by (intro wp_mono [OF run_cbs_polite [OF po]]) auto
    moreover have "tx_irrevocable (s_tx (upd_tx commit_stats t)) = 0"
      using lv t by (simp add: commit_stats_def live_def)
    ultimately show ?thesis by (simp add: leave_irrevocable_def)
  qed
  have go: "wp (?go (s_tx v)) v (\<lambda>r t. \<exists>c. settled H now obs s c t) anyhow"
    if v: "s_tx v = s_tx ?s" "s_glob v = s_glob s" for v :: st
  proof (cases "tx_ws ?tx = []")
    case True
    have "settled H now obs s (tx_end ?tx) v"
      by (rule read_only_settled [OF rd True now]) (simp_all add: v)
    then show ?thesis using rest [OF v(1)] v(1) True by simp
  next
    case False
    have attr_eq: "tx_attr (s_tx v) = tx_attr ?tx" using v(1) by simp
    have rdv: "reading H obs (s_tx v) (s_glob v)" using rd v by (simp add: unnested_def)
    have fv: "follows P H (s_tx v)" using f v(1) follows_cong [of "s_tx v" ?tx] by simp
    have lvv: "live (s_tx v)" "\<not> at_read_only (tx_attr (s_tx v))" using lv v(1) ro False by (simp_all add: live_def)
    have sw: "wview (s_tx v) = wview ?tx" "covered (s_tx v) = covered ?tx"
      using v(1) by (auto intro: wview_cong covered_cong)
    have e: "now \<le> tx_end (s_tx v)" using rd now v(1) by (auto simp: reading_def)
    have com: "wp (stm_wbetl_commit n P) v (\<lambda>_ t. wp ?rest t (\<lambda>r t. \<exists>c. settled H now obs s c t) anyhow) anyhow"
    proof (rule wp_mono [OF commit_beside [OF fv lvv(1) po rdv lvv(2)]])
      fix r and t :: st
      assume "\<exists>c. tx_end (s_tx v) \<le> c \<and> c \<le> g_clock (s_glob t) \<and> agrees obs v (H c) \<and> s_tx t = s_tx v
        \<and> (H (c + 1) = wview (s_tx v) (H c) \<longrightarrow> at_rest H (s_tx v) (s_glob t))"
      then obtain c where c: "tx_end (s_tx v) \<le> c" "c \<le> g_clock (s_glob t)" "agrees obs v (H c)" "s_tx t = s_tx v"
        "H (c + 1) = wview (s_tx v) (H c) \<longrightarrow> at_rest H (s_tx v) (s_glob t)" by blast
      have "settled H now obs s c t"
        using c e v(2) sw order_trans [OF e c(1)] by (simp add: settled_def agrees_def)
      then show "wp ?rest t (\<lambda>r t. \<exists>c. settled H now obs s c t) anyhow" using rest c(4) v(1) by simp
    qed simp
    have "\<not> uses_ctl P (s_tx v)" "\<not> uses_wt P (s_tx v)" using u uses_cong [OF attr_eq] by simp_all
    then show ?thesis using com False v(1) by (simp add: design_commit_def)
  qed
  have "wp (run_cbs P g_precommit_cb) ?s (\<lambda>_ v. wp (?go (s_tx v)) v (\<lambda>r t. \<exists>c. settled H now obs s c t) anyhow) anyhow"
    by (rule wp_mono [OF run_cbs_polite [OF po] go]) (simp_all add: unnested_def)
  then have "wp (run_cbs P g_precommit_cb) ?s (\<lambda>_ v. wp (thn (assert_c (\<lambda>s. IS_ACTIVE (tx_status (s_tx s))))
      (bnd get_tx ?go)) v (\<lambda>r t. \<exists>c. settled H now obs s c t) anyhow) anyhow"
    by (rule wp_mono) (simp_all only: wp_thn wp_bnd wp_assert get_tx_exec [THEN wp_exec] if_True if_False split: if_split, simp_all)
  then show ?thesis
    using nest by (simp add: stm_commit_def with_tx_def tls_get_tx_def int_stm_commit_def unnested_def)
qed

text \<open>A thread between transactions, and the attributes of a transaction that may be restarted.\<close>

definition startable :: "stm_tx \<Rightarrow> bool" where
  "startable tx \<longleftrightarrow> tx_irrevocable tx = 0 \<and> tx_nesting tx = 0 \<and> room 0 tx"

definition etl_tx :: "params \<Rightarrow> attr \<Rightarrow> bool" where
  "etl_tx P a \<longleftrightarrow> \<not> at_no_retry a
     \<and> (case p_design P of WRITE_BACK_ETL \<Rightarrow> True | MODULAR \<Rightarrow> at_id a \<noteq> 1 \<and> at_id a \<noteq> 2 | _ \<Rightarrow> False)"

lemma etl_txD: "etl_tx P a \<Longrightarrow> tx_attr tx = a \<Longrightarrow> \<not> uses_ctl P tx \<and> \<not> uses_wt P tx"
  by (auto simp: etl_tx_def uses_ctl_def uses_wt_def split: design.splits)

lemma at_rest_env:
  assumes "follows P H tx" "at_rest H tx g"
  shows "at_rest H tx (env P n g)"
  using assms followsD(4) [OF assms(1)] followsD(1) [OF assms(1)] unfolding at_rest_def rely_def by blast

lemma reading_start:
  assumes "at_rest H tx g" "g_clock g < VERSION_MAX" "room 0 tx" "tx_ws tx = []" "tx_start tx = g_clock g"
    "tx_end tx = g_clock g"
  shows "reading H {} tx g"
proof -
  have free: "\<forall>k. \<not> mine tx (g_locks g k)" using assms(1) by (simp add: at_rest_def)
  have "tells H (NOT 0) (held_version tx) (g_mem g) tx g"
    using tells_free [OF free] assms(1) unfolding at_rest_def by blast
  moreover have "etl_inv tx (g_locks g)"
    using free assms(3,4) by (simp add: etl_inv_def ws_placed_def room_def locks_wf_def covered_from_def)
  ultimately show ?thesis using assms(2,5,6) by (simp add: reading_def recalls_def)
qed

lemma wait_release_env:
  assumes env: "\<And>n g. J g \<Longrightarrow> J (env P n g)"
  shows "J (s_glob s) \<Longrightarrow> wp (wait_release n P) s (\<lambda>_ t. J (s_glob t) \<and> s_tx t = s_tx s) anyhow"
proof (induction n arbitrary: s)
  case (Suc n)
  have "J (s_glob (env_step P s))" using env Suc.prems by simp
  from Suc.IH [OF this] this show ?case by simp
qed simp

lemma check_quiesce_env:
  assumes env: "\<And>n g. J g \<Longrightarrow> J (env P n g)" and J: "J (s_glob s)" and irr: "tx_irrevocable (s_tx s) = 0"
  shows "wp (stm_check_quiesce n P) s (\<lambda>_ t. J (s_glob t) \<and> (\<exists>x. s_tx t = (s_tx s)\<lparr>tx_status := x\<rparr>)) anyhow"
proof -
  let ?u = "upd_tx (\<lambda>t. t\<lparr>tx_status := TX_IDLE\<rparr>) (env_step P s)"
  have e: "J (s_glob (env_step P s))" using env J by simp
  have same: "\<exists>x. s_tx s = (s_tx s)\<lparr>tx_status := x\<rparr>" by (intro exI [of _ "tx_status (s_tx s)"]) simp
  have "wp (wait_release n P) ?u (\<lambda>_ t. J (s_glob t) \<and> s_tx t = s_tx ?u) anyhow"
    by (rule wait_release_env [of J P, OF env]) (use e in simp_all)
  then have w: "wp (wait_release n P) ?u
      (\<lambda>_ t. J (s_glob t) \<and> (\<exists>x. s_tx t\<lparr>tx_status := y\<rparr> = (s_tx s)\<lparr>tx_status := x\<rparr>)) anyhow" for y
    by (rule wp_mono) auto
  show ?thesis using w e same irr by (simp add: stm_check_quiesce_def)
qed

lemma stm_start_beside:
  assumes po: "polite P" and f: "follows P H (s_tx s)" and r: "at_rest H (s_tx s) (s_glob s)"
    and c: "g_clock (s_glob s) < VERSION_MAX" and st: "startable (s_tx s)" and a: "etl_tx P a"
  shows "wp (stm_start n P a) s
    (\<lambda>_ t. beside P H (g_clock (s_glob s)) {} t \<and> tx_ws (s_tx t) = []) anyhow"
proof -
  let ?now = "g_clock (s_glob s)" and ?u = "env_step P s"
  let ?c = "g_clock (s_glob ?u)"
  define tx where "tx = (s_tx s)\<lparr>tx_nesting := 1, tx_attr := a, tx_count := 0, tx_ws := [], tx_rs := [],
    tx_start := ?c, tx_end := ?c\<rparr>"
  have tx: "tx_base tx = tx_base (s_tx s)" "tx_ws_size tx = tx_ws_size (s_tx s)" "tx_irrevocable tx = 0"
    "tx_nesting tx = 1" "tx_attr tx = a" "tx_ws tx = []" "tx_start tx = ?c" "tx_end tx = ?c" "room 0 tx"
    using st by (simp_all add: tx_def startable_def room_def)
  have ft: "follows P H tx" using f follows_cong [OF tx(1,2)] by simp
  have rd: "reading H {} tx (s_glob ?u)"
  proof (rule reading_start [OF _ _ tx(9,6)])
    have "at_rest H tx (s_glob s)" using r at_rest_cong [OF tx(1,2)] by simp
    from at_rest_env [OF ft this] show "at_rest H tx (s_glob ?u)" by simp
    show c': "g_clock (s_glob ?u) < VERSION_MAX" using followsD(3) [OF f c] by simp
  qed (simp_all add: tx)
  have c': "\<not> VERSION_MAX \<le> ?c" using rd by (simp add: reading_def not_le)
  have now: "?now \<le> tx_start tx" using followsD(2) [OF f] tx(7) by simp
  let ?J = "reading H {} tx"
  let ?Q = "\<lambda>_ t. beside P H ?now {} t \<and> tx_ws (s_tx t) = []"
  have done': "?Q () t" if "?J (s_glob t)" "s_tx t = tx\<lparr>tx_status := x\<rparr>" for t :: st and x
  proof -
    have "follows P H (s_tx t)" using ft follows_cong [of "s_tx t" tx] that(2) by simp
    moreover have "\<not> uses_ctl P (s_tx t)" "\<not> uses_wt P (s_tx t)" using etl_txD [OF a, of "s_tx t"] that(2) tx(5) by auto
    ultimately show ?thesis
      using po that tx a now by (simp add: beside_def live_def etl_tx_def)
  qed
  have fin: "wp (stm_check_quiesce n P) t (\<lambda>_ t. wp (run_cbs P g_start_cb) t (\<lambda>_. ?Q ()) anyhow) anyhow"
    if t: "?J (s_glob t)" "s_tx t = tx\<lparr>tx_status := TX_ACTIVE\<rparr>" for t :: st
  proof -
    have irr: "tx_irrevocable (s_tx t) = 0" using t(2) tx(3) by simp
    have cbs: "wp (run_cbs P g_start_cb) v (\<lambda>_. ?Q ()) anyhow"
      if v: "?J (s_glob v)" "s_tx v = tx\<lparr>tx_status := x\<rparr>" for v :: st and x
      by (rule wp_mono [OF run_cbs_polite [OF po]], rule done' [of _ x]) (simp_all add: v)
    show ?thesis
      by (rule wp_mono [OF check_quiesce_env [of ?J P, OF reading_env [OF ft] t(1) irr]])
        (use t(2) cbs in auto)
  qed
  let ?s1 = "upd_tx (\<lambda>t. t\<lparr>tx_attr := a\<rparr>) (upd_tx (\<lambda>t. t\<lparr>tx_nesting := tx_nesting t + 1\<rparr>) s)"
  have prep: "wp (prepare_clock n P) (upd_tx (\<lambda>t. t\<lparr>tx_count := 0, tx_ws := [], tx_rs := []\<rparr>) ?s1)
    (\<lambda>_ t. s_glob t = s_glob ?u \<and> s_tx t = tx) anyhow"
  proof (cases n)
    case (Suc m)
    then show ?thesis using c' st by (simp add: tx_def startable_def env_step_def upd_tx_def)
  qed simp
  have "wp (int_stm_prepare n P) ?s1 (\<lambda>_ t. wp (run_cbs P g_start_cb) t (\<lambda>_. ?Q ()) anyhow) anyhow"
    unfolding int_stm_prepare_def int_stm_prepare_body_def wp_thn wp_bnd set_tx_exec [THEN wp_exec]
      get_tx_exec [THEN wp_exec]
    by (rule wp_mono [OF prep]) (use tx(3) fin rd in simp_all)
  then show ?thesis
    using st by (simp add: stm_start_def with_tx_def tls_get_tx_def int_stm_start_def startable_def)
qed

section \<open>Transactions beside other threads\<close>

lemma wview_fresh: "tx_ws tx = [] \<Longrightarrow> wview tx m = m"
  by (rule ext) (simp add: wview_def stm_has_written_def)

lemma run_tx_beside:
  assumes po: "polite P" and f: "follows P H (s_tx s)" and r: "at_rest H (s_tx s) (s_glob s)"
    and c: "g_clock (s_glob s) < VERSION_MAX" and st: "startable (s_tx s)" and a: "etl_tx P a"
  shows "wp (run_tx (stm_start n P a) (stm_commit n P) (run_ops (stm_load n P) (stm_store2 n P) ops)) s
    (\<lambda>vs t. \<exists>c T w. g_clock (s_glob s) \<le> c \<and> c \<le> g_clock (s_glob t) \<and> (vs, w) = spec_ops ops (H c)
       \<and> (T = c \<and> w = H c \<or> T = c + 1) \<and> (H T = w \<longrightarrow> at_rest H (s_tx t) (s_glob t))) anyhow"
    (is "wp _ _ ?Q _")
proof -
  let ?now = "g_clock (s_glob s)"
  have last: "wp (stm_commit n P) u (\<lambda>_. ?Q vs) anyhow"
    if u: "beside P H ?now obs u" "\<forall>m. agrees obs u m \<longrightarrow> agrees {} t m \<and> (vs, wview (s_tx u) m) = spec_ops ops m"
    for obs u t vs
  proof (rule wp_mono [OF stm_commit_beside [OF u(1)]])
    fix x t
    assume "\<exists>c. settled H ?now obs u c t"
    then obtain c where c: "settled H ?now obs u c t" by blast
    have sp: "(vs, wview (s_tx u) (H c)) = spec_ops ops (H c)" using u(2) c by (simp add: settled_def)
    let ?w = "wview (s_tx u) (H c)"
    have "(?w = H c \<and> at_rest H (s_tx t) (s_glob t)) \<or> (H (c + 1) = ?w \<longrightarrow> at_rest H (s_tx t) (s_glob t))"
      and cc: "?now \<le> c" "c \<le> g_clock (s_glob t)" using c by (simp_all add: settled_def Let_def)
    then obtain T where "T = c \<and> ?w = H c \<or> T = c + 1" "H T = ?w \<longrightarrow> at_rest H (s_tx t) (s_glob t)" by blast
    then show "?Q vs t" using cc sp by blast
  qed simp
  have body: "wp (run_ops (stm_load n P) (stm_store2 n P) ops) t
      (\<lambda>vs u. wp (stm_commit n P) u (\<lambda>_. ?Q vs) anyhow) anyhow"
    if t: "beside P H ?now {} t \<and> tx_ws (s_tx t) = []" for t
  proof (rule wp_mono [OF etl_beside.run_ops_explained [OF conjunct1 [OF t]]])
    fix vs u
    assume "\<exists>obs. beside P H ?now obs u \<and> (\<forall>m. agrees obs u m \<longrightarrow>
      agrees {} t m \<and> (vs, wview (s_tx u) m) = spec_ops ops (wview (s_tx t) m))"
    then show "wp (stm_commit n P) u (\<lambda>_. ?Q vs) anyhow"
      using last wview_fresh [OF conjunct2 [OF t]] by fastforce
  qed simp
  show ?thesis
    unfolding run_tx_def wp_thn wp_bnd wp_ret
    by (rule wp_mono [OF stm_start_beside [OF po f r c st a] body]) simp_all
qed

text \<open>Before anything is written, the values read are those of one committed memory.\<close>

interpretation etl_loads: observed "stm_load n P" "\<lambda>_ _ _. stop AssertFail"
    "\<lambda>obs s. beside P H now obs s \<and> tx_ws (s_tx s) = []" agrees "\<lambda>s. wview (s_tx s)"
  for n P H now
proof unfold_locales
  fix obs :: "(w64 \<times> w64) set" and s a
  assume b: "beside P H now obs s \<and> tx_ws (s_tx s) = []"
  show "wp (stm_load n P a) s (\<lambda>v t. \<exists>obs'. (beside P H now obs' t \<and> tx_ws (s_tx t) = []) \<and>
      (\<forall>m. agrees obs' t m \<longrightarrow> agrees obs s m \<and> v = wview (s_tx s) m a \<and> wview (s_tx t) m = wview (s_tx s) m)) anyhow"
    by (rule wp_mono [OF load_beside [OF conjunct1 [OF b]]]) (use b in auto)
qed simp

lemma run_ops_loads: "\<forall>op \<in> set ops. \<not> is_store op \<Longrightarrow> run_ops ld st2 ops = run_ops ld st2' ops"
proof (induction ops)
  case (Cons x ops)
  then show ?case by (cases x) simp_all
qed simp

lemma run_loads_beside:
  assumes po: "polite P" and f: "follows P H (s_tx s)" and r: "at_rest H (s_tx s) (s_glob s)"
    and c: "g_clock (s_glob s) < VERSION_MAX" and st: "startable (s_tx s)" and a: "etl_tx P a"
    and ld: "\<forall>op \<in> set ops. \<not> is_store op"
  shows "wp (thn (stm_start n P a) (run_ops (stm_load n P) (stm_store2 n P) ops)) s
    (\<lambda>vs t. g_clock (s_glob s) \<le> tx_end (s_tx t) \<and> tx_end (s_tx t) \<le> g_clock (s_glob t)
       \<and> vs = fst (spec_ops ops (H (tx_end (s_tx t))))) anyhow"
    (is "wp _ _ ?Q _")
proof -
  let ?now = "g_clock (s_glob s)"
  note eq = run_ops_loads [OF ld, of "stm_load n P" "stm_store2 n P" "\<lambda>_ _ _. stop AssertFail"]
  have body: "wp (run_ops (stm_load n P) (\<lambda>_ _ _. stop AssertFail) ops) t ?Q anyhow"
    if t: "beside P H ?now {} t \<and> tx_ws (s_tx t) = []" for t
  proof (rule wp_mono [OF etl_loads.run_ops_explained [OF t]])
    fix vs u
    assume "\<exists>obs. (beside P H ?now obs u \<and> tx_ws (s_tx u) = []) \<and> (\<forall>m. agrees obs u m \<longrightarrow>
      agrees {} t m \<and> (vs, wview (s_tx u) m) = spec_ops ops (wview (s_tx t) m))"
    then obtain obs where u: "beside P H ?now obs u" "tx_ws (s_tx u) = []"
      and ex: "\<And>m. agrees obs u m \<Longrightarrow> (vs, wview (s_tx u) m) = spec_ops ops (wview (s_tx t) m)" by blast
    have rd: "reading H obs (s_tx u) (s_glob u)" and now: "?now \<le> tx_start (s_tx u)"
      using u(1) by (simp_all add: beside_def)
    have "agrees obs u (H (tx_end (s_tx u)))"
      using read_only_settled [OF rd u(2) now refl refl refl] by (simp add: settled_def)
    then have "vs = fst (spec_ops ops (H (tx_end (s_tx u))))"
      using ex wview_fresh [OF conjunct2 [OF t]] by (metis fst_conv)
    then show "?Q vs u" using rd now by (auto simp: reading_def)
  qed simp
  show ?thesis
    unfolding wp_thn eq by (rule wp_mono [OF stm_start_beside [OF po f r c st a] body]) simp_all
qed

end
