(* ===== verification/Rival.thy ===== *)
theory Rival
  imports Publish
begin

text \<open>
  A concrete rival: another thread that commits once, in the middle of this thread's
  transaction.  It follows the protocol, and shows that the theorems under interference speak of
  executions in which other threads really move.
\<close>

section \<open>One commit by another thread\<close>

definition rival_ready :: "w64 \<Rightarrow> (w64 \<times> w64) list \<Rightarrow> glob \<Rightarrow> bool" where
  "rival_ready c ws g \<longleftrightarrow> g_clock g = c
     \<and> (\<forall>b \<in> fst ` set ws. LOCK_GET_OWNED (g_locks g (GET_LOCK b)) = 0
          \<and> LOCK_GET_TIMESTAMP (g_locks g (GET_LOCK b)) \<le> c)"

definition rival_writes :: "(w64 \<times> w64) list \<Rightarrow> (w64 \<Rightarrow> w64) \<Rightarrow> w64 \<Rightarrow> w64" where
  "rival_writes ws mem a = (case map_of ws a of Some x \<Rightarrow> x | None \<Rightarrow> mem a)"

definition rival_commit :: "(w64 \<times> w64) list \<Rightarrow> glob \<Rightarrow> glob" where
  "rival_commit ws g = g\<lparr>g_clock := g_clock g + 1, g_mem := rival_writes ws (g_mem g),
     g_locks := (\<lambda>k. if k \<in> GET_LOCK ` fst ` set ws then LOCK_SET_TIMESTAMP (g_clock g + 1) else g_locks g k)\<rparr>"

text \<open>It commits \<open>ws\<close> at tick \<open>k\<close>, when the clock reads \<open>c\<close>.\<close>

definition rival_params :: "design \<Rightarrow> nat \<Rightarrow> w64 \<Rightarrow> (w64 \<times> w64) list \<Rightarrow> params" where
  "rival_params d k c ws = (sample_params d)\<lparr>env := (\<lambda>n g. if n = k \<and> rival_ready c ws g then rival_commit ws g else g)\<rparr>"

lemma rival_env [simp]:
  "env (rival_params d k c ws) n g = (if n = k \<and> rival_ready c ws g then rival_commit ws g else g)"
  by (simp add: rival_params_def)

lemma rival_other:
  "rival_ready c ws g \<Longrightarrow> LOCK_GET_OWNED (g_locks g k) \<noteq> 0 \<Longrightarrow> k \<notin> GET_LOCK ` fst ` set ws"
  by (auto simp: rival_ready_def)

lemma rival_mem: "GET_LOCK a \<notin> GET_LOCK ` fst ` set ws \<Longrightarrow> g_mem (rival_commit ws g) a = g_mem g a"
proof -
  assume "GET_LOCK a \<notin> GET_LOCK ` fst ` set ws"
  then have "map_of ws a = None" by (force simp: map_of_eq_None_iff)
  then show ?thesis by (simp add: rival_commit_def rival_writes_def)
qed

lemma rival_tells:
  assumes r: "rival_ready c ws g" and c: "c < VERSION_MAX" and H: "H (c + 1) = rival_writes ws (H c)"
    and t: "tells H B vf xf tx g"
  shows "tells H B vf xf tx (rival_commit ws g)"
proof -
  let ?g = "rival_commit ws g"
  have clk: "g_clock g = c" "g_clock ?g = c + 1" using r by (simp_all add: rival_ready_def rival_commit_def)
  have cT: "c + 1 \<le> VERSION_MAX" "c < c + 1" using word_inc_less [OF c] by simp_all
  have only: "T = c + 1" if "c < T" "T \<le> c + 1" for T
    using that word_inc_less(1) [OF that(1)] by (metis order_antisym)
  have free: "told H B a (LOCK_GET_TIMESTAMP (g_locks g (GET_LOCK a))) c (g_mem g a)"
    if "LOCK_GET_OWNED (g_locks g (GET_LOCK a)) = 0" for a
    using tellsD(1) [OF t that] clk by simp
  have kept: "told H B a v (c + 1) x" if told: "told H B a v c x" and a: "a \<notin> fst ` set ws" for a v x
  proof -
    have "H (c + 1) a = H c a" using H a by (simp add: rival_writes_def map_of_eq_None_iff [THEN iffD2])
    moreover have "H T a = x" if "v \<le> T" "T \<le> c + 1" "T \<le> B" "c < T" for T
    proof -
      have T: "T = c + 1" using only that by simp
      then have "c \<le> B" using cT(2) that(3) by (meson less_imp_le order_trans)
      then have "H c a = x" using toldD [OF told told_le [OF told] order_refl] by simp
      then show ?thesis using T \<open>H (c + 1) a = H c a\<close> by simp
    qed
    ultimately show ?thesis using told cT(2) unfolding told_def by (meson less_imp_le not_le order_trans)
  qed
  show ?thesis
  proof (rule tellsI)
    fix a
    assume l: "LOCK_GET_OWNED (g_locks ?g (GET_LOCK a)) = 0"
    show "told H B a (LOCK_GET_TIMESTAMP (g_locks ?g (GET_LOCK a))) (g_clock ?g) (g_mem ?g a)"
    proof (cases "GET_LOCK a \<in> GET_LOCK ` fst ` set ws")
      case False
      then have "a \<notin> fst ` set ws" by blast
      moreover have "g_locks ?g (GET_LOCK a) = g_locks g (GET_LOCK a)" using False by (simp add: rival_commit_def)
      ultimately show ?thesis using kept [OF free] l rival_mem [OF False] clk(2) by simp
    next
      case True
      then have f: "LOCK_GET_OWNED (g_locks g (GET_LOCK a)) = 0" using r by (auto simp: rival_ready_def)
      have "H (c + 1) a = g_mem ?g a" if "c + 1 \<le> B"
      proof -
        have "c \<le> B" using that cT(2) by (meson less_imp_le order_trans)
        then have "H c a = g_mem g a" using toldD [OF free [OF f] told_le [OF free [OF f]] order_refl] by simp
        then show ?thesis using H by (simp add: rival_commit_def rival_writes_def split: option.split)
      qed
      then have "told H B a (c + 1) (c + 1) (g_mem ?g a)" by (auto simp: told_def dest: order_antisym)
      moreover have "g_locks ?g (GET_LOCK a) = LOCK_SET_TIMESTAMP (c + 1)"
        using True clk(1) by (simp add: rival_commit_def)
      ultimately show ?thesis using clk(2) version_read_back [OF cT(1)] by simp
    qed
  next
    fix a
    assume m: "mine tx (g_locks ?g (GET_LOCK a))"
    have out: "GET_LOCK a \<notin> GET_LOCK ` fst ` set ws"
      using m by (auto simp: rival_commit_def mine_def split: if_splits)
    then have "mine tx (g_locks g (GET_LOCK a))" using m by (simp add: rival_commit_def)
    from kept [OF tellsD(2) [OF t this, unfolded clk]] out
    show "told H B a (vf (GET_LOCK a)) (g_clock ?g) (xf a)" unfolding clk by blast
  qed
qed

lemma rival_follows:
  assumes c: "c + 1 < VERSION_MAX" "c < VERSION_MAX" and H: "H (c + 1) = rival_writes ws (H c)"
  shows "follows (rival_params d k c ws) H tx"
proof -
  let ?P = "rival_params d k c ws"
  have up: "c < c + 1" using word_inc_less [OF c(2)] by simp
  have "rely ?P tx"
    unfolding rely_def
  proof (intro allI conjI impI)
    fix n g k' a
    have out: "k' \<notin> GET_LOCK ` fst ` set ws" if "mine tx (g_locks g k')" "rival_ready c ws g"
      using rival_other [OF that(2) mine_owned [OF that(1)]] .
    show "g_locks (env ?P n g) k' = g_locks g k'" if "mine tx (g_locks g k')"
      using out [OF that] by (simp add: rival_commit_def)
    show "g_mem (env ?P n g) a = g_mem g a" if "mine tx (g_locks g k')" "GET_LOCK a = k'"
      using out [OF that(1)] that(2) rival_mem by simp
    show "\<not> mine tx (g_locks (env ?P n g) k')" if "\<not> mine tx (g_locks g k')"
      using that by (auto simp: rival_commit_def mine_def)
  qed
  moreover have "g_clock g \<le> g_clock (env ?P n g)" for n g
    using up by (auto simp: rival_ready_def rival_commit_def)
  moreover have "g_clock (env ?P n g) < VERSION_MAX" if "g_clock g < VERSION_MAX" for n g
    using that c by (auto simp: rival_ready_def rival_commit_def)
  moreover have "tells H B vf xf tx (env ?P n g)" if "tells H B vf xf tx g" for B vf xf n g
    using that rival_tells [OF _ c(2) H] by simp
  moreover have "g_mem (env ?P n g) a = g_mem g a"
    if "g_locks (env ?P (Suc n) (env ?P n g)) (GET_LOCK a) = g_locks g (GET_LOCK a)" for n g a
  proof (cases "n = k \<and> rival_ready c ws g \<and> GET_LOCK a \<in> GET_LOCK ` fst ` set ws")
    case False
    then show ?thesis using rival_mem by auto
  next
    case True
    then have "g_locks g (GET_LOCK a) = LOCK_SET_TIMESTAMP (c + 1)" using that by (auto simp: rival_commit_def rival_ready_def)
    then have "LOCK_GET_TIMESTAMP (g_locks g (GET_LOCK a)) = c + 1" using version_read_back [of "c + 1"] c by simp
    moreover have "LOCK_GET_TIMESTAMP (g_locks g (GET_LOCK a)) \<le> c" using True by (auto simp: rival_ready_def)
    ultimately show ?thesis using up by simp
  qed
  ultimately show ?thesis unfolding follows_def Let_def by blast
qed

section \<open>Running beside the rival\<close>

text \<open>It commits 1 to address 200 after this thread has read address 64.\<close>

abbreviation rival_a :: params where
  "rival_a \<equiv> rival_params WRITE_BACK_ETL 5 5 [(200, 1)]"

definition ops_a :: "tx_op list" where
  "ops_a = [Load 64, Load 200, Store 64 9 (NOT 0)]"

definition hist_a :: history where
  "hist_a T = (if T \<le> 5 then (\<lambda>_. 7) else if T = 6 then (\<lambda>_. 7)(200 := 1) else (\<lambda>_. 7)(200 := 1, 64 := 9))"

lemma rival_locks [simp]: "GET_LOCK 200 = 6"
  by (simp add: GET_LOCK_def idx_defs)

lemma rival_params_fields [simp]:
  "p_design (rival_params d k c ws) = d" "callf (rival_params d k c ws) f a s = s"
  "alloc (rival_params d k c ws) i = 64"
  by (simp_all add: rival_params_def sample_params_def)

lemmas rival_eval = with_tx_def tls_get_tx_def stm_start_def int_stm_start_def int_stm_prepare_def
  int_stm_prepare_body_def stm_check_quiesce_def run_cbs_def version_max_value
  stm_load_def int_stm_load_def uses_ctl_def uses_wt_def stm_wbetl_read_def stm_wbetl_read_invisible_def
  wbetl_read_done_def add_to_read_set_def stm_wbetl_extend_def stm_wbetl_validate_def stm_store2_def
  int_stm_store2_def stm_write_def stm_wbetl_write_def wbetl_do_write_def stm_commit_def int_stm_commit_def
  design_commit_def stm_wbetl_commit_def wbetl_install_def commit_stats_def leave_irrevocable_def
  rival_commit_def rival_ready_def rival_writes_def sample_defs upd_tx_def upd_glob_def env_step_def lock_defs
  stm_has_read_def wbetl_read_own_entry_def we_index_def in_ws_def we_ptr_def SIZEOF_W_ENTRY_def link_entry_def numeral_3_eq_3

text \<open>The read of 200 finds a version after the snapshot, extends it, and the transaction commits.\<close>

lemma a_runs: "wp (run_tx (stm_start 3 rival_a sample_attr) (stm_commit 3 rival_a)
    (run_ops (stm_load 3 rival_a) (stm_store2 3 rival_a) ops_a)) sample_idle
  (\<lambda>vs t. vs = [7, 1] \<and> g_clock (s_glob t) = 7 \<and> g_mem (s_glob t) 64 = 9) never"
  by (simp add: run_tx_def ops_a_def rival_eval Let_def)

lemma loads_run: "wp (thn (stm_start 3 rival_a sample_attr)
    (run_ops (stm_load 3 rival_a) (stm_store2 3 rival_a) [Load 64, Load 200])) sample_idle
  (\<lambda>vs t. vs = [7, 1] \<and> tx_end (s_tx t) = 6) never"
  by (simp add: rival_eval Let_def)

lemma sample_rests:
  assumes "\<And>T. T \<le> 5 \<Longrightarrow> H T = (\<lambda>_. 7)"
  shows "at_rest H (s_tx sample_idle) (s_glob sample_idle)" "startable (s_tx sample_idle)"
    "g_clock (s_glob sample_idle) < VERSION_MAX"
  using assms
  by (simp_all add: at_rest_def tells_def told_def startable_def room_def mine_def sample_defs lock_defs version_max_value)

lemma rival_a_facts: "polite rival_a" "follows rival_a hist_a tx" "etl_tx rival_a sample_attr"
proof -
  show "follows rival_a hist_a tx"
    by (rule rival_follows) (auto simp: version_max_value hist_a_def rival_writes_def fun_eq_iff)
qed (simp_all add: polite_def etl_tx_def sample_attr_def)

text \<open>The next commits 1 to 200 and to 72 when this thread is about to write 64, under 72's lock.\<close>

abbreviation rival_b :: params where
  "rival_b \<equiv> rival_params WRITE_BACK_ETL 5 5 [(200, 1), (72, 1)]"

definition ops_b :: "tx_op list" where
  "ops_b = [Load 200, Store 64 9 (NOT 0), Load 72]"

definition hist_b :: history where
  "hist_b T = (if T \<le> 5 then (\<lambda>_. 7) else (\<lambda>_. 7)(200 := 1, 72 := 1))"

lemma b_runs: "wp (thn (stm_start 3 rival_b sample_attr)
    (run_ops (stm_load 3 rival_b) (stm_store2 3 rival_b) ops_b)) sample_idle
  (\<lambda>vs t. vs = [7, 1] \<and> IS_ACTIVE (tx_status (s_tx t))) never"
  by (simp add: ops_b_def rival_eval Let_def)

lemma b_aborts: "wp (run_tx (stm_start 3 rival_b sample_attr) (stm_commit 3 rival_b)
    (run_ops (stm_load 3 rival_b) (stm_store2 3 rival_b) ops_b)) sample_idle (\<lambda>_ _. False) anyhow"
proof -
  have "may_retry STM_ABORT_VALIDATE" by (simp add: may_retry_def reason_defs)
  then have jump: "\<not> at_no_retry (tx_attr (s_tx s)) \<Longrightarrow> wp (stm_rollback n rival_b STM_ABORT_VALIDATE) s Q anyhow"
    for s Q n
    by (intro wp_mono [OF rollback_jumps]) (simp_all add: polite_def)
  show ?thesis by (simp add: run_tx_def ops_b_def rival_eval Let_def jump)
qed

section \<open>Properties\<close>




text \<open>C4: As long as it has not written, a transaction sees one committed memory, even if it never
  commits: its loads return the values that memory had at the end of its snapshot, a time between
  its start and now, whatever other threads commit meanwhile.\<close>

theorem etl_reads_snapshot:
  assumes "polite P" "follows P H (s_tx s)" "at_rest H (s_tx s) (s_glob s)"
    "g_clock (s_glob s) < VERSION_MAX" "startable (s_tx s)" "etl_tx P a" "\<forall>op \<in> set ops. \<not> is_store op"
    "thn (stm_start n P a) (run_ops (stm_load n P) (stm_store2 n P) ops) s = (Ret vs, t)"
  shows "g_clock (s_glob s) \<le> tx_end (s_tx t) \<and> tx_end (s_tx t) \<le> g_clock (s_glob t)
    \<and> vs = fst (spec_ops ops (H (tx_end (s_tx t))))"
  using wp_RetD [OF run_loads_beside [OF assms(1-7)] assms(8)] .

lemma etl_reads_snapshot_witness:
  "\<exists>t. thn (stm_start 3 rival_a sample_attr) (run_ops (stm_load 3 rival_a) (stm_store2 3 rival_a) [Load 64, Load 200])
       sample_idle = (Ret [7, 1], t) \<and> tx_end (s_tx t) = 6 \<and> [7, 1] = fst (spec_ops [Load 64, Load 200] (hist_a 6))"
proof -
  obtain t where t: "thn (stm_start 3 rival_a sample_attr)
      (run_ops (stm_load 3 rival_a) (stm_store2 3 rival_a) [Load 64, Load 200]) sample_idle = (Ret [7, 1], t)"
    "tx_end (s_tx t) = 6"
    using loads_run by (auto simp: wp_never)
  have h: "hist_a T = (\<lambda>_. 7)" if "T \<le> 5" for T using that by (simp add: hist_a_def)
  note r = sample_rests [of hist_a, OF h]
  show ?thesis
    using etl_reads_snapshot [OF rival_a_facts(1,2) r(1,3,2) rival_a_facts(3) _ t(1)] t by simp
qed

text \<open>C5: The reads of a running transaction need not be consistent, although the one that would
  commit are: with encounter-time locking a write may take a lock whose version is past the end of
  the snapshot without extending it, and a later read under that lock returns memory as it is.
  Here another thread commits to 200 and 72 after this one has read 200; this thread writes 64,
  reads 72, and goes on with two values that no committed memory has together.  It cannot commit.\<close>

theorem etl_reads_inconsistent:
  "polite rival_b \<and> follows rival_b hist_b (s_tx sample_idle) \<and> at_rest hist_b (s_tx sample_idle) (s_glob sample_idle)
   \<and> (\<exists>t. thn (stm_start 3 rival_b sample_attr) (run_ops (stm_load 3 rival_b) (stm_store2 3 rival_b) ops_b) sample_idle
        = (Ret [7, 1], t) \<and> IS_ACTIVE (tx_status (s_tx t)))
   \<and> (\<forall>T. fst (spec_ops ops_b (hist_b T)) \<noteq> [7, 1])
   \<and> (\<forall>vs t. run_tx (stm_start 3 rival_b sample_attr) (stm_commit 3 rival_b)
        (run_ops (stm_load 3 rival_b) (stm_store2 3 rival_b) ops_b) sample_idle \<noteq> (Ret vs, t))"
proof (intro conjI)
  show "polite rival_b" by (simp add: polite_def)
  show "follows rival_b hist_b (s_tx sample_idle)"
    by (rule rival_follows) (auto simp: version_max_value hist_b_def rival_writes_def fun_eq_iff)
  show "at_rest hist_b (s_tx sample_idle) (s_glob sample_idle)"
    by (rule sample_rests(1)) (simp add: hist_b_def)
  show "\<exists>t. thn (stm_start 3 rival_b sample_attr) (run_ops (stm_load 3 rival_b) (stm_store2 3 rival_b) ops_b) sample_idle
        = (Ret [7, 1], t) \<and> IS_ACTIVE (tx_status (s_tx t))"
    using b_runs by (auto simp: wp_never)
  show "\<forall>T. fst (spec_ops ops_b (hist_b T)) \<noteq> [7, 1]" by (simp add: ops_b_def hist_b_def)
  show "\<forall>vs t. run_tx (stm_start 3 rival_b sample_attr) (stm_commit 3 rival_b)
        (run_ops (stm_load 3 rival_b) (stm_store2 3 rival_b) ops_b) sample_idle \<noteq> (Ret vs, t)"
    using wp_RetD [OF b_aborts] by blast
qed

end
