(* ===== verification/ModCb.thy ===== *)
theory ModCb
  imports Stm
begin

text \<open>
  Callbacks and memory management inside transactions (\<open>src/mod_cb_mem.c\<close>): functions an
  application registers for the commit or the abort of the current transaction.  Blocks
  allocated in a transaction are freed by an abort callback, blocks freed in a transaction
  by a commit callback.

  The module keeps a \<open>mod_cb_info\<close> per thread, whose address is in a slot of
  transaction-specific data.  The state is the library's state beside these structures;
  the used prefix of each array is a list, its capacity the 16-bit field of the source.

  A registered function is code of the application or the allocator's \<open>free\<close>: a parameter
  that acts on the whole state, so it may register further functions while they run.
\<close>

section \<open>State\<close>

definition DEFAULT_CB_SIZE :: "16 word" where "DEFAULT_CB_SIZE = 16"

record mod_cb_info =
  commit_size :: "16 word"
  commit_ents :: "cb_entry list"
  abort_size :: "16 word"
  abort_ents :: "cb_entry list"

record cb_st =
  cs_stm :: st
  cs_key :: int
  cs_info :: "w64 \<Rightarrow> mod_cb_info"

type_synonym 'a cprog = "(cb_st, 'a) comp"

type_synonym callbacks = "w64 \<Rightarrow> w64 \<Rightarrow> cb_st \<Rightarrow> cb_st"

definition cb_do :: "'a prog \<Rightarrow> 'a cprog" where
  "cb_do m s = (case m (cs_stm s) of (r, t) \<Rightarrow> (r, s\<lparr>cs_stm := t\<rparr>))"

definition set_info :: "w64 \<Rightarrow> (mod_cb_info \<Rightarrow> mod_cb_info) \<Rightarrow> unit cprog" where
  "set_info p f = modify (\<lambda>s. s\<lparr>cs_info := (cs_info s)(p := f (cs_info s p))\<rparr>)"

section \<open>Registering\<close>

text \<open>
  The capacity doubles in 16 bits and the array is reallocated.  When it wraps to 0, what
  \<open>realloc\<close> returns for 0 bytes is up to the platform: \<open>xrealloc\<close> ends the process when it is
  \<open>NULL\<close>, and otherwise the store that follows is out of bounds.
\<close>

definition mod_cb_add_on_abort :: "params \<Rightarrow> w64 \<Rightarrow> w64 \<Rightarrow> w64 \<Rightarrow> unit cprog" where
  "mod_cb_add_on_abort P icb f arg =
     bnd (gets (\<lambda>s. cs_info s icb)) (\<lambda>i.
       thn (when_c (length (abort_ents i) \<ge> unat (abort_size i))
              (thn (set_info icb (\<lambda>i. i\<lparr>abort_size := abort_size i * 2\<rparr>))
                   (bnd (cb_do (xmalloc P)) (\<lambda>_. ret ()))))
      (bnd (gets (\<lambda>s. cs_info s icb)) (\<lambda>j.
         if length (abort_ents j) \<ge> unat (abort_size j) then stop Undef
         else set_info icb (\<lambda>i. i\<lparr>abort_ents := abort_ents i @ [\<lparr>cb_f = f, cb_arg = arg\<rparr>]\<rparr>))))"

definition mod_cb_add_on_commit :: "params \<Rightarrow> w64 \<Rightarrow> w64 \<Rightarrow> w64 \<Rightarrow> unit cprog" where
  "mod_cb_add_on_commit P icb f arg =
     bnd (gets (\<lambda>s. cs_info s icb)) (\<lambda>i.
       thn (when_c (length (commit_ents i) \<ge> unat (commit_size i))
              (thn (set_info icb (\<lambda>i. i\<lparr>commit_size := commit_size i * 2\<rparr>))
                   (bnd (cb_do (xmalloc P)) (\<lambda>_. ret ()))))
      (bnd (gets (\<lambda>s. cs_info s icb)) (\<lambda>j.
         if length (commit_ents j) \<ge> unat (commit_size j) then stop Undef
         else set_info icb (\<lambda>i. i\<lparr>commit_ents := commit_ents i @ [\<lparr>cb_f = f, cb_arg = arg\<rparr>]\<rparr>))))"

text \<open>The two assertions and the lookup every entry point starts with.\<close>

definition mod_cb_get :: "w64 cprog" where
  "mod_cb_get =
     thn (assert_c (\<lambda>s. cs_key s \<ge> 0))
    (bnd (gets cs_key) (\<lambda>k.
     bnd (cb_do (stm_get_specific k)) (\<lambda>icb.
     thn (assert_c (\<lambda>_. icb \<noteq> 0)) (ret icb))))"

definition stm_on_abort :: "params \<Rightarrow> w64 \<Rightarrow> w64 \<Rightarrow> bool cprog" where
  "stm_on_abort P f arg = bnd mod_cb_get (\<lambda>icb. thn (mod_cb_add_on_abort P icb f arg) (ret True))"

definition stm_on_commit :: "params \<Rightarrow> w64 \<Rightarrow> w64 \<Rightarrow> bool cprog" where
  "stm_on_commit P f arg = bnd mod_cb_get (\<lambda>icb. thn (mod_cb_add_on_commit P icb f arg) (ret True))"

section \<open>Memory\<close>

text \<open>
  \<open>free_f\<close> is the address of \<open>free\<close>.  Sizes are rounded up to words; the allocator of the
  model does not depend on the size.
\<close>

definition round_up :: "w64 \<Rightarrow> w64" where
  "round_up s = (s + 7) AND NOT 0x07"

definition stm_malloc :: "params \<Rightarrow> w64 \<Rightarrow> w64 \<Rightarrow> w64 cprog" where
  "stm_malloc P free_f sz =
     bnd mod_cb_get (\<lambda>icb.
     bnd (cb_do (xmalloc P)) (\<lambda>a.
       thn (mod_cb_add_on_abort P icb free_f a) (ret a)))"

definition zero_words :: "w64 \<Rightarrow> nat \<Rightarrow> (w64 \<Rightarrow> w64) \<Rightarrow> w64 \<Rightarrow> w64" where
  "zero_words a k mem = (\<lambda>p. if \<exists>i < k. p = a + 8 * of_nat i then 0 else mem p)"

definition stm_calloc :: "params \<Rightarrow> w64 \<Rightarrow> w64 \<Rightarrow> w64 \<Rightarrow> w64 cprog" where
  "stm_calloc P free_f nm sz =
     bnd mod_cb_get (\<lambda>icb.
     bnd (cb_do (xmalloc P)) (\<lambda>a.
       thn (cb_do (set_glob (\<lambda>g. g\<lparr>g_mem :=
              zero_words a (unat nm * (unat (round_up sz) div 8)) (g_mem g)\<rparr>)))
      (thn (mod_cb_add_on_abort P icb free_f a) (ret a))))"

text \<open>
  \<open>stm_free2\<close> first writes each word of the range with an empty mask, which takes its lock.
  The first word index is rounded up like the size.
\<close>

fun touch_words :: "nat \<Rightarrow> params \<Rightarrow> w64 \<Rightarrow> nat \<Rightarrow> unit prog" where
  "touch_words n P a 0 = ret ()"
| "touch_words n P a (Suc k) = thn (int_stm_store2 n P a 0 0) (touch_words n P (a + 8) k)"

definition int_stm_free2 :: "nat \<Rightarrow> params \<Rightarrow> w64 \<Rightarrow> w64 \<Rightarrow> w64 \<Rightarrow> w64 \<Rightarrow> unit cprog" where
  "int_stm_free2 n P free_f addr idx sz =
     bnd mod_cb_get (\<lambda>icb.
       thn (when_c (sz > 0)
             (cb_do (touch_words n P (addr + 8 * drop_bit 3 (idx + 7)) (unat (drop_bit 3 (sz + 7))))))
           (mod_cb_add_on_commit P icb free_f addr))"

definition stm_free2 :: "nat \<Rightarrow> params \<Rightarrow> w64 \<Rightarrow> w64 \<Rightarrow> w64 \<Rightarrow> w64 \<Rightarrow> unit cprog" where
  "stm_free2 n P free_f addr idx sz = int_stm_free2 n P free_f addr idx sz"

definition stm_free :: "nat \<Rightarrow> params \<Rightarrow> w64 \<Rightarrow> w64 \<Rightarrow> w64 \<Rightarrow> unit cprog" where
  "stm_free n P free_f addr sz = int_stm_free2 n P free_f addr 0 sz"

section \<open>Commit and abort\<close>

text \<open>
  The loops pop the last entry and then call it, until the array is empty.  A function that
  registers another one prolongs the loop, hence the fuel.
\<close>

primrec run_commits :: "nat \<Rightarrow> callbacks \<Rightarrow> w64 \<Rightarrow> unit cprog" where
  "run_commits 0 C icb = stop Diverge"
| "run_commits (Suc n) C icb =
     bnd (gets (\<lambda>s. commit_ents (cs_info s icb))) (\<lambda>es.
       if es = [] then ret ()
       else thn (set_info icb (\<lambda>i. i\<lparr>commit_ents := butlast (commit_ents i)\<rparr>))
           (thn (modify (C (cb_f (last es)) (cb_arg (last es)))) (run_commits n C icb)))"

primrec run_aborts :: "nat \<Rightarrow> callbacks \<Rightarrow> w64 \<Rightarrow> unit cprog" where
  "run_aborts 0 C icb = stop Diverge"
| "run_aborts (Suc n) C icb =
     bnd (gets (\<lambda>s. abort_ents (cs_info s icb))) (\<lambda>es.
       if es = [] then ret ()
       else thn (set_info icb (\<lambda>i. i\<lparr>abort_ents := butlast (abort_ents i)\<rparr>))
           (thn (modify (C (cb_f (last es)) (cb_arg (last es)))) (run_aborts n C icb)))"

definition mod_cb_specific :: "w64 cprog" where
  "mod_cb_specific =
     bnd (gets cs_key) (\<lambda>k. bnd (cb_do (stm_get_specific k)) (\<lambda>icb.
       thn (assert_c (\<lambda>_. icb \<noteq> 0)) (ret icb)))"

definition mod_cb_on_commit :: "nat \<Rightarrow> callbacks \<Rightarrow> unit cprog" where
  "mod_cb_on_commit n C =
     bnd mod_cb_specific (\<lambda>icb. thn (run_commits n C icb) (set_info icb (\<lambda>i. i\<lparr>abort_ents := []\<rparr>)))"

definition mod_cb_on_abort :: "nat \<Rightarrow> callbacks \<Rightarrow> unit cprog" where
  "mod_cb_on_abort n C =
     bnd mod_cb_specific (\<lambda>icb. thn (run_aborts n C icb) (set_info icb (\<lambda>i. i\<lparr>commit_ents := []\<rparr>)))"

section \<open>Threads and initialisation\<close>

definition mod_cb_on_thread_init :: "params \<Rightarrow> unit cprog" where
  "mod_cb_on_thread_init P =
     bnd (cb_do (xmalloc P)) (\<lambda>icb.
     bnd (cb_do (xmalloc P)) (\<lambda>_.
     bnd (cb_do (xmalloc P)) (\<lambda>_.
       thn (set_info icb (\<lambda>_. \<lparr>commit_size = DEFAULT_CB_SIZE, commit_ents = [],
                               abort_size = DEFAULT_CB_SIZE, abort_ents = []\<rparr>))
      (bnd (gets cs_key) (\<lambda>k. cb_do (stm_set_specific k icb))))))"

definition mod_cb_on_thread_exit :: "unit cprog" where
  "mod_cb_on_thread_exit = bnd mod_cb_specific (\<lambda>_. ret ())"

text \<open>\<open>cbs\<close> holds the addresses of the four functions above.\<close>

definition mod_cb_mem_init :: "cb_set \<Rightarrow> unit cprog" where
  "mod_cb_mem_init cbs =
     bnd (gets cs_key) (\<lambda>k. if k \<ge> 0 then ret ()
     else
       bnd (cb_do (stm_register (cbs\<lparr>on_start := 0, on_precommit := 0\<rparr>) 0)) (\<lambda>ok.
         if \<not> ok then stop ExitProc
         else bnd (cb_do stm_create_specific) (\<lambda>k'.
           thn (modify (\<lambda>s. s\<lparr>cs_key := k'\<rparr>)) (if k' < 0 then stop ExitProc else ret ()))))"

section \<open>Lemmas\<close>

lemma wp_cb_do [wp_simps, simp]:
  "wp (cb_do m) s Q E = wp m (cs_stm s) (\<lambda>x t. Q x (s\<lparr>cs_stm := t\<rparr>)) (\<lambda>r t. E r (s\<lparr>cs_stm := t\<rparr>))"
  by (cases "m (cs_stm s)"; cases "fst (m (cs_stm s))") (simp_all add: wp_def cb_do_def)

lemma wp_set_info [wp_simps, simp]:
  "wp (set_info p f) s Q E = Q () (s\<lparr>cs_info := (cs_info s)(p := f (cs_info s p))\<rparr>)"
  by (simp add: set_info_def)

text \<open>The thread has initialised the module: its structure is at \<open>icb\<close>.\<close>

definition cb_ready :: "w64 \<Rightarrow> cb_st \<Rightarrow> bool" where
  "cb_ready icb s \<longleftrightarrow> 0 \<le> cs_key s \<and> icb \<noteq> 0 \<and> valid_key (cs_key s) (cs_stm s)
     \<and> tx_data (s_tx (cs_stm s)) ! nat (cs_key s) = icb"

lemma cb_ready_upd [simp]:
  "cb_ready icb (s\<lparr>cs_info := f\<rparr>) = cb_ready icb s"
  "cb_ready icb (s\<lparr>cs_stm := (cs_stm s)\<lparr>s_nalloc := k\<rparr>\<rparr>) = cb_ready icb s"
  by (simp_all add: cb_ready_def valid_key_def)

lemma cb_specific: "cb_ready icb s \<Longrightarrow> wp mod_cb_specific s Q E = Q icb s"
  by (simp add: mod_cb_specific_def cb_ready_def stm_get_specific_def int_stm_get_specific_def)

lemma cb_get: "cb_ready icb s \<Longrightarrow> wp mod_cb_get s Q E = Q icb s"
  by (simp add: mod_cb_get_def cb_ready_def stm_get_specific_def int_stm_get_specific_def)

text \<open>Calling registered functions in the given order, when they do not use this module.\<close>

definition calls :: "(w64 \<Rightarrow> w64 \<Rightarrow> st \<Rightarrow> st) \<Rightarrow> cb_entry list \<Rightarrow> st \<Rightarrow> st" where
  "calls G es x = fold (\<lambda>e. G (cb_f e) (cb_arg e)) es x"

definition outside :: "callbacks \<Rightarrow> (w64 \<Rightarrow> w64 \<Rightarrow> st \<Rightarrow> st) \<Rightarrow> bool" where
  "outside C G \<longleftrightarrow> (\<forall>f a s. C f a s = s\<lparr>cs_stm := G f a (cs_stm s)\<rparr>)"

lemma wp_run_commits:
  "wp (run_commits (Suc n) C icb) s Q E = (let es = commit_ents (cs_info s icb) in
    if es = [] then Q () s
    else wp (run_commits n C icb) (C (cb_f (last es)) (cb_arg (last es))
      (s\<lparr>cs_info := (cs_info s)(icb := (cs_info s icb)\<lparr>commit_ents := butlast es\<rparr>)\<rparr>)) Q E)"
  unfolding run_commits.simps wp_bnd wp_gets Let_def by simp

lemma run_commits_spec:
  assumes "outside C G"
  shows "commit_ents (cs_info s icb) = es \<Longrightarrow> length es < n \<Longrightarrow>
    wp (run_commits n C icb) s (\<lambda>_ t. t = s\<lparr>cs_stm := calls G (rev es) (cs_stm s),
      cs_info := (cs_info s)(icb := (cs_info s icb)\<lparr>commit_ents := []\<rparr>)\<rparr>) never"
proof (induction n arbitrary: s es)
  case (Suc n)
  show ?case
  proof (cases es rule: rev_cases)
    case Nil
    then have "(cs_info s icb)\<lparr>commit_ents := []\<rparr> = cs_info s icb" using Suc.prems by simp
    then have "s\<lparr>cs_info := (cs_info s)(icb := (cs_info s icb)\<lparr>commit_ents := []\<rparr>)\<rparr> = s" by (simp only: fun_upd_triv) simp
    then show ?thesis using Nil Suc.prems by (simp only: wp_run_commits) (simp add: calls_def)
  next
    case (snoc fs e)
    let ?t = "s\<lparr>cs_stm := G (cb_f e) (cb_arg e) (cs_stm s),
      cs_info := (cs_info s)(icb := (cs_info s icb)\<lparr>commit_ents := fs\<rparr>)\<rparr>"
    have t: "C (cb_f e) (cb_arg e) (s\<lparr>cs_info := (cs_info s)(icb := (cs_info s icb)\<lparr>commit_ents := fs\<rparr>)\<rparr>) = ?t"
      using assms by (simp add: outside_def)
    have "commit_ents (cs_info ?t icb) = fs" "length fs < n" using snoc Suc.prems by simp_all
    from Suc.IH [OF this] show ?thesis
      unfolding wp_run_commits using snoc Suc.prems(1) t by (simp add: calls_def fun_upd_def cong: if_cong)
  qed
qed simp

lemma wp_run_aborts:
  "wp (run_aborts (Suc n) C icb) s Q E = (let es = abort_ents (cs_info s icb) in
    if es = [] then Q () s
    else wp (run_aborts n C icb) (C (cb_f (last es)) (cb_arg (last es))
      (s\<lparr>cs_info := (cs_info s)(icb := (cs_info s icb)\<lparr>abort_ents := butlast es\<rparr>)\<rparr>)) Q E)"
  unfolding run_aborts.simps wp_bnd wp_gets Let_def by simp

lemma run_aborts_spec:
  assumes "outside C G"
  shows "abort_ents (cs_info s icb) = es \<Longrightarrow> length es < n \<Longrightarrow>
    wp (run_aborts n C icb) s (\<lambda>_ t. t = s\<lparr>cs_stm := calls G (rev es) (cs_stm s),
      cs_info := (cs_info s)(icb := (cs_info s icb)\<lparr>abort_ents := []\<rparr>)\<rparr>) never"
proof (induction n arbitrary: s es)
  case (Suc n)
  show ?case
  proof (cases es rule: rev_cases)
    case Nil
    then have "(cs_info s icb)\<lparr>abort_ents := []\<rparr> = cs_info s icb" using Suc.prems by simp
    then have "s\<lparr>cs_info := (cs_info s)(icb := (cs_info s icb)\<lparr>abort_ents := []\<rparr>)\<rparr> = s" by (simp only: fun_upd_triv) simp
    then show ?thesis using Nil Suc.prems by (simp only: wp_run_aborts) (simp add: calls_def)
  next
    case (snoc fs e)
    let ?t = "s\<lparr>cs_stm := G (cb_f e) (cb_arg e) (cs_stm s),
      cs_info := (cs_info s)(icb := (cs_info s icb)\<lparr>abort_ents := fs\<rparr>)\<rparr>"
    have t: "C (cb_f e) (cb_arg e) (s\<lparr>cs_info := (cs_info s)(icb := (cs_info s icb)\<lparr>abort_ents := fs\<rparr>)\<rparr>) = ?t"
      using assms by (simp add: outside_def)
    have "abort_ents (cs_info ?t icb) = fs" "length fs < n" using snoc Suc.prems by simp_all
    from Suc.IH [OF this] show ?thesis
      unfolding wp_run_aborts using snoc Suc.prems(1) t by (simp add: calls_def fun_upd_def cong: if_cong)
  qed
qed simp

text \<open>\<open>holds_all k sz\<close>: an array of capacity \<open>sz\<close>, doubled some times from 16, holds \<open>k\<close> entries.\<close>

definition holds_all :: "nat \<Rightarrow> 16 word \<Rightarrow> bool" where
  "holds_all k sz \<longleftrightarrow> k \<le> unat sz \<and> (\<exists>e \<le> 11. unat sz = 16 * 2 ^ e)"

definition cb_wf :: "mod_cb_info \<Rightarrow> bool" where
  "cb_wf i \<longleftrightarrow> holds_all (length (commit_ents i)) (commit_size i) \<and> holds_all (length (abort_ents i)) (abort_size i)"

lemma doubling:
  assumes "holds_all k sz" "unat sz \<le> k"
  shows "k < 32768 \<Longrightarrow> holds_all (Suc k) (sz * 2) \<and> k < unat (sz * 2)" "32768 \<le> k \<Longrightarrow> sz * 2 = 0"
proof -
  from assms obtain e where e: "e \<le> 11" "unat sz = 16 * 2 ^ e" and k: "k = unat sz" by (auto simp: holds_all_def)
  have u: "unat (sz * 2) = (32 * 2 ^ e) mod 65536" using e(2) by (simp add: unat_word_ariths)
  show "holds_all (Suc k) (sz * 2) \<and> k < unat (sz * 2)" if "k < 32768"
  proof -
    have "2 ^ e < (2 :: nat) ^ 11" using that k e(2) by simp
    then have "e < 11" by (rule power_less_imp_less_exp [rotated]) simp
    then have "2 ^ e \<le> (2 :: nat) ^ 10" by (intro power_increasing) simp_all
    then have "unat (sz * 2) = 16 * 2 ^ Suc e" using u by simp
    then show ?thesis using \<open>e < 11\<close> k e(2) unfolding holds_all_def by (auto intro!: exI [of _ "Suc e"])
  qed
  show "sz * 2 = 0" if "32768 \<le> k"
  proof -
    have "2 ^ 11 \<le> (2 :: nat) ^ e" using that k e(2) by simp
    then have "11 \<le> e" by (rule power_le_imp_le_exp [rotated]) simp
    then have "e = 11" using e(1) by simp
    then show ?thesis using u by (simp add: word_unat_eq_iff)
  qed
qed

section \<open>Properties\<close>

definition sample_cb :: cb_st where
  "sample_cb = \<lparr>cs_stm = upd_tx (\<lambda>t. t\<lparr>tx_data := [128]\<rparr>) sample_run, cs_key = 0,
     cs_info = (\<lambda>_. \<lparr>commit_size = 16, commit_ents = [\<lparr>cb_f = 1, cb_arg = 5\<rparr>, \<lparr>cb_f = 2, cb_arg = 6\<rparr>],
                      abort_size = 16, abort_ents = [\<lparr>cb_f = 3, cb_arg = 7\<rparr>]\<rparr>)\<rparr>"

lemma sample_cb_ready: "cb_ready 128 sample_cb"
  by (simp add: sample_cb_def cb_ready_def valid_key_def sample_defs)

text \<open>C23: A commit calls the commit callbacks, each once and the last registered first, calls no
  abort callback and leaves both lists empty; an abort calls the abort callbacks in the same way.\<close>

theorem callbacks_run_once:
  assumes "cb_ready icb s" "outside C G"
    and "length (commit_ents (cs_info s icb)) < n" "length (abort_ents (cs_info s icb)) < n"
  shows "mod_cb_on_commit n C s = (Ret (), s\<lparr>cs_stm := calls G (rev (commit_ents (cs_info s icb))) (cs_stm s),
      cs_info := (cs_info s)(icb := (cs_info s icb)\<lparr>commit_ents := [], abort_ents := []\<rparr>)\<rparr>)
    \<and> mod_cb_on_abort n C s = (Ret (), s\<lparr>cs_stm := calls G (rev (abort_ents (cs_info s icb))) (cs_stm s),
      cs_info := (cs_info s)(icb := (cs_info s icb)\<lparr>commit_ents := [], abort_ents := []\<rparr>)\<rparr>)"
proof -
  let ?u = "\<lambda>m. s\<lparr>cs_stm := m, cs_info := (cs_info s)(icb := (cs_info s icb)\<lparr>commit_ents := [], abort_ents := []\<rparr>)\<rparr>"
  have swap: "i\<lparr>abort_ents := [], commit_ents := []\<rparr> = i\<lparr>commit_ents := [], abort_ents := []\<rparr>" for i :: mod_cb_info
    by simp
  have "wp (mod_cb_on_commit n C) s (\<lambda>_ t. t = ?u (calls G (rev (commit_ents (cs_info s icb))) (cs_stm s))) never"
    unfolding mod_cb_on_commit_def wp_bnd cb_specific [OF assms(1)] wp_thn
    by (rule wp_mono [OF run_commits_spec [OF assms(2) refl assms(3)]]) simp_all
  moreover have "wp (mod_cb_on_abort n C) s (\<lambda>_ t. t = ?u (calls G (rev (abort_ents (cs_info s icb))) (cs_stm s))) never"
    unfolding mod_cb_on_abort_def wp_bnd cb_specific [OF assms(1)] wp_thn
    by (rule wp_mono [OF run_aborts_spec [OF assms(2) refl assms(4)]]) (simp_all add: swap)
  ultimately show ?thesis by (simp add: wp_never)
qed

theorem callbacks_run_once_witness:
  "\<exists>t. mod_cb_on_commit 3 (\<lambda>f a s. s\<lparr>cs_stm := upd_tx (\<lambda>t. t\<lparr>tx_seed := 10 * tx_seed t + f\<rparr>) (cs_stm s)\<rparr>) sample_cb
     = (Ret (), t) \<and> tx_seed (s_tx (cs_stm t)) = 121"
proof -
  let ?G = "\<lambda>f a. upd_tx (\<lambda>t. t\<lparr>tx_seed := 10 * tx_seed t + f\<rparr>)"
  have "outside (\<lambda>f a s. s\<lparr>cs_stm := ?G f a (cs_stm s)\<rparr>) ?G" by (simp add: outside_def)
  from callbacks_run_once [OF sample_cb_ready this, of 3] show ?thesis
    by (simp add: sample_cb_def calls_def sample_defs)
qed

lemma add_abort_spec:
  assumes h: "cb_ready icb s" and wf: "cb_wf (cs_info s icb)" and al: "\<forall>i. alloc P i \<noteq> 0"
    and k: "length (abort_ents (cs_info s icb)) < 32768"
  shows "wp (mod_cb_add_on_abort P icb f a) s (\<lambda>_ t. cb_ready icb t \<and> cb_wf (cs_info t icb)
      \<and> cs_stm t = (cs_stm s)\<lparr>s_nalloc := s_nalloc (cs_stm t)\<rparr> \<and> cs_key t = cs_key s
      \<and> commit_ents (cs_info t icb) = commit_ents (cs_info s icb)
      \<and> abort_ents (cs_info t icb) = abort_ents (cs_info s icb) @ [\<lparr>cb_f = f, cb_arg = a\<rparr>]) never"
proof -
  let ?i = "cs_info s icb"
  have w: "holds_all (length (abort_ents ?i)) (abort_size ?i)" "holds_all (length (commit_ents ?i)) (commit_size ?i)"
    using wf by (simp_all add: cb_wf_def)
  show ?thesis
  proof (cases "unat (abort_size ?i) \<le> length (abort_ents ?i)")
    case True
    from doubling(1) [OF w(1) True k] show ?thesis
      using True h w(2) al by (simp add: mod_cb_add_on_abort_def xmalloc_def cb_wf_def)
  next
    case False
    then have "holds_all (Suc (length (abort_ents ?i))) (abort_size ?i)" using w(1) by (auto simp: holds_all_def)
    then show ?thesis using False h w(2) by (simp add: mod_cb_add_on_abort_def cb_wf_def)
  qed
qed

lemma add_commit_spec:
  assumes h: "cb_ready icb s" and wf: "cb_wf (cs_info s icb)" and al: "\<forall>i. alloc P i \<noteq> 0"
    and k: "length (commit_ents (cs_info s icb)) < 32768"
  shows "wp (mod_cb_add_on_commit P icb f a) s (\<lambda>_ t. cb_ready icb t \<and> cb_wf (cs_info t icb)
      \<and> cs_stm t = (cs_stm s)\<lparr>s_nalloc := s_nalloc (cs_stm t)\<rparr> \<and> cs_key t = cs_key s
      \<and> abort_ents (cs_info t icb) = abort_ents (cs_info s icb)
      \<and> commit_ents (cs_info t icb) = commit_ents (cs_info s icb) @ [\<lparr>cb_f = f, cb_arg = a\<rparr>]) never"
proof -
  let ?i = "cs_info s icb"
  have w: "holds_all (length (abort_ents ?i)) (abort_size ?i)" "holds_all (length (commit_ents ?i)) (commit_size ?i)"
    using wf by (simp_all add: cb_wf_def)
  show ?thesis
  proof (cases "unat (commit_size ?i) \<le> length (commit_ents ?i)")
    case True
    from doubling(1) [OF w(2) True k] show ?thesis
      using True h w(1) al by (simp add: mod_cb_add_on_commit_def xmalloc_def cb_wf_def)
  next
    case False
    then have "holds_all (Suc (length (commit_ents ?i))) (commit_size ?i)" using w(2) by (auto simp: holds_all_def)
    then show ?thesis using False h w(1) by (simp add: mod_cb_add_on_commit_def cb_wf_def)
  qed
qed



end
