(* ===== verification/MemTx.thy ===== *)
theory MemTx
  imports SeqAll ModCb
begin

text \<open>
  Memory management inside transactions: \<open>stm_malloc\<close> and \<open>stm_free\<close> of
  \<open>src/mod_cb_mem.c\<close> between the loads and stores of a transaction, in any design.
\<close>

section \<open>Stores seen by the module\<close>

lemma same_world_data:
  assumes "same_world s t"
  shows "tx_data (s_tx t) = tx_data (s_tx s)" "g_nb_specific (s_glob t) = g_nb_specific (s_glob s)" "s_cur t = s_cur s"
proof -
  have "tx_data (steady (s_tx t)) = tx_data (steady (s_tx s))"
    "g_nb_specific (still (s_glob t)) = g_nb_specific (still (s_glob s))"
    using assms by (simp_all add: same_world_def)
  then show "tx_data (s_tx t) = tx_data (s_tx s)" "g_nb_specific (s_glob t) = g_nb_specific (s_glob s)" "s_cur t = s_cur s"
    using assms by (simp_all add: steady_def still_def same_world_def)
qed

lemma world_ready:
  assumes "same_world (cs_stm s) t" "cb_ready icb s"
  shows "cb_ready icb (s\<lparr>cs_stm := t\<rparr>)"
  using assms(2) same_world_data [OF assms(1)] by (simp add: cb_ready_def valid_key_def)

lemma tx_store_world:
  assumes "tx_ok P M (Suc k) s"
  shows "wp (stm_store2 (n + 3) P a v m) s (\<lambda>_ t. same_world s t) never"
  using assms
proof (cases rule: tx_okE)
  case etl
  show ?thesis by (rule wp_mono [OF etl_stm_store2 [OF etl(1)]]) (simp_all add: write_frame_def log_frame_def)
next
  case ctl
  show ?thesis by (rule wp_mono [OF ctl_stm_store2 [OF ctl(1)]]) (simp_all add: ctl_wrote_def)
next
  case wt
  show ?thesis by (rule wp_mono [OF wt_store2 [OF wt(1)]]) (simp_all add: log_frame_def)
qed

lemma tx_load_world:
  assumes "tx_ok P M k s"
  shows "wp (stm_load (n + 3) P a) s (\<lambda>_ t. same_world s t) never"
  using assms
proof (cases rule: tx_okE)
  case etl
  show ?thesis by (rule wp_mono [OF etl_stm_load [OF etl(1)]]) (simp_all add: reads_only_def)
next
  case ctl
  show ?thesis by (rule wp_mono [OF ctl_stm_load [OF ctl(1)]]) (simp_all add: reads_only_def)
next
  case wt
  show ?thesis by (rule wp_mono [OF wt_stm_load [OF wt(1)]]) (simp_all add: reads_only_def)
qed

lemma same_world_trans: "same_world s t \<Longrightarrow> same_world t u \<Longrightarrow> same_world s u"
  by (simp add: same_world_def)

lemma touch_words_spec:
  "tx_ok P M (k + j) s \<Longrightarrow>
    wp (touch_words (n + 3) P a k) s (\<lambda>_ t. tx_ok P M j t \<and> tx_view P t = tx_view P s \<and> same_world s t) never"
proof (induction k arbitrary: a s)
  case (Suc k)
  have ok: "tx_ok P M (Suc (k + j)) s" using Suc.prems by simp
  from wp_conj_never [OF tx_store [OF ok, of n a 0 0] tx_store_world [OF ok, of n a 0 0]]
  have "wp (int_stm_store2 (n + 3) P a 0 0) s
      (\<lambda>_ t. tx_ok P M (k + j) t \<and> tx_view P t = tx_view P s \<and> same_world s t) never"
    by (simp add: stm_store2_def with_tx_def tls_get_tx_def split: if_splits)
  then show ?case
    unfolding touch_words.simps wp_thn
    by (rule wp_mono) (auto intro!: wp_mono [OF Suc.IH] intro: same_world_trans)
qed simp

section \<open>A transaction that manages memory\<close>

datatype mem_op = Malloc w64 | Free w64 w64 | Access tx_op

fun run_mem :: "nat \<Rightarrow> params \<Rightarrow> w64 \<Rightarrow> mem_op list \<Rightarrow> (w64 list \<times> w64 list) cprog" where
  "run_mem n P ff [] = ret ([], [])"
| "run_mem n P ff (Malloc sz # ops) =
     bnd (stm_malloc P ff sz) (\<lambda>a. bnd (run_mem n P ff ops) (\<lambda>(as, vs). ret (a # as, vs)))"
| "run_mem n P ff (Free a sz # ops) = thn (stm_free n P ff a sz) (run_mem n P ff ops)"
| "run_mem n P ff (Access (Load a) # ops) =
     bnd (cb_do (stm_load n P a)) (\<lambda>v. bnd (run_mem n P ff ops) (\<lambda>(as, vs). ret (as, v # vs)))"
| "run_mem n P ff (Access (Store a v m) # ops) = thn (cb_do (stm_store2 n P a v m)) (run_mem n P ff ops)"

fun accesses :: "mem_op list \<Rightarrow> tx_op list" where
  "accesses [] = []"
| "accesses (Access x # ops) = x # accesses ops"
| "accesses (_ # ops) = accesses ops"

fun freed :: "mem_op list \<Rightarrow> w64 list" where
  "freed [] = []"
| "freed (Free a sz # ops) = a # freed ops"
| "freed (_ # ops) = freed ops"

text \<open>The words \<open>stm_free\<close> writes, and the entries of the write set the operations may need.\<close>

definition words :: "w64 \<Rightarrow> nat" where
  "words sz = (if sz > 0 then unat (drop_bit 3 (sz + 7)) else 0)"

fun need :: "mem_op list \<Rightarrow> nat" where
  "need [] = 0"
| "need (Free a sz # ops) = words sz + need ops"
| "need (Access (Store a v m) # ops) = Suc (need ops)"
| "need (_ # ops) = need ops"

definition entry :: "w64 \<Rightarrow> w64 \<Rightarrow> cb_entry" where
  "entry f a = \<lparr>cb_f = f, cb_arg = a\<rparr>"

text \<open>
  \<open>mem_inv\<close>: the transaction sees \<open>mem\<close>, has room for \<open>k\<close> more entries, and the callbacks
  \<open>cs\<close> and \<open>bs\<close> are registered for its commit and its abort.
\<close>

definition mem_inv :: "params \<Rightarrow> nat \<Rightarrow> w64 \<Rightarrow> nat \<Rightarrow> (w64 \<Rightarrow> w64) \<Rightarrow> cb_entry list \<Rightarrow> cb_entry list \<Rightarrow> cb_st \<Rightarrow> bool" where
  "mem_inv P M icb k mem cs bs s \<longleftrightarrow> tx_ok P M k (cs_stm s) \<and> tx_view P (cs_stm s) = mem
     \<and> cb_ready icb s \<and> cb_wf (cs_info s icb)
     \<and> commit_ents (cs_info s icb) = cs \<and> abort_ents (cs_info s icb) = bs"

lemma tx_ok_nalloc [simp]:
  "tx_ok P M k (s\<lparr>s_nalloc := i\<rparr>) = tx_ok P M k s" "tx_view P (s\<lparr>s_nalloc := i\<rparr>) = tx_view P s"
  by (simp_all add: tx_ok_def etl_ok_def ctl_ok_def wt_ok_def running_def etl_log_def ctl_log_def
      tx_view_def ctl_view_def wt_view_def etl_view_def)

lemma mem_malloc:
  assumes inv: "mem_inv P M icb k mem cs bs s" and al: "\<forall>i. alloc P i \<noteq> 0" and len: "length bs < 32768"
  shows "wp (stm_malloc P ff sz) s (\<lambda>a t. mem_inv P M icb k mem cs (bs @ [entry ff a]) t) never"
proof -
  let ?s = "s\<lparr>cs_stm := (cs_stm s)\<lparr>s_nalloc := Suc (s_nalloc (cs_stm s))\<rparr>\<rparr>"
  have h: "cb_ready icb s" using inv by (simp add: mem_inv_def)
  have "wp (mod_cb_add_on_abort P icb ff a) ?s (\<lambda>_ t. mem_inv P M icb k mem cs (bs @ [entry ff a]) t) never" for a
    by (rule wp_mono [OF add_abort_spec [of icb ?s P]])
      (use inv al len in \<open>auto simp: mem_inv_def entry_def, (metis tx_ok_nalloc)+\<close>)
  then show ?thesis using al by (simp add: stm_malloc_def cb_get [OF h] xmalloc_def)
qed

lemma mem_free:
  assumes inv: "mem_inv P M icb (words sz + k) mem cs bs s" and al: "\<forall>i. alloc P i \<noteq> 0" and len: "length cs < 32768"
  shows "wp (stm_free (n + 3) P ff a sz) s (\<lambda>_ t. mem_inv P M icb k mem (cs @ [entry ff a]) bs t) never"
proof -
  have h: "cb_ready icb s" using inv by (simp add: mem_inv_def)
  have reg: "wp (mod_cb_add_on_commit P icb ff a) t (\<lambda>_ u. mem_inv P M icb k mem (cs @ [entry ff a]) bs u) never"
    if "mem_inv P M icb k mem cs bs t" for t
    by (rule wp_mono [OF add_commit_spec [of icb t P]])
      (use that al len in \<open>auto simp: mem_inv_def entry_def, (metis tx_ok_nalloc)+\<close>)
  have touch: "wp (touch_words (n + 3) P b (words sz)) (cs_stm s)
      (\<lambda>_ t. mem_inv P M icb k mem cs bs (s\<lparr>cs_stm := t\<rparr>)) never" for b
    by (rule wp_mono [OF touch_words_spec [of P M "words sz" k]])
      (use inv world_ready in \<open>auto simp: mem_inv_def\<close>)
  show ?thesis
  proof (cases "sz > 0")
    case True
    have "wp (touch_words (n + 3) P b (words sz)) (cs_stm s) (\<lambda>_ t. wp (mod_cb_add_on_commit P icb ff a)
        (s\<lparr>cs_stm := t\<rparr>) (\<lambda>_ u. mem_inv P M icb k mem (cs @ [entry ff a]) bs u) never) never" for b
      by (rule wp_mono [OF touch]) (use reg in simp_all)
    then show ?thesis
      unfolding stm_free_def int_stm_free2_def wp_bnd cb_get [OF h] wp_thn wp_when
      using True by (simp add: words_def)
  next
    case False
    then show ?thesis
      unfolding stm_free_def int_stm_free2_def wp_bnd cb_get [OF h] wp_thn wp_when
      using reg inv by (simp add: words_def)
  qed
qed

lemma mem_load:
  assumes "mem_inv P M icb k mem cs bs s"
  shows "wp (cb_do (stm_load (n + 3) P a)) s (\<lambda>v t. v = mem a \<and> mem_inv P M icb k mem cs bs t) never"
proof -
  have ok: "tx_ok P M k (cs_stm s)" using assms by (simp add: mem_inv_def)
  show ?thesis
    unfolding wp_cb_do
    by (rule wp_mono [OF wp_conj_never [OF tx_load [OF ok] tx_load_world [OF ok]]])
      (use assms world_ready in \<open>auto simp: mem_inv_def\<close>)
qed

lemma mem_store:
  assumes "mem_inv P M icb (Suc k) mem cs bs s"
  shows "wp (cb_do (stm_store2 (n + 3) P a v m)) s
    (\<lambda>_ t. mem_inv P M icb k (mem(a := merge_mask (mem a) v m)) cs bs t) never"
proof -
  have ok: "tx_ok P M (Suc k) (cs_stm s)" using assms by (simp add: mem_inv_def)
  show ?thesis
    unfolding wp_cb_do
    by (rule wp_mono [OF wp_conj_never [OF tx_store [OF ok] tx_store_world [OF ok]]])
      (use assms world_ready in \<open>auto simp: mem_inv_def\<close>)
qed

lemma run_mem_spec:
  "mem_inv P M icb (need ops) mem cs bs s \<Longrightarrow> \<forall>i. alloc P i \<noteq> 0 \<Longrightarrow>
    length cs + length ops < 32768 \<Longrightarrow> length bs + length ops < 32768 \<Longrightarrow>
    wp (run_mem (n + 3) P ff ops) s
      (\<lambda>(as, vs) t. length as + length (freed ops) + length (accesses ops) = length ops
         \<and> vs = fst (spec_ops (accesses ops) mem)
         \<and> mem_inv P M icb 0 (snd (spec_ops (accesses ops) mem)) (cs @ map (entry ff) (freed ops)) (bs @ map (entry ff) as) t) never"
proof (induction ops arbitrary: mem cs bs s)
  case Nil
  then show ?case by simp
next
  case (Cons op ops)
  note inv = Cons.prems(1)
  show ?case
  proof (cases op)
    case (Access x)
    show ?thesis
    proof (cases x)
      case (Load a)
      have "mem_inv P M icb (need ops) mem cs bs s" using inv Access Load by simp
      then show ?thesis
        unfolding Access Load run_mem.simps wp_bnd
        by (rule wp_mono [OF mem_load], elim conjE, intro wp_mono [OF Cons.IH])
          (use Cons.prems in \<open>auto split: prod.splits\<close>)
    next
      case (Store a v m)
      have "mem_inv P M icb (Suc (need ops)) mem cs bs s" using inv Access Store by simp
      then show ?thesis
        unfolding Access Store run_mem.simps wp_thn
        by (rule wp_mono [OF mem_store], intro wp_mono [OF Cons.IH])
          (use Cons.prems in \<open>auto simp: fun_upd_def split: prod.splits\<close>)
    qed
  next
    case (Malloc sz)
    have m: "mem_inv P M icb (need ops) mem cs bs s" using inv Malloc by simp
    show ?thesis
      unfolding Malloc run_mem.simps wp_bnd
      by (rule wp_mono [OF mem_malloc [OF m Cons.prems(2)]], use Cons.prems in simp,
          rule wp_mono [OF Cons.IH]) (use Cons.prems Malloc in \<open>auto split: prod.splits\<close>)
  next
    case (Free a sz)
    have m: "mem_inv P M icb (words sz + need ops) mem cs bs s" using inv Free by simp
    show ?thesis
      unfolding Free run_mem.simps wp_thn
      by (rule wp_mono [OF mem_free [OF m Cons.prems(2)]], use Cons.prems in simp,
          rule wp_mono [OF Cons.IH]) (use Cons.prems Free in \<open>auto split: prod.splits\<close>)
  qed
qed

section \<open>Property\<close>


definition sample_mem_tx :: cb_st where
  "sample_mem_tx = sample_cb\<lparr>cs_info := (\<lambda>_. \<lparr>commit_size = 16, commit_ents = [], abort_size = 16, abort_ents = []\<rparr>)\<rparr>"

lemma sample_mem_ok: "tx_ok (sample_params WRITE_THROUGH) 4 4 (cs_stm sample_mem_tx)"
proof -
  have "wt_ok (sample_params WRITE_THROUGH) 4 4 (cs_stm sample_mem_tx)"
    by (simp add: wt_ok_def running_def allocs_def room_def backoff_ok_def alone_def etl_log_def etl_inv_def ws_wf_def
        locks_wf_def covered_def mine_def versions_def free_at_def sample_mem_tx_def sample_cb_def sample_defs
        uses_ctl_def uses_wt_def quiet_def lock_defs DELAY_SLOTS_def
        version_max_value ws_placed_def chained_def covered_from_def mine_def)
  then show ?thesis by (simp add: tx_ok_def)
qed


end
