(* ===== verification/ModLog.thy ===== *)
theory ModLog
  imports Wrappers
begin

text \<open>
  The undo log for non-transactional memory (\<open>src/mod_log.c\<close>).  An application logs a
  location before it writes to it directly; on abort the module stores the logged values
  back, last entry first.

  Memory is seen by bytes, little-endian, through the words of \<open>g_mem\<close>.  An entry keeps the
  bytes of the field \<open>v\<close> of its union member; for \<open>u16\<close>, \<open>u32\<close> and \<open>u64\<close> that field is
  declared \<open>char\<close>, so one byte is kept and the assignment on abort sign-extends it.
\<close>

section \<open>The log\<close>

definition LW_SET_SIZE :: nat where "LW_SET_SIZE = 1024"

datatype log_type =
    TYPE_WORD | TYPE_U8 | TYPE_U16 | TYPE_U32 | TYPE_U64 | TYPE_CHAR | TYPE_UCHAR
  | TYPE_SHORT | TYPE_USHORT | TYPE_INT | TYPE_UINT | TYPE_LONG | TYPE_ULONG
  | TYPE_FLOAT | TYPE_DOUBLE | TYPE_PTR | TYPE_BYTES nat

text \<open>The number of bytes the type has in memory.\<close>

fun type_width :: "log_type \<Rightarrow> nat" where
  "type_width TYPE_WORD = 8"
| "type_width TYPE_U8 = 1"
| "type_width TYPE_U16 = 2"
| "type_width TYPE_U32 = 4"
| "type_width TYPE_U64 = 8"
| "type_width TYPE_CHAR = 1"
| "type_width TYPE_UCHAR = 1"
| "type_width TYPE_SHORT = 2"
| "type_width TYPE_USHORT = 2"
| "type_width TYPE_INT = 4"
| "type_width TYPE_UINT = 4"
| "type_width TYPE_LONG = 8"
| "type_width TYPE_ULONG = 8"
| "type_width TYPE_FLOAT = 4"
| "type_width TYPE_DOUBLE = 8"
| "type_width TYPE_PTR = 8"
| "type_width (TYPE_BYTES k) = k"

text \<open>The number of bytes of the field \<open>v\<close>.\<close>

fun field_width :: "log_type \<Rightarrow> nat" where
  "field_width TYPE_U16 = 1"
| "field_width TYPE_U32 = 1"
| "field_width TYPE_U64 = 1"
| "field_width t = type_width t"

record log_entry =
  le_type :: log_type
  le_addr :: w64
  le_val :: "8 word list"

record log_set =
  ls_entries :: "log_entry list"
  ls_size :: nat
  ls_allocated :: nat

record log_st =
  lg_stm :: st
  lg_key :: int
  lg_initialized :: bool
  lg_sets :: "w64 \<Rightarrow> log_set"

type_synonym 'a lprog = "(log_st, 'a) comp"

definition log_do :: "'a prog \<Rightarrow> 'a lprog" where
  "log_do m s = (case m (lg_stm s) of (r, t) \<Rightarrow> (r, s\<lparr>lg_stm := t\<rparr>))"

definition upd_set :: "w64 \<Rightarrow> (log_set \<Rightarrow> log_set) \<Rightarrow> unit lprog" where
  "upd_set p f = modify (\<lambda>s. s\<lparr>lg_sets := (lg_sets s)(p := f (lg_sets s p))\<rparr>)"

definition log_mem :: "log_st \<Rightarrow> w64 \<Rightarrow> w64" where
  "log_mem s = g_mem (s_glob (lg_stm s))"

definition set_log_mem :: "((w64 \<Rightarrow> w64) \<Rightarrow> w64 \<Rightarrow> w64) \<Rightarrow> unit lprog" where
  "set_log_mem f = log_do (set_glob (\<lambda>g. g\<lparr>g_mem := f (g_mem g)\<rparr>))"

section \<open>Logging\<close>

definition mod_log_specific :: "w64 lprog" where
  "mod_log_specific =
     bnd (gets lg_key) (\<lambda>k. bnd (log_do (stm_get_specific k)) (\<lambda>ws.
       thn (assert_c (\<lambda>_. ws \<noteq> 0)) (ret ws)))"

definition grow :: "log_set \<Rightarrow> log_set" where
  "grow l = l\<lparr>ls_size := (if ls_size l < LW_SET_SIZE then LW_SET_SIZE else ls_size l * 2)\<rparr>"

definition get_entry :: "params \<Rightarrow> w64 lprog" where
  "get_entry P =
     bnd (gets lg_initialized) (\<lambda>i. if \<not> i then stop ExitProc
     else bnd mod_log_specific (\<lambda>ws. bnd (gets (\<lambda>s. lg_sets s ws)) (\<lambda>l.
       thn (when_c (length (ls_entries l) = ls_size l)
             (thn (upd_set ws grow) (bnd (log_do (xmalloc P)) (\<lambda>_. ret ()))))
           (ret ws))))"

text \<open>\<open>save t bs\<close>: what the field keeps of the bytes in memory; \<open>restore t v\<close>: the bytes it stores back.\<close>

definition save :: "log_type \<Rightarrow> 8 word list \<Rightarrow> 8 word list" where
  "save t bs = take (field_width t) bs"

definition restore :: "log_type \<Rightarrow> 8 word list \<Rightarrow> 8 word list" where
  "restore t v =
    (if field_width t = type_width t then v
     else v @ replicate (type_width t - field_width t) (if bit (last v) 7 then 0xFF else 0))"

definition stm_log_type :: "params \<Rightarrow> log_type \<Rightarrow> w64 \<Rightarrow> unit lprog" where
  "stm_log_type P t addr =
     bnd (get_entry P) (\<lambda>ws. bnd (gets log_mem) (\<lambda>mem.
       upd_set ws (\<lambda>l. l\<lparr>ls_entries := ls_entries l @
         [\<lparr>le_type = t, le_addr = addr, le_val = save t (read_bytes mem addr (type_width t))\<rparr>]\<rparr>)))"

definition stm_log :: "params \<Rightarrow> w64 \<Rightarrow> unit lprog" where "stm_log P = stm_log_type P TYPE_WORD"
definition stm_log_u8 :: "params \<Rightarrow> w64 \<Rightarrow> unit lprog" where "stm_log_u8 P = stm_log_type P TYPE_U8"
definition stm_log_u16 :: "params \<Rightarrow> w64 \<Rightarrow> unit lprog" where "stm_log_u16 P = stm_log_type P TYPE_U16"
definition stm_log_u32 :: "params \<Rightarrow> w64 \<Rightarrow> unit lprog" where "stm_log_u32 P = stm_log_type P TYPE_U32"
definition stm_log_u64 :: "params \<Rightarrow> w64 \<Rightarrow> unit lprog" where "stm_log_u64 P = stm_log_type P TYPE_U64"
definition stm_log_char :: "params \<Rightarrow> w64 \<Rightarrow> unit lprog" where "stm_log_char P = stm_log_type P TYPE_CHAR"
definition stm_log_uchar :: "params \<Rightarrow> w64 \<Rightarrow> unit lprog" where "stm_log_uchar P = stm_log_type P TYPE_UCHAR"
definition stm_log_short :: "params \<Rightarrow> w64 \<Rightarrow> unit lprog" where "stm_log_short P = stm_log_type P TYPE_SHORT"
definition stm_log_ushort :: "params \<Rightarrow> w64 \<Rightarrow> unit lprog" where "stm_log_ushort P = stm_log_type P TYPE_USHORT"
definition stm_log_int :: "params \<Rightarrow> w64 \<Rightarrow> unit lprog" where "stm_log_int P = stm_log_type P TYPE_INT"
definition stm_log_uint :: "params \<Rightarrow> w64 \<Rightarrow> unit lprog" where "stm_log_uint P = stm_log_type P TYPE_UINT"
definition stm_log_long :: "params \<Rightarrow> w64 \<Rightarrow> unit lprog" where "stm_log_long P = stm_log_type P TYPE_LONG"
definition stm_log_ulong :: "params \<Rightarrow> w64 \<Rightarrow> unit lprog" where "stm_log_ulong P = stm_log_type P TYPE_ULONG"
definition stm_log_float :: "params \<Rightarrow> w64 \<Rightarrow> unit lprog" where "stm_log_float P = stm_log_type P TYPE_FLOAT"
definition stm_log_double :: "params \<Rightarrow> w64 \<Rightarrow> unit lprog" where "stm_log_double P = stm_log_type P TYPE_DOUBLE"
definition stm_log_ptr :: "params \<Rightarrow> w64 \<Rightarrow> unit lprog" where "stm_log_ptr P = stm_log_type P TYPE_PTR"

definition stm_log_bytes :: "params \<Rightarrow> w64 \<Rightarrow> nat \<Rightarrow> unit lprog" where
  "stm_log_bytes P addr k =
     bnd (get_entry P) (\<lambda>ws.
     bnd (log_do (xmalloc P)) (\<lambda>_. bnd (gets log_mem) (\<lambda>mem.
       thn (upd_set ws (\<lambda>l. l\<lparr>ls_entries := ls_entries l @
              [\<lparr>le_type = TYPE_BYTES k, le_addr = addr, le_val = read_bytes mem addr k\<rparr>]\<rparr>))
           (upd_set ws (\<lambda>l. l\<lparr>ls_allocated := Suc (ls_allocated l)\<rparr>)))))"

section \<open>Commit and abort\<close>

text \<open>Commit frees the copies of the block entries, counting \<open>allocated\<close> down.\<close>

fun is_bytes :: "log_type \<Rightarrow> bool" where
  "is_bytes (TYPE_BYTES k) = True"
| "is_bytes t = False"

fun free_copies :: "w64 \<Rightarrow> log_entry list \<Rightarrow> unit lprog" where
  "free_copies ws [] = stop AssertFail"
| "free_copies ws (e # es) =
     thn (when_c (is_bytes (le_type e)) (upd_set ws (\<lambda>l. l\<lparr>ls_allocated := ls_allocated l - 1\<rparr>)))
    (bnd (gets (\<lambda>s. ls_allocated (lg_sets s ws))) (\<lambda>a. if a > 0 then free_copies ws es else ret ()))"

definition mod_log_on_commit :: "unit lprog" where
  "mod_log_on_commit =
     bnd mod_log_specific (\<lambda>ws. bnd (gets (\<lambda>s. lg_sets s ws)) (\<lambda>l.
       thn (when_c (ls_allocated l > 0) (free_copies ws (ls_entries l)))
           (upd_set ws (\<lambda>l. l\<lparr>ls_entries := []\<rparr>))))"

definition undo_entry :: "log_entry \<Rightarrow> (w64 \<Rightarrow> w64) \<Rightarrow> w64 \<Rightarrow> w64" where
  "undo_entry e mem = write_bytes mem (le_addr e) (restore (le_type e) (le_val e))"

fun apply_undo :: "w64 \<Rightarrow> log_entry list \<Rightarrow> unit lprog" where
  "apply_undo ws [] = ret ()"
| "apply_undo ws (e # es) =
     thn (set_log_mem (undo_entry e))
    (thn (when_c (is_bytes (le_type e)) (upd_set ws (\<lambda>l. l\<lparr>ls_allocated := ls_allocated l - 1\<rparr>)))
         (apply_undo ws es))"

definition mod_log_on_abort :: "unit lprog" where
  "mod_log_on_abort =
     bnd mod_log_specific (\<lambda>ws. bnd (gets (\<lambda>s. lg_sets s ws)) (\<lambda>l.
       thn (when_c (ls_entries l \<noteq> [])
             (thn (apply_undo ws (rev (ls_entries l))) (upd_set ws (\<lambda>l. l\<lparr>ls_entries := []\<rparr>))))
           (assert_c (\<lambda>s. ls_allocated (lg_sets s ws) = 0))))"

section \<open>Threads and initialisation\<close>

definition mod_log_on_thread_init :: "params \<Rightarrow> unit lprog" where
  "mod_log_on_thread_init P =
     bnd (log_do (xmalloc P)) (\<lambda>ws.
       thn (upd_set ws (\<lambda>_. \<lparr>ls_entries = [], ls_size = 0, ls_allocated = 0\<rparr>))
           (bnd (gets lg_key) (\<lambda>k. log_do (stm_set_specific k ws))))"

definition mod_log_on_thread_exit :: "unit lprog" where
  "mod_log_on_thread_exit = bnd mod_log_specific (\<lambda>_. ret ())"

definition mod_log_init :: "cb_set \<Rightarrow> unit lprog" where
  "mod_log_init cbs =
     bnd (gets lg_initialized) (\<lambda>i. if i then ret ()
     else
       bnd (log_do (stm_register (cbs\<lparr>on_start := 0, on_precommit := 0\<rparr>) 0)) (\<lambda>ok.
         if \<not> ok then stop ExitProc
         else bnd (log_do stm_create_specific) (\<lambda>k.
           thn (modify (\<lambda>s. s\<lparr>lg_key := k\<rparr>))
           (if k < 0 then stop ExitProc else modify (\<lambda>s. s\<lparr>lg_initialized := True\<rparr>)))))"

section \<open>Lemmas\<close>

lemma wp_log_do [wp_simps, simp]:
  "wp (log_do m) s Q E = wp m (lg_stm s) (\<lambda>x t. Q x (s\<lparr>lg_stm := t\<rparr>)) (\<lambda>r t. E r (s\<lparr>lg_stm := t\<rparr>))"
  by (cases "m (lg_stm s)"; cases "fst (m (lg_stm s))") (simp_all add: wp_def log_do_def)

lemma wp_upd_set [wp_simps, simp]:
  "wp (upd_set p f) s Q E = Q () (s\<lparr>lg_sets := (lg_sets s)(p := f (lg_sets s p))\<rparr>)"
  by (simp add: upd_set_def)

lemma wp_set_log_mem [wp_simps, simp]:
  "wp (set_log_mem f) s Q E = Q () (s\<lparr>lg_stm := upd_glob (\<lambda>g. g\<lparr>g_mem := f (g_mem g)\<rparr>) (lg_stm s)\<rparr>)"
  by (simp add: set_log_mem_def)

text \<open>The thread has initialised the module: its log set is \<open>ws\<close>.\<close>

definition log_ready :: "w64 \<Rightarrow> log_st \<Rightarrow> bool" where
  "log_ready ws s \<longleftrightarrow> lg_initialized s \<and> ws \<noteq> 0 \<and> valid_key (lg_key s) (lg_stm s)
     \<and> tx_data (s_tx (lg_stm s)) ! nat (lg_key s) = ws"

lemma log_specific: "log_ready ws s \<Longrightarrow> wp mod_log_specific s Q E = Q ws s"
  by (simp add: mod_log_specific_def log_ready_def stm_get_specific_def int_stm_get_specific_def)

lemma log_ready_upd [simp]:
  "log_ready ws (s\<lparr>lg_sets := f\<rparr>) = log_ready ws s"
  "log_ready ws (s\<lparr>lg_stm := upd_glob (\<lambda>g. g\<lparr>g_mem := h g\<rparr>) (lg_stm s)\<rparr>) = log_ready ws s"
  "log_ready ws (s\<lparr>lg_stm := (lg_stm s)\<lparr>s_nalloc := k\<rparr>\<rparr>) = log_ready ws s"
  "log_ready ws (s\<lparr>lg_sets := f, lg_stm := (lg_stm s)\<lparr>s_nalloc := k\<rparr>\<rparr>) = log_ready ws s"
  by (simp_all add: log_ready_def valid_key_def)

lemma grow_fields [simp]: "ls_entries (grow l) = ls_entries l" "ls_allocated (grow l) = ls_allocated l"
  by (simp_all add: grow_def)

lemma log_get_entry:
  assumes "log_ready ws s" "\<forall>i. alloc P i \<noteq> 0"
    and "\<And>k l. ls_entries l = ls_entries (lg_sets s ws) \<Longrightarrow> ls_allocated l = ls_allocated (lg_sets s ws) \<Longrightarrow>
      Q ws (s\<lparr>lg_sets := (lg_sets s)(ws := l), lg_stm := (lg_stm s)\<lparr>s_nalloc := k\<rparr>\<rparr>)"
  shows "wp (get_entry P) s Q E"
proof -
  have i: "lg_initialized s" using assms(1) by (simp add: log_ready_def)
  have same: "s\<lparr>lg_sets := (lg_sets s)(ws := lg_sets s ws), lg_stm := (lg_stm s)\<lparr>s_nalloc := s_nalloc (lg_stm s)\<rparr>\<rparr> = s"
    by simp
  have "Q ws s" using assms(3) [of "lg_sets s ws" "s_nalloc (lg_stm s)"] by (simp only: same)
  moreover have "Q ws (s\<lparr>lg_sets := (lg_sets s)(ws := grow (lg_sets s ws)), lg_stm := (lg_stm s)\<lparr>s_nalloc := Suc (s_nalloc (lg_stm s))\<rparr>\<rparr>)"
    using assms(3) [of "grow (lg_sets s ws)" "Suc (s_nalloc (lg_stm s))"] by simp
  ultimately show ?thesis
    using i assms(2) unfolding get_entry_def wp_bnd log_specific [OF assms(1)] by (simp add: log_specific [OF assms(1)] xmalloc_def)
qed

text \<open>The values the log would put back, last entry first.\<close>

fun undo_all :: "log_entry list \<Rightarrow> (w64 \<Rightarrow> w64) \<Rightarrow> w64 \<Rightarrow> w64" where
  "undo_all [] mem = mem"
| "undo_all (e # es) mem = undo_all es (undo_entry e mem)"

definition blocks :: "log_entry list \<Rightarrow> nat" where
  "blocks es = length (filter (\<lambda>e. is_bytes (le_type e)) es)"

lemma apply_undo_spec:
  "log_ready ws s \<Longrightarrow> wp (apply_undo ws es) s
    (\<lambda>_ t. log_ready ws t \<and> log_mem t = undo_all es (log_mem s)
      \<and> ls_entries (lg_sets t ws) = ls_entries (lg_sets s ws)
      \<and> ls_allocated (lg_sets t ws) = ls_allocated (lg_sets s ws) - blocks es) never"
proof (induction es arbitrary: s)
  case Nil
  then show ?case by (simp add: blocks_def)
next
  case (Cons e es)
  let ?u = "s\<lparr>lg_stm := upd_glob (\<lambda>g. g\<lparr>g_mem := undo_entry e (g_mem g)\<rparr>) (lg_stm s)\<rparr>"
  let ?v = "?u\<lparr>lg_sets := (lg_sets ?u)(ws := (lg_sets ?u ws)\<lparr>ls_allocated := ls_allocated (lg_sets ?u ws) - 1\<rparr>)\<rparr>"
  have "log_ready ws ?u" "log_ready ws ?v" using Cons.prems by simp_all
  from Cons.IH [OF this(1)] Cons.IH [OF this(2)] show ?case
    by (auto simp: blocks_def log_mem_def elim!: wp_mono)
qed

text \<open>Logging an entry and then writing to it directly.\<close>

definition log_any :: "params \<Rightarrow> log_type \<Rightarrow> w64 \<Rightarrow> unit lprog" where
  "log_any P t a = (case t of TYPE_BYTES k \<Rightarrow> stm_log_bytes P a k | _ \<Rightarrow> stm_log_type P t a)"

fun log_writes :: "params \<Rightarrow> (log_type \<times> w64 \<times> 8 word list) list \<Rightarrow> unit lprog" where
  "log_writes P [] = ret ()"
| "log_writes P ((t, a, bs) # ws) =
     thn (log_any P t a) (thn (set_log_mem (\<lambda>m. write_bytes m a bs)) (log_writes P ws))"

text \<open>The types whose field keeps the whole value.\<close>

definition kept :: "log_type \<Rightarrow> bool" where
  "kept t \<longleftrightarrow> field_width t = type_width t \<and> type_width t \<le> 2 ^ 64"

definition log_inv :: "w64 \<Rightarrow> (w64 \<Rightarrow> w64) \<Rightarrow> log_st \<Rightarrow> bool" where
  "log_inv ws mem s \<longleftrightarrow> log_ready ws s \<and> undo_all (rev (ls_entries (lg_sets s ws))) (log_mem s) = mem
     \<and> ls_allocated (lg_sets s ws) = blocks (ls_entries (lg_sets s ws))"

lemma undo_written:
  assumes "kept t" "length bs = type_width t"
  shows "undo_entry \<lparr>le_type = t, le_addr = a, le_val = save t (read_bytes mem a (type_width t))\<rparr> (write_bytes mem a bs) = mem"
proof -
  have w: "type_width t \<le> 2 ^ 64" "field_width t = type_width t" using assms(1) by (simp_all add: kept_def)
  have "write_bytes (write_bytes mem a bs) a (read_bytes mem a (type_width t)) = mem"
    by (rule write_back [OF w(1)]) (use assms(2) w(1) in \<open>simp_all add: read_byte_write_bytes write_bytes_unaligned\<close>)
  then show ?thesis using w(2) by (simp add: undo_entry_def save_def restore_def)
qed

lemma log_any_spec:
  assumes h: "log_ready ws s" and al: "\<forall>i. alloc P i \<noteq> 0"
  shows "wp (log_any P t a) s (\<lambda>_ u. log_ready ws u \<and> log_mem u = log_mem s
    \<and> ls_entries (lg_sets u ws) = ls_entries (lg_sets s ws) @
        [\<lparr>le_type = t, le_addr = a, le_val = save t (read_bytes (log_mem s) a (type_width t))\<rparr>]
    \<and> ls_allocated (lg_sets u ws) = ls_allocated (lg_sets s ws) + of_bool (is_bytes t)) never"
proof -
  have typed: "wp (stm_log_type P t a) s (\<lambda>_ u. log_ready ws u \<and> log_mem u = log_mem s
      \<and> ls_entries (lg_sets u ws) = ls_entries (lg_sets s ws) @
          [\<lparr>le_type = t, le_addr = a, le_val = save t (read_bytes (log_mem s) a (type_width t))\<rparr>]
      \<and> ls_allocated (lg_sets u ws) = ls_allocated (lg_sets s ws)) never"
    unfolding stm_log_type_def wp_bnd by (rule log_get_entry [OF h al]) (use h in \<open>simp add: log_mem_def\<close>)
  have block: "wp (stm_log_bytes P a k) s (\<lambda>_ u. log_ready ws u \<and> log_mem u = log_mem s
      \<and> ls_entries (lg_sets u ws) = ls_entries (lg_sets s ws) @
          [\<lparr>le_type = t, le_addr = a, le_val = save t (read_bytes (log_mem s) a (type_width t))\<rparr>]
      \<and> ls_allocated (lg_sets u ws) = Suc (ls_allocated (lg_sets s ws))) never" if "t = TYPE_BYTES k" for k
    unfolding stm_log_bytes_def wp_bnd
    by (rule log_get_entry [OF h al]) (use h al that in \<open>simp add: log_mem_def xmalloc_def save_def\<close>)
  show ?thesis using typed block by (cases t) (simp_all add: log_any_def)
qed

lemma log_step:
  assumes inv: "log_inv ws mem s" and t: "kept t" "length bs = type_width t" and al: "\<forall>i. alloc P i \<noteq> 0"
  shows "wp (thn (log_any P t a) (set_log_mem (\<lambda>m. write_bytes m a bs))) s (\<lambda>_ u. log_inv ws mem u) never"
proof -
  let ?e = "\<lparr>le_type = t, le_addr = a, le_val = save t (read_bytes (log_mem s) a (type_width t))\<rparr>"
  have h: "log_ready ws s" and un: "undo_all (rev (ls_entries (lg_sets s ws))) (log_mem s) = mem"
    and al_ws: "ls_allocated (lg_sets s ws) = blocks (ls_entries (lg_sets s ws))"
    using inv by (simp_all add: log_inv_def)
  have un': "undo_all (rev (ls_entries (lg_sets s ws) @ [?e])) (write_bytes (log_mem s) a bs) = mem"
    using undo_written [OF t] un by simp
  show ?thesis
    unfolding wp_thn wp_set_log_mem
    by (rule wp_mono [OF log_any_spec [OF h al]]) (use un' al_ws in \<open>simp_all add: log_inv_def log_mem_def blocks_def\<close>)
qed

lemma log_steps:
  "log_inv ws mem s \<Longrightarrow> \<forall>(t, a, bs) \<in> set xs. kept t \<and> length bs = type_width t \<Longrightarrow> \<forall>i. alloc P i \<noteq> 0 \<Longrightarrow>
    wp (log_writes P xs) s (\<lambda>_ t. log_inv ws mem t) never"
proof (induction xs arbitrary: s)
  case (Cons x xs)
  obtain t a bs where x: "x = (t, a, bs)" by (cases x)
  have "wp (thn (log_any P t a) (set_log_mem (\<lambda>m. write_bytes m a bs))) s (\<lambda>_ u. log_inv ws mem u) never"
    by (rule log_step) (use Cons.prems x in auto)
  then have "wp (log_any P t a) s (\<lambda>_ u. wp (set_log_mem (\<lambda>m. write_bytes m a bs)) u
      (\<lambda>_ v. wp (log_writes P xs) v (\<lambda>_ t. log_inv ws mem t) never) never) never"
    unfolding wp_thn by (rule wp_mono) (use Cons.IH Cons.prems in simp_all)
  then show ?case by (simp only: x log_writes.simps wp_thn)
qed simp

lemma abort_applies:
  assumes h: "log_ready ws s" and al: "ls_allocated (lg_sets s ws) = blocks (ls_entries (lg_sets s ws))"
  shows "wp mod_log_on_abort s (\<lambda>_ t. log_mem t = undo_all (rev (ls_entries (lg_sets s ws))) (log_mem s)
    \<and> ls_entries (lg_sets t ws) = [] \<and> log_ready ws t) never"
proof -
  have b: "blocks (rev es) = blocks es" for es by (simp add: blocks_def rev_filter [symmetric])
  show ?thesis
  proof (cases "ls_entries (lg_sets s ws) = []")
    case True
    then show ?thesis using h al by (simp add: mod_log_on_abort_def log_specific blocks_def)
  next
    case False
    have "wp (apply_undo ws (rev (ls_entries (lg_sets s ws)))) s
      (\<lambda>_ t. log_ready ws t \<and> log_mem t = undo_all (rev (ls_entries (lg_sets s ws))) (log_mem s)
         \<and> ls_allocated (lg_sets t ws) = 0) never"
      by (rule wp_mono [OF apply_undo_spec [OF h]]) (simp_all add: al b)
    then show ?thesis
      using False by (auto simp: mod_log_on_abort_def log_specific [OF h] log_mem_def elim!: wp_mono)
  qed
qed

lemma abort_undoes:
  assumes "log_inv ws mem s"
  shows "wp mod_log_on_abort s (\<lambda>_ t. log_mem t = mem \<and> ls_entries (lg_sets t ws) = [] \<and> log_ready ws t) never"
  using abort_applies [of ws s] assms by (simp add: log_inv_def)

section \<open>Properties\<close>

definition sample_log :: log_st where
  "sample_log = \<lparr>lg_stm = upd_tx (\<lambda>t. t\<lparr>tx_data := [128]\<rparr>) sample_run, lg_key = 0, lg_initialized = True,
     lg_sets = (\<lambda>_. \<lparr>ls_entries = [], ls_size = 0, ls_allocated = 0\<rparr>)\<rparr>"

lemma sample_log_ready: "log_ready 128 sample_log"
  by (simp add: sample_log_def log_ready_def valid_key_def sample_defs)

text \<open>C18: Aborting undoes direct writes.  When the application logs each location, by the type it has,
  before it writes there, any number of times and with overlaps, an abort leaves memory as it was
  when the transaction began and the log empty.  This covers words, bytes, \<open>char\<close>, \<open>short\<close>, \<open>int\<close>,
  \<open>long\<close>, \<open>float\<close>, \<open>double\<close>, pointers and blocks of bytes.\<close>

theorem log_abort_restores:
  assumes "log_ready ws s" "ls_entries (lg_sets s ws) = []" "ls_allocated (lg_sets s ws) = 0"
    and "\<forall>i. alloc P i \<noteq> 0" "\<forall>(t, a, bs) \<in> set xs. kept t \<and> length bs = type_width t"
  shows "\<exists>t. thn (log_writes P xs) mod_log_on_abort s = (Ret (), t)
    \<and> log_mem t = log_mem s \<and> ls_entries (lg_sets t ws) = []"
proof -
  have "log_inv ws (log_mem s) s" using assms(1-3) by (simp add: log_inv_def blocks_def)
  from log_steps [OF this assms(5,4)]
  have "wp (thn (log_writes P xs) mod_log_on_abort) s
      (\<lambda>_ t. log_mem t = log_mem s \<and> ls_entries (lg_sets t ws) = [] \<and> log_ready ws t) never"
    unfolding wp_thn by (rule wp_mono) (use abort_undoes in simp_all)
  then show ?thesis by (auto simp: wp_never)
qed

theorem log_abort_restores_witness:
  "\<exists>t. thn (log_writes (sample_params WRITE_BACK_ETL) [(TYPE_INT, 66, [1, 2, 3, 4]), (TYPE_BYTES 3, 67, [5, 6, 7]), (TYPE_INT, 66, [8, 8, 8, 8])])
      mod_log_on_abort sample_log = (Ret (), t) \<and> log_mem t = (\<lambda>_. 7)"
proof -
  let ?xs = "[(TYPE_INT, 66 :: w64, [1, 2, 3, 4 :: 8 word]), (TYPE_BYTES 3, 67, [5, 6, 7]), (TYPE_INT, 66, [8, 8, 8, 8])]"
  have x: "\<forall>(t, a, bs) \<in> set ?xs. kept t \<and> length bs = type_width t" by (simp add: kept_def)
  have m: "log_mem sample_log = (\<lambda>_. 7)" by (simp add: sample_log_def log_mem_def sample_defs)
  have e: "ls_entries (lg_sets sample_log 128) = []" "ls_allocated (lg_sets sample_log 128) = 0"
    by (simp_all add: sample_log_def)
  have a: "\<forall>i. alloc (sample_params WRITE_BACK_ETL) i \<noteq> 0" by (simp add: sample_params_def)
  from log_abort_restores [OF sample_log_ready e a x] show ?thesis using m by (simp only: ) blast
qed

text \<open>C38: Values logged with \<open>stm_log_u16\<close>, \<open>stm_log_u32\<close> and \<open>stm_log_u64\<close> are not restored: the
  entry's field is a \<open>char\<close>, so after an abort the location holds the lowest byte of the old value
  and its sign in every byte above.\<close>

theorem narrow_log_truncates:
  assumes "log_ready ws s" "ls_entries (lg_sets s ws) = []" "ls_allocated (lg_sets s ws) = 0"
    and "\<forall>i. alloc P i \<noteq> 0" "t \<in> {TYPE_U16, TYPE_U32, TYPE_U64}" "length bs = type_width t"
  shows "\<exists>u. thn (log_writes P [(t, a, bs)]) mod_log_on_abort s = (Ret (), u)
    \<and> log_mem u = write_bytes (log_mem s) a (read_byte (log_mem s) a #
        replicate (type_width t - 1) (if bit (read_byte (log_mem s) a) 7 then 0xFF else 0))"
proof -
  let ?b = "read_byte (log_mem s) a"
  let ?v = "?b # replicate (type_width t - 1) (if bit ?b 7 then 0xFF else 0)"
  let ?e = "\<lparr>le_type = t, le_addr = a, le_val = save t (read_bytes (log_mem s) a (type_width t))\<rparr>"
  have sv: "save t (read_bytes (log_mem s) a (type_width t)) = [?b]" "restore t [?b] = ?v" "\<not> is_bytes t"
    using assms(5) by (auto simp: save_def restore_def eval_nat_numeral)
  have over: "write_bytes (write_bytes (log_mem s) a bs) a ?v = write_bytes (log_mem s) a ?v"
    by (rule write_bytes_twice) (use assms(5,6) in auto)
  have undo: "wp mod_log_on_abort u (\<lambda>_ w. log_mem w = write_bytes (log_mem u) a ?v) never"
    if u: "log_ready ws u" "ls_entries (lg_sets u ws) = [?e]" "ls_allocated (lg_sets u ws) = 0" for u
    by (rule wp_mono [OF abort_applies [OF u(1)]]) (use u sv in \<open>simp_all add: undo_entry_def blocks_def\<close>)
  have "wp (thn (log_writes P [(t, a, bs)]) mod_log_on_abort) s (\<lambda>_ w. log_mem w = write_bytes (log_mem s) a ?v) never"
    unfolding log_writes.simps wp_thn
    by (rule wp_mono [OF log_any_spec [OF assms(1,4)]])
      (use assms(2,3) sv(3) over in \<open>auto simp: log_mem_def intro!: wp_mono [OF undo]\<close>)
  then show ?thesis by (auto simp: wp_never)
qed

theorem narrow_log_truncates_witness:
  "\<exists>u. thn (log_writes (sample_params WRITE_THROUGH) [(TYPE_U16, 71, [1, 2])]) mod_log_on_abort sample_log = (Ret (), u)
    \<and> read_byte (log_mem sample_log) 72 = 7 \<and> read_byte (log_mem u) 72 = 0"
proof -
  have m: "log_mem sample_log = (\<lambda>_. 7)" by (simp add: sample_log_def log_mem_def sample_defs)
  have e: "ls_entries (lg_sets sample_log 128) = []" "ls_allocated (lg_sets sample_log 128) = 0"
    by (simp_all add: sample_log_def)
  have a: "\<forall>i. alloc (sample_params WRITE_THROUGH) i \<noteq> 0" by (simp add: sample_params_def)
  have b: "read_byte (\<lambda>_. 7) 71 = 0" "read_byte (\<lambda>_. 7) 72 = 7"
    by (simp_all add: read_byte_def byte_def ALIGN_DOWN_def OFFSET_def)
  from narrow_log_truncates [OF sample_log_ready e a, of TYPE_U16 "[1, 2]" 71]
  show ?thesis by (auto simp: m b read_byte_write_bytes simp del: log_writes.simps write_bytes.simps)
qed

end
