(* ===== verification/ModStats.thy ===== *)
theory ModStats
  imports Stm
begin

text \<open>
  Statistics per thread and for the whole run (\<open>src/mod_stats.c\<close>).  The callbacks count
  commits and the aborts between two commits; a thread that ends adds its counters to the
  global ones with atomic operations.
\<close>

section \<open>State\<close>

record mod_stats_data =
  ms_commits :: w64
  ms_retries :: w64
  ms_retries_min :: w64
  ms_retries_max :: w64
  ms_retries_acc :: w64
  ms_retries_cnt :: w64

definition ULONG_MAX :: w64 where "ULONG_MAX = NOT 0"

definition stats0 :: mod_stats_data where
  "stats0 = \<lparr>ms_commits = 0, ms_retries = 0, ms_retries_min = ULONG_MAX, ms_retries_max = 0,
             ms_retries_acc = 0, ms_retries_cnt = 0\<rparr>"

text \<open>\<open>sm_env\<close> moves the global counters before the \<open>n\<close>-th atomic access of this thread.\<close>

record stats_st =
  sm_stm :: st
  sm_key :: int
  sm_initialized :: bool
  sm_data :: "w64 \<Rightarrow> mod_stats_data"
  sm_global :: mod_stats_data
  sm_tick :: nat

type_synonym 'a sprog = "(stats_st, 'a) comp"
type_synonym stats_env = "nat \<Rightarrow> mod_stats_data \<Rightarrow> mod_stats_data"

definition stats_do :: "'a prog \<Rightarrow> 'a sprog" where
  "stats_do m s = (case m (sm_stm s) of (r, t) \<Rightarrow> (r, s\<lparr>sm_stm := t\<rparr>))"

definition set_data :: "w64 \<Rightarrow> (mod_stats_data \<Rightarrow> mod_stats_data) \<Rightarrow> unit sprog" where
  "set_data p f = modify (\<lambda>s. s\<lparr>sm_data := (sm_data s)(p := f (sm_data s p))\<rparr>)"

definition stats_move :: "stats_env \<Rightarrow> unit sprog" where
  "stats_move E = modify (\<lambda>s. s\<lparr>sm_global := E (sm_tick s) (sm_global s), sm_tick := Suc (sm_tick s)\<rparr>)"

definition global_add :: "stats_env \<Rightarrow> (mod_stats_data \<Rightarrow> mod_stats_data) \<Rightarrow> unit sprog" where
  "global_add E f = thn (stats_move E) (modify (\<lambda>s. s\<lparr>sm_global := f (sm_global s)\<rparr>))"

section \<open>Queries\<close>

definition stm_get_global_stats :: "string \<Rightarrow> w64 option sprog" where
  "stm_get_global_stats name =
     bnd (gets sm_initialized) (\<lambda>i. if \<not> i then stop ExitProc
     else bnd (gets sm_global) (\<lambda>g. ret (map_option (\<lambda>f. f g) (map_of
       [(''global_nb_commits'', ms_commits), (''global_nb_aborts'', ms_retries_acc),
        (''global_max_retries'', ms_retries_max)] name))))"

text \<open>
  The average is a floating-point quotient; its operands are given, the division is not
  carried out.
\<close>

datatype stat_val = Count w64 | Quotient w64 w64

definition mod_stats_specific :: "w64 sprog" where
  "mod_stats_specific =
     bnd (gets sm_key) (\<lambda>k. bnd (stats_do (stm_get_specific k)) (\<lambda>p.
       thn (assert_c (\<lambda>_. p \<noteq> 0)) (ret p)))"

definition stm_get_local_stats :: "string \<Rightarrow> stat_val option sprog" where
  "stm_get_local_stats name =
     bnd (gets sm_initialized) (\<lambda>i. if \<not> i then stop ExitProc
     else bnd mod_stats_specific (\<lambda>p. bnd (gets (\<lambda>s. sm_data s p)) (\<lambda>d.
       ret (map_option (\<lambda>f. f d) (map_of
       [(''nb_commits'', \<lambda>d. Count (ms_commits d)), (''nb_aborts'', \<lambda>d. Count (ms_retries_acc d)),
        (''nb_retries_avg'', \<lambda>d. Quotient (ms_retries_acc d) (ms_retries_cnt d)),
        (''nb_retries_min'', \<lambda>d. Count (ms_retries_min d)),
        (''nb_retries_max'', \<lambda>d. Count (ms_retries_max d))] name)))))"

section \<open>Callbacks\<close>

definition mod_stats_on_thread_init :: "params \<Rightarrow> unit sprog" where
  "mod_stats_on_thread_init P =
     bnd (stats_do (xmalloc P)) (\<lambda>p. thn (set_data p (\<lambda>_. stats0))
       (bnd (gets sm_key) (\<lambda>k. stats_do (stm_set_specific k p))))"

definition count_commit :: "mod_stats_data \<Rightarrow> mod_stats_data" where
  "count_commit d =
    (let d1 = d\<lparr>ms_commits := ms_commits d + 1\<rparr>;
         d2 = d1\<lparr>ms_retries_acc := ms_retries_acc d1 + ms_retries d1\<rparr>;
         d3 = d2\<lparr>ms_retries_cnt := ms_retries_cnt d2 + 1\<rparr>;
         d4 = (if ms_retries_min d3 > ms_retries d3 then d3\<lparr>ms_retries_min := ms_retries d3\<rparr> else d3);
         d5 = (if ms_retries_max d4 < ms_retries d4 then d4\<lparr>ms_retries_max := ms_retries d4\<rparr> else d4)
     in d5\<lparr>ms_retries := 0\<rparr>)"

definition count_abort :: "mod_stats_data \<Rightarrow> mod_stats_data" where
  "count_abort d = d\<lparr>ms_retries := ms_retries d + 1\<rparr>"

definition mod_stats_on_commit :: "unit sprog" where
  "mod_stats_on_commit = bnd mod_stats_specific (\<lambda>p. set_data p count_commit)"

definition mod_stats_on_abort :: "unit sprog" where
  "mod_stats_on_abort = bnd mod_stats_specific (\<lambda>p. set_data p count_abort)"

text \<open>The two compare-and-swap loops.\<close>

primrec merge_max :: "nat \<Rightarrow> stats_env \<Rightarrow> w64 \<Rightarrow> unit sprog" where
  "merge_max 0 E v = stop Diverge"
| "merge_max (Suc n) E v =
     thn (stats_move E) (bnd (gets (\<lambda>s. ms_retries_max (sm_global s))) (\<lambda>m.
       if v > m then
         thn (stats_move E) (bnd (gets (\<lambda>s. ms_retries_max (sm_global s))) (\<lambda>c.
           if c = m then modify (\<lambda>s. s\<lparr>sm_global := (sm_global s)\<lparr>ms_retries_max := v\<rparr>\<rparr>)
           else merge_max n E v))
       else ret ()))"

primrec merge_min :: "nat \<Rightarrow> stats_env \<Rightarrow> w64 \<Rightarrow> unit sprog" where
  "merge_min 0 E v = stop Diverge"
| "merge_min (Suc n) E v =
     thn (stats_move E) (bnd (gets (\<lambda>s. ms_retries_min (sm_global s))) (\<lambda>m.
       if v < m then
         thn (stats_move E) (bnd (gets (\<lambda>s. ms_retries_min (sm_global s))) (\<lambda>c.
           if c = m then modify (\<lambda>s. s\<lparr>sm_global := (sm_global s)\<lparr>ms_retries_min := v\<rparr>\<rparr>)
           else merge_min n E v))
       else ret ()))"

definition mod_stats_on_thread_exit :: "nat \<Rightarrow> stats_env \<Rightarrow> unit sprog" where
  "mod_stats_on_thread_exit n E =
     bnd mod_stats_specific (\<lambda>p. bnd (gets (\<lambda>s. sm_data s p)) (\<lambda>d.
       thn (global_add E (\<lambda>g. g\<lparr>ms_commits := ms_commits g + ms_commits d\<rparr>))
      (thn (global_add E (\<lambda>g. g\<lparr>ms_retries_cnt := ms_retries_cnt g + ms_retries_cnt d\<rparr>))
      (thn (global_add E (\<lambda>g. g\<lparr>ms_retries_acc := ms_retries_acc g + ms_retries_acc d\<rparr>))
      (thn (merge_max n E (ms_retries_max d)) (merge_min n E (ms_retries_min d)))))))"

definition mod_stats_init :: "cb_set \<Rightarrow> unit sprog" where
  "mod_stats_init cbs =
     bnd (gets sm_initialized) (\<lambda>i. if i then ret ()
     else
       bnd (stats_do (stm_register (cbs\<lparr>on_start := 0, on_precommit := 0\<rparr>) 0)) (\<lambda>ok.
         if \<not> ok then stop ExitProc
         else bnd (stats_do stm_create_specific) (\<lambda>k.
           thn (modify (\<lambda>s. s\<lparr>sm_key := k\<rparr>))
           (if k < 0 then stop ExitProc else modify (\<lambda>s. s\<lparr>sm_initialized := True\<rparr>)))))"

section \<open>Lemmas\<close>

lemma wp_stats_do [wp_simps, simp]:
  "wp (stats_do m) s Q E = wp m (sm_stm s) (\<lambda>x t. Q x (s\<lparr>sm_stm := t\<rparr>)) (\<lambda>r t. E r (s\<lparr>sm_stm := t\<rparr>))"
  by (cases "m (sm_stm s)"; cases "fst (m (sm_stm s))") (simp_all add: wp_def stats_do_def)

lemma wp_set_data [wp_simps, simp]:
  "wp (set_data p f) s Q E = Q () (s\<lparr>sm_data := (sm_data s)(p := f (sm_data s p))\<rparr>)"
  by (simp add: set_data_def)

text \<open>The thread has initialised the module: its counters are at \<open>p\<close>.\<close>

definition stats_ready :: "w64 \<Rightarrow> stats_st \<Rightarrow> bool" where
  "stats_ready p s \<longleftrightarrow> p \<noteq> 0 \<and> valid_key (sm_key s) (sm_stm s) \<and> tx_data (s_tx (sm_stm s)) ! nat (sm_key s) = p"

lemma stats_ready_upd [simp]:
  "stats_ready p (s\<lparr>sm_data := f\<rparr>) = stats_ready p s"
  "stats_ready p (s\<lparr>sm_global := g\<rparr>) = stats_ready p s"
  "stats_ready p (s\<lparr>sm_tick := k\<rparr>) = stats_ready p s"
  by (simp_all add: stats_ready_def)

lemma stats_specific: "stats_ready p s \<Longrightarrow> wp mod_stats_specific s Q E = Q p s"
  by (simp add: mod_stats_specific_def stats_ready_def stm_get_specific_def int_stm_get_specific_def)

text \<open>A history of commits (\<open>True\<close>) and aborts (\<open>False\<close>), by the callbacks.\<close>

fun run_stats :: "bool list \<Rightarrow> unit sprog" where
  "run_stats [] = ret ()"
| "run_stats (c # cs) = thn (if c then mod_stats_on_commit else mod_stats_on_abort) (run_stats cs)"

text \<open>The same history as the number of aborts before each commit, and those since the last one.\<close>

fun note_event :: "bool \<Rightarrow> nat list \<times> nat \<Rightarrow> nat list \<times> nat" where
  "note_event c (rs, k) = (if c then (rs @ [k], 0) else (rs, Suc k))"

definition history :: "bool list \<Rightarrow> nat list \<times> nat" where
  "history cs = fold note_event cs ([], 0)"

fun summary :: "nat list \<times> nat \<Rightarrow> mod_stats_data" where
  "summary (rs, k) = \<lparr>ms_commits = of_nat (length rs), ms_retries = of_nat k,
     ms_retries_min = (if rs = [] then ULONG_MAX else of_nat (Min (set rs))),
     ms_retries_max = of_nat (Max (insert 0 (set rs))),
     ms_retries_acc = of_nat (sum_list rs), ms_retries_cnt = of_nat (length rs)\<rparr>"

lemma of_nat_less: "a < 2 ^ 64 \<Longrightarrow> b < 2 ^ 64 \<Longrightarrow> (of_nat a :: w64) < of_nat b \<longleftrightarrow> a < b"
  by (simp add: word_less_nat_alt unat_of_nat)

lemma count_commit_summary:
  assumes "\<forall>r \<in> set rs. r < 2 ^ 64" "k < 2 ^ 64"
  shows "count_commit (summary (rs, k)) = summary (rs @ [k], 0)"
proof -
  have mx: "Max (insert 0 (set rs)) < 2 ^ 64" using assms(1) by simp
  have "Max (insert 0 (insert k (set rs))) = Max (insert k (insert 0 (set rs)))" by (simp only: insert_commute)
  also have "\<dots> = max k (Max (insert 0 (set rs)))" by (rule Max_insert) simp_all
  finally have max: "Max (insert 0 (insert k (set rs))) = max k (Max (insert 0 (set rs)))" .
  have mn: "rs \<noteq> [] \<Longrightarrow> Min (set rs) < 2 ^ 64" using assms(1) by simp
  have big: "\<not> (of_nat k :: w64) < ULONG_MAX \<Longrightarrow> ULONG_MAX = of_nat k"
    using word_order.extremum [of "of_nat k :: w64"] by (auto simp: ULONG_MAX_def not_less)
  have "ms_retries_min (count_commit (summary (rs, k))) = ms_retries_min (summary (rs @ [k], 0))"
  proof (cases "rs = []")
    case True
    then show ?thesis using big by (auto simp: count_commit_def Let_def)
  next
    case False
    obtain m where m: "m = Min (set rs)" by simp
    have l: "(of_nat k :: w64) < of_nat m \<longleftrightarrow> k < m" by (rule of_nat_less) (use assms(2) mn [OF False] m in auto)
    have "ms_retries_min (count_commit (summary (rs, k))) = (if (of_nat k :: w64) < of_nat m then of_nat k else of_nat m)"
      using False m by (simp add: count_commit_def Let_def)
    moreover have "Min (set (rs @ [k])) = min k m" using False m by simp
    ultimately show ?thesis using l by (simp add: min_def del: set_append)
  qed
  moreover have "ms_retries_max (count_commit (summary (rs, k))) = ms_retries_max (summary (rs @ [k], 0))"
  proof -
    obtain m where m: "m = Max (insert 0 (set rs))" by simp
    have l: "(of_nat m :: w64) < of_nat k \<longleftrightarrow> m < k" by (rule of_nat_less) (use assms(2) mx m in auto)
    have "ms_retries_max (summary (rs, k)) = of_nat m" using m by simp
    then have "ms_retries_max (count_commit (summary (rs, k))) = (if (of_nat m :: w64) < of_nat k then of_nat k else of_nat m)"
      by (simp add: count_commit_def Let_def del: Max_insert)
    moreover have "ms_retries_max (summary (rs @ [k], 0)) = of_nat (max k m)" using max m by (simp del: Max_insert)
    ultimately show ?thesis using l by (simp add: max_def)
  qed
  moreover have "ms_commits (count_commit (summary (rs, k))) = ms_commits (summary (rs @ [k], 0))"
    "ms_retries (count_commit (summary (rs, k))) = ms_retries (summary (rs @ [k], 0))"
    "ms_retries_acc (count_commit (summary (rs, k))) = ms_retries_acc (summary (rs @ [k], 0))"
    "ms_retries_cnt (count_commit (summary (rs, k))) = ms_retries_cnt (summary (rs @ [k], 0))"
    by (simp_all add: count_commit_def Let_def)
  ultimately show ?thesis by simp
qed

lemma count_abort_summary: "count_abort (summary (rs, k)) = summary (rs, Suc k)"
  by (simp add: count_abort_def)

text \<open>Every number in a history is at most its length.\<close>

definition bounded :: "nat \<Rightarrow> nat list \<times> nat \<Rightarrow> bool" where
  "bounded n h \<longleftrightarrow> (\<forall>r \<in> set (fst h). r \<le> n) \<and> snd h \<le> n"

lemma run_stats_spec:
  "stats_ready p s \<Longrightarrow> sm_data s p = summary h \<Longrightarrow> bounded n h \<Longrightarrow> n + length cs < 2 ^ 64 \<Longrightarrow>
    wp (run_stats cs) s (\<lambda>_ t. sm_data t p = summary (fold note_event cs h) \<and> sm_global t = sm_global s) never"
proof (induction cs arbitrary: s h n)
  case (Cons c cs)
  obtain rs k where h: "h = (rs, k)" by (cases h)
  let ?t = "s\<lparr>sm_data := (sm_data s)(p := summary (note_event c h))\<rparr>"
  have lt: "\<forall>r \<in> set rs. r < 2 ^ 64" "k < 2 ^ 64" using Cons.prems(3,4) h by (auto simp: bounded_def)
  have step: "wp (if c then mod_stats_on_commit else mod_stats_on_abort) s Q never = Q () ?t" for Q
    using Cons.prems(2) count_commit_summary [OF lt] h
    by (simp add: mod_stats_on_commit_def mod_stats_on_abort_def stats_specific [OF Cons.prems(1)]
        count_abort_summary del: summary.simps)
  have b: "bounded (Suc n) (note_event c h)" using Cons.prems(3) h by (auto simp: bounded_def)
  have len: "Suc n + length cs < 2 ^ 64" using Cons.prems(4) by simp
  have "wp (run_stats cs) ?t (\<lambda>_ t. sm_data t p = summary (fold note_event cs (note_event c h)) \<and> sm_global t = sm_global ?t) never"
    by (rule Cons.IH [OF _ _ b len]) (use Cons.prems(1) in simp_all)
  then show ?case unfolding run_stats.simps wp_thn step by simp
qed simp

section \<open>Properties\<close>

definition sample_stats :: stats_st where
  "sample_stats = \<lparr>sm_stm = upd_tx (\<lambda>t. t\<lparr>tx_data := [128]\<rparr>) sample_run, sm_key = 0, sm_initialized = True,
     sm_data = (\<lambda>_. stats0), sm_global = stats0, sm_tick = 0\<rparr>"

lemma sample_stats_ready: "stats_ready 128 sample_stats"
  by (simp add: sample_stats_def stats_ready_def valid_key_def sample_defs)

text \<open>The counters of a thread tell its history.  After any sequence of commits and aborts they
  hold the number of commits, the aborts since the last commit, and the sum, the minimum and the
  maximum of the numbers of aborts before each commit.\<close>

theorem statistics_tell_history:
  assumes "stats_ready p s" "sm_data s p = stats0" "length cs < 2 ^ 64"
  shows "\<exists>t. run_stats cs s = (Ret (), t) \<and> sm_data t p = summary (history cs) \<and> sm_global t = sm_global s"
proof -
  have "sm_data s p = summary ([], 0)" using assms(2) by (simp add: stats0_def)
  from run_stats_spec [OF assms(1) this, of 0 cs] assms(3) show ?thesis
    by (simp add: bounded_def history_def wp_never)
qed

theorem statistics_tell_history_witness:
  "\<exists>t. run_stats [False, False, True, True, False, True, False] sample_stats = (Ret (), t)
    \<and> sm_data t 128 = \<lparr>ms_commits = 3, ms_retries = 1, ms_retries_min = 0, ms_retries_max = 2,
        ms_retries_acc = 3, ms_retries_cnt = 3\<rparr>"
proof -
  have "sm_data sample_stats 128 = stats0" by (simp add: sample_stats_def)
  from statistics_tell_history [OF sample_stats_ready this, of "[False, False, True, True, False, True, False]"]
  show ?thesis by (auto simp: history_def simp del: run_stats.simps)
qed

text \<open>What a thread that ends adds to the global counters.\<close>

definition merge_stats :: "mod_stats_data \<Rightarrow> mod_stats_data \<Rightarrow> mod_stats_data" where
  "merge_stats g d = g\<lparr>ms_commits := ms_commits g + ms_commits d, ms_retries_cnt := ms_retries_cnt g + ms_retries_cnt d,
     ms_retries_acc := ms_retries_acc g + ms_retries_acc d,
     ms_retries_max := max (ms_retries_max g) (ms_retries_max d),
     ms_retries_min := min (ms_retries_min g) (ms_retries_min d)\<rparr>"

lemma global_add_exec:
  "\<forall>n g. E n g = g \<Longrightarrow> wp (global_add E f) s Q R = Q () (s\<lparr>sm_tick := Suc (sm_tick s), sm_global := f (sm_global s)\<rparr>)"
  by (simp add: global_add_def stats_move_def)

lemma merge_max_exec:
  "\<forall>n g. E n g = g \<Longrightarrow> wp (merge_max (Suc n) E v) s (\<lambda>_ t. sm_global t = (sm_global s)\<lparr>ms_retries_max := max (ms_retries_max (sm_global s)) v\<rparr>
      \<and> sm_data t = sm_data s) never"
  by (auto simp: stats_move_def max_def)

lemma merge_min_exec:
  "\<forall>n g. E n g = g \<Longrightarrow> wp (merge_min (Suc n) E v) s (\<lambda>_ t. sm_global t = (sm_global s)\<lparr>ms_retries_min := min (ms_retries_min (sm_global s)) v\<rparr>
      \<and> sm_data t = sm_data s) never"
  by (auto simp: stats_move_def min_def)

text \<open>A thread that ends adds its counters to the global ones: sums of the cumulative ones, the
  larger maximum and the smaller minimum; in what order two threads end does not matter.\<close>

theorem thread_exit_merges:
  assumes "stats_ready p s" "\<forall>n g. E n g = g"
  shows "(\<exists>t. mod_stats_on_thread_exit (Suc n) E s = (Ret (), t) \<and> sm_global t = merge_stats (sm_global s) (sm_data s p))
    \<and> merge_stats (merge_stats g d) e = merge_stats (merge_stats g e) d"
proof -
  have "wp (mod_stats_on_thread_exit (Suc n) E) s (\<lambda>_ t. sm_global t = merge_stats (sm_global s) (sm_data s p)) never"
    unfolding mod_stats_on_thread_exit_def wp_bnd stats_specific [OF assms(1)] wp_gets wp_thn global_add_exec [OF assms(2)]
    by (rule wp_mono [OF merge_max_exec [OF assms(2)]], rule wp_mono [OF merge_min_exec [OF assms(2)]])
      (simp_all add: merge_stats_def)
  moreover have "merge_stats (merge_stats g d) e = merge_stats (merge_stats g e) d"
    by (simp add: merge_stats_def ac_simps)
  ultimately show ?thesis by (auto simp: wp_never)
qed

theorem thread_exit_merges_witness:
  "\<exists>t. mod_stats_on_thread_exit (Suc 0) (\<lambda>_ g. g) sample_stats = (Ret (), t) \<and> sm_global t = stats0"
  using thread_exit_merges [OF sample_stats_ready, of "\<lambda>_ g. g" 0]
  by (auto simp: sample_stats_def merge_stats_def stats0_def)

end
