(* ===== verification/Cm.thy ===== *)
theory Cm
  imports Stm
begin

text \<open>
  The contention managers of \<open>src/stm.c\<close>, compiled in with \<open>CM_MODULAR\<close>: which of two
  transactions in conflict is killed.  A manager sees the descriptors of both; what it
  reads of them is the record \<open>cm_view\<close>.
\<close>

section \<open>The built-in managers\<close>

definition KILL_SELF :: w64 where "KILL_SELF = 0x00"
definition KILL_OTHER :: w64 where "KILL_OTHER = 0x01"
definition DELAY_RESTART :: w64 where "DELAY_RESTART = 0x04"

record cm_view =
  cv_ptr :: w64
  cv_timestamp :: w64
  cv_ws_nb :: w32
  cv_rs_nb :: w32

definition cm_aggressive :: "cm_view \<Rightarrow> cm_view \<Rightarrow> w64" where
  "cm_aggressive me other = KILL_OTHER"

definition cm_suicide :: "cm_view \<Rightarrow> cm_view \<Rightarrow> w64" where
  "cm_suicide me other = KILL_SELF"

definition cm_delay :: "cm_view \<Rightarrow> cm_view \<Rightarrow> w64" where
  "cm_delay me other = KILL_SELF OR DELAY_RESTART"

definition cm_timestamp :: "cm_view \<Rightarrow> cm_view \<Rightarrow> w64" where
  "cm_timestamp me other =
    (if cv_timestamp me < cv_timestamp other then KILL_OTHER
     else if cv_timestamp me = cv_timestamp other \<and> cv_ptr me < cv_ptr other then KILL_OTHER
     else KILL_SELF OR DELAY_RESTART)"

text \<open>\<open>nb_entries << 1\<close> and the sum wrap at 32 bits.\<close>

definition karma_work :: "cm_view \<Rightarrow> w32" where
  "karma_work v = push_bit 1 (cv_ws_nb v) + cv_rs_nb v"

definition cm_karma :: "cm_view \<Rightarrow> cm_view \<Rightarrow> w64" where
  "cm_karma me other =
    (if karma_work me < karma_work other then KILL_OTHER
     else if karma_work me = karma_work other \<and> cv_ptr me < cv_ptr other then KILL_OTHER
     else KILL_SELF)"

section \<open>Choosing a manager by name\<close>

definition to_lower :: "char \<Rightarrow> char" where
  "to_lower c = (let k = of_char c :: nat in if 65 \<le> k \<and> k \<le> 90 then char_of (k + 32) else c)"

definition strcaseeq :: "string \<Rightarrow> string \<Rightarrow> bool" where
  "strcaseeq a b \<longleftrightarrow> map to_lower a = map to_lower b"

definition cms :: "(string \<times> (cm_view \<Rightarrow> cm_view \<Rightarrow> w64)) list" where
  "cms = [(''aggressive'', cm_aggressive), (''suicide'', cm_suicide), (''delay'', cm_delay),
          (''timestamp'', cm_timestamp), (''karma'', cm_karma)]"

text \<open>\<open>stm_set_parameter(\"cm_policy\", val)\<close>: the manager it installs, if it returns 1.\<close>

definition set_cm_policy :: "string \<Rightarrow> (cm_view \<Rightarrow> cm_view \<Rightarrow> w64) option" where
  "set_cm_policy val = map_option snd (find (\<lambda>e. strcaseeq (fst e) val) cms)"

section \<open>Priorities\<close>

text \<open>
  Both managers that compare transactions order them by a number, the address breaking
  ties.  The order on such keys is linear.
\<close>

datatype prio = Prio w64 w64

instantiation prio :: linorder
begin

fun less_prio :: "prio \<Rightarrow> prio \<Rightarrow> bool" where
  "less_prio (Prio a p) (Prio b q) \<longleftrightarrow> a < b \<or> (a = b \<and> p < q)"

definition less_eq_prio :: "prio \<Rightarrow> prio \<Rightarrow> bool" where
  "less_eq_prio x y \<longleftrightarrow> x = y \<or> x < (y :: prio)"

instance
proof
  fix x y z :: prio
  show "x < y \<longleftrightarrow> x \<le> y \<and> \<not> y \<le> x"
    by (cases x; cases y) (auto simp: less_eq_prio_def)
  show "x \<le> x" by (simp add: less_eq_prio_def)
  show "x \<le> y \<Longrightarrow> y \<le> z \<Longrightarrow> x \<le> z"
    by (cases x; cases y; cases z) (auto simp: less_eq_prio_def)
  show "x \<le> y \<Longrightarrow> y \<le> x \<Longrightarrow> x = y"
    by (cases x; cases y) (auto simp: less_eq_prio_def)
  show "x \<le> y \<or> y \<le> x"
    by (cases x; cases y) (auto simp: less_eq_prio_def)
qed

end

definition ts_prio :: "cm_view \<Rightarrow> prio" where
  "ts_prio v = Prio (cv_timestamp v) (cv_ptr v)"

definition karma_prio :: "cm_view \<Rightarrow> prio" where
  "karma_prio v = Prio (ucast (karma_work v)) (cv_ptr v)"

text \<open>A manager that kills the other exactly when this transaction comes first in an order.\<close>

locale priority_manager =
  fixes cm :: "cm_view \<Rightarrow> cm_view \<Rightarrow> w64" and prio :: "cm_view \<Rightarrow> prio"
  assumes kills: "cm me other = KILL_OTHER \<longleftrightarrow> prio me < prio other"
    and ptr: "prio me = prio other \<Longrightarrow> cv_ptr me = cv_ptr other"
begin

text \<open>Of two transactions in conflict exactly one may kill the other, whoever detects it.\<close>

lemma one_winner:
  assumes "cv_ptr me \<noteq> cv_ptr other"
  shows "(cm me other = KILL_OTHER) \<noteq> (cm other me = KILL_OTHER)"
  using assms kills ptr by (metis less_asym not_less_iff_gr_or_eq)

text \<open>No cycle of transactions kills one another.\<close>

lemma transitive_kills:
  "cm a b = KILL_OTHER \<Longrightarrow> cm b c = KILL_OTHER \<Longrightarrow> cm a c = KILL_OTHER"
  using kills by (metis less_trans)

text \<open>Among the transactions in conflict one survives against every other.\<close>

lemma survivor:
  assumes "finite T" "T \<noteq> {}" "inj_on cv_ptr T"
  shows "\<exists>w \<in> T. \<forall>t \<in> T. t \<noteq> w \<longrightarrow> cm w t = KILL_OTHER \<and> cm t w \<noteq> KILL_OTHER"
proof -
  have "Min (prio ` T) \<in> prio ` T" using assms by (intro Min_in) auto
  then obtain w where w: "w \<in> T" "prio w = Min (prio ` T)" by auto
  have "cm w t = KILL_OTHER \<and> cm t w \<noteq> KILL_OTHER" if t: "t \<in> T" "t \<noteq> w" for t
  proof -
    have "prio w \<le> prio t" using assms(1) t(1) w(2) by simp
    moreover have "prio w \<noteq> prio t" using ptr assms(3) w(1) t by (metis inj_onD)
    ultimately have "prio w < prio t" by simp
    then show ?thesis using kills by (metis less_asym)
  qed
  with w(1) show ?thesis by blast
qed

end

lemma cm_consts [simp]: "KILL_SELF \<noteq> KILL_OTHER" "KILL_OTHER \<noteq> KILL_SELF" "KILL_SELF OR DELAY_RESTART \<noteq> KILL_OTHER"
  "KILL_OTHER \<noteq> KILL_SELF OR DELAY_RESTART"
  by (simp_all add: KILL_SELF_def KILL_OTHER_def DELAY_RESTART_def)

lemma ucast_w32_less: "(ucast a :: w64) < ucast b \<longleftrightarrow> a < (b :: w32)"
  by transfer (simp add: take_bit_take_bit)

lemma ucast_w32_eq: "(ucast a :: w64) = ucast b \<longleftrightarrow> a = (b :: w32)"
  by (metis ucast_w32_less neq_iff)

interpretation cm_ts: priority_manager cm_timestamp ts_prio
  by unfold_locales (auto simp: cm_timestamp_def ts_prio_def)

interpretation cm_km: priority_manager cm_karma karma_prio
  by unfold_locales (auto simp: cm_karma_def karma_prio_def ucast_w32_less ucast_w32_eq)

section \<open>Properties\<close>

text \<open>C36: Of any finite group of transactions in conflict, the timestamp manager and the karma manager
  each let one survive: it kills every other and none of them kills it, whichever of the two
  detects the conflict.  A transaction never wins against the one it loses to.\<close>

theorem managers_elect_survivor:
  assumes "finite T" "T \<noteq> {}" "inj_on cv_ptr T"
  shows "(\<exists>w \<in> T. \<forall>t \<in> T. t \<noteq> w \<longrightarrow> cm_timestamp w t = KILL_OTHER \<and> cm_timestamp t w \<noteq> KILL_OTHER)
    \<and> (\<exists>w \<in> T. \<forall>t \<in> T. t \<noteq> w \<longrightarrow> cm_karma w t = KILL_OTHER \<and> cm_karma t w \<noteq> KILL_OTHER)
    \<and> (\<forall>a \<in> T. \<forall>b \<in> T. a \<noteq> b \<longrightarrow> (cm_timestamp a b = KILL_OTHER) \<noteq> (cm_timestamp b a = KILL_OTHER)
         \<and> (cm_karma a b = KILL_OTHER) \<noteq> (cm_karma b a = KILL_OTHER))"
proof -
  have "cv_ptr a \<noteq> cv_ptr b" if "a \<in> T" "b \<in> T" "a \<noteq> b" for a b
    using assms(3) that by (metis inj_onD)
  then show ?thesis
    using cm_ts.survivor [OF assms] cm_km.survivor [OF assms] cm_ts.one_winner cm_km.one_winner by blast
qed

theorem managers_elect_survivor_witness:
  "\<exists>w \<in> {\<lparr>cv_ptr = 64, cv_timestamp = 3, cv_ws_nb = 1, cv_rs_nb = 0\<rparr>, \<lparr>cv_ptr = 128, cv_timestamp = 2, cv_ws_nb = 4, cv_rs_nb = 0\<rparr>}.
    cv_timestamp w = 2 \<and> cm_timestamp w \<lparr>cv_ptr = 64, cv_timestamp = 3, cv_ws_nb = 1, cv_rs_nb = 0\<rparr> = KILL_OTHER"
proof -
  let ?a = "\<lparr>cv_ptr = 64, cv_timestamp = 3, cv_ws_nb = 1, cv_rs_nb = 0\<rparr> :: cm_view"
  let ?b = "\<lparr>cv_ptr = 128, cv_timestamp = 2, cv_ws_nb = 4, cv_rs_nb = 0\<rparr> :: cm_view"
  have "finite {?a, ?b}" "{?a, ?b} \<noteq> {}" "inj_on cv_ptr {?a, ?b}" by simp_all
  from managers_elect_survivor [OF this] show ?thesis by (auto simp: cm_timestamp_def)
qed

text \<open>The karma manager favours the transaction with less work: the one whose reads and writes
  weigh less kills the other, and the one with more gives up.\<close>

lemma karma_prefers_less_work:
  assumes "karma_work me < karma_work other"
  shows "cm_karma me other = KILL_OTHER \<and> cm_karma other me = KILL_SELF"
  using assms by (auto simp: cm_karma_def)

end
