(* ===== verification/ModOrder.thy ===== *)
theory ModOrder
  imports Cm
begin

text \<open>
  Committing transactions in the order they started (\<open>src/mod_order.c\<close>): a start takes a
  ticket, a commit waits until its ticket is due and then lets the next one in.  The
  module refuses to initialise unless the contention manager is \<open>CM_MODULAR\<close>, so in the
  configuration of the Makefile \<open>mod_order_init\<close> ends the process.
\<close>

section \<open>Operations\<close>

record order_st =
  od_stm :: st
  od_key :: int
  od_initialized :: bool
  od_next :: w64
  od_commit :: w64
  od_tick :: nat

type_synonym 'a oprog = "(order_st, 'a) comp"

text \<open>The other threads move the two counters before the \<open>n\<close>-th atomic access.\<close>

type_synonym order_env = "nat \<Rightarrow> w64 \<times> w64 \<Rightarrow> w64 \<times> w64"

definition order_do :: "'a prog \<Rightarrow> 'a oprog" where
  "order_do m s = (case m (od_stm s) of (r, t) \<Rightarrow> (r, s\<lparr>od_stm := t\<rparr>))"

definition order_move :: "order_env \<Rightarrow> unit oprog" where
  "order_move E = modify (\<lambda>s. case E (od_tick s) (od_next s, od_commit s) of
     (a, b) \<Rightarrow> s\<lparr>od_next := a, od_commit := b, od_tick := Suc (od_tick s)\<rparr>)"

definition mod_order_on_start :: "order_env \<Rightarrow> unit oprog" where
  "mod_order_on_start E =
     thn (order_move E)
    (bnd (gets od_next) (\<lambda>ts.
       thn (modify (\<lambda>s. s\<lparr>od_next := ts + 1\<rparr>))
      (bnd (gets od_key) (\<lambda>k. order_do (stm_set_specific k ts)))))"

primrec wait_turn :: "nat \<Rightarrow> order_env \<Rightarrow> w64 \<Rightarrow> unit oprog" where
  "wait_turn 0 E my = stop Diverge"
| "wait_turn (Suc n) E my =
     thn (order_move E)
    (bnd (gets od_commit) (\<lambda>cur.
     bnd (order_do stm_killed) (\<lambda>killed.
       if killed then ret ()
       else if cur \<noteq> my then wait_turn n E my else ret ())))"

definition mod_order_on_precommit :: "nat \<Rightarrow> order_env \<Rightarrow> unit oprog" where
  "mod_order_on_precommit n E =
     bnd (gets od_key) (\<lambda>k. bnd (order_do (stm_get_specific k)) (wait_turn n E))"

definition mod_order_on_commit :: "order_env \<Rightarrow> unit oprog" where
  "mod_order_on_commit E = thn (order_move E) (modify (\<lambda>s. s\<lparr>od_commit := od_commit s + 1\<rparr>))"

text \<open>The contention manager of the module: the older ticket wins.\<close>

definition mod_order_cm :: "w64 \<Rightarrow> w64 \<Rightarrow> w64" where
  "mod_order_cm my_order other_order = (if my_order < other_order then KILL_OTHER else KILL_SELF)"

definition mod_order_init :: "unit oprog" where
  "mod_order_init = bnd (gets od_initialized) (\<lambda>i. if i then ret () else stop ExitProc)"

section \<open>Lemmas\<close>

lemma wp_order_do [wp_simps, simp]:
  "wp (order_do m) s Q E = wp m (od_stm s) (\<lambda>x t. Q x (s\<lparr>od_stm := t\<rparr>)) (\<lambda>r t. E r (s\<lparr>od_stm := t\<rparr>))"
  by (cases "m (od_stm s)"; cases "fst (m (od_stm s))") (simp_all add: wp_def order_do_def)

text \<open>The thread runs a transaction that has taken the ticket \<open>my\<close>.\<close>

definition ticketed :: "w64 \<Rightarrow> order_st \<Rightarrow> bool" where
  "ticketed my s \<longleftrightarrow> valid_key (od_key s) (od_stm s) \<and> tx_data (s_tx (od_stm s)) ! nat (od_key s) = my"

definition killed :: "order_st \<Rightarrow> bool" where
  "killed s \<longleftrightarrow> GET_STATUS (tx_status (s_tx (od_stm s))) = TX_KILLED"

lemma wp_order_move [wp_simps, simp]:
  "wp (order_move E) s Q R = (case E (od_tick s) (od_next s, od_commit s) of
     (a, b) \<Rightarrow> Q () (s\<lparr>od_next := a, od_commit := b, od_tick := Suc (od_tick s)\<rparr>))"
  by (simp add: order_move_def split: prod.splits)

lemma wait_turn_spec:
  "s_cur (od_stm s) \<noteq> 0 \<Longrightarrow> wp (wait_turn n E my) s
    (\<lambda>_ t. (od_commit t = my \<or> killed t) \<and> od_stm t = od_stm s) (\<lambda>r _. r = Diverge)"
proof (induction n arbitrary: s)
  case (Suc n)
  show ?case
    using Suc.prems
    by (auto simp: stm_killed_def int_stm_killed_def assert_tx_def tls_get_tx_def killed_def split: prod.split
        intro!: wp_mono [OF Suc.IH])
qed simp

section \<open>Properties\<close>


text \<open>A transaction as the module sees it: start, pre-commit, commit.\<close>

definition ordered_tx :: "nat \<Rightarrow> order_env \<Rightarrow> unit oprog" where
  "ordered_tx n E = thn (mod_order_on_start E) (thn (mod_order_on_precommit n E) (mod_order_on_commit E))"

definition sample_order :: order_st where
  "sample_order = \<lparr>od_stm = upd_tx (\<lambda>t. t\<lparr>tx_data := [7]\<rparr>) sample_run, od_key = 0, od_initialized = True,
     od_next = 7, od_commit = 7, od_tick = 0\<rparr>"


text \<open>A thread alone never waits for its turn.  Each of its transactions takes the next ticket,
  finds it due, and its commit lets the following one in, also across the wrap-around of the
  counters.\<close>

theorem alone_never_waits:
  assumes "\<forall>n g. E n g = g" "valid_key (od_key s) (od_stm s)" "nat (od_key s) < length (tx_data (s_tx (od_stm s)))"
    and "od_next s = od_commit s"
  shows "\<exists>t. each_c (\<lambda>_. ordered_tx 1 E) [0..<k] s = (Ret (), t)
    \<and> od_commit t = od_commit s + of_nat k \<and> od_next t = od_commit t"
proof -
  let ?ok = "\<lambda>s :: order_st. valid_key (od_key s) (od_stm s) \<and> nat (od_key s) < length (tx_data (s_tx (od_stm s))) \<and> od_next s = od_commit s"
  have one: "wp (ordered_tx 1 E) u (\<lambda>_ t. ?ok t \<and> od_commit t = od_commit u + 1) never" if "?ok u" for u
    using that assms(1)
    by (simp add: ordered_tx_def mod_order_on_start_def mod_order_on_precommit_def mod_order_on_commit_def
        stm_get_specific_def int_stm_get_specific_def stm_set_specific_def int_stm_set_specific_def valid_key_def
        stm_killed_def int_stm_killed_def assert_tx_def tls_get_tx_def)
  have "wp (each_c (\<lambda>_. ordered_tx 1 E) [0..<k]) s (\<lambda>_ t. ?ok t \<and> od_commit t = od_commit s + of_nat k) never"
  proof (rule wp_each_inv [where I = "\<lambda>done t. ?ok t \<and> od_commit t = od_commit s + of_nat (length done)"])
    fix xs x rest and t :: order_st
    assume "?ok t \<and> od_commit t = od_commit s + of_nat (length xs)"
    then show "wp (ordered_tx 1 E) t (\<lambda>_ t. ?ok t \<and> od_commit t = od_commit s + of_nat (length (xs @ [x]))) never"
      using one [of t] by (auto intro!: wp_mono [OF one] simp: ac_simps)
  qed (use assms in simp_all)
  then show ?thesis by (auto simp: wp_never)
qed

theorem alone_never_waits_witness:
  "\<exists>t. each_c (\<lambda>_. ordered_tx 1 (\<lambda>_ g. g)) [0..<5] sample_order = (Ret (), t) \<and> od_commit t = 12"
  using alone_never_waits [of "\<lambda>_ g. g" sample_order 5]
  by (auto simp: sample_order_def valid_key_def sample_defs simp del: upt_rec_numeral)

end
