(* ===== verification/Gc.thy ===== *)
theory Gc
  imports State "HOL-Library.Multiset"
begin

text \<open>
  The epoch-based collector (\<open>src/gc.c\<close>).  A thread hands over blocks with the current epoch;
  a block is freed once its epoch lies before the epoch of every running thread.

  The linked list of regions of a slot is a list (the head first, so \<open>tail\<close> is its last
  element), and so is the list of blocks of a region.  The blocks passed to \<open>free\<close> are
  recorded in \<open>gs_freed\<close>.  The other threads are the functions \<open>ge_env\<close> and \<open>ge_active\<close>, applied
  to the slots and their count before each atomic access; \<open>ge_epoch\<close> is the
  \<open>gc_current_epoch\<close> callback and \<open>ge_malloc\<close> says which allocations succeed.
\<close>

section \<open>State\<close>

definition MAX_GC_THREADS :: nat where "MAX_GC_THREADS = 1024"
definition EPOCH_MAX :: w64 where "EPOCH_MAX = NOT 0"
definition CLEANUP_FREQUENCY :: w32 where "CLEANUP_FREQUENCY = 1"

definition GC_NULL :: w64 where "GC_NULL = 0"
definition GC_BUSY :: w64 where "GC_BUSY = 1"
definition GC_FREE_EMPTY :: w64 where "GC_FREE_EMPTY = 2"
definition GC_FREE_FULL :: w64 where "GC_FREE_FULL = 3"

record gc_region =
  rg_ts :: w64
  rg_blocks :: "w64 list"

record gc_slot =
  sl_used :: w64
  sl_ts :: w64
  sl_regions :: "gc_region list"
  sl_frees :: w32

record gc_st =
  gs_slots :: "gc_slot list"
  gs_active :: w64
  gs_freed :: "w64 list"
  gs_idx :: nat
  gs_tick :: nat

record gc_env =
  ge_env :: "nat \<Rightarrow> gc_slot list \<Rightarrow> gc_slot list"
  ge_active :: "nat \<Rightarrow> w64 \<Rightarrow> w64"
  ge_epoch :: "nat \<Rightarrow> w64"
  ge_malloc :: "nat \<Rightarrow> bool"

type_synonym 'a gprog = "(gc_st, 'a) comp"

definition gc_move :: "gc_env \<Rightarrow> unit gprog" where
  "gc_move E = modify (\<lambda>s. s\<lparr>gs_slots := ge_env E (gs_tick s) (gs_slots s),
     gs_active := ge_active E (gs_tick s) (gs_active s), gs_tick := Suc (gs_tick s)\<rparr>)"

definition gc_malloc :: "gc_env \<Rightarrow> unit gprog" where
  "gc_malloc E =
     bnd (gets (\<lambda>s. ge_malloc E (gs_tick s))) (\<lambda>ok.
       if ok then modify (\<lambda>s. s\<lparr>gs_tick := Suc (gs_tick s)\<rparr>) else stop ExitProc)"

definition slot_get :: "gc_env \<Rightarrow> nat \<Rightarrow> (gc_slot \<Rightarrow> 'a) \<Rightarrow> 'a gprog" where
  "slot_get E i f = thn (gc_move E) (gets (\<lambda>s. f (gs_slots s ! i)))"

definition upd_slot :: "nat \<Rightarrow> (gc_slot \<Rightarrow> gc_slot) \<Rightarrow> unit gprog" where
  "upd_slot i f = modify (\<lambda>s. s\<lparr>gs_slots := (gs_slots s)[i := f (gs_slots s ! i)]\<rparr>)"

definition slot_set :: "gc_env \<Rightarrow> nat \<Rightarrow> (gc_slot \<Rightarrow> gc_slot) \<Rightarrow> unit gprog" where
  "slot_set E i f = thn (gc_move E) (upd_slot i f)"

definition cas_used :: "gc_env \<Rightarrow> nat \<Rightarrow> w64 \<Rightarrow> w64 \<Rightarrow> bool gprog" where
  "cas_used E i old new =
     bnd (slot_get E i sl_used) (\<lambda>u. if u = old
       then thn (upd_slot i (\<lambda>s. s\<lparr>sl_used := new\<rparr>)) (ret True) else ret False)"

definition current_epoch :: "gc_env \<Rightarrow> w64 gprog" where
  "current_epoch E = gets (\<lambda>s. ge_epoch E (gs_tick s))"

section \<open>The oldest running epoch\<close>

text \<open>
  A busy slot that has not set its epoch yet (\<open>EPOCH_MAX\<close>) is read again until it has.
\<close>

primrec compute_min_from :: "nat \<Rightarrow> gc_env \<Rightarrow> nat \<Rightarrow> w64 \<Rightarrow> w64 gprog" where
  "compute_min_from 0 E i m = stop Diverge"
| "compute_min_from (Suc n) E i m =
    (if i \<ge> MAX_GC_THREADS then ret m
     else bnd (slot_get E i sl_used) (\<lambda>u.
       if u = GC_BUSY then
         bnd (slot_get E i sl_ts) (\<lambda>ts.
           if ts = EPOCH_MAX then compute_min_from n E i m
           else compute_min_from n E (Suc i) (if ts < m then ts else m))
       else if u = GC_NULL then ret m
       else compute_min_from n E (Suc i) m))"

definition gc_compute_min :: "nat \<Rightarrow> gc_env \<Rightarrow> w64 \<Rightarrow> w64 gprog" where
  "gc_compute_min n E now = compute_min_from n E 0 now"

section \<open>Freeing\<close>

definition free_blocks :: "w64 list \<Rightarrow> unit gprog" where
  "free_blocks bs = modify (\<lambda>s. s\<lparr>gs_freed := gs_freed s @ bs\<rparr>)"

definition gc_clean_blocks :: "w64 list \<Rightarrow> unit gprog" where
  "gc_clean_blocks bs = each_c (\<lambda>b. free_blocks [b]) bs"

definition gc_clean_regions :: "gc_region list \<Rightarrow> unit gprog" where
  "gc_clean_regions rs = each_c (\<lambda>r. gc_clean_blocks (rg_blocks r)) rs"

text \<open>The \<open>while\<close> loop over the head of the list; it ends at the first region not older than \<open>m\<close>.\<close>

fun cleanup_loop :: "nat \<Rightarrow> w64 \<Rightarrow> gc_region list \<Rightarrow> unit gprog" where
  "cleanup_loop idx m [] = ret ()"
| "cleanup_loop idx m (r # rs) =
    (if m > rg_ts r then
       thn (gc_clean_blocks (rg_blocks r))
      (thn (upd_slot idx (\<lambda>s. s\<lparr>sl_regions := rs\<rparr>)) (cleanup_loop idx m rs))
     else ret ())"

definition gc_cleanup_thread :: "nat \<Rightarrow> w64 \<Rightarrow> unit gprog" where
  "gc_cleanup_thread idx m = bnd (gets (\<lambda>s. sl_regions (gs_slots s ! idx))) (cleanup_loop idx m)"

section \<open>Interface\<close>

definition slot0 :: gc_slot where
  "slot0 = \<lparr>sl_used = GC_NULL, sl_ts = EPOCH_MAX, sl_regions = [], sl_frees = 0\<rparr>"

definition gc_init :: "gc_env \<Rightarrow> unit gprog" where
  "gc_init E = thn (gc_malloc E) (modify (\<lambda>s. s\<lparr>gs_slots := replicate MAX_GC_THREADS slot0, gs_active := 0\<rparr>))"

definition gc_exit :: "gc_env \<Rightarrow> unit gprog" where
  "gc_exit E =
     bnd (thn (gc_move E) (gets gs_active)) (\<lambda>a. if a \<noteq> 0 then stop ExitProc
     else bnd (gets gs_slots) (\<lambda>ss. each_c (\<lambda>s. gc_clean_regions (sl_regions s)) ss))"

primrec find_slot :: "nat \<Rightarrow> gc_env \<Rightarrow> nat \<Rightarrow> nat gprog" where
  "find_slot 0 E i = stop Diverge"
| "find_slot (Suc n) E i =
    (let j = (if Suc i \<ge> MAX_GC_THREADS then 0 else Suc i) in
     bnd (slot_get E i sl_used) (\<lambda>u.
       if u \<noteq> GC_BUSY then
         bnd (cas_used E i u GC_BUSY) (\<lambda>won.
           if won then bnd (current_epoch E) (\<lambda>e.
             thn (slot_set E i (\<lambda>s. s\<lparr>sl_ts := e\<rparr>)) (ret i))
           else thn (assert_c (\<lambda>s. sl_used (gs_slots s ! i) \<noteq> GC_NULL)) (find_slot n E j))
       else find_slot n E j))"

definition gc_init_thread :: "nat \<Rightarrow> gc_env \<Rightarrow> unit gprog" where
  "gc_init_thread n E =
     bnd (thn (gc_move E) (gets gs_active)) (\<lambda>a.
       thn (modify (\<lambda>s. s\<lparr>gs_active := a + 1\<rparr>))
      (if a \<ge> of_nat MAX_GC_THREADS then stop ExitProc
       else bnd (find_slot n E 0) (\<lambda>i. modify (\<lambda>s. s\<lparr>gs_idx := i\<rparr>))))"

definition gc_exit_thread :: "gc_env \<Rightarrow> unit gprog" where
  "gc_exit_thread E =
     bnd (gets gs_idx) (\<lambda>i.
       thn (slot_set E i (\<lambda>s. s\<lparr>sl_ts := EPOCH_MAX\<rparr>))
      (thn (slot_set E i (\<lambda>s. s\<lparr>sl_used := (if sl_regions s = [] then GC_FREE_EMPTY else GC_FREE_FULL)\<rparr>))
      (thn (gc_move E) (modify (\<lambda>s. s\<lparr>gs_active := gs_active s - 1\<rparr>)))))"

definition gc_set_epoch :: "gc_env \<Rightarrow> w64 \<Rightarrow> unit gprog" where
  "gc_set_epoch E e =
    (if e \<ge> EPOCH_MAX then ret ()
     else bnd (gets gs_idx) (\<lambda>i. slot_set E i (\<lambda>s. s\<lparr>sl_ts := e\<rparr>)))"

definition gc_cleanup :: "nat \<Rightarrow> gc_env \<Rightarrow> unit gprog" where
  "gc_cleanup n E =
     bnd (gets gs_idx) (\<lambda>i. bnd (gets (\<lambda>s. sl_regions (gs_slots s ! i))) (\<lambda>rs.
       if rs = [] then ret ()
       else bnd (current_epoch E) (\<lambda>now. bnd (gc_compute_min n E now) (gc_cleanup_thread i))))"

text \<open>
  Adding a block: to the last region, after a new one when its epoch is older.
\<close>

definition add_block :: "w64 \<Rightarrow> gc_region list \<Rightarrow> gc_region list" where
  "add_block addr rs = butlast rs @ [(last rs)\<lparr>rg_blocks := addr # rg_blocks (last rs)\<rparr>]"

definition gc_free :: "nat \<Rightarrow> gc_env \<Rightarrow> w64 \<Rightarrow> w64 \<Rightarrow> unit gprog" where
  "gc_free n E addr e =
     bnd (gets gs_idx) (\<lambda>i. bnd (gets (\<lambda>s. sl_regions (gs_slots s ! i))) (\<lambda>rs.
       thn (if rs = [] \<or> rg_ts (last rs) < e
            then thn (gc_malloc E) (upd_slot i (\<lambda>s. s\<lparr>sl_regions := sl_regions s @ [\<lparr>rg_ts = e, rg_blocks = []\<rparr>]\<rparr>))
            else assert_c (\<lambda>_. rg_ts (last rs) = e))
      (thn (gc_malloc E)
      (thn (upd_slot i (\<lambda>s. s\<lparr>sl_regions := add_block addr (sl_regions s)\<rparr>))
      (thn (upd_slot i (\<lambda>s. s\<lparr>sl_frees := sl_frees s + 1\<rparr>))
      (bnd (gets (\<lambda>s. sl_frees (gs_slots s ! i))) (\<lambda>k.
         if k mod CLEANUP_FREQUENCY = 0 then gc_cleanup n E else ret ())))))))"

primrec cleanup_all_from :: "nat \<Rightarrow> gc_env \<Rightarrow> nat \<Rightarrow> nat \<Rightarrow> w64 \<Rightarrow> unit gprog" where
  "cleanup_all_from 0 E n i m = ret ()"
| "cleanup_all_from (Suc k) E n i m =
     bnd (slot_get E i sl_used) (\<lambda>u.
       if u = GC_NULL then ret ()
       else bnd (slot_get E i sl_used) (\<lambda>u2.
         if u2 = GC_FREE_FULL then
           bnd (cas_used E i GC_FREE_FULL GC_BUSY) (\<lambda>won.
             if won then
               bnd (if m = EPOCH_MAX then bnd (current_epoch E) (gc_compute_min n E) else ret m) (\<lambda>m'.
                 thn (gc_cleanup_thread i m')
                (thn (slot_set E i (\<lambda>s. s\<lparr>sl_used := (if sl_regions s = [] then GC_FREE_EMPTY else GC_FREE_FULL)\<rparr>))
                     (cleanup_all_from k E n (Suc i) m')))
             else cleanup_all_from k E n (Suc i) m)
         else cleanup_all_from k E n (Suc i) m))"

definition gc_cleanup_all :: "nat \<Rightarrow> gc_env \<Rightarrow> unit gprog" where
  "gc_cleanup_all n E = cleanup_all_from MAX_GC_THREADS E n 0 EPOCH_MAX"

primrec reset_from :: "nat \<Rightarrow> nat \<Rightarrow> unit gprog" where
  "reset_from 0 i = ret ()"
| "reset_from (Suc k) i =
     bnd (gets (\<lambda>s. gs_slots s ! i)) (\<lambda>sl.
       if sl_used sl = GC_NULL then ret ()
       else thn (gc_clean_regions (sl_regions sl))
           (thn (upd_slot i (\<lambda>s. s\<lparr>sl_ts := EPOCH_MAX, sl_regions := [], sl_frees := 0\<rparr>))
                (reset_from k (Suc i))))"

definition gc_reset :: "unit gprog" where
  "gc_reset = reset_from MAX_GC_THREADS 0"

section \<open>Lemmas\<close>

definition gc_quiet :: "gc_env \<Rightarrow> bool" where
  "gc_quiet E \<longleftrightarrow> (\<forall>n ss. ge_env E n ss = ss) \<and> (\<forall>n a. ge_active E n a = a)"

lemma gc_move_quiet [simp]: "gc_quiet E \<Longrightarrow> gc_move E = modify (\<lambda>s. s\<lparr>gs_tick := Suc (gs_tick s)\<rparr>)"
  by (rule ext) (simp add: gc_move_def gc_quiet_def)

lemma wp_slot_get: "gc_quiet E \<Longrightarrow> wp (slot_get E i f) s Q R = Q (f (gs_slots s ! i)) (s\<lparr>gs_tick := Suc (gs_tick s)\<rparr>)"
  unfolding slot_get_def wp_thn by simp

text \<open>The epochs of the running threads: the busy slots before the first that was never used.\<close>

definition epochs :: "gc_slot list \<Rightarrow> w64 list" where
  "epochs ss = map sl_ts (filter (\<lambda>s. sl_used s = GC_BUSY) (takeWhile (\<lambda>s. sl_used s \<noteq> GC_NULL) ss))"

lemma used_consts [simp]: "GC_BUSY \<noteq> GC_NULL" "GC_NULL \<noteq> GC_BUSY" "GC_FREE_FULL \<noteq> GC_NULL" "GC_FREE_FULL \<noteq> GC_BUSY"
  "GC_BUSY \<noteq> GC_FREE_FULL"
  by (simp_all add: GC_BUSY_def GC_NULL_def GC_FREE_FULL_def)

lemma epochs_simps [simp]:
  "epochs [] = []"
  "epochs (x # xs) = (if sl_used x = GC_NULL then [] else if sl_used x = GC_BUSY then sl_ts x # epochs xs else epochs xs)"
  by (simp add: epochs_def) (cases "sl_used x = GC_NULL"; cases "sl_used x = GC_BUSY"; simp add: epochs_def)

definition ticks :: "gc_st \<Rightarrow> gc_st \<Rightarrow> bool" where
  "ticks s t \<longleftrightarrow> (\<exists>k. t = s\<lparr>gs_tick := k\<rparr>)"

lemma ticks_self [simp]: "ticks s s"
  unfolding ticks_def by (rule exI [of _ "gs_tick s"]) simp

lemma ticks_tick [simp]: "ticks s (s\<lparr>gs_tick := k\<rparr>)" "ticks (s\<lparr>gs_tick := k\<rparr>) t = ticks s t"
  by (auto simp: ticks_def)

lemma compute_min_spec:
  "gc_quiet E \<Longrightarrow> length (gs_slots s) = MAX_GC_THREADS \<Longrightarrow> EPOCH_MAX \<notin> set (epochs (drop i (gs_slots s))) \<Longrightarrow>
    MAX_GC_THREADS < n + i \<Longrightarrow> i \<le> MAX_GC_THREADS \<Longrightarrow>
    wp (compute_min_from n E i m) s (\<lambda>r t. r = fold min (epochs (drop i (gs_slots s))) m \<and> ticks s t) never"
proof (induction n arbitrary: i m s)
  case (Suc n)
  show ?case
  proof (cases "MAX_GC_THREADS \<le> i")
    case True
    then show ?thesis using Suc.prems(2) by (simp add: epochs_def)
  next
    case False
    let ?s = "s\<lparr>gs_tick := Suc (Suc (gs_tick s))\<rparr>" and ?u = "s\<lparr>gs_tick := Suc (gs_tick s)\<rparr>"
    have d: "drop i (gs_slots s) = gs_slots s ! i # drop (Suc i) (gs_slots s)"
      using False Suc.prems(2) by (simp add: Cons_nth_drop_Suc)
    let ?x = "gs_slots s ! i"
    have IH: "wp (compute_min_from n E (Suc i) m') t (\<lambda>r u. r = fold min (epochs (drop (Suc i) (gs_slots s))) m' \<and> ticks s u) never"
      if "t = ?s \<or> t = ?u" "sl_used ?x \<noteq> GC_NULL" for m' t
    proof -
      have t: "gs_slots t = gs_slots s" "ticks t u = ticks s u" for u using that(1) by auto
      have "EPOCH_MAX \<notin> set (epochs (drop (Suc i) (gs_slots t)))" using Suc.prems(3) that(2) t(1) by (auto simp: d split: if_splits)
      with Suc.IH [of t "Suc i" m'] Suc.prems False show ?thesis by (simp add: t)
    qed
    have smaller: "(if x < m then x else m) = min x m" for x :: w64 by (auto simp: min_def)
    consider (null) "sl_used ?x = GC_NULL" | (busy) "sl_used ?x = GC_BUSY" | (idle) "sl_used ?x \<noteq> GC_NULL" "sl_used ?x \<noteq> GC_BUSY"
      by blast
    then show ?thesis
    proof cases
      case null
      then show ?thesis using False Suc.prems(1) unfolding compute_min_from.simps by (simp add: wp_slot_get d)
    next
      case busy
      then have "sl_ts ?x \<noteq> EPOCH_MAX" using Suc.prems(3) by (auto simp: d)
      then show ?thesis using busy False Suc.prems(1) IH [of ?s "min (sl_ts ?x) m"] unfolding compute_min_from.simps smaller
        by (simp add: wp_slot_get d)
    next
      case idle
      then show ?thesis using False Suc.prems(1) IH [of ?u m] unfolding compute_min_from.simps by (simp add: wp_slot_get d)
    qed
  qed
qed simp

lemma fold_min: "fold min es m \<le> x \<longleftrightarrow> m \<le> x \<or> (\<exists>e \<in> set es. e \<le> (x :: w64))"
  by (induction es arbitrary: m) (auto simp: min_le_iff_disj)

definition blocks_of :: "gc_region list \<Rightarrow> w64 list" where
  "blocks_of rs = concat (map rg_blocks rs)"

lemma clean_blocks_spec [simp]: "wp (gc_clean_blocks bs) s Q R = Q () (s\<lparr>gs_freed := gs_freed s @ bs\<rparr>)"
  by (induction bs arbitrary: s) (simp_all add: gc_clean_blocks_def free_blocks_def)

lemma wp_upd_slot [wp_simps, simp]:
  "wp (upd_slot i f) s Q R = Q () (s\<lparr>gs_slots := (gs_slots s)[i := f (gs_slots s ! i)]\<rparr>)"
  by (simp add: upd_slot_def)

lemma cleanup_loop_spec:
  "sl_regions (gs_slots s ! i) = rs \<Longrightarrow> i < length (gs_slots s) \<Longrightarrow>
    wp (cleanup_loop i m rs) s (\<lambda>_ t. t = s\<lparr>gs_freed := gs_freed s @ blocks_of (takeWhile (\<lambda>r. rg_ts r < m) rs),
      gs_slots := (gs_slots s)[i := (gs_slots s ! i)\<lparr>sl_regions := dropWhile (\<lambda>r. rg_ts r < m) rs\<rparr>]\<rparr>) never"
proof (induction rs arbitrary: s)
  case Nil
  then have "(gs_slots s ! i)\<lparr>sl_regions := []\<rparr> = gs_slots s ! i" by simp
  then show ?case by (simp add: blocks_of_def)
next
  case (Cons r rs)
  show ?case
  proof (cases "rg_ts r < m")
    case True
    then show ?thesis
      using Cons.prems by (auto simp: blocks_of_def intro!: wp_mono [OF Cons.IH])
  next
    case False
    then have "(gs_slots s ! i)\<lparr>sl_regions := r # rs\<rparr> = gs_slots s ! i" using Cons.prems by simp
    then show ?thesis using False by (simp add: blocks_of_def)
  qed
qed

text \<open>The regions of a slot from the oldest to the newest.\<close>

definition by_age :: "gc_region list \<Rightarrow> bool" where
  "by_age rs \<longleftrightarrow> sorted_wrt (<) (map rg_ts rs)"

lemma by_age_while:
  "by_age rs \<Longrightarrow> takeWhile (\<lambda>r. rg_ts r < m) rs = filter (\<lambda>r. rg_ts r < m) rs"
  "by_age rs \<Longrightarrow> dropWhile (\<lambda>r. rg_ts r < m) rs = filter (\<lambda>r. \<not> rg_ts r < m) rs"
proof (induction rs)
  case (Cons r rs)
  { case 1
    then have "\<not> rg_ts r < m \<Longrightarrow> \<forall>x \<in> set rs. \<not> rg_ts x < m" by (auto simp: by_age_def)
    then show ?case using 1 Cons.IH(1) by (auto simp: by_age_def)
  next
    case 2
    then have "\<not> rg_ts r < m \<Longrightarrow> \<forall>x \<in> set rs. \<not> rg_ts x < m" by (auto simp: by_age_def)
    then show ?case using 2 Cons.IH(2) by (auto simp: by_age_def filter_id_conv)
  }
qed simp_all

text \<open>A region may go when every running thread began after its epoch, which is past.\<close>

definition expired :: "w64 \<Rightarrow> gc_slot list \<Rightarrow> gc_region \<Rightarrow> bool" where
  "expired now ss r \<longleftrightarrow> rg_ts r < now \<and> (\<forall>e \<in> set (epochs ss). rg_ts r < e)"

lemma expired_min: "expired now ss = (\<lambda>r. rg_ts r < fold min (epochs ss) now)"
  using fold_min [of "epochs ss" now] by (intro ext) (auto simp: expired_def not_le simp flip: not_less)

lemma cleanup_spec:
  assumes "gc_quiet E" "length (gs_slots s) = MAX_GC_THREADS" "EPOCH_MAX \<notin> set (epochs (gs_slots s))"
    and "MAX_GC_THREADS < n" "gs_idx s < MAX_GC_THREADS" "by_age (sl_regions (gs_slots s ! gs_idx s))"
  shows "wp (gc_cleanup n E) s (\<lambda>_ t. \<exists>k. t = (let i = gs_idx s; rs = sl_regions (gs_slots s ! i);
        old = expired (ge_epoch E (gs_tick s)) (gs_slots s) in
      s\<lparr>gs_tick := k, gs_freed := gs_freed s @ blocks_of (filter old rs),
        gs_slots := (gs_slots s)[i := (gs_slots s ! i)\<lparr>sl_regions := filter (\<lambda>r. \<not> old r) rs\<rparr>]\<rparr>)) never"
proof -
  let ?rs = "sl_regions (gs_slots s ! gs_idx s)" and ?now = "ge_epoch E (gs_tick s)"
  show ?thesis
  proof (cases "?rs = []")
    case True
    then have "(gs_slots s ! gs_idx s)\<lparr>sl_regions := []\<rparr> = gs_slots s ! gs_idx s" by simp
    then have e: "(gs_slots s)[gs_idx s := (gs_slots s ! gs_idx s)\<lparr>sl_regions := []\<rparr>] = gs_slots s"
      using assms(2,5) by (metis list_update_id)
    have "wp (gc_cleanup n E) s (\<lambda>_ t. t = s) never" using True by (simp add: gc_cleanup_def)
    then show ?thesis
      by (rule wp_mono) (use True e in \<open>auto simp: blocks_of_def Let_def intro: exI [of _ "gs_tick s"]\<close>)
  next
    case False
    have min: "wp (gc_compute_min n E ?now) s (\<lambda>r t. r = fold min (epochs (gs_slots s)) ?now \<and> ticks s t) never"
      using compute_min_spec [of E s 0 n ?now] assms(1-4) by (simp add: gc_compute_min_def)
    have clean: "wp (gc_cleanup_thread (gs_idx s) m) t (\<lambda>_ t. \<exists>k. t = (let i = gs_idx s; old = expired ?now (gs_slots s) in
      s\<lparr>gs_tick := k, gs_freed := gs_freed s @ blocks_of (filter old ?rs),
        gs_slots := (gs_slots s)[i := (gs_slots s ! i)\<lparr>sl_regions := filter (\<lambda>r. \<not> old r) ?rs\<rparr>]\<rparr>)) never"
      if "m = fold min (epochs (gs_slots s)) ?now \<and> ticks s t" for m t
      using that assms(2,5) unfolding gc_cleanup_thread_def wp_bnd wp_gets ticks_def
      by (auto simp: by_age_while [OF assms(6)] expired_min Let_def intro!: wp_mono [OF cleanup_loop_spec [OF refl]])
    show ?thesis
      unfolding gc_cleanup_def wp_bnd wp_gets current_epoch_def using False
      by (simp, intro wp_mono [OF min]) (use clean in \<open>simp_all add: Let_def\<close>)
  qed
qed

section \<open>Properties\<close>

lemma epochs_cong:
  "map (\<lambda>s. (sl_used s, sl_ts s)) ss = map (\<lambda>s. (sl_used s, sl_ts s)) ss' \<Longrightarrow> epochs ss = epochs ss'"
proof (induction ss arbitrary: ss')
  case (Cons x ss)
  then show ?case by (cases ss') auto
qed simp

lemma epochs_upd:
  assumes "sl_used x = sl_used (ss ! i)" "sl_ts x = sl_ts (ss ! i)"
  shows "epochs (ss[i := x]) = epochs ss"
proof (rule epochs_cong)
  have "map (\<lambda>s. (sl_used s, sl_ts s)) (ss[i := x]) = (map (\<lambda>s. (sl_used s, sl_ts s)) ss)[i := (sl_used x, sl_ts x)]"
    by (rule map_update)
  then show "map (\<lambda>s. (sl_used s, sl_ts s)) (ss[i := x]) = map (\<lambda>s. (sl_used s, sl_ts s)) ss"
    using assms by (cases "i < length ss") (simp_all add: list_update_same_conv list_update_beyond)
qed

text \<open>No other thread moves, the clock stands at \<open>now\<close>, no thread is about to set its epoch.\<close>

definition gc_ready :: "gc_env \<Rightarrow> w64 \<Rightarrow> gc_st \<Rightarrow> bool" where
  "gc_ready E now s \<longleftrightarrow> gc_quiet E \<and> (\<forall>n. ge_malloc E n \<and> ge_epoch E n = now)
     \<and> length (gs_slots s) = MAX_GC_THREADS \<and> gs_idx s < MAX_GC_THREADS \<and> EPOCH_MAX \<notin> set (epochs (gs_slots s))
     \<and> by_age (sl_regions (gs_slots s ! gs_idx s))"

definition filed :: "w64 \<Rightarrow> w64 \<Rightarrow> gc_region list \<Rightarrow> gc_region list" where
  "filed addr e rs = add_block addr (if rs = [] \<or> rg_ts (last rs) < e then rs @ [\<lparr>rg_ts = e, rg_blocks = []\<rparr>] else rs)"

lemma filed_facts:
  assumes "by_age rs" "rs = [] \<or> rg_ts (last rs) \<le> e"
  shows "by_age (filed addr e rs)" "mset (blocks_of (filed addr e rs)) = add_mset addr (mset (blocks_of rs))"
proof -
  have "by_age (filed addr e rs) \<and> mset (blocks_of (filed addr e rs)) = add_mset addr (mset (blocks_of rs))"
  proof (cases "rs = [] \<or> rg_ts (last rs) < e")
    case True
    have "\<forall>r \<in> set rs. rg_ts r < e"
    proof (cases rs rule: rev_cases)
      case (snoc qs q)
      then show ?thesis using True assms(1) by (auto simp: by_age_def sorted_wrt_append)
    qed simp
    then show ?thesis using True assms(1) by (auto simp: filed_def add_block_def by_age_def sorted_wrt_append blocks_of_def)
  next
    case False
    then obtain qs q where "rs = qs @ [q]" by (cases rs rule: rev_cases) auto
    then show ?thesis using False assms(1) by (auto simp: filed_def add_block_def by_age_def sorted_wrt_append blocks_of_def)
  qed
  then show "by_age (filed addr e rs)" "mset (blocks_of (filed addr e rs)) = add_mset addr (mset (blocks_of rs))" by simp_all
qed

lemma gc_free_exec:
  assumes "gc_ready E now s" "MAX_GC_THREADS < n"
    and "let rs = sl_regions (gs_slots s ! gs_idx s) in rs = [] \<or> rg_ts (last rs) \<le> e"
  shows "wp (gc_free n E addr e) s (\<lambda>_ t. let i = gs_idx s; rs = filed addr e (sl_regions (gs_slots s ! i));
        old = expired now (gs_slots s) in
      gs_freed t = gs_freed s @ blocks_of (filter old rs) \<and> sl_regions (gs_slots t ! i) = filter (\<lambda>r. \<not> old r) rs
      \<and> length (gs_slots t) = length (gs_slots s) \<and> (\<forall>j. j \<noteq> i \<longrightarrow> gs_slots t ! j = gs_slots s ! j)) never"
proof -
  let ?i = "gs_idx s" and ?rs = "sl_regions (gs_slots s ! gs_idx s)"
  let ?x = "\<lambda>x. x\<lparr>sl_regions := filed addr e ?rs, sl_frees := sl_frees x + 1\<rparr>"
  have r: "gc_quiet E" "\<forall>n. ge_malloc E n" "\<forall>n. ge_epoch E n = now" "length (gs_slots s) = MAX_GC_THREADS"
    "?i < MAX_GC_THREADS" "EPOCH_MAX \<notin> set (epochs (gs_slots s))" "by_age ?rs"
    using assms(1) by (simp_all add: gc_ready_def)
  have ag: "?rs = [] \<or> rg_ts (last ?rs) \<le> e" using assms(3) by (simp add: Let_def)
  have ep: "epochs ((gs_slots s)[?i := ?x (gs_slots s ! ?i)]) = epochs (gs_slots s)" by (rule epochs_upd) simp_all
  have ex: "expired now ((gs_slots s)[?i := ?x (gs_slots s ! ?i)]) = expired now (gs_slots s)"
    by (intro ext) (simp add: expired_def ep)
  have clean: "wp (gc_cleanup n E) (s\<lparr>gs_tick := k, gs_slots := (gs_slots s)[?i := ?x (gs_slots s ! ?i)]\<rparr>)
      (\<lambda>_ t. let rs = filed addr e ?rs; old = expired now (gs_slots s) in
      gs_freed t = gs_freed s @ blocks_of (filter old rs) \<and> sl_regions (gs_slots t ! ?i) = filter (\<lambda>r. \<not> old r) rs
      \<and> length (gs_slots t) = length (gs_slots s) \<and> (\<forall>j. j \<noteq> ?i \<longrightarrow> gs_slots t ! j = gs_slots s ! j)) never" for k
    by (rule wp_mono [OF cleanup_spec [OF r(1) _ _ assms(2)]])
      (use r filed_facts [OF r(7) ag] in \<open>auto simp: Let_def ep ex\<close>)
  have every: "k mod CLEANUP_FREQUENCY = 0" for k by (simp add: CLEANUP_FREQUENCY_def)
  let ?new = "?rs = [] \<or> rg_ts (last ?rs) < e"
  have fl: "filed addr e ?rs = add_block addr (if ?new then ?rs @ [\<lparr>rg_ts = e, rg_blocks = []\<rparr>] else ?rs)"
    by (simp add: filed_def)
  have same: "\<not> ?new \<Longrightarrow> rg_ts (last ?rs) = e" using ag by auto
  from clean [of "Suc (gs_tick s)"] clean [of "Suc (Suc (gs_tick s))"] show ?thesis
    unfolding gc_free_def wp_bnd wp_gets wp_thn gc_malloc_def every
    using r(2,4,5) same by (cases ?new) (simp_all add: fl Let_def)
qed

text \<open>C22: Handing a block to the collector neither loses nor duplicates one.  The thread's regions stay
  ordered by age, every block is afterwards either freed or still in a region, a region is freed
  exactly when its epoch lies before the current one and before that of every running thread, and
  the other threads' regions are left alone.\<close>

theorem gc_free_keeps_blocks:
  assumes "gc_ready E now s" "MAX_GC_THREADS < n"
    and "let rs = sl_regions (gs_slots s ! gs_idx s) in rs = [] \<or> rg_ts (last rs) \<le> e"
  shows "\<exists>t. gc_free n E addr e s = (Ret (), t)
    \<and> (let i = gs_idx s; rs = sl_regions (gs_slots t ! i) in
        by_age rs
      \<and> mset (gs_freed t) + mset (blocks_of rs)
          = add_mset addr (mset (gs_freed s) + mset (blocks_of (sl_regions (gs_slots s ! i))))
      \<and> (\<forall>r \<in> set rs. \<not> expired now (gs_slots s) r)
      \<and> (\<exists>old. gs_freed t = gs_freed s @ blocks_of old \<and> (\<forall>r \<in> set old. expired now (gs_slots s) r))
      \<and> (\<forall>j. j \<noteq> i \<longrightarrow> gs_slots t ! j = gs_slots s ! j))"
proof -
  let ?i = "gs_idx s" and ?rs = "sl_regions (gs_slots s ! gs_idx s)"
  let ?old = "expired now (gs_slots s)"
  from gc_free_exec [OF assms, of addr] obtain t where t: "gc_free n E addr e s = (Ret (), t)"
    "gs_freed t = gs_freed s @ blocks_of (filter ?old (filed addr e ?rs))"
    "sl_regions (gs_slots t ! ?i) = filter (\<lambda>r. \<not> ?old r) (filed addr e ?rs)"
    "\<forall>j. j \<noteq> ?i \<longrightarrow> gs_slots t ! j = gs_slots s ! j"
    by (auto simp: wp_never Let_def)
  have f: "by_age (filed addr e ?rs)" "mset (blocks_of (filed addr e ?rs)) = add_mset addr (mset (blocks_of ?rs))"
    using filed_facts [of ?rs e addr] assms by (simp_all add: gc_ready_def Let_def)
  have part: "mset (blocks_of (filter P xs)) + mset (blocks_of (filter (\<lambda>r. \<not> P r) xs)) = mset (blocks_of xs)" for P xs
    by (induction xs) (auto simp: blocks_of_def)
  have age: "by_age (filter P xs)" if "by_age xs" for P xs
    using that by (induction xs) (auto simp: by_age_def)
  have m: "mset (gs_freed t) + mset (blocks_of (sl_regions (gs_slots t ! ?i)))
      = add_mset addr (mset (gs_freed s) + mset (blocks_of ?rs))"
    using part [of ?old "filed addr e ?rs"] f(2) by (simp add: t(2,3) add.assoc)
  have o: "\<exists>old. gs_freed t = gs_freed s @ blocks_of old \<and> (\<forall>r \<in> set old. ?old r)"
    using t(2) by (intro exI [of _ "filter ?old (filed addr e ?rs)"]) simp
  have a: "by_age (sl_regions (gs_slots t ! ?i))" "\<forall>r \<in> set (sl_regions (gs_slots t ! ?i)). \<not> ?old r"
    unfolding t(3) using age [OF f(1)] by simp_all
  show ?thesis using t(1,4) m o a by (auto simp: Let_def)
qed

lemma epochs_unused [simp]: "epochs (replicate k slot0) = []"
  by (cases k) (simp_all add: slot0_def)

definition sample_gc :: gc_st where
  "sample_gc = \<lparr>gs_slots = slot0\<lparr>sl_used := GC_BUSY, sl_ts := 5, sl_regions := [\<lparr>rg_ts = 3, rg_blocks = [64]\<rparr>]\<rparr>
       # replicate 1023 slot0, gs_active = 1, gs_freed = [], gs_idx = 0, gs_tick = 0\<rparr>"

definition sample_gc_env :: gc_env where
  "sample_gc_env = \<lparr>ge_env = (\<lambda>_ ss. ss), ge_active = (\<lambda>_ a. a), ge_epoch = (\<lambda>_. 6), ge_malloc = (\<lambda>_. True)\<rparr>"

lemma sample_gc_ready: "gc_ready sample_gc_env 6 sample_gc"
  by (simp add: gc_ready_def sample_gc_def sample_gc_env_def gc_quiet_def by_age_def MAX_GC_THREADS_def EPOCH_MAX_def)

theorem gc_free_keeps_blocks_witness:
  "\<exists>t. gc_free 1025 sample_gc_env 72 6 sample_gc = (Ret (), t)
    \<and> mset (gs_freed t) + mset (blocks_of (sl_regions (gs_slots t ! 0))) = {#64, 72#}"
proof -
  have "let rs = sl_regions (gs_slots sample_gc ! gs_idx sample_gc) in rs = [] \<or> rg_ts (last rs) \<le> 6"
    by (simp add: sample_gc_def)
  from gc_free_keeps_blocks [OF sample_gc_ready _ this, of 1025 72] show ?thesis
    by (auto simp: MAX_GC_THREADS_def Let_def sample_gc_def blocks_of_def)
qed

text \<open>A claimed slot without an epoch is waited for.\<close>

lemma compute_min_stuck:
  assumes "gc_quiet E" "sl_used (gs_slots s ! i) = GC_BUSY" "sl_ts (gs_slots s ! i) = EPOCH_MAX" "i < MAX_GC_THREADS"
    and "\<forall>j < i. sl_used (gs_slots s ! j) \<noteq> GC_NULL"
  shows "ticks s t \<Longrightarrow> j \<le> i \<Longrightarrow> wp (compute_min_from n E j m) t (\<lambda>_ _. False) (\<lambda>r _. r = Diverge)"
proof (induction n arbitrary: j m t)
  case (Suc n)
  have sl: "gs_slots t = gs_slots s" using Suc.prems(1) by (auto simp: ticks_def)
  have tk: "ticks s (t\<lparr>gs_tick := k\<rparr>)" for k using Suc.prems(1) by (auto simp: ticks_def)
  have j: "j = i \<or> (j < i \<and> sl_used (gs_slots s ! j) \<noteq> GC_NULL)" using Suc.prems(2) assms(5) by (cases "j = i") auto
  then show ?case
    unfolding compute_min_from.simps
    using assms(1-4) Suc.IH [OF tk] Suc.prems(2) by (auto simp: wp_slot_get sl)
qed simp

lemma cleanup_all_stuck:
  assumes "gc_quiet E" "sl_used (gs_slots s ! i) = GC_FREE_FULL" "sl_ts (gs_slots s ! i) = EPOCH_MAX"
    and "i < MAX_GC_THREADS" "length (gs_slots s) = MAX_GC_THREADS"
    and "\<forall>j < i. sl_used (gs_slots s ! j) \<noteq> GC_NULL \<and> sl_used (gs_slots s ! j) \<noteq> GC_FREE_FULL"
  shows "ticks s t \<Longrightarrow> j \<le> i \<Longrightarrow> i < k + j \<Longrightarrow>
    wp (cleanup_all_from k E n j EPOCH_MAX) t (\<lambda>_ _. False) (\<lambda>r _. r = Diverge)"
proof (induction k arbitrary: j t)
  case (Suc k)
  have sl: "gs_slots t = gs_slots s" using Suc.prems(1) by (auto simp: ticks_def)
  have tk: "ticks s (t\<lparr>gs_tick := k\<rparr>)" for k using Suc.prems(1) by (auto simp: ticks_def)
  show ?case
  proof (cases "j = i")
    case True
    let ?x = "(gs_slots s ! i)\<lparr>sl_used := GC_BUSY\<rparr>"
    have stuck: "wp (gc_compute_min n E now) u (\<lambda>_ _. False) (\<lambda>r _. r = Diverge)"
      if "gs_slots u = (gs_slots s)[i := ?x]" for u now
      unfolding gc_compute_min_def
      by (rule compute_min_stuck [OF assms(1), where i = i and s = u])
        (use that assms(3-6) in \<open>simp_all\<close>)
    show ?thesis
      unfolding cleanup_all_from.simps True current_epoch_def
      using assms(1,2) by (simp add: wp_slot_get sl cas_used_def wp_mono [OF stuck])
  next
    case False
    then show ?thesis
      unfolding cleanup_all_from.simps
      using assms(1,6) Suc.IH [OF tk, of "Suc j"] Suc.prems(2,3) by (simp add: wp_slot_get sl)
  qed
qed simp

text \<open>C40: \<open>gc_cleanup_all\<close> never returns after a thread has ended with blocks still to be freed:
  \<open>gc_exit_thread\<close> leaves the slot full with no epoch, the cleanup claims the slot and then waits
  for it to set one.\<close>

theorem cleanup_all_never_returns:
  assumes "gc_quiet E" "length (gs_slots s) = MAX_GC_THREADS" "gs_idx s < MAX_GC_THREADS"
    and "sl_regions (gs_slots s ! gs_idx s) \<noteq> []"
    and "\<forall>j < gs_idx s. sl_used (gs_slots s ! j) \<noteq> GC_NULL \<and> sl_used (gs_slots s ! j) \<noteq> GC_FREE_FULL"
  shows "fst (thn (gc_exit_thread E) (gc_cleanup_all n E) s) = Diverge"
proof -
  let ?i = "gs_idx s"
  let ?x = "(gs_slots s ! ?i)\<lparr>sl_ts := EPOCH_MAX, sl_used := GC_FREE_FULL\<rparr>"
  have exit: "wp (gc_exit_thread E) s (\<lambda>_ t. gs_slots t = (gs_slots s)[?i := ?x]) never"
    unfolding gc_exit_thread_def slot_set_def wp_bnd wp_thn wp_gets gc_move_quiet [OF assms(1)]
    using assms(2-4) by simp
  have "wp (gc_cleanup_all n E) t (\<lambda>_ _. False) (\<lambda>r _. r = Diverge)" if "gs_slots t = (gs_slots s)[?i := ?x]" for t
    unfolding gc_cleanup_all_def
    by (rule cleanup_all_stuck [OF assms(1), where i = ?i and s = t]) (use that assms in simp_all)
  then have "wp (thn (gc_exit_thread E) (gc_cleanup_all n E)) s (\<lambda>_ _. False) (\<lambda>r _. r = Diverge)"
    unfolding wp_thn by (intro wp_mono [OF exit]) simp_all
  then show ?thesis
    by (cases "thn (gc_exit_thread E) (gc_cleanup_all n E) s"; cases "fst (thn (gc_exit_thread E) (gc_cleanup_all n E) s)")
      (simp_all add: wp_def)
qed

theorem cleanup_all_never_returns_witness:
  "fst (thn (gc_exit_thread sample_gc_env) (gc_cleanup_all 5000 sample_gc_env) sample_gc) = Diverge"
proof -
  have "gc_quiet sample_gc_env" "length (gs_slots sample_gc) = MAX_GC_THREADS" "gs_idx sample_gc < MAX_GC_THREADS"
    using sample_gc_ready by (simp_all add: gc_ready_def)
  from cleanup_all_never_returns [OF this] show ?thesis by (simp add: sample_gc_def)
qed

end
