(* ===== verification/Modular.thy ===== *)
theory Modular
  imports Cm
begin

text \<open>
  Encounter-time locking as \<open>CM_MODULAR\<close> compiles it (\<open>src/stm_internal.h\<close>,
  \<open>src/stm_wbetl.h\<close>): a conflict is settled by a contention manager, a transaction can be
  killed by another and its locks stolen, and reads can be made visible by taking the lock in
  read mode.  The configuration is \<open>DESIGN=WRITE_BACK_ETL\<close>, \<open>CM=CM_MODULAR\<close>, \<open>EPOCH_GC\<close>,
  without \<open>IRREVOCABLE_ENABLED\<close>, \<open>READ_LOCKED_DATA\<close>, \<open>UNIT_TX\<close> and \<open>TM_STATISTICS\<close>.

  Other threads look into a transaction here: they read the status word of its descriptor
  and the entry its lock word points to.  So status words and write-set entries are part of
  the shared state, indexed by address, and a link between entries is an address (0 is
  \<open>NULL\<close>).  As in the other designs other threads are the parameter \<open>mp_env\<close>, which may
  change the shared state before each atomic access.  The calls of the collector (modelled in
  \<open>Gc\<close>) are recorded in \<open>ms_gc\<close>.
\<close>

section \<open>Status words with a counter\<close>

definition STATUS_BITS :: nat where "STATUS_BITS = 4"
definition STATUS_MASK :: w64 where "STATUS_MASK = push_bit STATUS_BITS 1 - 1"

definition with_status :: "w64 \<Rightarrow> w64 \<Rightarrow> w64" where
  "with_status s v = (s AND NOT STATUS_MASK) OR v"

definition INC_STATUS_COUNTER :: "w64 \<Rightarrow> w64" where
  "INC_STATUS_COUNTER s = push_bit STATUS_BITS (drop_bit STATUS_BITS s + 1)"

definition GET_STATUS_M :: "w64 \<Rightarrow> w64" where "GET_STATUS_M s = s AND STATUS_MASK"
definition GET_STATUS_COUNTER :: "w64 \<Rightarrow> w64" where "GET_STATUS_COUNTER s = drop_bit STATUS_BITS s"
definition IS_ACTIVE_M :: "w64 \<Rightarrow> bool" where "IS_ACTIVE_M s \<longleftrightarrow> GET_STATUS_M s AND 0x01 = TX_ACTIVE"

section \<open>Lock words with a read and a write bit\<close>

definition OWNED_BITS_M :: nat where "OWNED_BITS_M = 2"
definition READ_MASK :: w64 where "READ_MASK = 0x02"
definition OWNED_MASK_M :: w64 where "OWNED_MASK_M = WRITE_MASK OR READ_MASK"
definition LOCK_BITS_M :: nat where "LOCK_BITS_M = OWNED_BITS_M + INCARNATION_BITS"
definition VERSION_MAX_M :: w64 where "VERSION_MAX_M = drop_bit LOCK_BITS_M (NOT 0) - MAX_THREADS"

definition LOCK_GET_OWNED_M :: "w64 \<Rightarrow> w64" where "LOCK_GET_OWNED_M l = l AND OWNED_MASK_M"
definition LOCK_GET_ADDR_M :: "w64 \<Rightarrow> w64" where "LOCK_GET_ADDR_M l = l AND NOT OWNED_MASK_M"
definition LOCK_GET_READ :: "w64 \<Rightarrow> w64" where "LOCK_GET_READ l = l AND READ_MASK"
definition LOCK_SET_ADDR_READ :: "w64 \<Rightarrow> w64" where "LOCK_SET_ADDR_READ a = a OR READ_MASK"
definition LOCK_UPGRADE :: "w64 \<Rightarrow> w64" where "LOCK_UPGRADE l = l OR WRITE_MASK"
definition LOCK_GET_TIMESTAMP_M :: "w64 \<Rightarrow> w64" where "LOCK_GET_TIMESTAMP_M l = drop_bit LOCK_BITS_M l"
definition LOCK_SET_TIMESTAMP_M :: "w64 \<Rightarrow> w64" where "LOCK_SET_TIMESTAMP_M t = push_bit LOCK_BITS_M t"

definition RR_CONFLICT :: w64 where "RR_CONFLICT = 0x00"
definition WR_CONFLICT :: w64 where "WR_CONFLICT = 0x02"
definition WW_CONFLICT :: w64 where "WW_CONFLICT = 0x03"

section \<open>State\<close>

record m_entry =
  me_addr :: w64
  me_value :: w64
  me_mask :: w64
  me_version :: w64
  me_lock :: w64
  me_tx :: w64
  me_next :: w64

text \<open>
  What only the owning thread reads of its descriptor.  The status word is in the shared
  state, at the address \<open>mt_self\<close> of the descriptor.
\<close>

record mtx =
  mt_self :: w64
  mt_attr :: attr
  mt_start :: w64
  mt_end :: w64
  mt_rs :: "r_entry list"
  mt_rs_size :: nat
  mt_base :: w64
  mt_nb :: nat
  mt_ws_size :: nat
  mt_has_writes :: nat
  mt_nesting :: w32
  mt_timestamp :: w64
  mt_c_lock :: "w64 option"
  mt_visible_reads :: int
  mt_stat_retries :: w32

record mglob =
  mg_mem :: "w64 \<Rightarrow> w64"
  mg_locks :: "w64 \<Rightarrow> w64"
  mg_clock :: w64
  mg_status :: "w64 \<Rightarrow> w64"
  mg_ent :: "w64 \<Rightarrow> m_entry"
  mg_desc :: "w64 \<Rightarrow> cm_view"
  mg_quiesce :: w64
  mg_threads_nb :: w64
  mg_mutex :: bool
  mg_start_cb :: "cb_entry list"
  mg_precommit_cb :: "cb_entry list"
  mg_commit_cb :: "cb_entry list"
  mg_abort_cb :: "cb_entry list"

datatype gc_call = GcFree w64 w64 | GcSetEpoch w64 | GcReset

record mst =
  ms_glob :: mglob
  ms_tx :: mtx
  ms_tick :: nat
  ms_nalloc :: nat
  ms_gc :: "gc_call list"

record mparams =
  mp_env :: "nat \<Rightarrow> mglob \<Rightarrow> mglob"
  mp_alloc :: "nat \<Rightarrow> w64"
  mp_callf :: "w64 \<Rightarrow> w64 \<Rightarrow> mst \<Rightarrow> mst"
  mp_manager :: "(cm_view \<Rightarrow> cm_view \<Rightarrow> w64 \<Rightarrow> w64) option"
  mp_vr_threshold :: int

type_synonym 'a mprog = "(mst, 'a) comp"

section \<open>Accesses\<close>

definition m_upd_tx :: "(mtx \<Rightarrow> mtx) \<Rightarrow> mst \<Rightarrow> mst" where
  "m_upd_tx f s = s\<lparr>ms_tx := f (ms_tx s)\<rparr>"

definition m_upd_glob :: "(mglob \<Rightarrow> mglob) \<Rightarrow> mst \<Rightarrow> mst" where
  "m_upd_glob f s = s\<lparr>ms_glob := f (ms_glob s)\<rparr>"

definition m_env_step :: "mparams \<Rightarrow> mst \<Rightarrow> mst" where
  "m_env_step P s = s\<lparr>ms_glob := mp_env P (ms_tick s) (ms_glob s), ms_tick := Suc (ms_tick s)\<rparr>"

definition m_tx :: "mtx mprog" where "m_tx = gets ms_tx"
definition m_set_tx :: "(mtx \<Rightarrow> mtx) \<Rightarrow> unit mprog" where "m_set_tx f = modify (m_upd_tx f)"
definition m_plain :: "(mglob \<Rightarrow> mglob) \<Rightarrow> unit mprog" where "m_plain f = modify (m_upd_glob f)"

definition m_get :: "mparams \<Rightarrow> (mglob \<Rightarrow> 'a) \<Rightarrow> 'a mprog" where
  "m_get P f = thn (modify (m_env_step P)) (gets (\<lambda>s. f (ms_glob s)))"

definition m_set :: "mparams \<Rightarrow> (mglob \<Rightarrow> mglob) \<Rightarrow> unit mprog" where
  "m_set P f = thn (modify (m_env_step P)) (m_plain f)"

text \<open>A compare-and-swap on the word \<open>f\<close> reads, with \<open>upd\<close> as its store.\<close>

definition m_cas :: "mparams \<Rightarrow> (mglob \<Rightarrow> w64) \<Rightarrow> (mglob \<Rightarrow> mglob) \<Rightarrow> w64 \<Rightarrow> bool mprog" where
  "m_cas P f upd old = thn (modify (m_env_step P))
     (bnd (gets (\<lambda>s. f (ms_glob s))) (\<lambda>v. if v = old then thn (m_plain upd) (ret True) else ret False))"

definition put_lock :: "w64 \<Rightarrow> w64 \<Rightarrow> mglob \<Rightarrow> mglob" where
  "put_lock k v g = g\<lparr>mg_locks := (mg_locks g)(k := v)\<rparr>"

definition put_mem :: "w64 \<Rightarrow> w64 \<Rightarrow> mglob \<Rightarrow> mglob" where
  "put_mem a v g = g\<lparr>mg_mem := (mg_mem g)(a := v)\<rparr>"

definition put_status :: "w64 \<Rightarrow> w64 \<Rightarrow> mglob \<Rightarrow> mglob" where
  "put_status p v g = g\<lparr>mg_status := (mg_status g)(p := v)\<rparr>"

definition put_ent :: "w64 \<Rightarrow> (m_entry \<Rightarrow> m_entry) \<Rightarrow> mglob \<Rightarrow> mglob" where
  "put_ent w f g = g\<lparr>mg_ent := (mg_ent g)(w := f (mg_ent g w))\<rparr>"

definition m_load_lock :: "mparams \<Rightarrow> w64 \<Rightarrow> w64 mprog" where
  "m_load_lock P k = m_get P (\<lambda>g. mg_locks g k)"

definition m_load :: "mparams \<Rightarrow> w64 \<Rightarrow> w64 mprog" where
  "m_load P a = m_get P (\<lambda>g. mg_mem g a)"

definition m_cas_lock :: "mparams \<Rightarrow> w64 \<Rightarrow> w64 \<Rightarrow> w64 \<Rightarrow> bool mprog" where
  "m_cas_lock P k old new = m_cas P (\<lambda>g. mg_locks g k) (put_lock k new) old"

definition m_status :: "mparams \<Rightarrow> w64 \<Rightarrow> w64 mprog" where
  "m_status P p = m_get P (\<lambda>g. mg_status g p)"

definition m_cas_status :: "mparams \<Rightarrow> w64 \<Rightarrow> w64 \<Rightarrow> w64 \<Rightarrow> bool mprog" where
  "m_cas_status P p old new = m_cas P (\<lambda>g. mg_status g p) (put_status p new) old"

text \<open>\<open>w->tx->status\<close>; the field \<open>tx\<close> of an entry is written once, when the array is allocated.\<close>

definition m_owner_status :: "mparams \<Rightarrow> w64 \<Rightarrow> w64 mprog" where
  "m_owner_status P w = m_get P (\<lambda>g. mg_status g (me_tx (mg_ent g w)))"

definition m_fetch_inc_clock :: "mparams \<Rightarrow> w64 mprog" where
  "m_fetch_inc_clock P = bnd (m_get P mg_clock)
     (\<lambda>c. thn (m_plain (\<lambda>g. g\<lparr>mg_clock := c + 1\<rparr>)) (ret c))"

definition m_own_status :: "mparams \<Rightarrow> w64 mprog" where
  "m_own_status P = bnd m_tx (\<lambda>tx. m_status P (mt_self tx))"

definition SET_STATUS :: "mparams \<Rightarrow> w64 \<Rightarrow> unit mprog" where
  "SET_STATUS P v = bnd m_tx (\<lambda>tx. bnd (m_status P (mt_self tx)) (\<lambda>s.
     m_set P (put_status (mt_self tx) (with_status s v))))"

definition UPDATE_STATUS :: "mparams \<Rightarrow> w64 \<Rightarrow> unit mprog" where
  "UPDATE_STATUS P v = bnd m_tx (\<lambda>tx. bnd (m_status P (mt_self tx)) (\<lambda>s.
     m_set P (put_status (mt_self tx) (INC_STATUS_COUNTER s OR v))))"

definition assert_active :: "mparams \<Rightarrow> unit mprog" where
  "assert_active P = bnd (m_own_status P) (\<lambda>s. assert_c (\<lambda>_. IS_ACTIVE_M s))"

definition assert_killed :: "mparams \<Rightarrow> unit mprog" where
  "assert_killed P = bnd (m_own_status P) (\<lambda>s. assert_c (\<lambda>_. GET_STATUS_M s = TX_KILLED))"

definition m_xmalloc :: "mparams \<Rightarrow> w64 mprog" where
  "m_xmalloc P = bnd (gets (\<lambda>s. mp_alloc P (ms_nalloc s)))
     (\<lambda>a. thn (modify (\<lambda>s. s\<lparr>ms_nalloc := Suc (ms_nalloc s)\<rparr>)) (if a = 0 then stop ExitProc else ret a))"

definition m_gc :: "gc_call \<Rightarrow> unit mprog" where
  "m_gc c = modify (\<lambda>s. s\<lparr>ms_gc := ms_gc s @ [c]\<rparr>)"

definition m_run_cbs :: "mparams \<Rightarrow> (mglob \<Rightarrow> cb_entry list) \<Rightarrow> unit mprog" where
  "m_run_cbs P f = bnd (gets (\<lambda>s. f (ms_glob s)))
     (\<lambda>cs. each_c (\<lambda>c. modify (mp_callf P (cb_f c) (cb_arg c))) cs)"

definition count_visible :: "unit mprog" where
  "count_visible = bnd m_tx (\<lambda>tx. if mt_visible_reads tx = 2 ^ 31 - 1 then stop Undef
     else m_set_tx (\<lambda>t. t\<lparr>mt_visible_reads := mt_visible_reads t + 1\<rparr>))"

section \<open>Read and write sets\<close>

definition m_ptr :: "mtx \<Rightarrow> nat \<Rightarrow> w64" where
  "m_ptr tx i = mt_base tx + SIZEOF_W_ENTRY * of_nat i"

definition m_in_ws :: "mtx \<Rightarrow> w64 \<Rightarrow> bool" where
  "m_in_ws tx w \<longleftrightarrow> mt_base tx \<le> w \<and> w < m_ptr tx (mt_nb tx)"

definition m_ptrs :: "mtx \<Rightarrow> w64 list" where
  "m_ptrs tx = map (m_ptr tx) [0..<mt_nb tx]"

text \<open>\<open>while (1)\<close> along the links of a write-set entry: the entry found, or the last one.\<close>

primrec m_chase :: "nat \<Rightarrow> (w64 \<Rightarrow> m_entry) \<Rightarrow> w64 \<Rightarrow> w64 \<Rightarrow> (w64 \<times> bool) option" where
  "m_chase 0 h addr w = None"
| "m_chase (Suc n) h addr w =
     (if addr = me_addr (h w) then Some (w, True)
      else if me_next (h w) = 0 then Some (w, False)
      else m_chase n h addr (me_next (h w)))"

definition m_has_read :: "mtx \<Rightarrow> w64 \<Rightarrow> r_entry option" where
  "m_has_read tx lock = find (\<lambda>r. re_lock r = lock) (mt_rs tx)"

definition m_add_read :: "mparams \<Rightarrow> w64 \<Rightarrow> w64 \<Rightarrow> unit mprog" where
  "m_add_read P version lock = bnd m_tx (\<lambda>tx.
     thn (when_c (length (mt_rs tx) = mt_rs_size tx)
           (thn (m_set_tx (\<lambda>t. t\<lparr>mt_rs_size := 2 * mt_rs_size t\<rparr>)) (bnd (m_xmalloc P) (\<lambda>_. ret ()))))
         (m_set_tx (\<lambda>t. t\<lparr>mt_rs := mt_rs t @ [\<lparr>re_version = version, re_lock = lock\<rparr>]\<rparr>)))"

primrec m_validate :: "mparams \<Rightarrow> r_entry list \<Rightarrow> bool mprog" where
  "m_validate P [] = ret True"
| "m_validate P (r # rs) =
     bnd (m_load_lock P (re_lock r)) (\<lambda>l.
     bnd m_tx (\<lambda>tx.
       if LOCK_GET_OWNED_M l \<noteq> 0
       then (if m_in_ws tx (LOCK_GET_ADDR_M l) then m_validate P rs else ret False)
       else (if LOCK_GET_TIMESTAMP_M l \<noteq> re_version r then ret False else m_validate P rs)))"

definition m_wbetl_validate :: "mparams \<Rightarrow> bool mprog" where
  "m_wbetl_validate P = bnd m_tx (\<lambda>tx. m_validate P (mt_rs tx))"

definition m_wbetl_extend :: "mparams \<Rightarrow> bool mprog" where
  "m_wbetl_extend P = bnd (m_get P mg_clock) (\<lambda>now.
     bnd (m_wbetl_validate P) (\<lambda>ok.
       if ok then thn (m_set_tx (\<lambda>t. t\<lparr>mt_end := now\<rparr>)) (ret True) else ret False))"

text \<open>
  \<open>stm_allocate_ws_entries\<close>: a fresh array, or one of twice the size with the old contents.
  Every new entry is told its transaction.
\<close>

definition claim_entries :: "w64 \<Rightarrow> w64 \<Rightarrow> nat \<Rightarrow> nat \<Rightarrow> mglob \<Rightarrow> mglob" where
  "claim_entries self base first n g =
     fold (\<lambda>i. put_ent (base + SIZEOF_W_ENTRY * of_nat i) (\<lambda>e. e\<lparr>me_tx := self\<rparr>)) [first..<n] g"

definition copy_entries :: "w64 \<Rightarrow> w64 \<Rightarrow> nat \<Rightarrow> mglob \<Rightarrow> mglob" where
  "copy_entries old new n g =
     fold (\<lambda>i. put_ent (new + SIZEOF_W_ENTRY * of_nat i)
             (\<lambda>_. mg_ent g (old + SIZEOF_W_ENTRY * of_nat i))) [0..<n] g"

definition m_allocate_ws_entries :: "mparams \<Rightarrow> bool \<Rightarrow> unit mprog" where
  "m_allocate_ws_entries P grow = bnd m_tx (\<lambda>tx.
     if grow then
       thn (m_set_tx (\<lambda>t. t\<lparr>mt_ws_size := 2 * mt_ws_size t\<rparr>))
      (bnd (m_xmalloc P) (\<lambda>a.
       thn (m_set_tx (\<lambda>t. t\<lparr>mt_base := a\<rparr>))
      (thn (m_plain (copy_entries (mt_base tx) a (mt_ws_size tx)))
      (bnd (m_get P mg_clock) (\<lambda>c. thn (m_gc (GcFree (mt_base tx) c))
      (thn (assert_c (\<lambda>_. a AND OWNED_MASK_M = 0))
           (m_plain (claim_entries (mt_self tx) a (mt_ws_size tx) (2 * mt_ws_size tx)))))))))
     else
       bnd (m_xmalloc P) (\<lambda>a.
       thn (m_set_tx (\<lambda>t. t\<lparr>mt_base := a\<rparr>))
      (thn (assert_c (\<lambda>_. a AND OWNED_MASK_M = 0))
           (m_plain (claim_entries (mt_self tx) a 0 (mt_ws_size tx))))))"

section \<open>Killing\<close>

primrec wait_while_status :: "nat \<Rightarrow> mparams \<Rightarrow> w64 \<Rightarrow> w64 \<Rightarrow> unit mprog" where
  "wait_while_status 0 P other status = stop Diverge"
| "wait_while_status (Suc n) P other status =
     bnd (m_status P other) (\<lambda>t. if t = status then wait_while_status n P other status else ret ())"

definition attempt_over :: "w64 \<Rightarrow> bool" where
  "attempt_over t \<longleftrightarrow> GET_STATUS_M t = TX_ABORTED \<or> GET_STATUS_M t = TX_COMMITTED
     \<or> GET_STATUS_M t = TX_KILLED \<or> GET_STATUS_M t = TX_IDLE"

primrec wait_attempt :: "nat \<Rightarrow> mparams \<Rightarrow> w64 \<Rightarrow> w64 \<Rightarrow> unit mprog" where
  "wait_attempt 0 P other c = stop Diverge"
| "wait_attempt (Suc n) P other c =
     bnd (m_status P other) (\<lambda>t.
       if \<not> attempt_over t \<and> GET_STATUS_COUNTER t = c then wait_attempt n P other c else ret ())"

definition stm_kill :: "nat \<Rightarrow> mparams \<Rightarrow> w64 \<Rightarrow> w64 \<Rightarrow> bool mprog" where
  "stm_kill n P other status =
     (if attempt_over status then ret False
      else if GET_STATUS_M status = TX_ABORTING \<or> GET_STATUS_M status = TX_COMMITTING then
        thn (wait_while_status n P other status) (ret False)
      else thn (assert_c (\<lambda>_. IS_ACTIVE_M status))
       (bnd (m_cas_status P other status (status + (TX_KILLED - TX_ACTIVE))) (\<lambda>won.
         if \<not> won then thn (wait_attempt n P other (GET_STATUS_COUNTER status)) (ret False)
         else ret True)))"

text \<open>
  \<open>stm_drop\<close>: a killed transaction gives up the locks nobody has stolen, and takes a fresh
  array so that no entry address is reused.
\<close>

definition drop_one :: "mparams \<Rightarrow> w64 \<Rightarrow> unit mprog" where
  "drop_one P w =
     bnd (gets (\<lambda>s. mg_ent (ms_glob s) w)) (\<lambda>e.
     bnd (m_load_lock P (me_lock e)) (\<lambda>l.
       if LOCK_GET_OWNED_M l \<noteq> 0 \<and> LOCK_GET_ADDR_M l = w
       then bnd (m_cas_lock P (me_lock e) l (LOCK_SET_TIMESTAMP_M (me_version e))) (\<lambda>_. ret ())
       else ret ()))"

definition stm_drop :: "mparams \<Rightarrow> unit mprog" where
  "stm_drop P = bnd m_tx (\<lambda>tx.
     when_c (0 < mt_nb tx)
       (thn (each_c (drop_one P) (m_ptrs tx))
       (bnd (m_get P mg_clock) (\<lambda>c.
        thn (m_gc (GcFree (mt_base tx) c)) (m_allocate_ws_entries P False)))))"

section \<open>Aborting and preparing\<close>

text \<open>
  Leaving \<open>TX_ACTIVE\<close> for \<open>TX_ABORTING\<close>; the result tells whether the transaction has been
  killed instead.
\<close>

definition found_killed :: "mparams \<Rightarrow> bool mprog" where
  "found_killed P = bnd m_tx (\<lambda>tx. bnd (m_own_status P) (\<lambda>t.
     if GET_STATUS_M t = TX_KILLED then ret True
     else if GET_STATUS_M t = TX_ACTIVE
     then bnd (m_cas_status P (mt_self tx) t (t + (TX_ABORTING - TX_ACTIVE))) (\<lambda>won. ret (\<not> won))
     else ret False))"

definition release_one :: "mparams \<Rightarrow> w64 \<Rightarrow> unit mprog" where
  "release_one P w =
     bnd (gets (\<lambda>s. mg_ent (ms_glob s) w)) (\<lambda>e.
       when_c (me_next e = 0) (m_set P (put_lock (me_lock e) (LOCK_SET_TIMESTAMP_M (me_version e)))))"

definition m_wbetl_rollback :: "mparams \<Rightarrow> unit mprog" where
  "m_wbetl_rollback P =
     thn (assert_active P)
    (bnd (found_killed P) (\<lambda>killed.
       if killed then thn (assert_killed P) (stm_drop P)
       else bnd m_tx (\<lambda>tx. each_c (release_one P) (m_ptrs tx))))"

primrec wait_c_lock :: "nat \<Rightarrow> mparams \<Rightarrow> w64 \<Rightarrow> unit mprog" where
  "wait_c_lock 0 P k = stop Diverge"
| "wait_c_lock (Suc n) P k =
     bnd (m_load_lock P k) (\<lambda>l. if LOCK_GET_OWNED_M l \<noteq> 0 then wait_c_lock n P k else ret ())"

definition m_stm_rollback_body :: "nat \<Rightarrow> mparams \<Rightarrow> unit mprog \<Rightarrow> w64 \<Rightarrow> unit mprog" where
  "m_stm_rollback_body n P prepare reason =
     thn (assert_active P)
    (thn (bnd (found_killed P) (\<lambda>killed.
            if killed then thn (assert_killed P) (stm_drop P) else m_wbetl_rollback P))
    (thn (m_set_tx (\<lambda>t. t\<lparr>mt_stat_retries := mt_stat_retries t + 1\<rparr>))
    (thn (SET_STATUS P TX_ABORTED)
    (thn (when_c (reason = STM_ABORT_EXTEND_WS) (m_allocate_ws_entries P True))
    (thn (m_set_tx (\<lambda>t. t\<lparr>mt_nesting := 1\<rparr>))
    (thn (m_run_cbs P mg_abort_cb)
    (thn (bnd m_tx (\<lambda>tx. case mt_c_lock tx of None \<Rightarrow> ret ()
            | Some k \<Rightarrow> thn (wait_c_lock n P k) (m_set_tx (\<lambda>t. t\<lparr>mt_c_lock := None\<rparr>))))
    (bnd m_tx (\<lambda>tx.
       if at_no_retry (mt_attr tx) \<or> reason AND STM_ABORT_NO_RETRY = STM_ABORT_NO_RETRY
       then m_set_tx (\<lambda>t. t\<lparr>mt_nesting := 0\<rparr>)
       else thn prepare (stop (Jump (reason OR STM_PATH_INSTRUMENTED))))))))))))"

text \<open>The barrier at which the clock is reset, as in \<open>Quiesce\<close>, on the state of this build.\<close>

primrec m_mutex_lock :: "nat \<Rightarrow> mparams \<Rightarrow> unit mprog" where
  "m_mutex_lock 0 P = stop Diverge"
| "m_mutex_lock (Suc n) P =
     bnd (m_get P mg_mutex) (\<lambda>m. if m then m_mutex_lock n P else m_plain (\<lambda>g. g\<lparr>mg_mutex := True\<rparr>))"

definition m_mutex_unlock :: "unit mprog" where
  "m_mutex_unlock = m_plain (\<lambda>g. g\<lparr>mg_mutex := False\<rparr>)"

definition m_rollover_clock :: "unit mprog" where
  "m_rollover_clock = thn (m_plain (\<lambda>g. g\<lparr>mg_clock := 0,
     mg_locks := (\<lambda>k. if k < LOCK_ARRAY_SIZE then 0 else mg_locks g k)\<rparr>)) (m_gc GcReset)"

primrec m_barrier_wait :: "nat \<Rightarrow> mparams \<Rightarrow> unit mprog" where
  "m_barrier_wait 0 P = stop Diverge"
| "m_barrier_wait (Suc n) P =
     bnd (m_get P mg_quiesce) (\<lambda>q. if q = 0 then ret ()
       else bnd (m_get P mg_threads_nb) (\<lambda>k. if k = 0
         then thn m_rollover_clock (thn (m_plain (\<lambda>g. g\<lparr>mg_quiesce := 0\<rparr>)) (m_barrier_wait n P))
         else thn m_mutex_unlock (thn (modify (m_env_step P)) (thn (m_mutex_lock n P) (m_barrier_wait n P)))))"

definition m_quiesce_barrier :: "nat \<Rightarrow> mparams \<Rightarrow> unit mprog" where
  "m_quiesce_barrier n P =
     thn (bnd (m_own_status P) (\<lambda>s. assert_c (\<lambda>_. \<not> IS_ACTIVE_M s)))
    (thn (m_mutex_lock n P)
    (thn (m_plain (\<lambda>g. g\<lparr>mg_threads_nb := mg_threads_nb g - 1\<rparr>))
    (thn (m_plain (\<lambda>g. if mg_quiesce g = 0 then g\<lparr>mg_quiesce := 1\<rparr> else g))
    (thn (m_barrier_wait n P)
    (thn (m_plain (\<lambda>g. g\<lparr>mg_threads_nb := mg_threads_nb g + 1\<rparr>)) m_mutex_unlock)))))"

primrec m_wait_release :: "nat \<Rightarrow> mparams \<Rightarrow> unit mprog" where
  "m_wait_release 0 P = stop Diverge"
| "m_wait_release (Suc n) P =
     bnd (m_get P mg_quiesce) (\<lambda>q. if q = 2 then m_wait_release n P else ret ())"

definition m_check_quiesce :: "nat \<Rightarrow> mparams \<Rightarrow> bool mprog" where
  "m_check_quiesce n P =
     thn (assert_active P)
    (bnd (m_get P mg_quiesce) (\<lambda>q.
       if q = 2 then bnd (m_own_status P) (\<lambda>s.
         thn (SET_STATUS P TX_IDLE) (thn (m_wait_release n P) (thn (SET_STATUS P (GET_STATUS_M s)) (ret True))))
       else ret False))"

text \<open>
  How \<open>stm_quiesce\<close> waits for one other thread in this build: until it is inactive or has
  begun another attempt.
\<close>

primrec wait_other_attempt :: "nat \<Rightarrow> mparams \<Rightarrow> w64 \<Rightarrow> w64 \<Rightarrow> unit mprog" where
  "wait_other_attempt 0 P t c = stop Diverge"
| "wait_other_attempt (Suc n) P t c =
     bnd (m_status P t) (\<lambda>s.
       if IS_ACTIVE_M s \<and> c = GET_STATUS_COUNTER s then wait_other_attempt n P t c else ret ())"

definition m_quiesce_thread :: "nat \<Rightarrow> mparams \<Rightarrow> w64 \<Rightarrow> unit mprog" where
  "m_quiesce_thread n P t = bnd (m_status P t) (\<lambda>s.
     when_c (IS_ACTIVE_M s) (wait_other_attempt n P t (GET_STATUS_COUNTER s)))"

primrec m_prepare_clock :: "nat \<Rightarrow> mparams \<Rightarrow> unit mprog" where
  "m_prepare_clock 0 P = stop Diverge"
| "m_prepare_clock (Suc n) P =
     bnd (m_get P mg_clock) (\<lambda>c.
       thn (m_set_tx (\<lambda>t. t\<lparr>mt_start := c, mt_end := c\<rparr>))
      (if c \<ge> VERSION_MAX_M then thn (m_quiesce_barrier n P) (m_prepare_clock n P) else ret ()))"

definition use_visible_reads :: "int \<Rightarrow> mtx \<Rightarrow> mtx" where
  "use_visible_reads threshold t =
     (if at_visible_reads (mt_attr t) \<or> (mt_visible_reads t \<ge> threshold \<and> threshold \<ge> 0)
      then t\<lparr>mt_attr := (mt_attr t)\<lparr>at_visible_reads := True, at_read_only := False\<rparr>\<rparr> else t)"

definition m_prepare :: "nat \<Rightarrow> mparams \<Rightarrow> unit mprog" where
  "m_prepare n P =
     thn (m_set_tx (use_visible_reads (mp_vr_threshold P)))
    (thn (m_set_tx (\<lambda>t. t\<lparr>mt_has_writes := 0, mt_nb := 0, mt_rs := []\<rparr>))
    (thn (m_prepare_clock n P)
    (thn (m_set_tx (\<lambda>t. if mt_stat_retries t = 0 then t\<lparr>mt_timestamp := mt_start t\<rparr> else t))
    (thn (bnd m_tx (\<lambda>tx. m_gc (GcSetEpoch (mt_start tx))))
    (thn (UPDATE_STATUS P TX_ACTIVE)
    (bnd (m_check_quiesce n P) (\<lambda>_. ret ())))))))"

definition m_stm_rollback :: "nat \<Rightarrow> mparams \<Rightarrow> w64 \<Rightarrow> unit mprog" where
  "m_stm_rollback n P reason = m_stm_rollback_body n P (m_prepare n P) reason"

section \<open>Conflicts\<close>

definition own_view :: "mtx \<Rightarrow> cm_view" where
  "own_view tx = \<lparr>cv_ptr = mt_self tx, cv_timestamp = mt_timestamp tx,
     cv_ws_nb = of_nat (mt_nb tx), cv_rs_nb = of_nat (length (mt_rs tx))\<rparr>"

text \<open>
  The decision about the owner of entry \<open>w\<close>, whose status word was \<open>t\<close>; \<open>None\<close> when the kill
  came too late and the access starts again.
\<close>

definition settle :: "nat \<Rightarrow> mparams \<Rightarrow> w64 \<Rightarrow> w64 \<Rightarrow> w64 \<Rightarrow> w64 option mprog" where
  "settle n P w t conflict =
     (if GET_STATUS_M t = TX_KILLED then ret (Some KILL_OTHER)
      else bnd (m_own_status P) (\<lambda>s.
        bnd (if GET_STATUS_M s = TX_KILLED then ret KILL_SELF
             else case mp_manager P of None \<Rightarrow> ret KILL_SELF
             | Some cm \<Rightarrow> bnd m_tx (\<lambda>tx. bnd (m_get P (\<lambda>g. mg_desc g (me_tx (mg_ent g w)))) (\<lambda>v.
                 ret (cm (own_view tx) v conflict)))) (\<lambda>d.
        if d = KILL_OTHER
        then bnd (gets (\<lambda>u. me_tx (mg_ent (ms_glob u) w))) (\<lambda>other.
             bnd (stm_kill n P other t) (\<lambda>killed. ret (if killed then Some KILL_OTHER else None)))
        else ret (Some d))))"

text \<open>Giving up: the lock to wait for is remembered when the manager says so.\<close>

definition lose :: "(w64 \<Rightarrow> unit mprog) \<Rightarrow> w64 \<Rightarrow> w64 \<Rightarrow> w64 \<Rightarrow> unit mprog" where
  "lose rb d lock reason =
     thn (when_c (d AND DELAY_RESTART \<noteq> 0) (m_set_tx (\<lambda>t. t\<lparr>mt_c_lock := Some lock\<rparr>))) (rb reason)"

text \<open>
  The part the three accesses share: the word \<open>l\<close> of the lock belongs to another transaction.
  \<open>again\<close> is the way back to the labels \<open>restart\<close> and \<open>restart_no_load\<close>, \<open>steal\<close> takes the
  lock from a killed owner, \<open>lost\<close> gives up with the manager's decision.
\<close>

definition m_conflict ::
    "nat \<Rightarrow> mparams \<Rightarrow> w64 \<Rightarrow> w64 \<Rightarrow> w64 \<Rightarrow> (w64 option \<Rightarrow> 'a mprog) \<Rightarrow> 'a mprog \<Rightarrow> (w64 \<Rightarrow> 'a mprog) \<Rightarrow> 'a mprog" where
  "m_conflict n P lock l conflict again steal lost =
     (let w = LOCK_GET_ADDR_M l in
      bnd (m_owner_status P w) (\<lambda>t.
      bnd (m_load_lock P lock) (\<lambda>l2.
      if l \<noteq> l2 then again (Some l2)
      else bnd (m_owner_status P w) (\<lambda>t2.
      if t \<noteq> t2 then again None
      else bnd (settle n P w t conflict) (\<lambda>d.
        case d of None \<Rightarrow> again None
        | Some dec \<Rightarrow> if dec = KILL_OTHER then steal else lost dec)))))"

section \<open>Reading\<close>

definition m_read_done :: "mparams \<Rightarrow> w64 \<Rightarrow> w64 \<Rightarrow> w64 \<Rightarrow> w64 mprog" where
  "m_read_done P version lock value = bnd m_tx (\<lambda>tx.
     if at_read_only (mt_attr tx) then ret value else thn (m_add_read P version lock) (ret value))"

definition unless_killed :: "mparams \<Rightarrow> (w64 \<Rightarrow> unit mprog) \<Rightarrow> w64 mprog \<Rightarrow> w64 mprog" where
  "unless_killed P rb k = bnd (m_own_status P) (\<lambda>s.
     if GET_STATUS_M s = TX_KILLED then thn (rb STM_ABORT_KILLED) (ret 0) else k)"

text \<open>
  Reading under a lock of one's own: an invisible read tests for a kill only when it goes to
  memory past the end of the chain, a visible read always.
\<close>

definition m_read_chain :: "nat \<Rightarrow> mparams \<Rightarrow> w64 \<Rightarrow> w64 \<Rightarrow> (w64 \<times> bool) mprog" where
  "m_read_chain n P addr w =
     bnd (gets (\<lambda>s. mg_ent (ms_glob s))) (\<lambda>h.
       case m_chase n h addr w of
         None \<Rightarrow> stop Diverge
       | Some (i, found) \<Rightarrow>
           if found \<and> me_mask (h i) \<noteq> 0 then ret (me_value (h i), True)
           else bnd (m_load P addr) (\<lambda>v. ret (v, found)))"

definition m_read_own_invisible :: "nat \<Rightarrow> mparams \<Rightarrow> (w64 \<Rightarrow> unit mprog) \<Rightarrow> w64 \<Rightarrow> w64 \<Rightarrow> w64 mprog" where
  "m_read_own_invisible n P rb addr w =
     bnd (m_read_chain n P addr w) (\<lambda>(v, found). if found then ret v else unless_killed P rb (ret v))"

definition m_read_own_visible :: "nat \<Rightarrow> mparams \<Rightarrow> (w64 \<Rightarrow> unit mprog) \<Rightarrow> w64 \<Rightarrow> w64 \<Rightarrow> w64 mprog" where
  "m_read_own_visible n P rb addr l =
     bnd (if LOCK_GET_WRITE l = 0 then bnd (m_load P addr) (\<lambda>v. ret (v, True))
          else m_read_chain n P addr (LOCK_GET_ADDR_M l)) (\<lambda>(v, _). unless_killed P rb (ret v))"

text \<open>
  The version of a lock that is not write-locked: a read-locked lock keeps it in the entry of
  its owner.
\<close>

definition m_version_of :: "mparams \<Rightarrow> w64 \<Rightarrow> w64 mprog" where
  "m_version_of P l =
     (if LOCK_GET_READ l \<noteq> 0 then m_get P (\<lambda>g. me_version (mg_ent g (LOCK_GET_ADDR_M l)))
      else ret (LOCK_GET_TIMESTAMP_M l))"

primrec m_read_loop ::
    "nat \<Rightarrow> mparams \<Rightarrow> (w64 \<Rightarrow> unit mprog) \<Rightarrow> w64 \<Rightarrow> w64 option \<Rightarrow> w64 mprog" where
  "m_read_loop 0 P rb addr lo = stop Diverge"
| "m_read_loop (Suc n) P rb addr lo =
     bnd (case lo of None \<Rightarrow> m_load_lock P (GET_LOCK addr) | Some l \<Rightarrow> ret l) (\<lambda>l.
     bnd m_tx (\<lambda>tx. let w = LOCK_GET_ADDR_M l in
       if LOCK_GET_WRITE l \<noteq> 0 then
         (if m_in_ws tx w then m_read_own_invisible n P rb addr w
          else m_conflict n P (GET_LOCK addr) l WR_CONFLICT (m_read_loop n P rb addr)
                 (bnd (m_get P (\<lambda>g. LOCK_SET_TIMESTAMP_M (me_version (mg_ent g w)))) (\<lambda>l3.
                  bnd (m_cas_lock P (GET_LOCK addr) l l3) (\<lambda>won.
                    m_read_loop n P rb addr (if won then Some l3 else None))))
                 (\<lambda>dec. thn (lose rb dec (GET_LOCK addr) STM_ABORT_RW_CONFLICT) (ret 0)))
       else
         bnd (m_load P addr) (\<lambda>value.
         bnd (m_load_lock P (GET_LOCK addr)) (\<lambda>l2.
         if l \<noteq> l2 then m_read_loop n P rb addr (Some l2)
         else bnd (m_version_of P l) (\<lambda>version.
         if version > mt_end tx then
           bnd (if at_read_only (mt_attr tx) then ret False else m_wbetl_extend P) (\<lambda>ok.
           if \<not> ok then thn count_visible (thn (rb STM_ABORT_VAL_READ) (ret 0))
           else bnd (m_load_lock P (GET_LOCK addr)) (\<lambda>l3.
             if l \<noteq> l3 then m_read_loop n P rb addr (Some l3)
             else unless_killed P rb (m_read_done P version (GET_LOCK addr) value)))
         else unless_killed P rb (m_read_done P version (GET_LOCK addr) value))))))"

text \<open>Taking a lock for a visible read.  \<open>None\<close>: the compare-and-swap failed.\<close>

definition acquire_read :: "mparams \<Rightarrow> w64 \<Rightarrow> w64 \<Rightarrow> w64 \<Rightarrow> w64 option mprog" where
  "acquire_read P addr l version =
     bnd m_tx (\<lambda>tx. let w = m_ptr tx (mt_nb tx) in
     thn (m_plain (put_ent w (\<lambda>e. e\<lparr>me_version := version\<rparr>)))
    (bnd (m_load P addr) (\<lambda>value.
     bnd (m_cas_lock P (GET_LOCK addr) l (LOCK_SET_ADDR_READ w)) (\<lambda>won.
       if won then
         thn (m_plain (put_ent w (\<lambda>e. e\<lparr>me_addr := addr, me_mask := 0, me_lock := GET_LOCK addr,
                                        me_value := value, me_next := 0\<rparr>)))
        (thn (m_set_tx (\<lambda>t. t\<lparr>mt_nb := Suc (mt_nb t)\<rparr>)) (ret (Some value)))
       else ret None))))"

text \<open>The label \<open>acquire\<close> of the visible read.\<close>

definition visible_acquire ::
    "mparams \<Rightarrow> (w64 \<Rightarrow> unit mprog) \<Rightarrow> w64 \<Rightarrow> w64 \<Rightarrow> w64 mprog \<Rightarrow> w64 \<Rightarrow> w64 mprog" where
  "visible_acquire P rb addr l again version =
     bnd m_tx (\<lambda>tx.
       thn (when_c (mt_nb tx = mt_ws_size tx) (rb STM_ABORT_EXTEND_WS))
      (bnd (acquire_read P addr l version) (\<lambda>r. case r of Some v \<Rightarrow> ret v | None \<Rightarrow> again)))"

primrec m_visible_loop ::
    "nat \<Rightarrow> mparams \<Rightarrow> (w64 \<Rightarrow> unit mprog) \<Rightarrow> w64 \<Rightarrow> w64 option \<Rightarrow> w64 mprog" where
  "m_visible_loop 0 P rb addr lo = stop Diverge"
| "m_visible_loop (Suc n) P rb addr lo =
     bnd (case lo of None \<Rightarrow> m_load_lock P (GET_LOCK addr) | Some l \<Rightarrow> ret l) (\<lambda>l.
     bnd m_tx (\<lambda>tx.
       if LOCK_GET_OWNED_M l \<noteq> 0 then
         (if m_in_ws tx (LOCK_GET_ADDR_M l) then m_read_own_visible n P rb addr l
          else m_conflict n P (GET_LOCK addr) l (if LOCK_GET_WRITE l \<noteq> 0 then WR_CONFLICT else RR_CONFLICT)
                 (m_visible_loop n P rb addr)
                 (bnd (m_get P (\<lambda>g. me_version (mg_ent g (LOCK_GET_ADDR_M l))))
                   (visible_acquire P rb addr l (m_visible_loop n P rb addr None)))
                 (\<lambda>dec. thn (lose rb dec (GET_LOCK addr)
                       (if LOCK_GET_WRITE l \<noteq> 0 then STM_ABORT_WR_CONFLICT else STM_ABORT_RR_CONFLICT))
                     (ret 0)))
       else visible_acquire P rb addr l (m_visible_loop n P rb addr None) (LOCK_GET_TIMESTAMP_M l)))"

definition stm_wbetl_read_visible :: "nat \<Rightarrow> mparams \<Rightarrow> w64 \<Rightarrow> w64 mprog" where
  "stm_wbetl_read_visible n P addr =
     unless_killed P (m_stm_rollback n P) (m_visible_loop n P (m_stm_rollback n P) addr None)"

definition m_read_invisible :: "nat \<Rightarrow> mparams \<Rightarrow> w64 \<Rightarrow> w64 mprog" where
  "m_read_invisible n P addr = m_read_loop n P (m_stm_rollback n P) addr None"

definition m_wbetl_read :: "nat \<Rightarrow> mparams \<Rightarrow> w64 \<Rightarrow> w64 mprog" where
  "m_wbetl_read n P addr = bnd m_tx (\<lambda>tx.
     if at_visible_reads (mt_attr tx) then stm_wbetl_read_visible n P addr else m_read_invisible n P addr)"

section \<open>Writing\<close>

text \<open>\<open>do_write\<close>: fill the entry \<open>w\<close>, whose version is set already, and link it behind \<open>prev\<close>.\<close>

definition m_do_write :: "mparams \<Rightarrow> w64 \<Rightarrow> w64 option \<Rightarrow> w64 \<Rightarrow> w64 \<Rightarrow> w64 \<Rightarrow> w64 option mprog" where
  "m_do_write P w prev addr value msk =
     bnd (if msk = 0 then ret 0
          else if msk \<noteq> NOT 0 then bnd (m_load P addr) (\<lambda>old. ret (merge_mask old value msk))
          else ret value) (\<lambda>v.
     thn (m_plain (put_ent w (\<lambda>e. e\<lparr>me_addr := addr, me_mask := msk, me_lock := GET_LOCK addr,
                                    me_value := v, me_next := 0\<rparr>)))
    (thn (case prev of None \<Rightarrow> ret () | Some p \<Rightarrow> m_plain (put_ent p (\<lambda>e. e\<lparr>me_next := w\<rparr>)))
    (thn (m_set_tx (\<lambda>t. t\<lparr>mt_nb := Suc (mt_nb t), mt_has_writes := Suc (mt_has_writes t)\<rparr>))
         (ret (Some w)))))"

definition m_update_entry :: "mparams \<Rightarrow> w64 \<Rightarrow> w64 \<Rightarrow> w64 \<Rightarrow> w64 \<Rightarrow> w64 option mprog" where
  "m_update_entry P w addr value msk =
     bnd (gets (\<lambda>s. mg_ent (ms_glob s) w)) (\<lambda>e.
     bnd (if msk \<noteq> NOT 0
          then bnd (if me_mask e = 0 then m_load P addr else ret (me_value e))
                 (\<lambda>old. ret (merge_mask old value msk))
          else ret value) (\<lambda>v.
       thn (m_plain (put_ent w (\<lambda>e. e\<lparr>me_value := v, me_mask := me_mask e OR msk\<rparr>))) (ret (Some w))))"

text \<open>
  The lock is this transaction's.  A lock held for reading is upgraded, which fails when it
  has been stolen.  As in \<open>Wbetl\<close>, going on after \<open>stm_rollback\<close> returned for a full write
  set links behind an entry that has moved.
\<close>

definition m_upgrade :: "mparams \<Rightarrow> w64 \<Rightarrow> w64 \<Rightarrow> bool mprog" where
  "m_upgrade P lock l =
     (if LOCK_GET_WRITE l = 0 then
        bnd (m_cas_lock P lock l (LOCK_UPGRADE l)) (\<lambda>won.
          if won then thn (m_set_tx (\<lambda>t. t\<lparr>mt_has_writes := Suc (mt_has_writes t)\<rparr>)) (ret True)
          else ret False)
      else ret True)"

definition m_write_owned ::
    "nat \<Rightarrow> mparams \<Rightarrow> (w64 \<Rightarrow> unit mprog) \<Rightarrow> w64 \<Rightarrow> w64 \<Rightarrow> w64 \<Rightarrow> w64 \<Rightarrow> w64 option mprog" where
  "m_write_owned n P rb l addr value msk =
     bnd (m_upgrade P (GET_LOCK addr) l) (\<lambda>ok.
       if \<not> ok then thn (rb STM_ABORT_KILLED) (ret None)
       else if msk = 0 then ret (Some (LOCK_GET_ADDR_M l))
       else bnd (gets (\<lambda>s. mg_ent (ms_glob s))) (\<lambda>h.
         case m_chase n h addr (LOCK_GET_ADDR_M l) of
           None \<Rightarrow> stop Diverge
         | Some (p, found) \<Rightarrow>
             if found then m_update_entry P p addr value msk
             else bnd m_tx (\<lambda>tx.
               if mt_nb tx = mt_ws_size tx then thn (rb STM_ABORT_EXTEND_WS) (stop Undef)
               else thn (m_plain (put_ent (m_ptr tx (mt_nb tx)) (\<lambda>e. e\<lparr>me_version := me_version (h p)\<rparr>)))
                        (m_do_write P (m_ptr tx (mt_nb tx)) (Some p) addr value msk))))"

text \<open>The label \<open>acquire\<close> of the write.\<close>

definition write_acquire ::
    "mparams \<Rightarrow> (w64 \<Rightarrow> unit mprog) \<Rightarrow> w64 \<Rightarrow> w64 \<Rightarrow> w64 \<Rightarrow> w64 \<Rightarrow> w64 option mprog \<Rightarrow> w64 \<Rightarrow> w64 option mprog" where
  "write_acquire P rb addr value msk l again version =
     bnd m_tx (\<lambda>tx.
       if version > mt_end tx \<and> m_has_read tx (GET_LOCK addr) \<noteq> None then
         thn count_visible (thn (rb STM_ABORT_VAL_WRITE) (ret None))
       else
         thn (when_c (mt_nb tx = mt_ws_size tx) (rb STM_ABORT_EXTEND_WS))
        (bnd m_tx (\<lambda>tx'. let w = m_ptr tx' (mt_nb tx') in
         thn (m_plain (put_ent w (\<lambda>e. e\<lparr>me_version := version\<rparr>)))
        (bnd (m_cas_lock P (GET_LOCK addr) l (LOCK_SET_ADDR_WRITE w)) (\<lambda>won.
           if won then m_do_write P w None addr value msk else again)))))"

primrec m_write_loop ::
    "nat \<Rightarrow> mparams \<Rightarrow> (w64 \<Rightarrow> unit mprog) \<Rightarrow> w64 \<Rightarrow> w64 \<Rightarrow> w64 \<Rightarrow> w64 option \<Rightarrow> w64 option mprog" where
  "m_write_loop 0 P rb addr value msk lo = stop Diverge"
| "m_write_loop (Suc n) P rb addr value msk lo =
     bnd (case lo of None \<Rightarrow> m_load_lock P (GET_LOCK addr) | Some l \<Rightarrow> ret l) (\<lambda>l.
     bnd m_tx (\<lambda>tx.
       if LOCK_GET_OWNED_M l \<noteq> 0 then
         (if m_in_ws tx (LOCK_GET_ADDR_M l) then m_write_owned n P rb l addr value msk
          else m_conflict n P (GET_LOCK addr) l WW_CONFLICT (m_write_loop n P rb addr value msk)
                 (bnd (m_get P (\<lambda>g. me_version (mg_ent g (LOCK_GET_ADDR_M l))))
                   (write_acquire P rb addr value msk l (m_write_loop n P rb addr value msk None)))
                 (\<lambda>dec. thn (lose rb dec (GET_LOCK addr) STM_ABORT_WW_CONFLICT) (ret None)))
       else write_acquire P rb addr value msk l (m_write_loop n P rb addr value msk None) (LOCK_GET_TIMESTAMP_M l)))"

definition m_wbetl_write :: "nat \<Rightarrow> mparams \<Rightarrow> w64 \<Rightarrow> w64 \<Rightarrow> w64 \<Rightarrow> w64 option mprog" where
  "m_wbetl_write n P addr value msk = m_write_loop n P (m_stm_rollback n P) addr value msk None"

definition m_stm_write :: "nat \<Rightarrow> mparams \<Rightarrow> w64 \<Rightarrow> w64 \<Rightarrow> w64 \<Rightarrow> w64 option mprog" where
  "m_stm_write n P addr value msk =
     bnd (m_own_status P) (\<lambda>s.
       if GET_STATUS_M s = TX_KILLED then thn (m_stm_rollback n P STM_ABORT_KILLED) (ret None)
       else m_wbetl_write n P addr value msk)"

section \<open>Optimised accesses\<close>

text \<open>
  The read and write variants for addresses the transaction has accessed before.  \<open>RfW\<close> ends
  in a plain load, which its author marks as unsafe in this build.
\<close>

definition m_RaR :: "nat \<Rightarrow> mparams \<Rightarrow> w64 \<Rightarrow> w64 mprog" where
  "m_RaR n P addr = m_wbetl_read n P addr"

definition m_RaW :: "mparams \<Rightarrow> w64 \<Rightarrow> w64 mprog" where
  "m_RaW P addr =
     bnd (m_load_lock P (GET_LOCK addr)) (\<lambda>l.
     thn (assert_c (\<lambda>_. LOCK_GET_WRITE l \<noteq> 0))
    (thn (assert_c (\<lambda>s. m_in_ws (ms_tx s) (LOCK_GET_ADDR_M l)))
         (gets (\<lambda>s. me_value (mg_ent (ms_glob s) (LOCK_GET_ADDR_M l))))))"

definition m_RfW :: "nat \<Rightarrow> mparams \<Rightarrow> w64 \<Rightarrow> w64 mprog" where
  "m_RfW n P addr = bnd (m_wbetl_write n P addr 0 0) (\<lambda>_. m_load P addr)"

definition m_WaR :: "nat \<Rightarrow> mparams \<Rightarrow> w64 \<Rightarrow> w64 \<Rightarrow> w64 \<Rightarrow> unit mprog" where
  "m_WaR n P addr value msk = bnd (m_wbetl_write n P addr value msk) (\<lambda>_. ret ())"

definition m_WaW :: "nat \<Rightarrow> mparams \<Rightarrow> w64 \<Rightarrow> w64 \<Rightarrow> w64 \<Rightarrow> unit mprog" where
  "m_WaW n P addr value msk =
     bnd (m_load_lock P (GET_LOCK addr)) (\<lambda>l.
     thn (assert_c (\<lambda>_. LOCK_GET_WRITE l \<noteq> 0))
    (thn (assert_c (\<lambda>s. m_in_ws (ms_tx s) (LOCK_GET_ADDR_M l)))
    (thn (assert_c (\<lambda>_. msk \<noteq> 0))
    (bnd (gets (\<lambda>s. mg_ent (ms_glob s))) (\<lambda>h.
       case m_chase n h addr (LOCK_GET_ADDR_M l) of
         None \<Rightarrow> stop Diverge
       | Some (w, found) \<Rightarrow>
           if found then bnd (m_update_entry P w addr value msk) (\<lambda>_. ret ()) else stop AssertFail)))))"

section \<open>Starting and committing\<close>

definition install_one :: "mparams \<Rightarrow> w64 \<Rightarrow> w64 \<Rightarrow> unit mprog" where
  "install_one P t w =
     bnd (gets (\<lambda>s. mg_ent (ms_glob s) w)) (\<lambda>e.
     thn (when_c (me_mask e \<noteq> 0) (m_set P (put_mem (me_addr e) (me_value e))))
         (when_c (me_next e = 0)
           (m_set P (put_lock (me_lock e)
              (LOCK_SET_TIMESTAMP_M (if me_mask e = 0 then me_version e else t))))))"

definition m_wbetl_commit :: "nat \<Rightarrow> mparams \<Rightarrow> bool mprog" where
  "m_wbetl_commit n P =
     bnd m_tx (\<lambda>tx.
       if mt_has_writes tx = 0 then
         thn (each_c (release_one P) (m_ptrs tx)) (bnd (m_fetch_inc_clock P) (\<lambda>_. ret True))
       else
         bnd (m_fetch_inc_clock P) (\<lambda>c. let t = c + 1 in
         bnd (if mt_start tx \<noteq> t - 1 then m_wbetl_validate P else ret True) (\<lambda>ok.
           if \<not> ok then thn count_visible (thn (m_stm_rollback n P STM_ABORT_VALIDATE) (ret False))
           else thn (each_c (install_one P t) (m_ptrs tx)) (ret True))))"

definition m_start :: "nat \<Rightarrow> mparams \<Rightarrow> attr \<Rightarrow> bool mprog" where
  "m_start n P a = bnd m_tx (\<lambda>tx.
     thn (m_set_tx (\<lambda>t. t\<lparr>mt_nesting := mt_nesting t + 1\<rparr>))
    (if mt_nesting tx > 0 then ret False
     else thn (m_set_tx (\<lambda>t. t\<lparr>mt_attr := a\<rparr>))
         (thn (m_prepare n P) (thn (m_run_cbs P mg_start_cb) (ret True)))))"

text \<open>Leaving \<open>TX_ACTIVE\<close> for \<open>TX_COMMITTING\<close>; the result tells whether that succeeded.\<close>

definition claim_commit :: "mparams \<Rightarrow> bool mprog" where
  "claim_commit P = bnd m_tx (\<lambda>tx. bnd (m_own_status P) (\<lambda>t.
     if GET_STATUS_M t = TX_KILLED then ret False
     else m_cas_status P (mt_self tx) t (t + (TX_COMMITTING - GET_STATUS_M t))))"

definition m_commit :: "nat \<Rightarrow> mparams \<Rightarrow> bool mprog" where
  "m_commit n P =
     thn (m_set_tx (\<lambda>t. t\<lparr>mt_nesting := mt_nesting t - 1\<rparr>))
    (bnd m_tx (\<lambda>tx0. if mt_nesting tx0 > 0 then ret True else
     thn (m_run_cbs P mg_precommit_cb)
    (thn (assert_active P)
    (bnd (claim_commit P) (\<lambda>ok.
       if \<not> ok then thn (assert_killed P) (thn (m_stm_rollback n P STM_ABORT_KILLED) (ret False))
       else bnd m_tx (\<lambda>tx.
         thn (if mt_nb tx = 0 then ret () else bnd (m_wbetl_commit n P) (\<lambda>_. ret ()))
        (thn (m_set_tx (\<lambda>t. t\<lparr>mt_stat_retries := 0, mt_visible_reads := 0\<rparr>))
        (thn (SET_STATUS P TX_COMMITTED)
        (thn (m_run_cbs P mg_commit_cb) (ret True))))))))))"

section \<open>Concrete threads\<close>

text \<open>
  Two threads with descriptors at 1024 and 2048 and arrays of four entries at 4096 and 8192,
  between transactions; memory holds 7 everywhere, the clock is 5, the manager
  \<open>cm_aggressive\<close>.
\<close>

definition modular_tx :: mtx where
  "modular_tx = \<lparr>mt_self = 1024,
     mt_attr = \<lparr>at_id = 0, at_read_only = False, at_visible_reads = False, at_no_retry = False, at_no_extend = False\<rparr>,
     mt_start = 0, mt_end = 0, mt_rs = [], mt_rs_size = 4, mt_base = 4096, mt_nb = 0, mt_ws_size = 4,
     mt_has_writes = 0, mt_nesting = 0, mt_timestamp = 0, mt_c_lock = None, mt_visible_reads = 0,
     mt_stat_retries = 0\<rparr>"

definition modular_glob :: mglob where
  "modular_glob = \<lparr>mg_mem = (\<lambda>_. 7), mg_locks = (\<lambda>_. 0), mg_clock = 5, mg_status = (\<lambda>_. 0),
     mg_ent = (\<lambda>p. \<lparr>me_addr = 0, me_value = 0, me_mask = 0, me_version = 0, me_lock = 0,
                   me_tx = (if p < 8192 then 1024 else 2048), me_next = 0\<rparr>),
     mg_desc = (\<lambda>p. \<lparr>cv_ptr = p, cv_timestamp = 0, cv_ws_nb = 0, cv_rs_nb = 0\<rparr>),
     mg_quiesce = 0, mg_threads_nb = 2, mg_mutex = False,
     mg_start_cb = [], mg_precommit_cb = [], mg_commit_cb = [], mg_abort_cb = []\<rparr>"

definition modular_params :: mparams where
  "modular_params = \<lparr>mp_env = (\<lambda>_ g. g), mp_alloc = (\<lambda>_. 65536), mp_callf = (\<lambda>_ _ s. s),
     mp_manager = Some (\<lambda>me other _. cm_aggressive me other), mp_vr_threshold = 3\<rparr>"

definition first_thread :: mst where
  "first_thread = \<lparr>ms_glob = modular_glob, ms_tx = modular_tx, ms_tick = 0, ms_nalloc = 0, ms_gc = []\<rparr>"

definition second_thread :: "mglob \<Rightarrow> mst" where
  "second_thread g = first_thread\<lparr>ms_glob := g, ms_tx := modular_tx\<lparr>mt_self := 2048, mt_base := 8192\<rparr>\<rparr>"

lemmas thread_defs = modular_tx_def modular_glob_def modular_params_def first_thread_def second_thread_def

end
