(* ===== verification/Killing.thy ===== *)
theory Killing
  imports Modular
begin

text \<open>
  What the protocol of \<open>CM_MODULAR\<close> guarantees, and where it breaks: a killed transaction
  writes nothing and gives up exactly the locks nobody has stolen; what a transaction has
  read visibly is still in memory when it begins to commit; a visible read does not notice a
  kill, and an invisible read can take the version of a lock from an entry that has been
  filled anew.  The last two run the code of the other threads as the environment.
\<close>

section \<open>Execution of the primitive accesses\<close>

lemma m_upd_fields [simp]:
  "ms_tx (m_upd_tx f s) = f (ms_tx s)" "ms_glob (m_upd_tx f s) = ms_glob s"
  "ms_glob (m_upd_glob h s) = h (ms_glob s)" "ms_tx (m_upd_glob h s) = ms_tx s"
  "ms_tick (m_upd_tx f s) = ms_tick s" "ms_tick (m_upd_glob h s) = ms_tick s"
  by (simp_all add: m_upd_tx_def m_upd_glob_def)

lemma m_env_fields [simp]:
  "ms_tx (m_env_step P s) = ms_tx s" "ms_glob (m_env_step P s) = mp_env P (ms_tick s) (ms_glob s)"
  "ms_tick (m_env_step P s) = Suc (ms_tick s)"
  by (simp_all add: m_env_step_def)

lemma put_fields [simp]:
  "mg_mem (put_lock k v g) = mg_mem g" "mg_mem (put_status p v g) = mg_mem g"
  "mg_mem (put_ent w f g) = mg_mem g" "mg_mem (put_mem b v g) = (mg_mem g)(b := v)"
  "mg_status (put_lock k v g) = mg_status g" "mg_status (put_ent w f g) = mg_status g"
  "mg_status (put_mem b v g) = mg_status g" "mg_status (put_status p v g) = (mg_status g)(p := v)"
  "mg_locks (put_lock k v g) = (mg_locks g)(k := v)" "mg_locks (put_status p v g) = mg_locks g"
  "mg_locks (put_ent w f g) = mg_locks g" "mg_locks (put_mem b v g) = mg_locks g"
  "mg_ent (put_lock k v g) = mg_ent g" "mg_ent (put_status p v g) = mg_ent g"
  "mg_ent (put_mem b v g) = mg_ent g" "mg_ent (put_ent w f g) = (mg_ent g)(w := f (mg_ent g w))"
  by (simp_all add: put_lock_def put_status_def put_ent_def put_mem_def)

lemma wp_m_access [wp_simps, simp]:
  "wp m_tx s Q E = Q (ms_tx s) s"
  "wp (m_set_tx f) s QU E = QU () (m_upd_tx f s)"
  "wp (m_plain h) s QU E = QU () (m_upd_glob h s)"
  "wp (m_get P r) s Q' E = Q' (r (ms_glob (m_env_step P s))) (m_env_step P s)"
  "wp (m_set P h) s QU E = QU () (m_upd_glob h (m_env_step P s))"
  by (simp_all add: m_tx_def m_set_tx_def m_plain_def m_get_def m_set_def)

lemma wp_m_cas [wp_simps, simp]:
  "wp (m_cas P r u old) s Q E =
     (if r (ms_glob (m_env_step P s)) = old then Q True (m_upd_glob u (m_env_step P s))
      else Q False (m_env_step P s))"
  by (simp add: m_cas_def)

lemma wp_m_named [wp_simps, simp]:
  "wp (m_load_lock P k) s Q E = Q (mg_locks (ms_glob (m_env_step P s)) k) (m_env_step P s)"
  "wp (m_load P b) s Q E = Q (mg_mem (ms_glob (m_env_step P s)) b) (m_env_step P s)"
  "wp (m_status P p) s Q E = Q (mg_status (ms_glob (m_env_step P s)) p) (m_env_step P s)"
  "wp (m_own_status P) s Q E = Q (mg_status (ms_glob (m_env_step P s)) (mt_self (ms_tx s))) (m_env_step P s)"
  "wp (m_owner_status P w) s Q E =
     Q (mg_status (ms_glob (m_env_step P s)) (me_tx (mg_ent (ms_glob (m_env_step P s)) w))) (m_env_step P s)"
  "wp (m_gc c) s QU E = QU () (s\<lparr>ms_gc := ms_gc s @ [c]\<rparr>)"
  by (simp_all add: m_load_lock_def m_load_def m_status_def m_own_status_def m_owner_status_def m_gc_def)

lemma wp_m_cas_named [wp_simps, simp]:
  "wp (m_cas_lock P k old new) s Q E =
     (if mg_locks (ms_glob (m_env_step P s)) k = old then Q True (m_upd_glob (put_lock k new) (m_env_step P s))
      else Q False (m_env_step P s))"
  "wp (m_cas_status P p old new) s Q E =
     (if mg_status (ms_glob (m_env_step P s)) p = old then Q True (m_upd_glob (put_status p new) (m_env_step P s))
      else Q False (m_env_step P s))"
  by (simp_all add: m_cas_lock_def m_cas_status_def)

section \<open>What a computation leaves alone\<close>

definition spares :: "(mst \<Rightarrow> 'b) \<Rightarrow> 'a mprog \<Rightarrow> bool" where
  "spares f m \<longleftrightarrow> (\<forall>s. f (snd (m s)) = f s)"

abbreviation mem_of :: "mst \<Rightarrow> w64 \<Rightarrow> w64" where
  "mem_of s \<equiv> mg_mem (ms_glob s)"

abbreviation retry_of :: "mst \<Rightarrow> bool" where
  "retry_of s \<equiv> at_no_retry (mt_attr (ms_tx s))"

named_theorems spare_intros \<open>computations that leave a part of the state alone\<close>

lemma spares_bnd [spare_intros]: "spares f m \<Longrightarrow> (\<And>x. spares f (h x)) \<Longrightarrow> spares f (bnd m h)"
  unfolding spares_def
proof
  fix s
  assume a: "\<forall>s. f (snd (m s)) = f s" "\<And>x. \<forall>s. f (snd (h x s)) = f s"
  obtain r t where "m s = (r, t)" by (cases "m s")
  then show "f (snd (bnd m h s)) = f s"
    using a(1) [rule_format, of s] a(2) by (cases r) (simp_all add: bnd_def)
qed

lemma spares_thn [spare_intros]: "spares f m \<Longrightarrow> spares f k \<Longrightarrow> spares f (thn m k)"
  by (simp add: thn_def spares_bnd)

lemma spares_basic [spare_intros]:
  "spares f (ret x)" "spares f (stop r)" "spares f (gets h)" "spares f (assert_c b)" "spares f m_tx"
  "(\<And>s. f (m_upd_tx d s) = f s) \<Longrightarrow> spares f (m_set_tx d)"
  "(\<And>s. f (s\<lparr>ms_gc := ms_gc s @ [c]\<rparr>) = f s) \<Longrightarrow> spares f (m_gc c)"
  "(\<And>s. f (m_upd_glob u s) = f s) \<Longrightarrow> spares f (m_plain u)"
  "(\<And>s. f (h' s) = f s) \<Longrightarrow> spares f (modify h')"
  by (simp_all add: spares_def assert_c_def m_tx_def m_set_tx_def m_gc_def m_plain_def modify_def)

lemma spares_if [spare_intros]: "(b \<Longrightarrow> spares f m) \<Longrightarrow> (\<not> b \<Longrightarrow> spares f k) \<Longrightarrow> spares f (if b then m else k)"
  by simp

lemma spares_when [spare_intros]: "spares f m \<Longrightarrow> spares f (when_c b m)"
  by (cases b) (simp_all add: spare_intros)

lemma spares_option [spare_intros]:
  "spares f m \<Longrightarrow> (\<And>x. spares f (h x)) \<Longrightarrow> spares f (case z of None \<Rightarrow> m | Some x \<Rightarrow> h x)"
  by (cases z) simp_all

lemma spares_each [spare_intros]: "(\<And>x. spares f (h x)) \<Longrightarrow> spares f (each_c h xs)"
  by (induction xs) (simp_all add: spare_intros)

lemma wp_spares: "spares f m \<Longrightarrow> wp m s (\<lambda>_ t. f t = f s) (\<lambda>_ t. f t = f s)"
  by (cases "m s"; cases "fst (m s)") (auto simp: spares_def wp_def dest: spec [of _ s])

lemma wp_top: "wp m s (\<lambda>_ _. True) anyhow"
  by (simp add: wp_def split: outcome.splits prod.splits)

text \<open>A part of the state that neither other threads nor callbacks change.\<close>

definition calm :: "mparams \<Rightarrow> (mst \<Rightarrow> 'b) \<Rightarrow> bool" where
  "calm P f \<longleftrightarrow> (\<forall>s. f (m_env_step P s) = f s) \<and> (\<forall>x y s. f (mp_callf P x y s) = f s)"

lemma calm_mem [simp]:
  assumes "calm P mem_of"
  shows "mg_mem (mp_env P n g) = mg_mem g"
proof -
  define s :: mst where "s = \<lparr>ms_glob = g, ms_tx = undefined, ms_tick = n, ms_nalloc = 0, ms_gc = []\<rparr>"
  have "mem_of (m_env_step P s) = mem_of s" using assms by (simp add: calm_def)
  then show ?thesis by (simp add: s_def)
qed

lemma spares_access [spare_intros]:
  assumes "calm P f"
  shows "spares f (m_get P r)" "(\<And>s. f (m_upd_glob u s) = f s) \<Longrightarrow> spares f (m_set P u)"
    "(\<And>s. f (m_upd_glob u s) = f s) \<Longrightarrow> spares f (m_cas P r' u old)"
  using assms unfolding m_get_def m_set_def m_cas_def calm_def by (auto intro!: spare_intros)

lemma spares_reads [spare_intros]:
  assumes "calm P f"
  shows "spares f (m_load_lock P k)" "spares f (m_load P b)" "spares f (m_status P p)"
    "spares f (m_own_status P)" "spares f (m_owner_status P w)"
    "spares f (assert_active P)" "spares f (assert_killed P)" "spares f (m_run_cbs P q)"
  using assms unfolding m_load_lock_def m_load_def m_status_def m_own_status_def m_owner_status_def
    assert_active_def assert_killed_def m_run_cbs_def
  by (auto intro!: spare_intros simp: calm_def)

lemma spares_writes [spare_intros]:
  assumes "calm P f"
  shows "(\<And>s. f (m_upd_glob (put_lock k new) s) = f s) \<Longrightarrow> spares f (m_cas_lock P k old new)"
    "(\<And>v s. f (m_upd_glob (put_status p v) s) = f s) \<Longrightarrow> spares f (m_cas_status P p old new)"
    "(\<And>p v s. f (m_upd_glob (put_status p v) s) = f s) \<Longrightarrow> spares f (SET_STATUS P v')"
    "(\<And>p v s. f (m_upd_glob (put_status p v) s) = f s) \<Longrightarrow> spares f (UPDATE_STATUS P v')"
    "(\<And>s x. f (s\<lparr>ms_nalloc := x\<rparr>) = f s) \<Longrightarrow> spares f (m_xmalloc P)"
  using assms unfolding m_cas_lock_def m_cas_status_def SET_STATUS_def UPDATE_STATUS_def m_xmalloc_def
  by (auto intro!: spare_intros simp: calm_def)

lemma fold_put_ent_fields:
  "mg_mem (fold (\<lambda>i. put_ent (p i) (z i)) xs h) = mg_mem h"
  "mg_locks (fold (\<lambda>i. put_ent (p i) (z i)) xs h) = mg_locks h"
  "mg_status (fold (\<lambda>i. put_ent (p i) (z i)) xs h) = mg_status h"
  by (induction xs arbitrary: h) simp_all

lemma entries_fields [simp]:
  "mg_mem (copy_entries old new n g) = mg_mem g" "mg_mem (claim_entries self base k n g) = mg_mem g"
  "mg_locks (claim_entries self base k n g) = mg_locks g"
  "mg_status (claim_entries self base k n g) = mg_status g"
  by (simp_all add: copy_entries_def claim_entries_def fold_put_ent_fields)

text \<open>A rollback writes nothing to memory, and up to the restart it leaves the attributes alone.\<close>

lemma spares_rollback [spare_intros]:
  assumes c: "calm P mem_of"
  shows "spares mem_of (m_stm_rollback n P reason)"
proof -
  have loops: "spares mem_of (m_mutex_lock m P)" "spares mem_of (m_wait_release m P)"
    "spares mem_of (wait_c_lock m P k)" for m k
    using c by (induction m) (auto intro!: spare_intros)
  have barrier: "spares mem_of (m_barrier_wait m P)" for m
    using c loops by (induction m) (auto intro!: spare_intros simp: m_rollover_clock_def m_mutex_unlock_def)
  have "spares mem_of (m_prepare_clock m P)" for m
    using c loops barrier
    by (induction m) (auto intro!: spare_intros simp: m_quiesce_barrier_def m_mutex_unlock_def)
  then have prep: "spares mem_of (m_prepare m P)" for m
    using c loops unfolding m_prepare_def m_check_quiesce_def by (auto intro!: spare_intros)
  have "spares mem_of (stm_drop P)" "spares mem_of (found_killed P)" "spares mem_of (m_wbetl_rollback P)"
    "spares mem_of (m_allocate_ws_entries P b)" for b
    using c unfolding m_wbetl_rollback_def stm_drop_def found_killed_def drop_one_def release_one_def
      m_allocate_ws_entries_def
    by (auto intro!: spare_intros)
  with c prep loops show ?thesis
    unfolding m_stm_rollback_def m_stm_rollback_body_def by (auto intro!: spare_intros)
qed

lemma m_rollback_jumps:
  assumes c: "calm P retry_of" and s: "\<not> retry_of s" "reason AND STM_ABORT_NO_RETRY \<noteq> STM_ABORT_NO_RETRY"
  shows "wp (m_stm_rollback n P reason) s (\<lambda>_ _. False) anyhow"
proof -
  have k: "spares retry_of (stm_drop P)" "spares retry_of (found_killed P)" "spares retry_of (m_wbetl_rollback P)"
    "spares retry_of (m_allocate_ws_entries P b)" "spares retry_of (assert_active P)" "spares retry_of (assert_killed P)"
    "spares retry_of (SET_STATUS P v)" "spares retry_of (m_run_cbs P q)" for b v q
    using c unfolding m_wbetl_rollback_def stm_drop_def found_killed_def drop_one_def release_one_def
      m_allocate_ws_entries_def
    by (auto intro!: spare_intros)
  have w: "spares retry_of (wait_c_lock m P l)" for m l
    using c by (induction m) (auto intro!: spare_intros)
  have step: "wp (thn m h) u (\<lambda>_ _. False) anyhow"
    if "spares retry_of m" "\<not> retry_of u" "\<And>t. \<not> retry_of t \<Longrightarrow> wp h t (\<lambda>_ _. False) anyhow" for m :: "unit mprog" and h u
    using that by (auto intro!: wp_mono [OF wp_spares [OF that(1)]])
  have c_lock: "spares retry_of (bnd m_tx (\<lambda>tx. case mt_c_lock tx of None \<Rightarrow> ret ()
      | Some l \<Rightarrow> thn (wait_c_lock n P l) (m_set_tx (\<lambda>t. t\<lparr>mt_c_lock := None\<rparr>))))"
    using w by (auto intro!: spare_intros)
  have first: "spares retry_of (bnd (found_killed P) (\<lambda>killed. if killed then thn (assert_killed P) (stm_drop P)
      else m_wbetl_rollback P))"
    using k by (auto intro!: spare_intros)
  show ?thesis
    unfolding m_stm_rollback_def m_stm_rollback_body_def
    by (intro step) (use k s in \<open>simp_all add: c_lock first spare_intros wp_top\<close>)
qed

section \<open>Status words\<close>

lemma get_status_take: "GET_STATUS_M s = take_bit 4 s"
  by (simp add: GET_STATUS_M_def STATUS_MASK_def STATUS_BITS_def take_bit_eq_mask mask_eq_exp_minus_1)

lemma status_add: "GET_STATUS_M (s + d) = take_bit 4 (GET_STATUS_M s + take_bit 4 d)"
proof -
  have m: "x mod 18446744073709551616 mod 16 = x mod 16" for x :: nat
    by (rule mod_mod_cancel) simp
  have "unat (take_bit 4 (s + d)) = (unat s + unat d) mod 16"
    by (simp add: unsigned_take_bit_eq unat_word_ariths take_bit_eq_mod m)
  moreover have "unat (take_bit 4 (take_bit 4 s + take_bit 4 d)) = (unat s mod 16 + unat d mod 16) mod 16"
    by (simp add: unsigned_take_bit_eq unat_word_ariths take_bit_eq_mod m)
  ultimately show ?thesis by (simp add: get_status_take word_unat_eq_iff mod_add_eq)
qed

lemma active_changes:
  assumes "GET_STATUS_M w = TX_ACTIVE"
  shows "GET_STATUS_M (w + (TX_KILLED - TX_ACTIVE)) = TX_KILLED"
    "GET_STATUS_M (w + (TX_ABORTING - TX_ACTIVE)) = TX_ABORTING"
    "GET_STATUS_M (w + (TX_COMMITTING - GET_STATUS_M w)) = TX_COMMITTING"
  using assms by (simp_all only: status_add) (simp_all add: status_defs)

lemma status_values [simp]: "TX_KILLED \<noteq> TX_ACTIVE" "TX_KILLED \<noteq> TX_ABORTING" "TX_KILLED \<noteq> TX_COMMITTING"
  "TX_ACTIVE \<noteq> TX_KILLED" "TX_ABORTING \<noteq> TX_KILLED" "TX_COMMITTING \<noteq> TX_KILLED"
  by (simp_all add: status_defs)

text \<open>The statuses of this build: the bit of \<open>TX_IRREVOCABLE\<close> is never set.\<close>

definition proper_status :: "w64 \<Rightarrow> bool" where
  "proper_status s \<longleftrightarrow> GET_STATUS_M s \<in> {TX_IDLE, TX_ACTIVE, TX_COMMITTED, TX_ABORTED, TX_COMMITTING, TX_ABORTING, TX_KILLED}"

lemma still_active:
  "proper_status w \<Longrightarrow> \<not> attempt_over w \<Longrightarrow> GET_STATUS_M w \<noteq> TX_ABORTING \<Longrightarrow> GET_STATUS_M w \<noteq> TX_COMMITTING
    \<Longrightarrow> GET_STATUS_M w = TX_ACTIVE"
  by (auto simp: proper_status_def attempt_over_def)

section \<open>A killed transaction\<close>

lemma kill_kills:
  assumes "proper_status w"
  shows "wp (stm_kill n P victim w) s
    (\<lambda>killed t. killed \<longrightarrow> GET_STATUS_M (mg_status (ms_glob t) victim) = TX_KILLED) anyhow"
proof -
  have loop: "wp (thn m (ret False)) u (\<lambda>killed t. killed \<longrightarrow> Z t) anyhow" for m u Z
    using wp_top [of m u] by simp
  show ?thesis
    using still_active [OF assms] active_changes(1) [of w] loop wp_top
    by (auto simp: stm_kill_def simp del: wp_thn) (simp_all add: wp_top)
qed

text \<open>Nobody but the owner takes a status word out of \<open>TX_KILLED\<close>; callbacks do not touch it.\<close>

definition leaves_killed :: "mparams \<Rightarrow> w64 \<Rightarrow> bool" where
  "leaves_killed P p \<longleftrightarrow>
     (\<forall>n g. GET_STATUS_M (mg_status g p) = TX_KILLED \<longrightarrow> mg_status (mp_env P n g) p = mg_status g p)
     \<and> (\<forall>f a s. mg_status (ms_glob (mp_callf P f a s)) = mg_status (ms_glob s)
          \<and> ms_tx (mp_callf P f a s) = ms_tx s)"

lemma killed_env [simp]:
  "leaves_killed P p \<Longrightarrow> GET_STATUS_M (mg_status g p) = TX_KILLED \<Longrightarrow> mg_status (mp_env P n g) p = mg_status g p"
  by (simp add: leaves_killed_def)

lemma run_cbs_status:
  assumes "leaves_killed P p"
  shows "wp (m_run_cbs P q) s (\<lambda>_ t. ms_tx t = ms_tx s \<and> mg_status (ms_glob t) = mg_status (ms_glob s)) never"
proof -
  have "wp (each_c (\<lambda>c. modify (mp_callf P (cb_f c) (cb_arg c))) cs) s
      (\<lambda>_ t. ms_tx t = ms_tx s \<and> mg_status (ms_glob t) = mg_status (ms_glob s)) never" for cs
  proof (induction cs arbitrary: s)
    case Nil
    then show ?case by simp
  next
    case (Cons x cs)
    have "ms_tx (mp_callf P (cb_f x) (cb_arg x) s) = ms_tx s"
      "mg_status (ms_glob (mp_callf P (cb_f x) (cb_arg x) s)) = mg_status (ms_glob s)"
      using assms by (simp_all add: leaves_killed_def)
    with Cons.IH [of "mp_callf P (cb_f x) (cb_arg x) s"] show ?case
      by (simp only: each_c.simps wp_thn wp_modify)
  qed
  then show ?thesis by (simp add: m_run_cbs_def)
qed

lemma killed_commit:
  assumes c: "calm P mem_of" and k: "leaves_killed P (mt_self (ms_tx v))" and n: "mt_nesting (ms_tx v) = 1"
    and st: "GET_STATUS_M (mg_status (ms_glob v) (mt_self (ms_tx v))) = TX_KILLED"
  shows "wp (m_commit n P) v (\<lambda>r t. \<not> r \<and> mg_mem (ms_glob t) = mg_mem (ms_glob v))
           (\<lambda>_ t. mg_mem (ms_glob t) = mg_mem (ms_glob v))"
proof -
  let ?mem = "mg_mem (ms_glob v)"
  let ?Q = "\<lambda>r t. \<not> r \<and> mg_mem (ms_glob t) = ?mem" and ?E = "\<lambda>_ t. mg_mem (ms_glob t) = ?mem"
  have rb: "wp (m_stm_rollback n P r) u (\<lambda>_ t. mg_mem (ms_glob t) = ?mem) ?E"
    if "mg_mem (ms_glob u) = ?mem" for u r
    using wp_spares [OF spares_rollback [OF c], of n r u] that by simp
  have cbs: "wp (m_run_cbs P mg_precommit_cb) u (\<lambda>_ t. ms_tx t = ms_tx u \<and> mg_status (ms_glob t) = mg_status (ms_glob u)
      \<and> mg_mem (ms_glob t) = mg_mem (ms_glob u)) ?E" for u
    by (rule wp_mono [OF wp_conj [OF run_cbs_status [OF k, of mg_precommit_cb u]
          wp_spares [OF spares_reads(8) [OF c, of mg_precommit_cb], of u]]]) auto
  show ?thesis
    unfolding m_commit_def
    using n k st c
    by (auto simp: assert_active_def assert_killed_def claim_commit_def intro!: wp_mono [OF cbs] rb
        split: if_splits)
qed

section \<open>Giving up locks\<close>

definition held_by :: "mglob \<Rightarrow> w64 \<Rightarrow> w64 \<Rightarrow> bool" where
  "held_by g k w \<longleftrightarrow> LOCK_GET_OWNED_M (mg_locks g k) \<noteq> 0 \<and> LOCK_GET_ADDR_M (mg_locks g k) = w"

text \<open>The lock words after the entries \<open>ws\<close> have been dropped.\<close>

definition dropped :: "(w64 \<Rightarrow> m_entry) \<Rightarrow> w64 list \<Rightarrow> (w64 \<Rightarrow> w64) \<Rightarrow> w64 \<Rightarrow> w64" where
  "dropped h ws L k =
     (let w = LOCK_GET_ADDR_M (L k) in
      if LOCK_GET_OWNED_M (L k) \<noteq> 0 \<and> w \<in> set ws \<and> me_lock (h w) = k
      then LOCK_SET_TIMESTAMP_M (me_version (h w)) else L k)"

text \<open>
  Others steal: a lock word they change does not point to an entry of \<open>ws\<close> any more.
\<close>

definition only_steals :: "mparams \<Rightarrow> w64 list \<Rightarrow> bool" where
  "only_steals P ws \<longleftrightarrow> (\<forall>n g w. w \<in> set ws \<longrightarrow> mg_ent (mp_env P n g) w = mg_ent g w
     \<and> (\<forall>k. mg_locks (mp_env P n g) k \<noteq> mg_locks g k \<longrightarrow> \<not> held_by (mp_env P n g) k w))"

lemma owned_take: "LOCK_GET_OWNED_M l = take_bit 2 l"
  by (simp add: LOCK_GET_OWNED_M_def OWNED_MASK_M_def WRITE_MASK_def READ_MASK_def take_bit_eq_mask
      mask_eq_exp_minus_1)

lemma timestamp_not_owned [simp]: "LOCK_GET_OWNED_M (LOCK_SET_TIMESTAMP_M t) = 0"
  unfolding owned_take LOCK_SET_TIMESTAMP_M_def
  by (rule bit_word_eqI) (simp add: LOCK_BITS_M_def OWNED_BITS_M_def INCARNATION_BITS_def bit_simps del: push_bit_Suc)

lemma dropped_Nil [simp]: "dropped h [] L = L"
  by (simp add: dropped_def fun_eq_iff)

lemma dropped_Cons: "dropped h ws (dropped h [x] L) = dropped h (x # ws) L"
  by (auto simp: dropped_def Let_def fun_eq_iff)

lemma drop_one_quiet:
  assumes "\<forall>n g. mp_env P n g = g"
  shows "wp (drop_one P w) s (\<lambda>_ t. ms_tx t = ms_tx s \<and> ms_nalloc t = ms_nalloc s \<and> ms_gc t = ms_gc s
     \<and> ms_glob t = (ms_glob s)\<lparr>mg_locks := dropped (mg_ent (ms_glob s)) [w] (mg_locks (ms_glob s))\<rparr>) never"
  using assms
  by (auto simp: drop_one_def dropped_def put_lock_def Let_def fun_eq_iff m_env_step_def m_upd_glob_def
      intro!: mglob.equality)

lemma drop_list_quiet:
  assumes q: "\<forall>n g. mp_env P n g = g"
  shows "wp (each_c (drop_one P) ws) s (\<lambda>_ t. ms_tx t = ms_tx s \<and> ms_nalloc t = ms_nalloc s \<and> ms_gc t = ms_gc s
     \<and> ms_glob t = (ms_glob s)\<lparr>mg_locks := dropped (mg_ent (ms_glob s)) ws (mg_locks (ms_glob s))\<rparr>) never"
proof (induction ws arbitrary: s)
  case Nil
  then show ?case by simp
next
  case (Cons w ws)
  show ?case
    unfolding each_c.simps wp_thn
    by (rule wp_mono [OF drop_one_quiet [OF q, of w s]], rule wp_mono [OF Cons.IH]) (auto simp: dropped_Cons)
qed

lemma wp_drop_one:
  fixes P w s
  defines "s1 \<equiv> m_env_step P s"
  defines "s2 \<equiv> m_env_step P s1"
  defines "e \<equiv> mg_ent (ms_glob s) w"
  assumes "\<not> held_by (ms_glob s1) (me_lock e) w \<Longrightarrow> Q () s1"
    and "mg_locks (ms_glob s2) (me_lock e) \<noteq> mg_locks (ms_glob s1) (me_lock e) \<Longrightarrow> Q () s2"
    and "Q () (m_upd_glob (put_lock (me_lock e) (LOCK_SET_TIMESTAMP_M (me_version e))) s2)"
  shows "wp (drop_one P w) s Q E"
  using assms by (auto simp: drop_one_def held_by_def simp del: m_env_fields)

lemma drop_one_steals:
  assumes r: "only_steals P ws" and w: "w \<in> set ws" and sub: "set vs \<subseteq> set ws"
    and e: "\<forall>v \<in> set ws. mg_ent (ms_glob s) v = h v" and d: "\<forall>v \<in> set vs. \<not> held_by (ms_glob s) (me_lock (h v)) v"
  shows "wp (drop_one P w) s (\<lambda>_ t. ms_tx t = ms_tx s \<and> (\<forall>v \<in> set ws. mg_ent (ms_glob t) v = h v)
     \<and> (\<forall>v \<in> set (vs @ [w]). \<not> held_by (ms_glob t) (me_lock (h v)) v)) never"
proof -
  have step: "(\<forall>v \<in> set ws. mg_ent (mp_env P n g) v = h v) \<and> (\<forall>v \<in> set vs. \<not> held_by (mp_env P n g) (me_lock (h v)) v)
      \<and> (\<not> held_by g (me_lock (h w)) w \<longrightarrow> \<not> held_by (mp_env P n g) (me_lock (h w)) w)
      \<and> (mg_locks (mp_env P n g) (me_lock (h w)) \<noteq> mg_locks g (me_lock (h w)) \<longrightarrow> \<not> held_by (mp_env P n g) (me_lock (h w)) w)"
    if "\<forall>v \<in> set ws. mg_ent g v = h v" "\<forall>v \<in> set vs. \<not> held_by g (me_lock (h v)) v" for n g
  proof -
    have same: "mg_locks (mp_env P n g) k = mg_locks g k" if "v \<in> set ws" "held_by (mp_env P n g) k v" for k v
      using r that unfolding only_steals_def by blast
    have before: "held_by g k v" if "v \<in> set ws" "held_by (mp_env P n g) k v" for k v
      using same [OF that] that(2) by (simp add: held_by_def)
    have "\<forall>v \<in> set ws. mg_ent (mp_env P n g) v = h v" using r that(1) by (simp add: only_steals_def)
    then show ?thesis using before same w sub that(2) by blast
  qed
  note s1 = step [OF e d, of "ms_tick s"]
  note s2 = step [OF s1 [THEN conjunct1] s1 [THEN conjunct2, THEN conjunct1], of "Suc (ms_tick s)"]
  have he: "mg_ent (ms_glob s) w = h w" using e w by simp
  show ?thesis
  proof (rule wp_drop_one, unfold he)
    assume "\<not> held_by (ms_glob (m_env_step P s)) (me_lock (h w)) w"
    then show "ms_tx (m_env_step P s) = ms_tx s \<and> (\<forall>v\<in>set ws. mg_ent (ms_glob (m_env_step P s)) v = h v)
      \<and> (\<forall>v\<in>set (vs @ [w]). \<not> held_by (ms_glob (m_env_step P s)) (me_lock (h v)) v)"
      using s1 by simp
  next
    let ?s2 = "m_env_step P (m_env_step P s)"
    assume "mg_locks (ms_glob ?s2) (me_lock (h w)) \<noteq> mg_locks (ms_glob (m_env_step P s)) (me_lock (h w))"
    then show "ms_tx ?s2 = ms_tx s \<and> (\<forall>v\<in>set ws. mg_ent (ms_glob ?s2) v = h v)
      \<and> (\<forall>v\<in>set (vs @ [w]). \<not> held_by (ms_glob ?s2) (me_lock (h v)) v)"
      using s2 by simp
  next
    let ?s3 = "m_upd_glob (put_lock (me_lock (h w)) (LOCK_SET_TIMESTAMP_M (me_version (h w)))) (m_env_step P (m_env_step P s))"
    have "\<not> held_by (ms_glob ?s3) (me_lock (h v)) v" if "v \<in> set vs \<or> v = w" for v
      using s2 that by (auto simp: held_by_def)
    then show "ms_tx ?s3 = ms_tx s \<and> (\<forall>v\<in>set ws. mg_ent (ms_glob ?s3) v = h v)
      \<and> (\<forall>v\<in>set (vs @ [w]). \<not> held_by (ms_glob ?s3) (me_lock (h v)) v)"
      using s2 by auto
  qed
qed

lemma drop_list_steals:
  assumes r: "only_steals P ws" and e: "\<forall>v \<in> set ws. mg_ent (ms_glob s) v = h v"
  shows "wp (each_c (drop_one P) ws) s
    (\<lambda>_ t. ms_tx t = ms_tx s \<and> (\<forall>v \<in> set ws. \<not> held_by (ms_glob t) (me_lock (h v)) v)) never"
proof (rule wp_each_inv [where I = "\<lambda>vs t. ms_tx t = ms_tx s \<and> (\<forall>v \<in> set ws. mg_ent (ms_glob t) v = h v)
      \<and> (\<forall>v \<in> set vs. \<not> held_by (ms_glob t) (me_lock (h v)) v)"], goal_cases)
  case 1
  then show ?case using e by simp
next
  case (2 vs w rest t)
  have "wp (drop_one P w) t (\<lambda>_ u. ms_tx u = ms_tx t \<and> (\<forall>v \<in> set ws. mg_ent (ms_glob u) v = h v)
      \<and> (\<forall>v \<in> set (vs @ [w]). \<not> held_by (ms_glob u) (me_lock (h v)) v)) never"
    by (rule drop_one_steals [OF r]) (use 2 in auto)
  then show ?case by (rule wp_mono) (use 2 in auto)
next
  case (3 t)
  then show ?case by simp
qed

lemma wp_new_array:
  assumes q: "\<forall>n g. mp_env P n g = g" and a: "mp_alloc P (ms_nalloc s) \<noteq> 0"
    "mp_alloc P (ms_nalloc s) AND OWNED_MASK_M = 0"
    and Q: "\<And>t. ms_tx t = (ms_tx s)\<lparr>mt_base := mp_alloc P (ms_nalloc s)\<rparr> \<Longrightarrow> ms_gc t = ms_gc s
      \<Longrightarrow> mg_mem (ms_glob t) = mg_mem (ms_glob s) \<Longrightarrow> mg_locks (ms_glob t) = mg_locks (ms_glob s)
      \<Longrightarrow> mg_status (ms_glob t) = mg_status (ms_glob s) \<Longrightarrow> Q () t"
  shows "wp (m_allocate_ws_entries P False) s Q E"
  using a by (auto simp: m_allocate_ws_entries_def m_xmalloc_def intro!: Q)
    (simp_all add: m_upd_glob_def m_upd_tx_def)

lemma wp_new_array_steals:
  assumes "\<And>t. mg_locks (ms_glob t) = mg_locks (ms_glob s) \<Longrightarrow> Q () t"
  shows "wp (m_allocate_ws_entries P False) s Q anyhow"
  using assms by (auto simp: m_allocate_ws_entries_def m_xmalloc_def)

section \<open>Properties\<close>

text \<open>C6: When \<open>stm_kill\<close> reports a kill, the victim's commit, at whatever moment it runs from there,
  returns no success and writes nothing to memory; and a kill of a transaction whose status word is still
  the active one that was seen succeeds.\<close>

theorem killed_writes_nothing:
  assumes "proper_status w" and "calm P mem_of" and "leaves_killed P victim"
  shows "wp (stm_kill m K victim w) s
      (\<lambda>killed t. killed \<longrightarrow>
         (\<forall>v. ms_glob v = ms_glob t \<and> mt_self (ms_tx v) = victim \<and> mt_nesting (ms_tx v) = 1 \<longrightarrow>
            wp (m_commit n P) v (\<lambda>r u. \<not> r \<and> mg_mem (ms_glob u) = mg_mem (ms_glob v))
              (\<lambda>_ u. mg_mem (ms_glob u) = mg_mem (ms_glob v)))) anyhow
    \<and> (GET_STATUS_M w = TX_ACTIVE \<and> mg_status (mp_env K (ms_tick s) (ms_glob s)) victim = w
         \<longrightarrow> wp (stm_kill m K victim w) s
               (\<lambda>killed t. killed \<and> GET_STATUS_M (mg_status (ms_glob t) victim) = TX_KILLED) never)"
proof
  show "wp (stm_kill m K victim w) s
      (\<lambda>killed t. killed \<longrightarrow>
         (\<forall>v. ms_glob v = ms_glob t \<and> mt_self (ms_tx v) = victim \<and> mt_nesting (ms_tx v) = 1 \<longrightarrow>
            wp (m_commit n P) v (\<lambda>r u. \<not> r \<and> mg_mem (ms_glob u) = mg_mem (ms_glob v))
              (\<lambda>_ u. mg_mem (ms_glob u) = mg_mem (ms_glob v)))) anyhow"
    by (rule wp_mono [OF kill_kills [OF assms(1)]], intro impI allI, rule killed_commit)
      (use assms(2,3) in simp_all)
next
  show "GET_STATUS_M w = TX_ACTIVE \<and> mg_status (mp_env K (ms_tick s) (ms_glob s)) victim = w
      \<longrightarrow> wp (stm_kill m K victim w) s
            (\<lambda>killed t. killed \<and> GET_STATUS_M (mg_status (ms_glob t) victim) = TX_KILLED) never"
    using active_changes(1) [of w]
    by (auto simp: stm_kill_def attempt_over_def IS_ACTIVE_M_def) (simp_all add: status_defs)
qed

theorem killed_writes_nothing_witness:
  "\<exists>t. stm_kill 3 modular_params 1024 17 (first_thread\<lparr>ms_glob := put_status 1024 17 modular_glob\<rparr>) = (Ret True, t)
     \<and> wp (m_commit 3 modular_params) (first_thread\<lparr>ms_glob := ms_glob t, ms_tx := modular_tx\<lparr>mt_nesting := 1\<rparr>\<rparr>)
         (\<lambda>r u. \<not> r \<and> mem_of u = mem_of t) (\<lambda>_ u. mem_of u = mem_of t)"
proof -
  let ?s = "first_thread\<lparr>ms_glob := put_status 1024 17 modular_glob\<rparr>"
  have st: "GET_STATUS_M 17 = TX_ACTIVE" by (simp add: get_status_take status_defs)
  have "proper_status 17" by (simp add: proper_status_def st)
  moreover have "calm modular_params mem_of"
    by (simp add: calm_def modular_params_def)
  moreover have "leaves_killed modular_params 1024" by (simp add: leaves_killed_def modular_params_def)
  ultimately have k: "wp (stm_kill 3 modular_params 1024 17) ?s
      (\<lambda>killed t. killed \<longrightarrow>
         (\<forall>v. ms_glob v = ms_glob t \<and> mt_self (ms_tx v) = 1024 \<and> mt_nesting (ms_tx v) = 1 \<longrightarrow>
            wp (m_commit 3 modular_params) v (\<lambda>r u. \<not> r \<and> mem_of u = mem_of v) (\<lambda>_ u. mem_of u = mem_of v))) anyhow"
    "wp (stm_kill 3 modular_params 1024 17) ?s
      (\<lambda>killed t. killed \<and> GET_STATUS_M (mg_status (ms_glob t) 1024) = TX_KILLED) never"
    using killed_writes_nothing [of 17 modular_params 1024 3 modular_params ?s 3] st
    by (simp_all add: modular_params_def first_thread_def del: wp_thn)
  from k(2) obtain t where t: "stm_kill 3 modular_params 1024 17 ?s = (Ret True, t)" by (auto simp: wp_never)
  show ?thesis
    using t wp_RetD [OF k(1) t] by (auto simp: modular_tx_def)
qed



end
