(* ===== verification/Visible.thy ===== *)
theory Visible
  imports Killing
begin

text \<open>
  Visible reads of \<open>CM_MODULAR\<close>: every value a transaction has read under a read lock is still
  in memory when it begins to commit, whatever the other threads do, unless it has been
  killed.  The other threads keep to the protocol of the locks (\<open>honours\<close>): they change no
  lock word of this transaction and no memory under it before they have killed it, write
  memory only under a lock, and change a lock word only to one it has not had before.
\<close>

section \<open>The protocol the other threads keep to\<close>

definition in_array :: "w64 \<Rightarrow> nat \<Rightarrow> w64 \<Rightarrow> bool" where
  "in_array base len w \<longleftrightarrow> base \<le> w \<and> w < base + SIZEOF_W_ENTRY * of_nat len"

definition own_lock :: "w64 \<Rightarrow> nat \<Rightarrow> mglob \<Rightarrow> w64 \<Rightarrow> bool" where
  "own_lock base len g k \<longleftrightarrow> LOCK_GET_OWNED_M (mg_locks g k) \<noteq> 0 \<and> in_array base len (LOCK_GET_ADDR_M (mg_locks g k))"

definition same_under :: "mglob \<Rightarrow> mglob \<Rightarrow> w64 \<Rightarrow> bool" where
  "same_under g g' k \<longleftrightarrow> (\<forall>a. GET_LOCK a = k \<longrightarrow> mg_mem g' a = mg_mem g a)"

definition owner_of :: "mglob \<Rightarrow> w64 \<Rightarrow> w64" where
  "owner_of g l = me_tx (mg_ent g (LOCK_GET_ADDR_M l))"

definition is_killed :: "mglob \<Rightarrow> w64 \<Rightarrow> bool" where
  "is_killed g p \<longleftrightarrow> GET_STATUS_M (mg_status g p) = TX_KILLED"

text \<open>
  \<open>stamp k l\<close> orders the words lock \<open>k\<close> takes over time: versions grow, and an entry of the
  write set is not reused by an attempt that could be mistaken for the one that was killed.
\<close>

definition honours :: "mparams \<Rightarrow> w64 \<Rightarrow> w64 \<Rightarrow> nat \<Rightarrow> (w64 \<Rightarrow> w64 \<Rightarrow> nat) \<Rightarrow> bool" where
  "honours P self base len stamp \<longleftrightarrow> (\<forall>n g. let g' = mp_env P n g in
     (mg_status g' self = mg_status g self
       \<or> GET_STATUS_M (mg_status g self) = TX_ACTIVE \<and> is_killed g' self)
     \<and> ((\<forall>p. proper_status (mg_status g p)) \<longrightarrow> (\<forall>p. proper_status (mg_status g' p)))
     \<and> (\<forall>k. own_lock base len g' k \<longrightarrow> own_lock base len g k)
     \<and> (\<forall>k. own_lock base len g k \<and> \<not> is_killed g' self \<longrightarrow> mg_locks g' k = mg_locks g k \<and> same_under g g' k)
     \<and> (\<forall>k. mg_locks g' k \<noteq> mg_locks g k \<longrightarrow> stamp k (mg_locks g k) < stamp k (mg_locks g' k))
     \<and> (\<forall>k l. mg_locks g k = l \<and> mg_locks g' k = l \<longrightarrow>
          (LOCK_GET_OWNED_M l = 0 \<longrightarrow> same_under g g' k)
          \<and> (LOCK_GET_OWNED_M l \<noteq> 0 \<longrightarrow> owner_of g' l = owner_of g l
               \<and> (is_killed g (owner_of g l) \<longrightarrow> is_killed g' (owner_of g l) \<and> same_under g g' k))))"

lemma honoursD:
  assumes "honours P self base len stamp"
  shows "mg_status (mp_env P n g) self = mg_status g self
      \<or> GET_STATUS_M (mg_status g self) = TX_ACTIVE \<and> is_killed (mp_env P n g) self"
    "(\<forall>p. proper_status (mg_status g p)) \<Longrightarrow> proper_status (mg_status (mp_env P n g) p)"
    "own_lock base len (mp_env P n g) k \<Longrightarrow> own_lock base len g k"
    "own_lock base len g k \<Longrightarrow> \<not> is_killed (mp_env P n g) self
       \<Longrightarrow> mg_locks (mp_env P n g) k = mg_locks g k \<and> same_under g (mp_env P n g) k"
    "mg_locks (mp_env P n g) k \<noteq> mg_locks g k \<Longrightarrow> stamp k (mg_locks g k) < stamp k (mg_locks (mp_env P n g) k)"
    "mg_locks g k = l \<Longrightarrow> mg_locks (mp_env P n g) k = l \<Longrightarrow> LOCK_GET_OWNED_M l = 0 \<Longrightarrow> same_under g (mp_env P n g) k"
    "mg_locks g k = l \<Longrightarrow> mg_locks (mp_env P n g) k = l \<Longrightarrow> LOCK_GET_OWNED_M l \<noteq> 0
       \<Longrightarrow> owner_of (mp_env P n g) l = owner_of g l
         \<and> (is_killed g (owner_of g l) \<longrightarrow> is_killed (mp_env P n g) (owner_of g l) \<and> same_under g (mp_env P n g) k)"
  using assms unfolding honours_def Let_def by blast+

section \<open>The state of a visible reader\<close>

definition reads_hold :: "w64 \<Rightarrow> nat \<Rightarrow> (w64 \<times> w64) list \<Rightarrow> mglob \<Rightarrow> bool" where
  "reads_hold base len rd g \<longleftrightarrow> (\<forall>a v. (a, v) \<in> set rd \<longrightarrow> own_lock base len g (GET_LOCK a) \<and> mg_mem g a = v)"

definition own_words :: "w64 \<Rightarrow> nat \<Rightarrow> mtx \<Rightarrow> mglob \<Rightarrow> bool" where
  "own_words base len tx g \<longleftrightarrow> (\<forall>k. own_lock base len g k \<longrightarrow>
     m_in_ws tx (LOCK_GET_ADDR_M (mg_locks g k)) \<and> LOCK_GET_WRITE (mg_locks g k) = 0)"

definition reader_tx :: "w64 \<Rightarrow> w64 \<Rightarrow> nat \<Rightarrow> mtx \<Rightarrow> bool" where
  "reader_tx self base len tx \<longleftrightarrow> mt_self tx = self \<and> mt_base tx = base \<and> mt_ws_size tx = len
     \<and> mt_nb tx \<le> len \<and> \<not> at_no_retry (mt_attr tx) \<and> at_visible_reads (mt_attr tx)"

definition reader_inv :: "w64 \<Rightarrow> w64 \<Rightarrow> nat \<Rightarrow> (w64 \<times> w64) list \<Rightarrow> mst \<Rightarrow> bool" where
  "reader_inv self base len rd s \<longleftrightarrow>
     reader_tx self base len (ms_tx s) \<and> (\<forall>p. proper_status (mg_status (ms_glob s) p))
     \<and> (is_killed (ms_glob s) self
        \<or> reads_hold base len rd (ms_glob s) \<and> own_words base len (ms_tx s) (ms_glob s))"

text \<open>An array of entries that is aligned and lies below the end of the address space.\<close>

definition placed :: "w64 \<Rightarrow> nat \<Rightarrow> bool" where
  "placed base len \<longleftrightarrow> base AND 3 = 0 \<and> unat base + 64 * len < 2 ^ 64"

lemma killed_stays:
  "honours P self base len stamp \<Longrightarrow> is_killed g self \<Longrightarrow> is_killed (mp_env P n g) self"
  using honoursD(1) [of P self base len stamp n g] by (auto simp: is_killed_def)

text \<open>What others do to a transaction they have not killed.\<close>

lemma honoured:
  assumes h: "honours P self base len stamp" and n: "\<not> is_killed (mp_env P n g) self"
  shows "own_lock base len (mp_env P n g) k = own_lock base len g k"
    "own_lock base len g k \<Longrightarrow> mg_locks (mp_env P n g) k = mg_locks g k"
    "own_lock base len g k \<Longrightarrow> GET_LOCK a = k \<Longrightarrow> mg_mem (mp_env P n g) a = mg_mem g a"
proof -
  note keep = honoursD(4) [OF h _ n]
  show l: "own_lock base len g k \<Longrightarrow> mg_locks (mp_env P n g) k = mg_locks g k" using keep by blast
  show "own_lock base len g k \<Longrightarrow> GET_LOCK a = k \<Longrightarrow> mg_mem (mp_env P n g) a = mg_mem g a"
    using keep unfolding same_under_def by blast
  show "own_lock base len (mp_env P n g) k = own_lock base len g k"
  proof (cases "own_lock base len g k")
    case True
    then show ?thesis using l unfolding own_lock_def by simp
  next
    case False
    then show ?thesis using honoursD(3) [OF h] by blast
  qed
qed

lemma reader_env:
  assumes h: "honours P self base len stamp" and i: "reader_inv self base len rd s"
  shows "reader_inv self base len rd (m_env_step P s)"
proof -
  let ?g = "ms_glob s" and ?g' = "mp_env P (ms_tick s) (ms_glob s)"
  have proper: "\<forall>p. proper_status (mg_status ?g' p)"
    using i honoursD(2) [OF h] by (simp add: reader_inv_def)
  show ?thesis
  proof (cases "is_killed ?g' self")
    case True
    then show ?thesis using i proper by (simp add: reader_inv_def)
  next
    case False
    then have live: "\<not> is_killed ?g self" using killed_stays [OF h] by blast
    note keep = honoured [OF h False]
    have "reads_hold base len rd ?g" "own_words base len (ms_tx s) ?g"
      using i live by (simp_all add: reader_inv_def)
    then have "reads_hold base len rd ?g'" "own_words base len (ms_tx s) ?g'"
      unfolding reads_hold_def own_words_def keep(1) using keep(2,3) by metis+
    then show ?thesis using i proper by (simp add: reader_inv_def)
  qed
qed

definition env_closed :: "mparams \<Rightarrow> (mst \<Rightarrow> bool) \<Rightarrow> bool" where
  "env_closed P I \<longleftrightarrow> (\<forall>s. I s \<longrightarrow> I (m_env_step P s))"

lemma waits_keep:
  assumes "env_closed P I" "I s"
  shows "wp (wait_while_status n P p w) s (\<lambda>_. I) anyhow" "wp (wait_attempt n P p c) s (\<lambda>_. I) anyhow"
  using assms by (induction n arbitrary: s) (auto simp: env_closed_def)

text \<open>
  What has been seen of the word \<open>l\<close> of lock \<open>k\<close>: should it still be there, then it is free or
  belongs to a killed transaction.
\<close>

definition seen :: "(w64 \<Rightarrow> w64 \<Rightarrow> nat) \<Rightarrow> w64 \<Rightarrow> w64 \<Rightarrow> mglob \<Rightarrow> bool" where
  "seen stamp k l g \<longleftrightarrow> stamp k l \<le> stamp k (mg_locks g k)"

definition seen_safe :: "(w64 \<Rightarrow> w64 \<Rightarrow> nat) \<Rightarrow> w64 \<Rightarrow> w64 \<Rightarrow> mglob \<Rightarrow> bool" where
  "seen_safe stamp k l g \<longleftrightarrow> seen stamp k l g
     \<and> (mg_locks g k = l \<longrightarrow> LOCK_GET_OWNED_M l = 0 \<or> is_killed g (owner_of g l))"

lemma seen_same: "mg_locks g k = l \<Longrightarrow> seen stamp k l g"
  by (simp add: seen_def)

lemma seen_before:
  assumes "honours P self base len stamp" "seen stamp k l g" "mg_locks (mp_env P n g) k = l"
  shows "mg_locks g k = l"
  using honoursD(5) [OF assms(1), of n g k] assms(2,3) by (cases "mg_locks g k = l") (auto simp: seen_def)

lemma seen_env: "honours P self base len stamp \<Longrightarrow> seen stamp k l g \<Longrightarrow> seen stamp k l (mp_env P n g)"
  using honoursD(5) [of P self base len stamp n g k] by (cases "mg_locks (mp_env P n g) k = mg_locks g k")
    (auto simp: seen_def)

lemma seen_safe_env:
  assumes h: "honours P self base len stamp" and s: "seen_safe stamp k l g"
  shows "seen_safe stamp k l (mp_env P n g)"
    and "mg_locks (mp_env P n g) k = l \<Longrightarrow> same_under g (mp_env P n g) k"
proof -
  have s0: "seen stamp k l g" using s by (simp add: seen_safe_def)
  have "(LOCK_GET_OWNED_M l = 0 \<or> is_killed (mp_env P n g) (owner_of (mp_env P n g) l)) \<and> same_under g (mp_env P n g) k"
    if l: "mg_locks (mp_env P n g) k = l"
  proof -
    have l0: "mg_locks g k = l" by (rule seen_before [OF h s0 l])
    then show ?thesis
      using s honoursD(6) [OF h l0 l] honoursD(7) [OF h l0 l]
      by (cases "LOCK_GET_OWNED_M l = 0") (auto simp: seen_safe_def)
  qed
  then show "seen_safe stamp k l (mp_env P n g)" "mg_locks (mp_env P n g) k = l \<Longrightarrow> same_under g (mp_env P n g) k"
    using seen_env [OF h s0] by (auto simp: seen_safe_def)
qed

section \<open>Entries of the own array\<close>

lemma array_unat:
  assumes "placed base len" "i \<le> len"
  shows "unat (base + SIZEOF_W_ENTRY * of_nat i) = unat base + 64 * i"
proof -
  have le: "unat base + 64 * i < 2 ^ 64" using assms by (simp add: placed_def)
  have u: "unat (of_nat (64 * i) :: w64) = 64 * i" by (subst unat_of_nat) (use le in simp)
  have "base + SIZEOF_W_ENTRY * of_nat i = base + of_nat (64 * i)" by (simp add: SIZEOF_W_ENTRY_def)
  then show ?thesis using le by (simp only: unat_word_ariths u) simp
qed

lemma entry_facts:
  assumes p: "placed base len" and i: "i < len" "mt_base tx = base"
  shows "LOCK_GET_OWNED_M (m_ptr tx i) = 0" "in_array base len (m_ptr tx i)"
    "j \<le> len \<Longrightarrow> mt_nb tx = j \<Longrightarrow> m_in_ws tx (m_ptr tx i) \<longleftrightarrow> i < j"
proof -
  have u: "unat (m_ptr tx i) = unat base + 64 * i" using array_unat [OF p, of i] i by (simp add: m_ptr_def)
  have "take_bit 2 base = 0" using p by (simp add: placed_def take_bit_eq_mask mask_eq_exp_minus_1)
  then have "take_bit 2 (unat base) = 0" by (metis unsigned_take_bit_eq unsigned_0)
  then have "unat base mod 4 = 0" by (simp only: take_bit_eq_mod) simp
  then have "unat (m_ptr tx i) mod 4 = 0" unfolding u by presburger
  then have "take_bit 2 (unat (m_ptr tx i)) = 0" by (simp add: take_bit_eq_mod)
  then have "unat (take_bit 2 (m_ptr tx i)) = 0" by (simp only: unsigned_take_bit_eq)
  then show "LOCK_GET_OWNED_M (m_ptr tx i) = 0" by (simp only: owned_take unat_eq_zero)
  show "in_array base len (m_ptr tx i)"
    using i array_unat [OF p order_refl] by (simp add: in_array_def word_le_nat_alt word_less_nat_alt u)
  assume j: "j \<le> len" "mt_nb tx = j"
  have "unat (m_ptr tx j) = unat base + 64 * j" using array_unat [OF p j(1)] i(2) by (simp add: m_ptr_def)
  then show "m_in_ws tx (m_ptr tx i) \<longleftrightarrow> i < j"
    using i j(2) by (simp add: m_in_ws_def word_le_nat_alt word_less_nat_alt u)
qed

lemma read_word:
  assumes "LOCK_GET_OWNED_M w = 0"
  shows "LOCK_GET_OWNED_M (LOCK_SET_ADDR_READ w) \<noteq> 0" "LOCK_GET_ADDR_M (LOCK_SET_ADDR_READ w) = w"
    "LOCK_GET_WRITE (LOCK_SET_ADDR_READ w) = 0"
proof -
  have low: "\<not> bit w 0" "\<not> bit w 1"
    using assms bit_take_bit_iff [of 2 w 0] bit_take_bit_iff [of 2 w 1] by (simp_all add: owned_take)
  have m: "bit (2 :: w64) n \<longleftrightarrow> n = 1" "bit (1 :: w64) n \<longleftrightarrow> n = 0" "bit (3 :: w64) n \<longleftrightarrow> n = 0 \<or> n = 1" for n
  proof -
    have three: "(3 :: w64) = mask 2" and two: "(2 :: w64) = push_bit 1 1" by (simp_all add: mask_eq_exp_minus_1)
    show "bit (2 :: w64) n \<longleftrightarrow> n = 1" "bit (1 :: w64) n \<longleftrightarrow> n = 0"
      unfolding two by (auto simp: bit_simps bit_1_iff simp del: push_bit_Suc One_nat_def)
    show "bit (3 :: w64) n \<longleftrightarrow> n = 0 \<or> n = 1"
      unfolding three by (auto simp: bit_mask_iff less_2_cases_iff)
  qed
  have "bit (LOCK_GET_OWNED_M (LOCK_SET_ADDR_READ w)) 1"
    by (simp add: owned_take LOCK_SET_ADDR_READ_def READ_MASK_def bit_simps m)
  then show "LOCK_GET_OWNED_M (LOCK_SET_ADDR_READ w) \<noteq> 0" by (metis bit_0_eq bot_apply bot_bool_def)
  have mask: "OWNED_MASK_M = 3" by (simp add: OWNED_MASK_M_def WRITE_MASK_def READ_MASK_def)
  show "LOCK_GET_ADDR_M (LOCK_SET_ADDR_READ w) = w"
    unfolding LOCK_GET_ADDR_M_def LOCK_SET_ADDR_READ_def mask READ_MASK_def
  proof (rule bit_word_eqI)
    fix n
    assume "n < LENGTH(64)"
    then show "bit ((w OR 2) AND NOT 3) n = bit w n"
      by (cases "n = 0"; cases "n = 1") (simp_all only: bit_or_iff bit_and_iff bit_not_iff m low, simp_all)
  qed
  show "LOCK_GET_WRITE (LOCK_SET_ADDR_READ w) = 0"
    unfolding LOCK_GET_WRITE_def LOCK_SET_ADDR_READ_def WRITE_MASK_def READ_MASK_def
    by (rule bit_word_eqI) (use low in \<open>auto simp: bit_simps m\<close>)
qed

section \<open>Taking a lock for reading\<close>

lemma put_views [simp]:
  "own_lock base len (put_ent w f g) = own_lock base len g" "is_killed (put_ent w f g) = is_killed g"
  "is_killed (put_lock k l g) = is_killed g" "own_lock base len (put_status p v g) = own_lock base len g"
  by (simp_all add: own_lock_def is_killed_def fun_eq_iff)

lemma reader_put_ent [simp]:
  "reader_inv self base len rd (m_upd_glob (put_ent w f) s) = reader_inv self base len rd s"
  by (simp add: reader_inv_def reads_hold_def own_words_def)

lemma seen_put_ent [simp]:
  "(\<And>e. me_tx (f e) = me_tx e) \<Longrightarrow> seen_safe stamp k l (put_ent w f g) = seen_safe stamp k l g"
  by (simp add: seen_safe_def seen_def owner_of_def)

lemma reader_acquired:
  assumes pl: "placed base len" and i: "reader_inv self base len rd s" and nb: "mt_nb (ms_tx s) < len"
    and v: "mem_of s a = v" and w: "w = m_ptr (ms_tx s) (mt_nb (ms_tx s))"
  shows "reader_inv self base len (rd @ [(a, v)])
    (m_upd_tx (\<lambda>t. t\<lparr>mt_nb := Suc (mt_nb t)\<rparr>) (m_upd_glob (put_lock (GET_LOCK a) (LOCK_SET_ADDR_READ w)) s))"
proof -
  let ?tx = "ms_tx s" and ?g = "put_lock (GET_LOCK a) (LOCK_SET_ADDR_READ w) (ms_glob s)"
  let ?tx' = "?tx\<lparr>mt_nb := Suc (mt_nb ?tx)\<rparr>"
  have b: "mt_base ?tx = base" "mt_nb ?tx \<le> len" using i by (simp_all add: reader_inv_def reader_tx_def)
  note e = entry_facts [OF pl nb b(1)] and rw = read_word [OF entry_facts(1) [OF pl nb b(1)]]
  have in_ws: "m_in_ws ?tx' (m_ptr ?tx j) \<longleftrightarrow> j < Suc (mt_nb ?tx)" if "j < len" for j
    using entry_facts(3) [OF pl that, of ?tx' "Suc (mt_nb ?tx)"] b nb by (simp add: m_ptr_def)
  have mono: "m_in_ws ?tx' x" if "m_in_ws ?tx x" for x
    using that entry_facts(3) [OF pl nb, of ?tx' "Suc (mt_nb ?tx)"] b nb
    by (auto simp: m_in_ws_def m_ptr_def intro: less_trans)
  have new: "own_lock base len ?g (GET_LOCK a)" using rw e(2) by (simp add: own_lock_def w)
  have old: "own_lock base len ?g k = own_lock base len (ms_glob s) k" if "k \<noteq> GET_LOCK a" for k
    using that by (simp add: own_lock_def)
  have "reads_hold base len (rd @ [(a, v)]) ?g" if "reads_hold base len rd (ms_glob s)"
    unfolding reads_hold_def
  proof (intro allI impI)
    fix b x
    assume "(b, x) \<in> set (rd @ [(a, v)])"
    then show "own_lock base len ?g (GET_LOCK b) \<and> mg_mem ?g b = x"
      using that new old v by (cases "GET_LOCK b = GET_LOCK a") (auto simp: reads_hold_def)
  qed
  moreover have "own_words base len ?tx' ?g" if o: "own_words base len ?tx (ms_glob s)"
    unfolding own_words_def
  proof (intro allI impI)
    fix k
    assume k: "own_lock base len ?g k"
    show "m_in_ws ?tx' (LOCK_GET_ADDR_M (mg_locks ?g k)) \<and> LOCK_GET_WRITE (mg_locks ?g k) = 0"
    proof (cases "k = GET_LOCK a")
      case True
      then show ?thesis using rw in_ws [OF nb] by (simp add: w)
    next
      case False
      then show ?thesis using o k old mono by (simp add: own_words_def)
    qed
  qed
  ultimately show ?thesis using i nb by (auto simp: reader_inv_def reader_tx_def)
qed

lemma acquire_spec:
  assumes h: "honours P self base len stamp" and pl: "placed base len" and i: "reader_inv self base len rd s"
    and nb: "mt_nb (ms_tx s) < len" and sn: "seen_safe stamp (GET_LOCK a) l (ms_glob s)"
  shows "wp (acquire_read P a l ver) s
    (\<lambda>r t. case r of None \<Rightarrow> reader_inv self base len rd t | Some v \<Rightarrow> reader_inv self base len (rd @ [(a, v)]) t) E"
proof -
  let ?w = "m_ptr (ms_tx s) (mt_nb (ms_tx s))"
  define s0 where "s0 = m_upd_glob (put_ent ?w (\<lambda>e. e\<lparr>me_version := ver\<rparr>)) s"
  define s1 where "s1 = m_env_step P s0"
  define s2 where "s2 = m_env_step P s1"
  have inv: "reader_inv self base len rd s1" "reader_inv self base len rd s2"
    using i by (simp_all add: s0_def s1_def s2_def reader_env [OF h])
  have sn1: "seen_safe stamp (GET_LOCK a) l (ms_glob s1)"
    using seen_safe_env(1) [OF h, of "GET_LOCK a" l "ms_glob s0" "ms_tick s0"] sn by (simp add: s0_def s1_def)
  have tx: "ms_tx s2 = ms_tx s" by (simp add: s0_def s1_def s2_def)
  have mem: "mem_of s2 a = mem_of s1 a" if "mg_locks (ms_glob s2) (GET_LOCK a) = l"
    using seen_safe_env(2) [OF h sn1, of "ms_tick s1"] that by (simp add: s2_def same_under_def)
  have upd: "m_upd_tx f (m_upd_glob (put_ent x e) t) = m_upd_glob (put_ent x e) (m_upd_tx f t)" for f x e t
    by (simp add: m_upd_tx_def m_upd_glob_def)
  have "reader_inv self base len (rd @ [(a, mem_of s1 a)])
      (m_upd_tx (\<lambda>t. t\<lparr>mt_nb := Suc (mt_nb t)\<rparr>) (m_upd_glob (put_lock (GET_LOCK a) (LOCK_SET_ADDR_READ ?w)) s2))"
    if "mg_locks (ms_glob s2) (GET_LOCK a) = l"
    by (rule reader_acquired [OF pl inv(2)]) (use tx nb mem that in simp_all)
  then show ?thesis
    using inv(2)
    by (simp add: acquire_read_def Let_def s0_def [symmetric] s1_def [symmetric] s2_def [symmetric] upd
        del: m_env_fields)
qed

section \<open>Giving up, and reading under a lock of one's own\<close>

lemma reasons_retry [simp]:
  "STM_ABORT_KILLED AND STM_ABORT_NO_RETRY \<noteq> STM_ABORT_NO_RETRY"
  "STM_ABORT_EXTEND_WS AND STM_ABORT_NO_RETRY \<noteq> STM_ABORT_NO_RETRY"
  "STM_ABORT_WR_CONFLICT AND STM_ABORT_NO_RETRY \<noteq> STM_ABORT_NO_RETRY"
  "STM_ABORT_RR_CONFLICT AND STM_ABORT_NO_RETRY \<noteq> STM_ABORT_NO_RETRY"
  by (simp_all add: reason_defs)

lemma rollback_leaves:
  assumes "calm P retry_of" "\<not> retry_of s" "r AND STM_ABORT_NO_RETRY \<noteq> STM_ABORT_NO_RETRY"
  shows "wp (m_stm_rollback n P r) s (\<lambda>_. Q) anyhow"
  by (rule wp_mono [OF m_rollback_jumps [OF assms]]) simp_all

lemma lose_leaves:
  assumes "calm P retry_of" "\<not> retry_of s" "r AND STM_ABORT_NO_RETRY \<noteq> STM_ABORT_NO_RETRY"
  shows "wp (lose (m_stm_rollback n P) d k r) s (\<lambda>_. Q) anyhow"
  using assms by (auto simp: lose_def intro!: rollback_leaves)

lemma killed_leaves:
  assumes h: "honours P (mt_self (ms_tx s)) base len stamp" and c: "calm P retry_of" and r: "\<not> retry_of s"
    and k: "is_killed (ms_glob s) (mt_self (ms_tx s))"
  shows "wp (unless_killed P (m_stm_rollback n P) m) s Q anyhow"
proof -
  have "is_killed (ms_glob (m_env_step P s)) (mt_self (ms_tx s))" using killed_stays [OF h k] by simp
  then show ?thesis
    using r by (auto simp: unless_killed_def is_killed_def intro!: rollback_leaves [OF c])
qed

lemma in_ws_array:
  assumes "placed base len" "reader_tx self base len tx" "m_in_ws tx w"
  shows "in_array base len w"
proof -
  have b: "mt_base tx = base" "mt_nb tx \<le> len" using assms(2) by (simp_all add: reader_tx_def)
  have "m_ptr tx (mt_nb tx) \<le> base + SIZEOF_W_ENTRY * of_nat len"
    using array_unat [OF assms(1) b(2)] array_unat [OF assms(1) order_refl] b
    by (simp add: m_ptr_def word_le_nat_alt)
  then show ?thesis using assms(3) b by (auto simp: m_in_ws_def in_array_def intro: less_le_trans)
qed

lemma read_chain_calm:
  "wp (m_read_chain n P a w) s (\<lambda>_ t. t = s \<or> t = m_env_step P s) anyhow"
  by (auto simp: m_read_chain_def split: option.splits)

lemma own_read:
  assumes h: "honours P self base len stamp" and pl: "placed base len" and c: "calm P retry_of"
    and i: "reader_inv self base len rd s" and l: "mg_locks (ms_glob s) (GET_LOCK a) = l"
    and own: "LOCK_GET_OWNED_M l \<noteq> 0" "m_in_ws (ms_tx s) (LOCK_GET_ADDR_M l)"
  shows "wp (m_read_own_visible n P (m_stm_rollback m P) a l) s
    (\<lambda>v t. reader_inv self base len (rd @ [(a, v)]) t) anyhow"
proof -
  have tx: "reader_tx self base len (ms_tx s)" and self: "mt_self (ms_tx s) = self" and r: "\<not> retry_of s"
    using i by (simp_all add: reader_inv_def reader_tx_def)
  have held: "own_lock base len (ms_glob s) (GET_LOCK a)"
    using own l in_ws_array [OF pl tx] by (simp add: own_lock_def)
  show ?thesis
  proof (cases "is_killed (ms_glob s) self")
    case True
    have "wp (unless_killed P (m_stm_rollback m P) k) t Q anyhow" if "t = s \<or> t = m_env_step P s" for k t Q
    proof (rule killed_leaves [OF _ c])
      show "honours P (mt_self (ms_tx t)) base len stamp" using h that self by auto
      show "\<not> retry_of t" using r that by auto
      show "is_killed (ms_glob t) (mt_self (ms_tx t))" using True that self killed_stays [OF h True] by auto
    qed
    then show ?thesis
      by (auto simp: m_read_own_visible_def split_beta intro!: wp_mono [OF read_chain_calm])
  next
    case False
    let ?s1 = "m_env_step P s" and ?s2 = "m_env_step P (m_env_step P s)"
    have w: "LOCK_GET_WRITE l = 0" using i False held l by (auto simp: reader_inv_def own_words_def)
    have inv: "reader_inv self base len rd ?s2" by (intro reader_env [OF h] i)
    have hold: "reader_inv self base len (rd @ [(a, mem_of ?s1 a)]) ?s2" if n2: "\<not> is_killed (ms_glob ?s2) self"
    proof -
      have n1: "\<not> is_killed (ms_glob ?s1) self" using killed_stays [OF h] n2 by auto
      have "own_lock base len (ms_glob ?s1) (GET_LOCK a)" "own_lock base len (ms_glob ?s2) (GET_LOCK a)"
        "mem_of ?s2 a = mem_of ?s1 a"
        using honoured [OF h, of "ms_tick s" "ms_glob s"] n1 held
          honoured [OF h, of "Suc (ms_tick s)" "ms_glob ?s1"] n2 by simp_all
      then show ?thesis
        using inv n2 by (auto simp: reader_inv_def reads_hold_def)
    qed
    show ?thesis
    proof (cases "is_killed (ms_glob ?s2) self")
      case True
      then show ?thesis
        using w self r by (auto simp: m_read_own_visible_def unless_killed_def is_killed_def intro!: rollback_leaves [OF c])
    next
      case False
      with hold w self show ?thesis
        by (simp add: m_read_own_visible_def unless_killed_def is_killed_def)
    qed
  qed
qed

section \<open>Conflicts\<close>

lemma killing:
  assumes h: "honours P self base len stamp" and i: "reader_inv self base len rd s"
    and own: "LOCK_GET_OWNED_M l \<noteq> 0" and sn: "seen stamp k l (ms_glob s)" and o: "other = owner_of (ms_glob s) l"
    and t: "proper_status t"
  shows "wp (stm_kill n P other t) s (\<lambda>won u. reader_inv self base len rd u \<and> ms_tx u = ms_tx s
    \<and> (won \<longrightarrow> seen_safe stamp k l (ms_glob u))) anyhow"
proof -
  let ?I = "\<lambda>u. reader_inv self base len rd u \<and> ms_tx u = ms_tx s"
  let ?s1 = "m_env_step P s"
  have cl: "env_closed P ?I" using reader_env [OF h] by (simp add: env_closed_def)
  have inv: "?I s" "?I ?s1" using i reader_env [OF h i] by simp_all
  have no: "wp (thn m (ret False)) u (\<lambda>won u. reader_inv self base len rd u \<and> ms_tx u = ms_tx s
      \<and> (won \<longrightarrow> seen_safe stamp k l (ms_glob u))) anyhow" if "wp m u (\<lambda>_. ?I) anyhow" for m :: "unit mprog" and u
    using that by simp
  have won: "?I x \<and> seen_safe stamp k l (ms_glob x)"
    if a: "GET_STATUS_M t = TX_ACTIVE" and x: "x = m_upd_glob (put_status other (t + (TX_KILLED - TX_ACTIVE))) ?s1" for x
  proof -
    have dead: "is_killed (ms_glob x) other" "proper_status (t + (TX_KILLED - TX_ACTIVE))"
      using active_changes(1) [OF a] by (simp_all add: x is_killed_def proper_status_def)
    have "is_killed (ms_glob x) p = is_killed (ms_glob ?s1) p" if "p \<noteq> other" for p
      using that by (simp add: x is_killed_def)
    then have "?I x"
      using inv(2) dead by (cases "self = other") (auto simp: reader_inv_def reads_hold_def own_words_def x)
    moreover have "seen_safe stamp k l (ms_glob x)"
      unfolding seen_safe_def
    proof (intro conjI impI)
      show "seen stamp k l (ms_glob x)" using seen_env [OF h sn] by (simp add: x seen_def)
      assume "mg_locks (ms_glob x) k = l"
      then have l1: "mg_locks (ms_glob ?s1) k = l" by (simp add: x)
      then have l0: "mg_locks (ms_glob s) k = l" using seen_before [OF h sn] by simp
      have "owner_of (ms_glob x) l = other"
        using honoursD(7) [OF h l0 _ own, of "ms_tick s"] l1 o by (simp add: x owner_of_def)
      then show "LOCK_GET_OWNED_M l = 0 \<or> is_killed (ms_glob x) (owner_of (ms_glob x) l)" using dead by simp
    qed
    ultimately show ?thesis by simp
  qed
  show ?thesis
    unfolding stm_kill_def
    using inv won [OF still_active [OF t] refl] waits_keep [OF cl]
    by (auto simp del: wp_thn m_env_fields intro!: no) (auto simp del: m_env_fields)
qed

lemma settled:
  assumes h: "honours P self base len stamp" and i: "reader_inv self base len rd s"
    and own: "LOCK_GET_OWNED_M l \<noteq> 0" and sn: "seen stamp k l (ms_glob s)" and t: "proper_status t"
    and o: "mg_locks (ms_glob s) k = l \<longrightarrow> mg_status (ms_glob s) (owner_of (ms_glob s) l) = t"
  shows "wp (settle n P (LOCK_GET_ADDR_M l) t c) s (\<lambda>d u. reader_inv self base len rd u \<and> ms_tx u = ms_tx s
    \<and> (d = Some KILL_OTHER \<longrightarrow> seen_safe stamp k l (ms_glob u))) anyhow"
proof -
  let ?Q = "\<lambda>d u. reader_inv self base len rd u \<and> ms_tx u = ms_tx s
    \<and> (d = Some KILL_OTHER \<longrightarrow> seen_safe stamp k l (ms_glob u))"
  have kill: "wp (stm_kill n P (owner_of (ms_glob u) l) t) u
      (\<lambda>won v. ?Q (if won then Some KILL_OTHER else None) v) anyhow"
    if "reader_inv self base len rd u" "ms_tx u = ms_tx s" "seen stamp k l (ms_glob u)" for u
    by (rule wp_mono [OF killing [OF h that(1) own that(3) refl t]]) (use that in auto)
  have inv1: "reader_inv self base len rd (m_env_step P s)" "seen stamp k l (ms_glob (m_env_step P s))"
    using reader_env [OF h i] seen_env [OF h sn] by simp_all
  have inv2: "reader_inv self base len rd (m_env_step P (m_env_step P s))"
    "seen stamp k l (ms_glob (m_env_step P (m_env_step P s)))"
    using reader_env [OF h inv1(1)] seen_env [OF h inv1(2)] by simp_all
  show ?thesis
  proof (cases "GET_STATUS_M t = TX_KILLED")
    case True
    then show ?thesis using i sn o by (auto simp: settle_def seen_safe_def is_killed_def)
  next
    case False
    then show ?thesis
      using inv1 inv2 kill [OF inv2(1) _ inv2(2), unfolded owner_of_def]
      by (auto simp: settle_def simp del: m_env_fields(2) split: option.splits)
  qed
qed

text \<open>Whatever happens in a conflict, the continuations start in a good state.\<close>

lemma conflict:
  assumes h: "honours P self base len stamp" and i: "reader_inv self base len rd s"
    and l: "mg_locks (ms_glob s) k = l" "LOCK_GET_OWNED_M l \<noteq> 0"
    and again: "\<And>u lo. reader_inv self base len rd u \<Longrightarrow> (\<forall>l. lo = Some l \<longrightarrow> mg_locks (ms_glob u) k = l)
      \<Longrightarrow> wp (again lo) u Q anyhow"
    and steal: "\<And>u. reader_inv self base len rd u \<Longrightarrow> ms_tx u = ms_tx s \<Longrightarrow> seen_safe stamp k l (ms_glob u)
      \<Longrightarrow> wp steal u Q anyhow"
    and lost: "\<And>u d. reader_inv self base len rd u \<Longrightarrow> wp (lost d) u Q anyhow"
  shows "wp (m_conflict n P k l c again steal lost) s Q anyhow"
proof -
  define s1 where "s1 = m_env_step P s"
  define s2 where "s2 = m_env_step P s1"
  define s3 where "s3 = m_env_step P s2"
  note closed = reader_env [OF h]
  have inv: "reader_inv self base len rd s2" "reader_inv self base len rd s3"
    using closed [OF closed [OF i]] closed [OF closed [OF closed [OF i]]] by (simp_all add: s1_def s2_def s3_def)
  have tx: "ms_tx s3 = ms_tx s" by (simp add: s1_def s2_def s3_def)
  have sn: "seen stamp k l (ms_glob s3)"
    using seen_env [OF h] seen_same [OF l(1)] by (simp add: s1_def s2_def s3_def)
  let ?t = "mg_status (ms_glob s3) (me_tx (mg_ent (ms_glob s3) (LOCK_GET_ADDR_M l)))"
  have proper: "proper_status ?t" using inv(2) by (simp add: reader_inv_def)
  have "wp (settle n P (LOCK_GET_ADDR_M l) ?t c) s3 (\<lambda>d v. reader_inv self base len rd v \<and> ms_tx v = ms_tx s
        \<and> (d = Some KILL_OTHER \<longrightarrow> seen_safe stamp k l (ms_glob v))) anyhow"
    using settled [OF h inv(2) l(2) sn proper, of n c] tx by (simp add: owner_of_def)
  then have "wp (settle n P (LOCK_GET_ADDR_M l) ?t c) s3 (\<lambda>d v. wp (case d of None \<Rightarrow> again None
      | Some dec \<Rightarrow> if dec = KILL_OTHER then steal else lost dec) v Q anyhow) anyhow"
    by (rule wp_mono) (auto split: option.splits intro: again steal lost)
  then show ?thesis
    using again [OF inv(1)] again [OF inv(2), of None]
    by (auto simp: m_conflict_def Let_def s1_def [symmetric] s2_def [symmetric] s3_def [symmetric] simp del: m_env_fields)
qed

section \<open>A visible read\<close>

lemma visible_loop:
  assumes h: "honours P self base len stamp" and pl: "placed base len" and c: "calm P retry_of"
  shows "reader_inv self base len rd s \<Longrightarrow> (\<forall>l. lo = Some l \<longrightarrow> mg_locks (ms_glob s) (GET_LOCK a) = l)
    \<Longrightarrow> wp (m_visible_loop n P (m_stm_rollback m P) a lo) s (\<lambda>v. reader_inv self base len (rd @ [(a, v)])) anyhow"
proof (induction n arbitrary: s lo)
  case 0
  then show ?case by simp
next
  case (Suc n)
  let ?k = "GET_LOCK a" and ?rb = "m_stm_rollback m P"
  let ?Q = "\<lambda>v. reader_inv self base len (rd @ [(a, v)])"
  let ?more = "m_visible_loop n P ?rb a"
  have retry: "\<not> retry_of u" "mt_nb (ms_tx u) \<le> len" "mt_ws_size (ms_tx u) = len"
    if "reader_inv self base len rd u" for u using that by (simp_all add: reader_inv_def reader_tx_def)
  have acq: "wp (visible_acquire P ?rb a l (?more None) ver) u ?Q anyhow"
    if "reader_inv self base len rd u" "seen_safe stamp ?k l (ms_glob u)" for u l ver
  proof (cases "mt_nb (ms_tx u) = mt_ws_size (ms_tx u)")
    case True
    then show ?thesis
      using retry(1) [OF that(1)] by (auto simp: visible_acquire_def intro!: rollback_leaves [OF c])
  next
    case False
    then have "mt_nb (ms_tx u) < len" using retry [OF that(1)] by simp
    from acquire_spec [OF h pl that(1) this that(2), of ver anyhow] False show ?thesis
      by (auto simp: visible_acquire_def elim!: wp_mono split: option.splits intro!: Suc.IH)
  qed
  have body: "wp (m_visible_loop (Suc n) P ?rb a (Some l)) u ?Q anyhow"
    if i: "reader_inv self base len rd u" and l: "mg_locks (ms_glob u) ?k = l" for u l
  proof -
    have "wp (m_conflict n P ?k l cf ?more (bnd (m_get P (\<lambda>g. me_version (mg_ent g (LOCK_GET_ADDR_M l))))
        (visible_acquire P ?rb a l (?more None))) (\<lambda>dec. thn (lose ?rb dec ?k r) (ret 0))) u ?Q anyhow"
      if "LOCK_GET_OWNED_M l \<noteq> 0" "r AND STM_ABORT_NO_RETRY \<noteq> STM_ABORT_NO_RETRY" for cf r
      by (rule conflict [OF h i l that(1)])
        (use that retry in \<open>simp_all add: Suc.IH acq reader_env [OF h] seen_safe_env(1) [OF h] lose_leaves [OF c]\<close>)
    then show ?thesis
      using own_read [OF h pl c i l] acq [OF i, of l "LOCK_GET_TIMESTAMP_M l"] l
      by (simp add: seen_safe_def seen_same)
  qed
  show ?case
  proof (cases lo)
    case None
    have "wp (m_visible_loop (Suc n) P ?rb a None) s ?Q anyhow
      = wp (m_visible_loop (Suc n) P ?rb a (Some (mg_locks (ms_glob (m_env_step P s)) ?k))) (m_env_step P s) ?Q anyhow"
      by simp
    then show ?thesis
      using body [OF reader_env [OF h Suc.prems(1)] refl] None by (simp only:)
  next
    case (Some l)
    then show ?thesis using body [OF Suc.prems(1)] Suc.prems(2) by simp
  qed
qed

lemma visible_read:
  assumes h: "honours P self base len stamp" and pl: "placed base len" and c: "calm P retry_of"
    and i: "reader_inv self base len rd s"
  shows "wp (m_wbetl_read n P a) s (\<lambda>v. reader_inv self base len (rd @ [(a, v)])) anyhow"
proof -
  have v: "at_visible_reads (mt_attr (ms_tx s))" "\<not> retry_of s" using i by (simp_all add: reader_inv_def reader_tx_def)
  have "wp (m_visible_loop n P (m_stm_rollback n P) a None) (m_env_step P s)
      (\<lambda>v. reader_inv self base len (rd @ [(a, v)])) anyhow"
    by (rule visible_loop [OF h pl c reader_env [OF h i]]) simp
  then show ?thesis
    using v by (auto simp: m_wbetl_read_def stm_wbetl_read_visible_def unless_killed_def intro!: rollback_leaves [OF c])
qed

primrec m_read_all :: "nat \<Rightarrow> mparams \<Rightarrow> w64 list \<Rightarrow> w64 list mprog" where
  "m_read_all n P [] = ret []"
| "m_read_all n P (a # as) = bnd (m_wbetl_read n P a) (\<lambda>v. bnd (m_read_all n P as) (\<lambda>vs. ret (v # vs)))"

lemma visible_reads:
  assumes h: "honours P self base len stamp" and pl: "placed base len" and c: "calm P retry_of"
  shows "reader_inv self base len rd s \<Longrightarrow>
    wp (m_read_all n P as) s (\<lambda>vs t. length vs = length as \<and> reader_inv self base len (rd @ zip as vs) t) anyhow"
proof (induction as arbitrary: rd s)
  case Nil
  then show ?case by simp
next
  case (Cons a as)
  show ?case
    unfolding m_read_all.simps wp_bnd
  proof (rule wp_mono [OF visible_read [OF h pl c Cons.prems]])
    fix v t
    assume "reader_inv self base len (rd @ [(a, v)]) t"
    from Cons.IH [OF this]
    show "wp (m_read_all n P as) t (\<lambda>vs u. wp (ret (v # vs)) u
        (\<lambda>vs t. length vs = length (a # as) \<and> reader_inv self base len (rd @ zip (a # as) vs) t) anyhow) anyhow"
      by (rule wp_mono) auto
  qed simp
qed

lemma claim_alive:
  assumes h: "honours P self base len stamp" and i: "reader_inv self base len rd s"
  shows "wp (claim_commit P) s (\<lambda>ok t. ok \<longrightarrow> reads_hold base len rd (ms_glob t)) anyhow"
proof -
  let ?s2 = "m_env_step P (m_env_step P s)"
  have inv: "reader_inv self base len rd ?s2" by (intro reader_env [OF h] i)
  have self: "mt_self (ms_tx s) = self" using i by (simp add: reader_inv_def reader_tx_def)
  have "reads_hold base len rd (ms_glob ?s2)" if "\<not> is_killed (ms_glob ?s2) self"
    using inv that by (simp add: reader_inv_def)
  then show ?thesis
    using self by (auto simp: claim_commit_def is_killed_def reads_hold_def)
qed

section \<open>Properties\<close>



end
