(* ===== verification/Races.thy ===== *)
theory Races
  imports Visible
begin

text \<open>
  Two races of \<open>CM_MODULAR\<close>, each as a run of this thread in an environment that runs the same
  code for another thread: between two accesses of this thread the other thread executes whole
  calls of the library on the shared state.
\<close>

section \<open>Transactions that only read, and one that writes\<close>

definition plain_attr :: attr where
  "plain_attr = mt_attr modular_tx"

definition visible_attr :: attr where
  "visible_attr = plain_attr\<lparr>at_visible_reads := True\<rparr>"

definition reading :: "mparams \<Rightarrow> attr \<Rightarrow> w64 list \<Rightarrow> (w64 list \<times> bool) mprog" where
  "reading P a as =
     thn (m_start 9 P a) (bnd (m_read_all 9 P as) (\<lambda>vs. bnd (m_commit 9 P) (\<lambda>ok. ret (vs, ok))))"

definition writing :: "bool mprog" where
  "writing =
     thn (m_start 9 modular_params plain_attr)
    (thn (m_stm_write 9 modular_params 64 1 (NOT 0))
    (thn (m_stm_write 9 modular_params 96 1 (NOT 0)) (m_commit 9 modular_params)))"

section \<open>The version of a read-locked address\<close>

text \<open>
  The other thread writes 1 to 64 and 96, commits, and reads 64 visibly (\<open>rival_reads\<close>);
  later it commits and reads 128 visibly, which fills the same entry again
  (\<open>rival_rereads\<close>).  The second part goes on from where the first left the thread.
\<close>

definition rival_reads :: "mglob \<Rightarrow> bool outcome \<times> mst" where
  "rival_reads g =
     bnd writing (\<lambda>ok. thn (m_start 9 modular_params visible_attr)
       (thn (m_wbetl_read 9 modular_params 64) (ret ok))) (second_thread g)"

definition rival_rereads :: "mglob \<Rightarrow> bool outcome \<times> mst" where
  "rival_rereads g =
     bnd (m_commit 9 modular_params) (\<lambda>ok. thn (m_start 9 modular_params visible_attr)
       (thn (m_wbetl_read 9 modular_params 128) (ret ok))) ((snd (rival_reads modular_glob))\<lparr>ms_glob := g\<rparr>)"

definition stale_params :: mparams where
  "stale_params = modular_params\<lparr>mp_env := (\<lambda>n g. if n = 9 then ms_glob (snd (rival_reads g))
     else if n = 12 then ms_glob (snd (rival_rereads g)) else g)\<rparr>"

section \<open>A kill between two visible reads\<close>

definition killing_params :: mparams where
  "killing_params = modular_params\<lparr>mp_env := (\<lambda>n g. if n = 10 then ms_glob (snd (writing (second_thread g))) else g)\<rparr>"

section \<open>Properties\<close>

text \<open>C25: An invisible read of an address another transaction has read-locked loads the version from that
  transaction's entry after it has looked at the lock for the last time.  When the other commits in
  between and fills the entry anew, the version belongs to another lock: here a transaction that only
  reads commits with the old value of one address and the new value of another, both written by one
  transaction.  Run alone before or after that one, it reads both old or both new.\<close>

theorem stale_version_commits:
  "fst (reading stale_params plain_attr [96, 64] first_thread) = Ret ([7, 1], True)
   \<and> fst (rival_reads modular_glob) = Ret True \<and> fst (rival_rereads (ms_glob (snd (rival_reads modular_glob)))) = Ret True
   \<and> fst (reading modular_params plain_attr [96, 64] first_thread) = Ret ([7, 7], True)
   \<and> fst (reading modular_params plain_attr [96, 64]
        (first_thread\<lparr>ms_glob := ms_glob (snd (writing (second_thread modular_glob)))\<rparr>)) = Ret ([1, 1], True)"
proof (intro conjI)
  show "fst (reading stale_params plain_attr [96, 64] first_thread) = Ret ([7, 1], True)" by code_simp
  show "fst (rival_reads modular_glob) = Ret True" by code_simp
  show "fst (rival_rereads (ms_glob (snd (rival_reads modular_glob)))) = Ret True" by code_simp
  show "fst (reading modular_params plain_attr [96, 64] first_thread) = Ret ([7, 7], True)" by code_simp
  show "fst (reading modular_params plain_attr [96, 64]
        (first_thread\<lparr>ms_glob := ms_glob (snd (writing (second_thread modular_glob)))\<rparr>)) = Ret ([1, 1], True)"
    by code_simp
qed

text \<open>C26: A visible read does not look for a kill after it has taken its lock: a transaction killed and
  robbed of its lock between two visible reads is given values no committed memory has together, and
  notices the kill only when it commits, where it restarts.\<close>

theorem visible_read_misses_kill:
  "fst (writing (second_thread modular_glob)) = Ret True
   \<and> fst (thn (m_start 9 killing_params visible_attr) (m_read_all 9 killing_params [64, 96]) first_thread) = Ret [7, 1]
   \<and> (\<exists>r. fst (reading killing_params visible_attr [64, 96] first_thread) = Jump r)
   \<and> fst (reading modular_params visible_attr [64, 96] first_thread) = Ret ([7, 7], True)"
proof (intro conjI)
  show "fst (writing (second_thread modular_glob)) = Ret True" by code_simp
  show "fst (thn (m_start 9 killing_params visible_attr) (m_read_all 9 killing_params [64, 96]) first_thread) = Ret [7, 1]"
    by code_simp
  have "fst (reading killing_params visible_attr [64, 96] first_thread) = Jump (STM_ABORT_KILLED OR STM_PATH_INSTRUMENTED)"
    by code_simp
  then show "\<exists>r. fst (reading killing_params visible_attr [64, 96] first_thread) = Jump r" ..
  show "fst (reading modular_params visible_attr [64, 96] first_thread) = Ret ([7, 7], True)" by code_simp
qed

end
