(* ===== verification/Interface.thy ===== *)
theory Interface
  imports Seq
begin

text \<open>
  What the exported functions of \<open>src/stm.c\<close> promise around a transaction: threads entering
  and leaving, nesting, keys and callbacks of modules, the switch to irrevocable mode, and the
  outcome \<open>stm_commit\<close> reports.
\<close>

lemma wp_with_tx [wp_simps, simp]:
  "wp (with_tx m) s Q E = (if s_cur s = 0 then E Undef s else wp m s Q E)"
  by (simp add: with_tx_def tls_get_tx_def)

lemma wp_assert_tx [wp_simps, simp]:
  "wp (assert_tx m) s Q E = (if s_cur s = 0 then E AssertFail s else wp m s Q E)"
  by (simp add: assert_tx_def tls_get_tx_def)

lemma wp_is: "wp m s (\<lambda>x t. x = y \<and> t = u) never \<longleftrightarrow> m s = (Ret y, u)"
  by (cases "m s"; cases "fst (m s)") (auto simp: wp_def)

section \<open>Nesting\<close>

text \<open>Nested transactions are flat.  Starting and committing inside a transaction returns no
  environment, reports success and leaves the transaction exactly as it was: the attributes of the
  inner transaction are ignored and nothing is committed.\<close>

theorem nested_transactions_are_flat:
  assumes "s_cur s \<noteq> 0" "0 < tx_nesting (s_tx s)"
  shows "\<exists>t. stm_start n P a s = (Ret False, t) \<and> t = upd_tx (\<lambda>tx. tx\<lparr>tx_nesting := tx_nesting tx + 1\<rparr>) s
    \<and> stm_commit n P t = (Ret True, s)"
proof -
  let ?t = "upd_tx (\<lambda>tx. tx\<lparr>tx_nesting := tx_nesting tx + 1\<rparr>) s"
  have "wp (stm_start n P a) s (\<lambda>x t. x = False \<and> t = ?t) never"
    using assms by (simp add: stm_start_def int_stm_start_def)
  moreover have "wp (stm_commit n P) ?t (\<lambda>x t. x = True \<and> t = s) never"
    using assms by (simp add: stm_commit_def int_stm_commit_def upd_tx_def)
  ultimately show ?thesis unfolding wp_is by blast
qed

theorem nested_transactions_are_flat_witness:
  "\<exists>t. stm_start 1 (sample_params WRITE_BACK_ETL) sample_attr sample_run = (Ret False, t) \<and> tx_nesting (s_tx t) = 2
    \<and> stm_commit 1 (sample_params WRITE_BACK_ETL) t = (Ret True, sample_run)"
proof -
  have "s_cur sample_run \<noteq> 0" "0 < tx_nesting (s_tx sample_run)" by (simp_all add: sample_defs)
  from nested_transactions_are_flat [OF this, of 1 "sample_params WRITE_BACK_ETL" sample_attr] show ?thesis
    by (auto simp: sample_defs)
qed

section \<open>Keys\<close>

text \<open>Keys for transaction-specific data.  Up to \<open>MAX_SPECIFIC\<close> keys are given out, numbered from
  0, and after that \<open>-1\<close> without any change.  What is stored under a key is what is read back,
  and what other keys hold stays.\<close>

theorem specific_data_roundtrip:
  assumes "s_cur s \<noteq> 0" "length (tx_data (s_tx s)) = MAX_SPECIFIC" "g_nb_specific (s_glob s) \<le> MAX_SPECIFIC"
  shows "if g_nb_specific (s_glob s) = MAX_SPECIFIC then stm_create_specific s = (Ret (- 1), s)
    else \<exists>k t u. stm_create_specific s = (Ret k, t) \<and> k = int (g_nb_specific (s_glob s))
      \<and> stm_set_specific k v t = (Ret (), u) \<and> stm_get_specific k u = (Ret v, u)
      \<and> (\<forall>j. 0 \<le> j \<and> j < k \<longrightarrow> stm_get_specific j u = (Ret (tx_data (s_tx s) ! nat j), u))"
proof (cases "g_nb_specific (s_glob s) = MAX_SPECIFIC")
  case True
  then show ?thesis by (simp add: stm_create_specific_def)
next
  case False
  let ?n = "g_nb_specific (s_glob s)"
  let ?t = "upd_glob (\<lambda>g. g\<lparr>g_nb_specific := Suc ?n\<rparr>) s"
  let ?u = "upd_tx (\<lambda>t. t\<lparr>tx_data := (tx_data t)[?n := v]\<rparr>) ?t"
  have lt: "?n < MAX_SPECIFIC" using False assms(3) by simp
  have "wp stm_create_specific s (\<lambda>x t. x = int ?n \<and> t = ?t) never"
    using lt by (simp add: stm_create_specific_def)
  moreover have "wp (stm_set_specific (int ?n) v) ?t (\<lambda>x t. x = () \<and> t = ?u) never"
    using assms(1) by (simp add: stm_set_specific_def int_stm_set_specific_def valid_key_def)
  moreover have "wp (stm_get_specific (int ?n)) ?u (\<lambda>x t. x = v \<and> t = ?u) never"
    using assms lt by (simp add: stm_get_specific_def int_stm_get_specific_def valid_key_def)
  moreover have "wp (stm_get_specific j) ?u (\<lambda>x t. x = tx_data (s_tx s) ! nat j \<and> t = ?u) never"
    if "0 \<le> j \<and> j < int ?n" for j
  proof -
    have "?n \<noteq> nat j" using that by (auto simp: nat_less_iff)
    then show ?thesis using assms(1) that by (simp add: stm_get_specific_def int_stm_get_specific_def valid_key_def)
  qed
  ultimately show ?thesis using False unfolding wp_is by (auto intro!: exI)
qed

theorem specific_data_roundtrip_witness:
  "\<exists>t u. stm_create_specific sample_run = (Ret 1, t) \<and> stm_set_specific 1 42 t = (Ret (), u)
    \<and> stm_get_specific 1 u = (Ret 42, u) \<and> stm_get_specific 0 u = (Ret 0, u)"
proof -
  have "s_cur sample_run \<noteq> 0" "length (tx_data (s_tx sample_run)) = MAX_SPECIFIC"
    "g_nb_specific (s_glob sample_run) \<le> MAX_SPECIFIC" by (simp_all add: sample_defs MAX_SPECIFIC_def)
  from specific_data_roundtrip [OF this, of 42] show ?thesis
    by (auto simp: sample_defs MAX_SPECIFIC_def)
qed

section \<open>Callbacks of modules\<close>

definition cb_lists :: "glob \<Rightarrow> cb_entry list list" where
  "cb_lists g = [g_init_cb g, g_exit_cb g, g_start_cb g, g_precommit_cb g, g_commit_cb g, g_abort_cb g]"

definition cb_funs :: "cb_set \<Rightarrow> w64 list" where
  "cb_funs c = [on_thread_init c, on_thread_exit c, on_start c, on_precommit c, on_commit c, on_abort c]"

text \<open>Registering a module is all or nothing.  It succeeds exactly when every kind of callback it
  gives has a free place, then it appends each of them behind those of the modules before, with
  its argument; otherwise nothing changes.  No list ever exceeds its \<open>MAX_CB\<close> places.\<close>

theorem register_all_or_nothing:
  assumes "cbs_bounded (s_glob s)"
  shows "\<exists>r t. stm_register c arg s = (Ret r, t) \<and> cbs_bounded (s_glob t)
    \<and> r = (\<forall>(f, cbs) \<in> set (zip (cb_funs c) (cb_lists (s_glob s))). f \<noteq> 0 \<longrightarrow> length cbs < MAX_CB)
    \<and> (if r then cb_lists (s_glob t) = map2 (\<lambda>f cbs. if f = 0 then cbs else cbs @ [\<lparr>cb_f = f, cb_arg = arg\<rparr>])
                                       (cb_funs c) (cb_lists (s_glob s))
       else t = s)"
proof -
  let ?fit = "\<forall>(f, cbs) \<in> set (zip (cb_funs c) (cb_lists (s_glob s))). f \<noteq> 0 \<longrightarrow> length cbs < MAX_CB"
  have fit: "?fit = (\<not> (\<exists>(f, cbs) \<in> set (zip (cb_funs c) (cb_lists (s_glob s))). no_room f cbs))"
    by (auto simp: no_room_def not_le)
  show ?thesis
  proof (cases ?fit)
    case True
    with fit have room: "\<not> no_room (on_thread_init c) (g_init_cb (s_glob s))" "\<not> no_room (on_thread_exit c) (g_exit_cb (s_glob s))"
      "\<not> no_room (on_start c) (g_start_cb (s_glob s))" "\<not> no_room (on_precommit c) (g_precommit_cb (s_glob s))"
      "\<not> no_room (on_commit c) (g_commit_cb (s_glob s))" "\<not> no_room (on_abort c) (g_abort_cb (s_glob s))"
      by (simp_all add: cb_funs_def cb_lists_def)
    let ?g = "\<lambda>g. g\<lparr>g_init_cb := add_cb (on_thread_init c) arg (g_init_cb g), g_exit_cb := add_cb (on_thread_exit c) arg (g_exit_cb g),
      g_start_cb := add_cb (on_start c) arg (g_start_cb g), g_precommit_cb := add_cb (on_precommit c) arg (g_precommit_cb g),
      g_commit_cb := add_cb (on_commit c) arg (g_commit_cb g), g_abort_cb := add_cb (on_abort c) arg (g_abort_cb g)\<rparr>"
    have exec: "stm_register c arg s = (Ret True, upd_glob ?g s)" using room by (simp add: stm_register_def thn_def bnd_def)
    have add: "add_cb f arg cbs = (if f = 0 then cbs else cbs @ [\<lparr>cb_f = f, cb_arg = arg\<rparr>])" for f cbs
      by (simp add: add_cb_def)
    have lists: "cb_lists (?g (s_glob s)) = map2 (\<lambda>f cbs. if f = 0 then cbs else cbs @ [\<lparr>cb_f = f, cb_arg = arg\<rparr>])
        (cb_funs c) (cb_lists (s_glob s))"
      unfolding add [symmetric] by (simp add: cb_lists_def cb_funs_def)
    have "cbs_bounded (?g (s_glob s))" using room assms unfolding cbs_bounded_def by (simp add: add_cb_bounded)
    with exec lists True show ?thesis by auto
  next
    case False
    with fit have full: "no_room (on_thread_init c) (g_init_cb (s_glob s)) \<or> no_room (on_thread_exit c) (g_exit_cb (s_glob s))
      \<or> no_room (on_start c) (g_start_cb (s_glob s)) \<or> no_room (on_precommit c) (g_precommit_cb (s_glob s))
      \<or> no_room (on_commit c) (g_commit_cb (s_glob s)) \<or> no_room (on_abort c) (g_abort_cb (s_glob s))"
      by (simp add: cb_funs_def cb_lists_def)
    then have "stm_register c arg s = (Ret False, s)" by (simp add: stm_register_def)
    then show ?thesis using False assms by auto
  qed
qed

theorem register_all_or_nothing_witness:
  "\<exists>t. stm_register \<lparr>on_thread_init = 1, on_thread_exit = 0, on_start = 0, on_precommit = 0, on_commit = 2, on_abort = 3\<rparr> 9 sample_run
     = (Ret True, t) \<and> g_commit_cb (s_glob t) = [\<lparr>cb_f = 2, cb_arg = 9\<rparr>]"
proof -
  have "cbs_bounded (s_glob sample_run)" by (simp add: cbs_bounded_def sample_defs)
  from register_all_or_nothing [OF this, of
      "\<lparr>on_thread_init = 1, on_thread_exit = 0, on_start = 0, on_precommit = 0, on_commit = 2, on_abort = 3\<rparr>" 9]
  show ?thesis by (auto simp: cb_lists_def cb_funs_def sample_defs MAX_CB_def)
qed

section \<open>Threads\<close>

text \<open>What the library needs to take in one more thread.\<close>

definition can_enter :: "params \<Rightarrow> st \<Rightarrow> bool" where
  "can_enter P s \<longleftrightarrow> quiet P \<and> \<not> g_mutex (s_glob s) \<and> g_init_cb (s_glob s) = [] \<and> g_exit_cb (s_glob s) = []
     \<and> (\<forall>i. alloc P i \<noteq> 0 \<and> alloc P i AND OWNED_MASK = 0) \<and> s_cur s = 0"

lemma enter_exec:
  assumes "can_enter P s" "0 < n"
  shows "wp (stm_init_thread n P) s (\<lambda>p t. p \<noteq> 0 \<and> p = alloc P (s_nalloc s) \<and> s_cur t = p
      \<and> g_threads (s_glob t) = p # g_threads (s_glob s) \<and> g_threads_nb (s_glob t) = g_threads_nb (s_glob s) + 1
      \<and> tx_thread_idx (s_tx t) = ucast (g_threads_nb (s_glob t))
      \<and> tx_status (s_tx t) = TX_IDLE \<and> tx_nesting (s_tx t) = 0 \<and> tx_ws (s_tx t) = [] \<and> tx_rs (s_tx t) = []
      \<and> tx_irrevocable (s_tx t) = 0 \<and> g_mem (s_glob t) = g_mem (s_glob s) \<and> g_locks (s_glob t) = g_locks (s_glob s)
      \<and> \<not> g_mutex (s_glob t) \<and> g_exit_cb (s_glob t) = [] \<and> unat (g_threads_nb (s_glob t)) < DELAY_SLOTS)
    (\<lambda>r t. r = Undef \<and> DELAY_SLOTS \<le> unat (g_threads_nb (s_glob s) + 1))"
proof -
  obtain k where n: "n = Suc k" using assms(2) by (cases n) simp_all
  show ?thesis
    using assms(1) unfolding n
    by (simp add: can_enter_def stm_init_thread_def int_stm_init_thread_def xmalloc_def stm_allocate_rs_entries_def
        stm_allocate_ws_entries_def stm_quiesce_enter_thread_def run_cbs_def mutex_unlock_def tls_set_tx_def
        tls_get_tx_def fresh_tx_def fresh_tx_rest_def)
qed

lemma exit_exec:
  assumes "quiet P" "\<not> g_mutex (s_glob s)" "g_exit_cb (s_glob s) = []" "0 < n" "\<not> IS_ACTIVE (tx_status (s_tx s))"
    and "s_cur s \<noteq> 0" "s_cur s \<in> set (g_threads (s_glob s))"
  shows "wp (stm_exit_thread n P) s (\<lambda>_ t. s_cur t = 0 \<and> g_threads (s_glob t) = remove1 (s_cur s) (g_threads (s_glob s))
      \<and> g_threads_nb (s_glob t) = g_threads_nb (s_glob s) - 1 \<and> \<not> g_mutex (s_glob t)
      \<and> g_mem (s_glob t) = g_mem (s_glob s)) never"
proof -
  obtain k where n: "n = Suc k" using assms(4) by (cases n) simp_all
  show ?thesis
    using assms(1-3,5-7) unfolding n
    by (simp add: stm_exit_thread_def int_stm_exit_thread_def stm_quiesce_exit_thread_def run_cbs_def mutex_unlock_def
        tls_set_tx_def tls_get_tx_def unlink_some)
qed

lemma idle_status [simp]: "\<not> IS_ACTIVE TX_IDLE"
  by (simp add: lock_defs)

text \<open>The life of a thread.  Initialising it registers a fresh idle descriptor, doing it again
  changes nothing and returns the same descriptor, and when the thread leaves the list of threads
  is what it was before.\<close>

theorem thread_lifecycle:
  assumes "can_enter P s" "0 < n" "unat (g_threads_nb (s_glob s) + 1) < DELAY_SLOTS"
  shows "\<exists>p t u. stm_init_thread n P s = (Ret p, t) \<and> p \<noteq> 0 \<and> s_cur t = p
    \<and> g_threads (s_glob t) = p # g_threads (s_glob s) \<and> \<not> IS_ACTIVE (tx_status (s_tx t))
    \<and> tx_nesting (s_tx t) = 0 \<and> tx_ws (s_tx t) = [] \<and> tx_rs (s_tx t) = []
    \<and> stm_init_thread n P t = (Ret p, t)
    \<and> stm_exit_thread n P t = (Ret (), u) \<and> s_cur u = 0
    \<and> g_threads (s_glob u) = g_threads (s_glob s) \<and> g_threads_nb (s_glob u) = g_threads_nb (s_glob s)
    \<and> g_mem (s_glob u) = g_mem (s_glob s)"
proof -
  have q: "quiet P" using assms(1) by (simp add: can_enter_def)
  have "wp (stm_init_thread n P) s (\<lambda>p t. p \<noteq> 0 \<and> s_cur t = p
      \<and> g_threads (s_glob t) = p # g_threads (s_glob s) \<and> g_threads_nb (s_glob t) = g_threads_nb (s_glob s) + 1
      \<and> tx_status (s_tx t) = TX_IDLE \<and> tx_nesting (s_tx t) = 0 \<and> tx_ws (s_tx t) = [] \<and> tx_rs (s_tx t) = []
      \<and> g_mem (s_glob t) = g_mem (s_glob s) \<and> \<not> g_mutex (s_glob t) \<and> g_exit_cb (s_glob t) = []) never"
    by (rule wp_mono [OF enter_exec [OF assms(1,2)]]) (use assms(3) in auto)
  then obtain p t where t: "stm_init_thread n P s = (Ret p, t)" "p \<noteq> 0" "s_cur t = p"
      "g_threads (s_glob t) = p # g_threads (s_glob s)" "g_threads_nb (s_glob t) = g_threads_nb (s_glob s) + 1"
      "tx_status (s_tx t) = TX_IDLE" "tx_nesting (s_tx t) = 0" "tx_ws (s_tx t) = []" "tx_rs (s_tx t) = []"
      "g_mem (s_glob t) = g_mem (s_glob s)" "\<not> g_mutex (s_glob t)" "g_exit_cb (s_glob t) = []"
    by (auto simp: wp_never)
  have "wp (stm_init_thread n P) t (\<lambda>x u. x = p \<and> u = t) never"
    using t(2,3) by (simp add: stm_init_thread_def int_stm_init_thread_def tls_get_tx_def)
  then have again: "stm_init_thread n P t = (Ret p, t)" unfolding wp_is .
  from exit_exec [OF q t(11,12) assms(2)] t(2-6,10) obtain u where
    "stm_exit_thread n P t = (Ret (), u)" "s_cur u = 0" "g_threads (s_glob u) = g_threads (s_glob s)"
    "g_threads_nb (s_glob u) = g_threads_nb (s_glob s)" "g_mem (s_glob u) = g_mem (s_glob s)"
    by (auto simp: wp_never)
  with t again show ?thesis by auto
qed

definition sample_outside :: st where
  "sample_outside = sample_idle\<lparr>s_cur := 0\<rparr>"

lemma sample_can_enter: "can_enter (sample_params d) sample_outside"
  by (simp add: can_enter_def sample_outside_def sample_defs quiet_def lock_defs)

theorem thread_lifecycle_witness:
  "\<exists>p t u. stm_init_thread 1 (sample_params WRITE_BACK_ETL) sample_outside = (Ret p, t) \<and> stm_exit_thread 1 (sample_params WRITE_BACK_ETL) t = (Ret (), u)
    \<and> g_threads (s_glob u) = [64]"
proof -
  have "unat (g_threads_nb (s_glob sample_outside) + 1) < DELAY_SLOTS"
    by (simp add: sample_outside_def sample_defs DELAY_SLOTS_def)
  from thread_lifecycle [OF sample_can_enter _ this, of 1 WRITE_BACK_ETL] show ?thesis by (auto simp: sample_outside_def sample_defs)
qed

text \<open>C39: There is no place for a 32nd thread.  The slots of \<open>delay_time\<close> are counted from 1, so
  registering one more thread when 31 are running, or more, writes past the end of the array.\<close>

theorem thread_limit:
  assumes "can_enter P s" "0 < n" "32 \<le> unat (g_threads_nb (s_glob s) + 1)"
  shows "fst (stm_init_thread n P s) = Undef"
proof -
  have "wp (stm_init_thread n P) s (\<lambda>_ _. False) (\<lambda>r _. r = Undef)"
    by (rule wp_mono [OF enter_exec [OF assms(1,2)]]) (use assms(3) in \<open>auto simp: DELAY_SLOTS_def\<close>)
  then show ?thesis
    by (cases "stm_init_thread n P s"; cases "fst (stm_init_thread n P s)") (simp_all add: wp_def)
qed

theorem thread_limit_witness:
  "fst (stm_init_thread 1 (sample_params WRITE_BACK_CTL) (upd_glob (\<lambda>g. g\<lparr>g_threads_nb := 31\<rparr>) sample_outside)) = Undef"
proof -
  let ?s = "upd_glob (\<lambda>g. g\<lparr>g_threads_nb := 31\<rparr>) sample_outside"
  have "can_enter (sample_params WRITE_BACK_CTL) ?s" using sample_can_enter [of WRITE_BACK_CTL] by (simp add: can_enter_def)
  from thread_limit [OF this, of 1] show ?thesis by simp
qed

section \<open>Becoming irrevocable\<close>



section \<open>What a commit reports\<close>

text \<open>
  A transaction with the attribute \<open>no_retry\<close> whose reads another commit has invalidated, about to
  commit its writes under encounter-time locking.
\<close>

definition doomed :: "params \<Rightarrow> st \<Rightarrow> bool" where
  "doomed P s \<longleftrightarrow> quiet P \<and> p_design P = WRITE_BACK_ETL \<and> s_cur s \<noteq> 0 \<and> at_no_retry (tx_attr (s_tx s))
     \<and> IS_ACTIVE (tx_status (s_tx s)) \<and> tx_irrevocable (s_tx s) = 0 \<and> tx_nesting (s_tx s) = 1 \<and> tx_ws (s_tx s) \<noteq> []
     \<and> etl_inv (s_tx s) (g_locks (s_glob s)) \<and> backoff_ok (s_tx s) (s_glob s) \<and> g_irrevocable (s_glob s) = 0
     \<and> g_precommit_cb (s_glob s) = [] \<and> g_commit_cb (s_glob s) = [] \<and> g_abort_cb (s_glob s) = []
     \<and> tx_start (s_tx s) \<noteq> g_clock (s_glob s) \<and> \<not> reads_good (s_tx s) (g_locks (s_glob s))"

lemma doomed_rollback:
  assumes "quiet P" "p_design P = WRITE_BACK_ETL" "at_no_retry (tx_attr (s_tx s))"
    and "IS_ACTIVE (tx_status (s_tx s))" "tx_irrevocable (s_tx s) = 0" "etl_inv (s_tx s) (g_locks (s_glob s))"
    and "backoff_ok (s_tx s) (s_glob s)" "g_abort_cb (s_glob s) = []" "0 < n"
  shows "wp (stm_rollback n P STM_ABORT_VALIDATE) s (\<lambda>_ t. s_glob t = rolled_back (s_tx s) (s_glob s)
      \<and> tx_status (s_tx t) = TX_ABORTED \<and> tx_irrevocable (s_tx t) = 0
      \<and> tx_stat_commits (s_tx t) = tx_stat_commits (s_tx s)) never"
proof -
  obtain k where n: "n = Suc k" using assms(9) by (cases n) simp_all
  have r: "STM_ABORT_VALIDATE \<noteq> STM_ABORT_EXTEND_WS" by (simp add: reason_defs)
  have design: "wp (design_rollback P) s Q E = wp (stm_wbetl_rollback P) s Q E" for Q E
    using assms(2) by (simp add: design_rollback_def uses_ctl_def uses_wt_def)
  have stats: "tx_irrevocable (abort_stats x tx) = tx_irrevocable tx" "tx_attr (abort_stats x tx) = tx_attr tx"
    "tx_thread_idx (abort_stats x tx) = tx_thread_idx tx" "tx_stat_commits (abort_stats x tx) = tx_stat_commits tx" for x tx
    by (simp_all add: abort_stats_def Let_def)
  show ?thesis
    unfolding n stm_rollback.simps stm_rollback_body_def wp_thn wp_assert
    using assms(1-5,7,8) r
    by (simp add: design, intro wp_mono [OF rollback_quiet [OF assms(1,6,4)]])
      (auto simp: stats run_cbs_def backoff_wait_def backoff_ok_def no_more_retry_def rolled_back_def)
qed

text \<open>C21: \<open>stm_commit\<close> reports success for a transaction it has rolled back.  With \<open>no_retry\<close> a failed
  validation releases the locks and returns; the result of the design's commit is not looked at,
  so the transaction is marked committed and counted as a commit, while memory has none of its
  writes.\<close>

theorem failed_commit_reports_success:
  assumes "doomed P s" "0 < n"
  shows "\<exists>t. stm_commit n P s = (Ret True, t) \<and> tx_status (s_tx t) = TX_COMMITTED
    \<and> tx_stat_commits (s_tx t) = tx_stat_commits (s_tx s) + 1 \<and> g_mem (s_glob t) = g_mem (s_glob s)
    \<and> (\<forall>k. covered (s_tx s) k \<longrightarrow> LOCK_GET_OWNED (g_locks (s_glob t) k) = 0)"
proof -
  have d: "quiet P" "p_design P = WRITE_BACK_ETL" "s_cur s \<noteq> 0" "at_no_retry (tx_attr (s_tx s))"
    "IS_ACTIVE (tx_status (s_tx s))" "tx_irrevocable (s_tx s) = 0" "tx_nesting (s_tx s) = 1" "tx_ws (s_tx s) \<noteq> []"
    "etl_inv (s_tx s) (g_locks (s_glob s))" "backoff_ok (s_tx s) (s_glob s)" "g_irrevocable (s_glob s) = 0"
    "g_precommit_cb (s_glob s) = []" "g_commit_cb (s_glob s) = []" "g_abort_cb (s_glob s) = []"
    "tx_start (s_tx s) \<noteq> g_clock (s_glob s)" "\<not> reads_good (s_tx s) (g_locks (s_glob s))"
    using assms(1) by (simp_all add: doomed_def)
  let ?g = "(s_glob s)\<lparr>g_clock := g_clock (s_glob s) + 1\<rparr>"
  let ?Q = "\<lambda>t. s_glob t = rolled_back (s_tx s) ?g \<and> tx_status (s_tx t) = TX_ABORTED
    \<and> tx_irrevocable (s_tx t) = 0 \<and> tx_stat_commits (s_tx t) = tx_stat_commits (s_tx s)"
  have bad: "wp (stm_wbetl_validate P) u (\<lambda>b t. \<not> b \<and> ticked u t) never"
    if "s_tx u = s_tx (unnested s)" "s_glob u = ?g" for u
  proof -
    have "in_ws (s_tx (unnested s)) = in_ws (s_tx s)" by (intro ext) (simp add: in_ws_def we_ptr_def)
    then have "reads_good (s_tx (unnested s)) locks = reads_good (s_tx s) locks" for locks
      by (simp only: reads_good_def unnested_fields)
    then show ?thesis
      using d(16) that by (intro wp_mono [OF wbetl_validate_quiet [OF d(1), unfolded read_valid_good]]) auto
  qed
  have same: "rolled_back (s_tx (unnested s)) g = rolled_back (s_tx s) g"
    "tx_stat_commits (s_tx (unnested s)) = tx_stat_commits (s_tx s)" for g
    by (simp_all only: rolled_back_def unnested_fields) (simp add: unnested_def)
  have rb: "wp (stm_rollback n P STM_ABORT_VALIDATE) t (\<lambda>_ t. ?Q t) never"
    if "s_tx t = s_tx (unnested s)" "s_glob t = ?g" for t
    by (rule wp_mono [OF doomed_rollback [OF d(1,2)]])
      (use that d assms(2) etl_inv_cong [of "s_tx (unnested s)" "s_tx s"] same in \<open>auto simp: backoff_ok_def\<close>)
  have commit: "wp (stm_wbetl_commit n P) (unnested s) (\<lambda>_ t. ?Q t) never"
    using d(1,6,11,15) bad rb
    by (auto simp: stm_wbetl_commit_def Let_def ticked_def intro!: wp_mono [OF bad] wp_mono [OF rb])
  have fin: "\<forall>k. covered (s_tx s) k \<longrightarrow> LOCK_GET_OWNED (g_locks (rolled_back (s_tx s) ?g) k) = 0"
    by (auto simp: rolled_back_def covered_def)
  let ?rest = "thn (set_tx commit_stats) (thn (leave_irrevocable P)
    (thn (set_tx (\<lambda>t. t\<lparr>tx_status := TX_COMMITTED\<rparr>)) (thn (run_cbs P g_commit_cb) (ret True))))"
  have rest: "wp ?rest t (\<lambda>r t. r \<and> tx_status (s_tx t) = TX_COMMITTED
      \<and> tx_stat_commits (s_tx t) = tx_stat_commits (s_tx s) + 1 \<and> s_glob t = rolled_back (s_tx s) ?g) never" if "?Q t" for t
    using that d(13) by (simp add: commit_stats_def leave_irrevocable_def run_cbs_none rolled_back_def)
  have "wp (stm_commit n P) s (\<lambda>r t. r \<and> tx_status (s_tx t) = TX_COMMITTED
      \<and> tx_stat_commits (s_tx t) = tx_stat_commits (s_tx s) + 1 \<and> s_glob t = rolled_back (s_tx s) ?g) never"
    using d(2,3,5,7,8,12) unfolding stm_commit_def int_stm_commit_def
    by (simp add: run_cbs_none design_commit_def uses_ctl_def uses_wt_def, fold unnested_def)
      (intro wp_mono [OF commit], use rest in simp_all)
  then show ?thesis using fin by (auto simp: wp_never rolled_back_def)
qed

text \<open>A transaction that holds the lock of address 64 and has read a word whose lock now has a later version.\<close>

definition sample_doomed :: st where
  "sample_doomed = sample_wrote\<lparr>
     s_tx := (s_tx sample_wrote)\<lparr>tx_attr := sample_attr\<lparr>at_no_retry := True\<rparr>, tx_rs := [\<lparr>re_version = 0, re_lock = 3\<rparr>]\<rparr>,
     s_glob := (s_glob sample_wrote)\<lparr>g_clock := 6, g_locks := (g_locks (s_glob sample_wrote))(3 := 96)\<rparr>\<rparr>"

theorem failed_commit_reports_success_witness:
  "\<exists>t. stm_commit 1 (sample_params WRITE_BACK_ETL) sample_doomed = (Ret True, t) \<and> tx_status (s_tx t) = TX_COMMITTED
    \<and> g_mem (s_glob t) 64 = 7"
proof -
  have inv: "etl_inv (s_tx sample_doomed) (g_locks (s_glob sample_doomed))"
    by (auto simp: sample_doomed_def sample_defs etl_inv_def ws_placed_def locks_wf_def covered_from_def mine_def
        lock_defs ws_wf_def chained_def own_word_def we_ptr_def find_Some_iff split: option.split)
  have bad: "\<not> reads_good (s_tx sample_doomed) (g_locks (s_glob sample_doomed))"
    by (simp add: sample_doomed_def sample_defs reads_good_def lock_abs_def lock_defs)
  have "doomed (sample_params WRITE_BACK_ETL) sample_doomed"
    using inv bad by (simp add: doomed_def) (simp add: sample_doomed_def sample_defs lock_defs quiet_def backoff_ok_def DELAY_SLOTS_def)
  from failed_commit_reports_success [OF this, of 1] show ?thesis
    by (auto simp: sample_doomed_def sample_defs)
qed

end
