(* ===== verification/AllocCpp.thy ===== *)
theory AllocCpp
  imports MemTx
begin

text \<open>
  The C++ operators \<open>new\<close> and \<open>delete\<close> inside transactions (\<open>src/abi/gcc/alloc_cpp.c\<close>).  A
  block allocated in a transaction is given back on abort, a block deleted in a transaction
  on commit, in both cases with the operator that matches its allocation.

  The linked lists of blocks are lists, the head first.  The operators themselves belong to
  the C++ library: \<open>op_new k\<close> allocates what \<open>op_del k\<close> gives back, with \<open>k\<close> one of the four
  pairs (object or array, throwing or not).
\<close>

section \<open>State\<close>

datatype del_op = ZdlPv | ZdaPv | ZdlPvRKSt9nothrow_t1 | ZdaPvRKSt9nothrow_t1

record mod_alloc_block =
  ab_addr :: w64
  ab_rev_func :: del_op

record mod_alloc_info =
  ai_allocated :: "mod_alloc_block list"
  ai_freed :: "mod_alloc_block list"

record alloc_st =
  as_stm :: st
  as_key :: int
  as_initialized :: bool
  as_info :: "w64 \<Rightarrow> mod_alloc_info"

record cpp =
  op_new :: "del_op \<Rightarrow> w64 \<Rightarrow> w64 prog"
  op_del :: "del_op \<Rightarrow> w64 \<Rightarrow> st \<Rightarrow> st"

type_synonym 'a aprog = "(alloc_st, 'a) comp"

definition al_do :: "'a prog \<Rightarrow> 'a aprog" where
  "al_do m s = (case m (as_stm s) of (r, t) \<Rightarrow> (r, s\<lparr>as_stm := t\<rparr>))"

definition set_alloc :: "w64 \<Rightarrow> (mod_alloc_info \<Rightarrow> mod_alloc_info) \<Rightarrow> unit aprog" where
  "set_alloc p f = modify (\<lambda>s. s\<lparr>as_info := (as_info s)(p := f (as_info s p))\<rparr>)"

section \<open>Recording\<close>

definition mod_alloc_specific :: "w64 aprog" where
  "mod_alloc_specific =
     bnd (gets as_key) (\<lambda>k. bnd (al_do (stm_get_specific k)) (\<lambda>mi.
       thn (assert_c (\<lambda>_. mi \<noteq> 0)) (ret mi)))"

definition mod_alloc_record :: "params \<Rightarrow> w64 \<Rightarrow> del_op \<Rightarrow> unit aprog" where
  "mod_alloc_record P ptr rev_func =
     bnd (gets as_initialized) (\<lambda>i. if \<not> i then stop ExitProc
     else bnd mod_alloc_specific (\<lambda>mi.
       thn (bnd (al_do (xmalloc P)) (\<lambda>_. ret ()))
           (set_alloc mi (\<lambda>i. i\<lparr>ai_allocated := \<lparr>ab_addr = ptr, ab_rev_func = rev_func\<rparr> # ai_allocated i\<rparr>))))"

text \<open>The empty store takes the lock of the first word; the size of the block is not known.\<close>

definition mod_free_record :: "nat \<Rightarrow> params \<Rightarrow> w64 \<Rightarrow> del_op \<Rightarrow> unit aprog" where
  "mod_free_record n P addr rev_func =
     bnd (gets as_initialized) (\<lambda>i. if \<not> i then stop ExitProc
     else bnd mod_alloc_specific (\<lambda>mi.
       thn (al_do (stm_store2 n P addr 0 0))
      (thn (bnd (al_do (xmalloc P)) (\<lambda>_. ret ()))
           (set_alloc mi (\<lambda>i. i\<lparr>ai_freed := \<lparr>ab_addr = addr, ab_rev_func = rev_func\<rparr> # ai_freed i\<rparr>)))))"

section \<open>Commit and abort\<close>

text \<open>
  The records of one list are dropped, those of the other are called head first.  The
  operators do not use this module, so the lists do not change while they run.
\<close>

definition rev_calls :: "cpp \<Rightarrow> mod_alloc_block list \<Rightarrow> unit aprog" where
  "rev_calls E bs = each_c (\<lambda>b. al_do (modify (op_del E (ab_rev_func b) (ab_addr b)))) bs"

definition mod_alloc_on_commit :: "cpp \<Rightarrow> unit aprog" where
  "mod_alloc_on_commit E =
     bnd mod_alloc_specific (\<lambda>mi.
       thn (set_alloc mi (\<lambda>i. i\<lparr>ai_allocated := []\<rparr>))
      (bnd (gets (\<lambda>s. ai_freed (as_info s mi))) (\<lambda>bs.
       thn (rev_calls E bs) (set_alloc mi (\<lambda>i. i\<lparr>ai_freed := []\<rparr>)))))"

definition mod_alloc_on_abort :: "cpp \<Rightarrow> unit aprog" where
  "mod_alloc_on_abort E =
     bnd mod_alloc_specific (\<lambda>mi.
     bnd (gets (\<lambda>s. ai_allocated (as_info s mi))) (\<lambda>bs.
       thn (rev_calls E bs)
      (thn (set_alloc mi (\<lambda>i. i\<lparr>ai_allocated := []\<rparr>))
           (set_alloc mi (\<lambda>i. i\<lparr>ai_freed := []\<rparr>)))))"

section \<open>Threads and initialisation\<close>

definition mod_alloc_on_thread_init :: "params \<Rightarrow> unit aprog" where
  "mod_alloc_on_thread_init P =
     bnd (al_do (xmalloc P)) (\<lambda>mi.
       thn (set_alloc mi (\<lambda>_. \<lparr>ai_allocated = [], ai_freed = []\<rparr>))
           (bnd (gets as_key) (\<lambda>k. al_do (stm_set_specific k mi))))"

definition mod_alloc_on_thread_exit :: "unit aprog" where
  "mod_alloc_on_thread_exit =
     bnd (gets as_key) (\<lambda>k. bnd (al_do (stm_get_specific k)) (\<lambda>_. ret ()))"

text \<open>The result of \<open>stm_register\<close> is not looked at.\<close>

definition mod_alloc_cpp :: "cb_set \<Rightarrow> unit aprog" where
  "mod_alloc_cpp cbs =
     bnd (gets as_initialized) (\<lambda>i. if i then ret ()
     else
       bnd (al_do (stm_register (cbs\<lparr>on_start := 0, on_precommit := 0\<rparr>) 0)) (\<lambda>_.
       bnd (al_do stm_create_specific) (\<lambda>k.
         thn (modify (\<lambda>s. s\<lparr>as_key := k\<rparr>))
         (if k < 0 then stop ExitProc else modify (\<lambda>s. s\<lparr>as_initialized := True\<rparr>)))))"

section \<open>Operators\<close>

definition tx_new :: "params \<Rightarrow> cpp \<Rightarrow> del_op \<Rightarrow> w64 \<Rightarrow> w64 aprog" where
  "tx_new P E k sz = bnd (al_do (op_new E k sz)) (\<lambda>a. thn (mod_alloc_record P a k) (ret a))"

definition ZGTtnwm :: "params \<Rightarrow> cpp \<Rightarrow> w64 \<Rightarrow> w64 aprog" where
  "ZGTtnwm P E sz = tx_new P E ZdlPv sz"

definition ZGTtnam :: "params \<Rightarrow> cpp \<Rightarrow> w64 \<Rightarrow> w64 aprog" where
  "ZGTtnam P E sz = tx_new P E ZdaPv sz"

definition ZGTtnwmRKSt9nothrow_t :: "params \<Rightarrow> cpp \<Rightarrow> w64 \<Rightarrow> w64 aprog" where
  "ZGTtnwmRKSt9nothrow_t P E sz = tx_new P E ZdlPvRKSt9nothrow_t1 sz"

definition ZGTtnamRKSt9nothrow_t :: "params \<Rightarrow> cpp \<Rightarrow> w64 \<Rightarrow> w64 aprog" where
  "ZGTtnamRKSt9nothrow_t P E sz = tx_new P E ZdaPvRKSt9nothrow_t1 sz"

definition ZGTtdlPv :: "nat \<Rightarrow> params \<Rightarrow> w64 \<Rightarrow> unit aprog" where
  "ZGTtdlPv n P ptr = mod_free_record n P ptr ZdlPv"

definition ZGTtdlPvRKSt9nothrow_t :: "nat \<Rightarrow> params \<Rightarrow> w64 \<Rightarrow> unit aprog" where
  "ZGTtdlPvRKSt9nothrow_t n P ptr = mod_free_record n P ptr ZdlPvRKSt9nothrow_t1"

definition ZGTtdaPv :: "nat \<Rightarrow> params \<Rightarrow> w64 \<Rightarrow> unit aprog" where
  "ZGTtdaPv n P ptr = mod_free_record n P ptr ZdaPv"

definition ZGTtdaPvRKSt9nothrow_t :: "nat \<Rightarrow> params \<Rightarrow> w64 \<Rightarrow> unit aprog" where
  "ZGTtdaPvRKSt9nothrow_t n P ptr = mod_free_record n P ptr ZdaPvRKSt9nothrow_t1"

text \<open>The operators of each pair.\<close>

definition new_with :: "params \<Rightarrow> cpp \<Rightarrow> del_op \<Rightarrow> w64 \<Rightarrow> w64 aprog" where
  "new_with P E k = (case k of ZdlPv \<Rightarrow> ZGTtnwm P E | ZdaPv \<Rightarrow> ZGTtnam P E
     | ZdlPvRKSt9nothrow_t1 \<Rightarrow> ZGTtnwmRKSt9nothrow_t P E | ZdaPvRKSt9nothrow_t1 \<Rightarrow> ZGTtnamRKSt9nothrow_t P E)"

definition delete_with :: "nat \<Rightarrow> params \<Rightarrow> del_op \<Rightarrow> w64 \<Rightarrow> unit aprog" where
  "delete_with n P k = (case k of ZdlPv \<Rightarrow> ZGTtdlPv n P | ZdaPv \<Rightarrow> ZGTtdaPv n P
     | ZdlPvRKSt9nothrow_t1 \<Rightarrow> ZGTtdlPvRKSt9nothrow_t n P | ZdaPvRKSt9nothrow_t1 \<Rightarrow> ZGTtdaPvRKSt9nothrow_t n P)"

lemma new_with [simp]: "new_with P E k = tx_new P E k"
  by (cases k) (simp_all add: new_with_def ZGTtnwm_def ZGTtnam_def ZGTtnwmRKSt9nothrow_t_def
      ZGTtnamRKSt9nothrow_t_def fun_eq_iff)

lemma delete_with [simp]: "delete_with n P k = (\<lambda>a. mod_free_record n P a k)"
  by (cases k) (simp_all add: delete_with_def ZGTtdlPv_def ZGTtdaPv_def ZGTtdlPvRKSt9nothrow_t_def
      ZGTtdaPvRKSt9nothrow_t_def fun_eq_iff)

section \<open>Lemmas\<close>

lemma wp_al_do [wp_simps, simp]:
  "wp (al_do m) s Q E = wp m (as_stm s) (\<lambda>x t. Q x (s\<lparr>as_stm := t\<rparr>)) (\<lambda>r t. E r (s\<lparr>as_stm := t\<rparr>))"
  by (cases "m (as_stm s)"; cases "fst (m (as_stm s))") (simp_all add: wp_def al_do_def)

lemma wp_set_alloc [wp_simps, simp]:
  "wp (set_alloc p f) s Q E = Q () (s\<lparr>as_info := (as_info s)(p := f (as_info s p))\<rparr>)"
  by (simp add: set_alloc_def)

text \<open>The thread has initialised the module: its descriptor is at \<open>mi\<close>.\<close>

definition al_ready :: "w64 \<Rightarrow> alloc_st \<Rightarrow> bool" where
  "al_ready mi s \<longleftrightarrow> as_initialized s \<and> mi \<noteq> 0 \<and> valid_key (as_key s) (as_stm s)
     \<and> tx_data (s_tx (as_stm s)) ! nat (as_key s) = mi"

lemma al_specific: "al_ready mi s \<Longrightarrow> wp mod_alloc_specific s Q E = Q mi s"
  by (simp add: mod_alloc_specific_def al_ready_def stm_get_specific_def int_stm_get_specific_def)

lemma al_ready_upd [simp]:
  "al_ready mi (s\<lparr>as_info := f\<rparr>) = al_ready mi s"
  "al_ready mi (s\<lparr>as_stm := (as_stm s)\<lparr>s_nalloc := k\<rparr>\<rparr>) = al_ready mi s"
  "al_ready mi (s\<lparr>as_stm := t\<lparr>s_nalloc := k\<rparr>\<rparr>) = al_ready mi (s\<lparr>as_stm := t\<rparr>)"
  by (simp_all add: al_ready_def valid_key_def)

lemma world_al_ready:
  assumes "same_world (as_stm s) t" "al_ready mi s"
  shows "al_ready mi (s\<lparr>as_stm := t\<rparr>)"
  using assms(2) same_world_data [OF assms(1)] by (simp add: al_ready_def valid_key_def)

definition dels :: "cpp \<Rightarrow> mod_alloc_block list \<Rightarrow> st \<Rightarrow> st" where
  "dels E bs = fold (\<lambda>b. op_del E (ab_rev_func b) (ab_addr b)) bs"

lemma rev_calls_spec:
  "wp (rev_calls E bs) s Q X = Q () (s\<lparr>as_stm := dels E bs (as_stm s)\<rparr>)"
  by (induction bs arbitrary: s) (simp_all add: rev_calls_def dels_def)

lemma alloc_commit:
  assumes "al_ready mi s"
  shows "wp (mod_alloc_on_commit E) s (\<lambda>_ t. as_stm t = dels E (ai_freed (as_info s mi)) (as_stm s)
    \<and> as_info t mi = \<lparr>ai_allocated = [], ai_freed = []\<rparr>) never"
  unfolding mod_alloc_on_commit_def wp_bnd al_specific [OF assms] by (simp add: rev_calls_spec)

lemma alloc_abort:
  assumes "al_ready mi s"
  shows "wp (mod_alloc_on_abort E) s (\<lambda>_ t. as_stm t = dels E (ai_allocated (as_info s mi)) (as_stm s)
    \<and> as_info t mi = \<lparr>ai_allocated = [], ai_freed = []\<rparr>) never"
  unfolding mod_alloc_on_abort_def wp_bnd al_specific [OF assms] by (simp add: rev_calls_spec)

section \<open>A transaction that uses the operators\<close>

datatype cpp_op = New del_op w64 | Delete del_op w64 | Touch tx_op

fun run_cpp :: "nat \<Rightarrow> params \<Rightarrow> cpp \<Rightarrow> cpp_op list \<Rightarrow> (w64 list \<times> w64 list) aprog" where
  "run_cpp n P E [] = ret ([], [])"
| "run_cpp n P E (New k sz # ops) =
     bnd (new_with P E k sz) (\<lambda>a. bnd (run_cpp n P E ops) (\<lambda>(as, vs). ret (a # as, vs)))"
| "run_cpp n P E (Delete k a # ops) = thn (delete_with n P k a) (run_cpp n P E ops)"
| "run_cpp n P E (Touch (Load a) # ops) =
     bnd (al_do (stm_load n P a)) (\<lambda>v. bnd (run_cpp n P E ops) (\<lambda>(as, vs). ret (as, v # vs)))"
| "run_cpp n P E (Touch (Store a v m) # ops) = thn (al_do (stm_store2 n P a v m)) (run_cpp n P E ops)"

fun touched :: "cpp_op list \<Rightarrow> tx_op list" where
  "touched [] = []"
| "touched (Touch x # ops) = x # touched ops"
| "touched (_ # ops) = touched ops"

definition block :: "del_op \<Rightarrow> w64 \<Rightarrow> mod_alloc_block" where
  "block k a = \<lparr>ab_addr = a, ab_rev_func = k\<rparr>"

fun deleted :: "cpp_op list \<Rightarrow> mod_alloc_block list" where
  "deleted [] = []"
| "deleted (Delete k a # ops) = block k a # deleted ops"
| "deleted (_ # ops) = deleted ops"

fun news :: "cpp_op list \<Rightarrow> del_op list" where
  "news [] = []"
| "news (New k sz # ops) = k # news ops"
| "news (_ # ops) = news ops"

text \<open>The entries of the write set the operations may need.\<close>

fun cpp_need :: "cpp_op list \<Rightarrow> nat" where
  "cpp_need [] = 0"
| "cpp_need (Delete k a # ops) = Suc (cpp_need ops)"
| "cpp_need (Touch (Store a v m) # ops) = Suc (cpp_need ops)"
| "cpp_need (_ # ops) = cpp_need ops"

text \<open>Allocating changes nothing the transaction sees; the count of allocations may move.\<close>

definition plain_new :: "cpp \<Rightarrow> bool" where
  "plain_new E \<longleftrightarrow> (\<forall>k sz s. \<exists>a i. op_new E k sz s = (Ret a, s\<lparr>s_nalloc := i\<rparr>))"

definition cpp_inv ::
    "params \<Rightarrow> nat \<Rightarrow> w64 \<Rightarrow> nat \<Rightarrow> (w64 \<Rightarrow> w64) \<Rightarrow> mod_alloc_block list \<Rightarrow> mod_alloc_block list \<Rightarrow> alloc_st \<Rightarrow> bool" where
  "cpp_inv P M mi k mem fs bs s \<longleftrightarrow> tx_ok P M k (as_stm s) \<and> tx_view P (as_stm s) = mem
     \<and> al_ready mi s \<and> ai_freed (as_info s mi) = fs \<and> ai_allocated (as_info s mi) = bs"

lemma cpp_inv_nalloc [simp]:
  "cpp_inv P M mi k mem fs bs (s\<lparr>as_stm := (as_stm s)\<lparr>s_nalloc := i\<rparr>\<rparr>) = cpp_inv P M mi k mem fs bs s"
  by (simp add: cpp_inv_def)

lemma cpp_new:
  assumes inv: "cpp_inv P M mi k mem fs bs s" and al: "\<forall>i. alloc P i \<noteq> 0" and new: "plain_new E"
  shows "wp (tx_new P E d sz) s (\<lambda>a t. cpp_inv P M mi k mem fs (block d a # bs) t) never"
proof -
  obtain a i where a: "op_new E d sz (as_stm s) = (Ret a, (as_stm s)\<lparr>s_nalloc := i\<rparr>)"
    using new unfolding plain_new_def by blast
  let ?u = "s\<lparr>as_stm := (as_stm s)\<lparr>s_nalloc := i\<rparr>\<rparr>"
  have u: "al_ready mi ?u" "as_initialized s" using inv by (simp_all add: cpp_inv_def al_ready_def valid_key_def)
  have "wp (mod_alloc_record P a d) ?u (\<lambda>_ t. cpp_inv P M mi k mem fs (block d a # bs) t) never"
    using u(2) al inv unfolding mod_alloc_record_def wp_bnd
    by (simp add: al_specific [OF u(1)] xmalloc_def cpp_inv_def block_def)
  then show ?thesis by (simp add: tx_new_def wp_exec [where m = "op_new E d sz" and s = "as_stm s", OF a])
qed

lemma cpp_access:
  assumes inv: "cpp_inv P M mi k mem fs bs s"
    and m: "wp m (as_stm s) (\<lambda>v t. tx_ok P M j t \<and> tx_view P t = mem' \<and> Q v) never"
    and w: "wp m (as_stm s) (\<lambda>_ t. same_world (as_stm s) t) never"
  shows "wp (al_do m) s (\<lambda>v t. Q v \<and> cpp_inv P M mi j mem' fs bs t) never"
  unfolding wp_al_do
  by (rule wp_mono [OF wp_conj_never [OF m w]]) (use inv world_al_ready in \<open>auto simp: cpp_inv_def\<close>)

lemma cpp_store:
  assumes inv: "cpp_inv P M mi (Suc k) mem fs bs s"
  shows "wp (al_do (stm_store2 (n + 3) P a v m)) s
    (\<lambda>_ t. cpp_inv P M mi k (mem(a := merge_mask (mem a) v m)) fs bs t) never"
proof -
  have ok: "tx_ok P M (Suc k) (as_stm s)" and vw: "tx_view P (as_stm s) = mem" using inv by (simp_all add: cpp_inv_def)
  show ?thesis
    using cpp_access [OF inv, of "stm_store2 (n + 3) P a v m" k _ "\<lambda>_. True"] tx_store [OF ok, of n a v m]
      tx_store_world [OF ok] vw by simp
qed

lemma cpp_delete:
  assumes inv: "cpp_inv P M mi (Suc k) mem fs bs s" and al: "\<forall>i. alloc P i \<noteq> 0"
  shows "wp (mod_free_record (n + 3) P a d) s (\<lambda>_ t. cpp_inv P M mi k mem (block d a # fs) bs t) never"
proof -
  have r: "al_ready mi s" "as_initialized s" using inv by (simp_all add: cpp_inv_def al_ready_def)
  have t: "wp (al_do (stm_store2 (n + 3) P a 0 0)) s (\<lambda>_ t. cpp_inv P M mi k mem fs bs t) never"
    using cpp_store [OF inv, of n a 0 0] by simp
  show ?thesis
    unfolding mod_free_record_def wp_bnd wp_gets using r(2)
    by (simp add: al_specific [OF r(1)])
      (rule wp_mono [OF t [unfolded wp_al_do]]; use al in \<open>simp add: xmalloc_def cpp_inv_def block_def\<close>)
qed

lemma run_cpp_spec:
  "cpp_inv P M mi (cpp_need ops) mem fs bs s \<Longrightarrow> \<forall>i. alloc P i \<noteq> 0 \<Longrightarrow> plain_new E \<Longrightarrow>
    wp (run_cpp (n + 3) P E ops) s
      (\<lambda>(as, vs) t. length as = length (news ops) \<and> vs = fst (spec_ops (touched ops) mem)
         \<and> cpp_inv P M mi 0 (snd (spec_ops (touched ops) mem))
             (rev (deleted ops) @ fs) (rev (map2 block (news ops) as) @ bs) t) never"
proof (induction ops arbitrary: mem fs bs s)
  case Nil
  then show ?case by simp
next
  case (Cons op ops)
  note inv = Cons.prems(1)
  show ?case
  proof (cases op)
    case (New k sz)
    have m: "cpp_inv P M mi (cpp_need ops) mem fs bs s" using inv New by simp
    show ?thesis
      unfolding New run_cpp.simps wp_bnd new_with
      by (rule wp_mono [OF cpp_new [OF m Cons.prems(2,3)]], rule wp_mono [OF Cons.IH])
        (use Cons.prems in \<open>auto split: prod.splits\<close>)
  next
    case (Delete k a)
    have m: "cpp_inv P M mi (Suc (cpp_need ops)) mem fs bs s" using inv Delete by simp
    show ?thesis
      unfolding Delete run_cpp.simps wp_thn delete_with
      by (rule wp_mono [OF cpp_delete [OF m Cons.prems(2)]], rule wp_mono [OF Cons.IH])
        (use Cons.prems in \<open>auto split: prod.splits\<close>)
  next
    case (Touch x)
    show ?thesis
    proof (cases x)
      case (Load a)
      have m: "cpp_inv P M mi (cpp_need ops) mem fs bs s" using inv Touch Load by simp
      then have ok: "tx_ok P M (cpp_need ops) (as_stm s)" and vw: "tx_view P (as_stm s) = mem" by (simp_all add: cpp_inv_def)
      have "wp (stm_load (n + 3) P a) (as_stm s)
        (\<lambda>v t. tx_ok P M (cpp_need ops) t \<and> tx_view P t = mem \<and> v = mem a) never"
        by (rule wp_mono [OF tx_load [OF ok]]) (use vw in auto)
      note load = cpp_access [OF m this tx_load_world [OF ok]]
      show ?thesis
        unfolding Touch Load run_cpp.simps wp_bnd
        by (rule wp_mono [OF load], elim conjE, rule wp_mono [OF Cons.IH])
          (use Cons.prems in \<open>auto split: prod.splits\<close>)
    next
      case (Store a v m)
      have i: "cpp_inv P M mi (Suc (cpp_need ops)) mem fs bs s" using inv Touch Store by simp
      show ?thesis
        unfolding Touch Store run_cpp.simps wp_thn
        by (rule wp_mono [OF cpp_store [OF i]], rule wp_mono [OF Cons.IH])
          (use Cons.prems in \<open>auto simp: fun_upd_def split: prod.splits\<close>)
    qed
  qed
qed

section \<open>Property\<close>


definition sample_cpp :: cpp where
  "sample_cpp = \<lparr>op_new = (\<lambda>k sz s. (Ret (4096 + 64 * of_nat (s_nalloc s)), s\<lparr>s_nalloc := Suc (s_nalloc s)\<rparr>)),
     op_del = (\<lambda>k a s. s\<lparr>s_cur := a + s_cur s\<rparr>)\<rparr>"

definition sample_alloc :: alloc_st where
  "sample_alloc = \<lparr>as_stm = cs_stm sample_mem_tx, as_key = 0, as_initialized = True,
     as_info = (\<lambda>_. \<lparr>ai_allocated = [], ai_freed = []\<rparr>)\<rparr>"


end
