(* ===== verification/AbiInit.thy ===== *)
theory AbiInit
  imports AllocCpp ModLog
begin

text \<open>
  Initialisation and finalisation of the compiler adapter (\<open>src/abi/abi.c\<close>, built for GCC):
  the status every thread tests before it uses the library, and who initialises and shuts
  down the library and its modules.

  The state puts the status beside the library's state and the states of the modules the
  adapter includes.  The library is configured like the stand-alone one; the contention
  manager \<open>src/abi/Makefile.common\<close> selects, \<open>CM_SUICIDE\<close>, does not compile.  \<open>printf\<close>, \<open>atexit\<close>
  and the statistics report are output only: no thread ever adds to the list it prints.
\<close>

section \<open>The status\<close>

datatype abi_status =
    ABI_NOT_INITIALIZED
  | ABI_INITIALIZING
  | ABI_INITIALIZED
  | ABI_FINALIZING

text \<open>
  The places of \<open>abi_init\<close> (\<open>Check\<close> to \<open>Recheck\<close>) and of \<open>abi_exit\<close> (\<open>XCheck\<close> to \<open>Teardown\<close>) at
  which the status is read or written; \<open>Idle\<close> is outside of both.  \<open>Setup\<close> and \<open>Teardown\<close> are
  the stores at the end of the work that only one thread may do.
\<close>

datatype abi_pc = Idle | Check | Claim | Setup | Recheck | XCheck | XClaim | Teardown

fun status_step :: "abi_pc \<Rightarrow> abi_status \<Rightarrow> abi_pc \<times> abi_status" where
  "status_step Idle st = (Idle, st)"
| "status_step Check st = (if st = ABI_NOT_INITIALIZED then Claim else Recheck, st)"
| "status_step Claim st = (if st = ABI_NOT_INITIALIZED then (Setup, ABI_INITIALIZING) else (Check, st))"
| "status_step Setup st = (Idle, ABI_INITIALIZED)"
| "status_step Recheck st = (if st \<noteq> ABI_INITIALIZED then Check else Idle, st)"
| "status_step XCheck st = (if st = ABI_INITIALIZED then XClaim else Idle, st)"
| "status_step XClaim st = (if st = ABI_INITIALIZED then (Teardown, ABI_FINALIZING) else (XCheck, st))"
| "status_step Teardown st = (Idle, ABI_NOT_INITIALIZED)"

section \<open>State\<close>

record abi_st =
  ab_status :: abi_status
  ab_tick :: nat
  ab_stm :: st
  ab_cb_key :: int
  ab_cb_info :: "w64 \<Rightarrow> mod_cb_info"
  ab_log_key :: int
  ab_log_initialized :: bool
  ab_log_sets :: "w64 \<Rightarrow> log_set"
  ab_al_key :: int
  ab_al_initialized :: bool
  ab_al_info :: "w64 \<Rightarrow> mod_alloc_info"
  ab_freed :: "w64 list"

type_synonym 'a iprog = "(abi_st, 'a) comp"

text \<open>
  What the adapter is linked with: the library's parameters, the other threads' changes to
  the status, the C++ operators, the address of \<open>free\<close>, \<open>malloc_usable_size\<close>, and the
  addresses of the functions each module registers.
\<close>

record abi_env =
  ae_stm :: params
  ae_move :: "nat \<Rightarrow> abi_status \<Rightarrow> abi_status"
  ae_cpp :: cpp
  ae_free :: w64
  ae_block_size :: "w64 \<Rightarrow> w64"
  ae_mem_cbs :: cb_set
  ae_alloc_cbs :: cb_set
  ae_log_cbs :: cb_set

definition in_stm :: "'a prog \<Rightarrow> 'a iprog" where
  "in_stm m s = (case m (ab_stm s) of (r, t) \<Rightarrow> (r, s\<lparr>ab_stm := t\<rparr>))"

definition in_cb :: "'a cprog \<Rightarrow> 'a iprog" where
  "in_cb m s = (case m \<lparr>cs_stm = ab_stm s, cs_key = ab_cb_key s, cs_info = ab_cb_info s\<rparr> of
     (r, t) \<Rightarrow> (r, s\<lparr>ab_stm := cs_stm t, ab_cb_key := cs_key t, ab_cb_info := cs_info t\<rparr>))"

definition in_log :: "'a lprog \<Rightarrow> 'a iprog" where
  "in_log m s = (case m \<lparr>lg_stm = ab_stm s, lg_key = ab_log_key s, lg_initialized = ab_log_initialized s,
       lg_sets = ab_log_sets s\<rparr> of
     (r, t) \<Rightarrow> (r, s\<lparr>ab_stm := lg_stm t, ab_log_key := lg_key t, ab_log_initialized := lg_initialized t,
       ab_log_sets := lg_sets t\<rparr>))"

definition in_alloc :: "'a aprog \<Rightarrow> 'a iprog" where
  "in_alloc m s = (case m \<lparr>as_stm = ab_stm s, as_key = ab_al_key s, as_initialized = ab_al_initialized s,
       as_info = ab_al_info s\<rparr> of
     (r, t) \<Rightarrow> (r, s\<lparr>ab_stm := as_stm t, ab_al_key := as_key t, ab_al_initialized := as_initialized t,
       ab_al_info := as_info t\<rparr>))"

definition abi_move :: "abi_env \<Rightarrow> unit iprog" where
  "abi_move E = modify (\<lambda>s. s\<lparr>ab_status := ae_move E (ab_tick s) (ab_status s), ab_tick := Suc (ab_tick s)\<rparr>)"

text \<open>One access to the status, and where it leads.\<close>

definition access_status :: "abi_env \<Rightarrow> abi_pc \<Rightarrow> abi_pc iprog" where
  "access_status E c =
     thn (abi_move E)
    (bnd (gets (\<lambda>s. status_step c (ab_status s))) (\<lambda>r.
       thn (modify (\<lambda>s. s\<lparr>ab_status := snd r\<rparr>)) (ret (fst r))))"

section \<open>Initialisation and finalisation\<close>

text \<open>
  \<open>stm_init\<close>, \<open>mod_mem_init\<close>, \<open>mod_alloc_cpp\<close>, \<open>mod_log_init\<close> and \<open>mod_cb_init\<close>, which is
  \<open>mod_cb_mem_init\<close> again.
\<close>

definition abi_modules :: "abi_env \<Rightarrow> unit iprog" where
  "abi_modules E =
     thn (in_stm (stm_init (ae_stm E)))
    (thn (in_cb (mod_cb_mem_init (ae_mem_cbs E)))
    (thn (in_alloc (mod_alloc_cpp (ae_alloc_cbs E)))
    (thn (in_log (mod_log_init (ae_log_cbs E)))
         (in_cb (mod_cb_mem_init (ae_mem_cbs E))))))"

text \<open>
  \<open>abi_init\<close> and \<open>abi_init_thread\<close> call each other: the loop of \<open>abi_init\<close> takes the latter as an
  argument, and \<open>abi_init_thread\<close> ties the knot with fuel.  The fuel also bounds the reloads.  A
  thread that initialised the library initialises itself at once.
\<close>

primrec abi_init_loop :: "nat \<Rightarrow> abi_env \<Rightarrow> w64 iprog \<Rightarrow> abi_pc \<Rightarrow> unit iprog" where
  "abi_init_loop 0 E init_thread c = stop Diverge"
| "abi_init_loop (Suc n) E init_thread c =
    (if c = Idle then ret ()
     else if c = Setup then
       thn (abi_modules E) (bnd (access_status E Setup) (\<lambda>_. bnd init_thread (\<lambda>_. ret ())))
     else bnd (access_status E c) (\<lambda>d. abi_init_loop n E init_thread d))"

primrec abi_init_thread :: "nat \<Rightarrow> abi_env \<Rightarrow> w64 iprog" where
  "abi_init_thread 0 E = stop Diverge"
| "abi_init_thread (Suc n) E =
     bnd (in_stm tls_get_tx) (\<lambda>tx. if tx \<noteq> 0 then ret tx
     else thn (abi_move E)
         (bnd (gets ab_status) (\<lambda>st.
            thn (when_c (st \<noteq> ABI_INITIALIZED) (abi_init_loop (Suc n) E (abi_init_thread n E) Check))
                (in_stm (stm_init_thread (Suc n) (ae_stm E))))))"

definition abi_init :: "nat \<Rightarrow> abi_env \<Rightarrow> unit iprog" where
  "abi_init n E = abi_init_loop n E (abi_init_thread n E) Check"

definition abi_exit_thread :: "nat \<Rightarrow> abi_env \<Rightarrow> w64 \<Rightarrow> unit iprog" where
  "abi_exit_thread n E tx = (if tx = 0 then ret () else in_stm (stm_exit_thread n (ae_stm E)))"

primrec abi_exit_loop :: "nat \<Rightarrow> abi_env \<Rightarrow> abi_pc \<Rightarrow> unit iprog" where
  "abi_exit_loop 0 E c = stop Diverge"
| "abi_exit_loop (Suc n) E c =
    (if c = Idle then ret ()
     else thn (when_c (c = Teardown) (in_stm stm_exit))
         (bnd (access_status E c) (\<lambda>d. abi_exit_loop n E d)))"

definition abi_exit :: "nat \<Rightarrow> abi_env \<Rightarrow> unit iprog" where
  "abi_exit n E = bnd (in_stm tls_get_tx) (\<lambda>tx. thn (abi_exit_thread n E tx) (abi_exit_loop n E XCheck))"

section \<open>Lemmas\<close>

lemma wp_in_stm [wp_simps, simp]:
  "wp (in_stm m) s Q X = wp m (ab_stm s) (\<lambda>x t. Q x (s\<lparr>ab_stm := t\<rparr>)) (\<lambda>r t. X r (s\<lparr>ab_stm := t\<rparr>))"
  by (cases "m (ab_stm s)"; cases "fst (m (ab_stm s))") (simp_all add: wp_def in_stm_def)

lemma wp_access_status [wp_simps, simp]:
  "wp (access_status E c) s Q X = (case status_step c (ae_move E (ab_tick s) (ab_status s)) of
     (d, st) \<Rightarrow> Q d (s\<lparr>ab_status := st, ab_tick := Suc (ab_tick s)\<rparr>))"
  by (cases s) (simp add: access_status_def abi_move_def split: prod.splits)

section \<open>All threads together\<close>

text \<open>
  Any number of threads call \<open>abi_init\<close> and \<open>abi_exit\<close>, at any time and in any order.  The
  events, the latest first, are the completed initialisations and finalisations.
\<close>

datatype abi_event = Initialized nat | Finalized nat

fun event_of :: "nat \<Rightarrow> abi_pc \<Rightarrow> abi_event list" where
  "event_of t Setup = [Initialized t]"
| "event_of t Teardown = [Finalized t]"
| "event_of t _ = []"

inductive abi_runs :: "abi_event list \<Rightarrow> (nat \<Rightarrow> abi_pc) \<Rightarrow> abi_status \<Rightarrow> bool" where
  start: "abi_runs [] (\<lambda>_. Idle) ABI_NOT_INITIALIZED"
| call: "abi_runs es pc st \<Longrightarrow> pc t = Idle \<Longrightarrow> c = Check \<or> c = XCheck \<Longrightarrow> abi_runs es (pc(t := c)) st"
| step: "abi_runs es pc st \<Longrightarrow> status_step (pc t) st = (c, st') \<Longrightarrow>
    abi_runs (event_of t (pc t) @ es) (pc(t := c)) st'"

fun is_up :: "abi_event list \<Rightarrow> bool" where
  "is_up (Initialized t # es) = True"
| "is_up _ = False"

text \<open>Initialisations and finalisations take turns.\<close>

fun take_turns :: "abi_event list \<Rightarrow> bool" where
  "take_turns [] = True"
| "take_turns (Initialized t # es) = (\<not> is_up es \<and> take_turns es)"
| "take_turns (Finalized t # es) = (is_up es \<and> take_turns es)"

text \<open>The threads at a place, and which of them the status says is at work.\<close>

definition at_pc :: "(nat \<Rightarrow> abi_pc) \<Rightarrow> abi_pc \<Rightarrow> nat set" where
  "at_pc pc c = {t. pc t = c}"

definition abi_inv :: "abi_event list \<Rightarrow> (nat \<Rightarrow> abi_pc) \<Rightarrow> abi_status \<Rightarrow> bool" where
  "abi_inv es pc st \<longleftrightarrow> take_turns es \<and> is_up es = (st \<in> {ABI_INITIALIZED, ABI_FINALIZING})
     \<and> (if st = ABI_INITIALIZING then \<exists>t. at_pc pc Setup = {t} else at_pc pc Setup = {})
     \<and> (if st = ABI_FINALIZING then \<exists>t. at_pc pc Teardown = {t} else at_pc pc Teardown = {})"

lemma at_pc_upd: "at_pc (pc(t := c)) d = (if c = d then insert t (at_pc pc d) else at_pc pc d - {t})"
  "at_pc (\<lambda>u. if u = t then c else pc u) d = (if c = d then insert t (at_pc pc d) else at_pc pc d - {t})"
  by (auto simp: at_pc_def)

lemma at_pc_pc: "t \<in> at_pc pc c \<longleftrightarrow> pc t = c"
  by (simp add: at_pc_def)

lemma abi_runs_inv: "abi_runs es pc st \<Longrightarrow> abi_inv es pc st"
proof (induction rule: abi_runs.induct)
  case start
  then show ?case by (simp add: abi_inv_def at_pc_def)
next
  case (call es pc st t c)
  have "t \<notin> at_pc pc Setup" "t \<notin> at_pc pc Teardown" using call.hyps by (simp_all add: at_pc_pc)
  then show ?case using call by (auto simp: abi_inv_def at_pc_upd)
next
  case (step es pc st t c st')
  have "t \<in> at_pc pc Setup \<longleftrightarrow> pc t = Setup" "t \<in> at_pc pc Teardown \<longleftrightarrow> pc t = Teardown" by (simp_all add: at_pc_pc)
  then show ?case using step by (cases "pc t"; cases st) (auto simp: abi_inv_def at_pc_upd)
qed

text \<open>When the library is initialised, initialising it again does nothing.\<close>

lemma abi_init_again:
  assumes "ab_status s = ABI_INITIALIZED" "\<forall>i st. ae_move E i st = st" "3 \<le> n"
  shows "wp (abi_init n E) s (\<lambda>_ t. t = s\<lparr>ab_tick := ab_tick s + 2\<rparr>) never"
proof -
  obtain m where "n = 3 + m" using le_Suc_ex [OF assms(3)] by blast
  then have n: "n = Suc (Suc (Suc m))" by simp
  show ?thesis using assms(1,2) unfolding abi_init_def n by (cases s) simp
qed

section \<open>Properties\<close>

text \<open>C30: However many threads initialise and finalise the adapter at the same time, at most one of them
  does the work at any moment, initialisations and finalisations alternate beginning with an
  initialisation, and a waiting thread goes on only after an initialisation that was not undone.\<close>

theorem initialisation_is_exclusive:
  assumes "abi_runs es pc st"
  shows "take_turns es
    \<and> (\<forall>t u. pc t \<in> {Setup, Teardown} \<longrightarrow> pc u \<in> {Setup, Teardown} \<longrightarrow> t = u)
    \<and> (\<forall>t. pc t = Recheck \<longrightarrow> fst (status_step (pc t) st) = Idle \<longrightarrow> is_up es)"
proof -
  have inv: "abi_inv es pc st" by (rule abi_runs_inv [OF assms])
  have "t = u" if "pc t \<in> {Setup, Teardown}" "pc u \<in> {Setup, Teardown}" for t u
  proof -
    have "t \<in> at_pc pc Setup \<union> at_pc pc Teardown" "u \<in> at_pc pc Setup \<union> at_pc pc Teardown"
      using that by (auto simp: at_pc_pc)
    then show ?thesis using inv by (cases st) (auto simp: abi_inv_def)
  qed
  then show ?thesis using inv by (auto simp: abi_inv_def split: if_splits)
qed

text \<open>Thread 0 initialises while thread 1 finds the work taken and waits.\<close>

lemma sample_abi_run: "abi_runs [Initialized 0] ((\<lambda>_. Idle)(0 := Idle, 1 := Recheck)) ABI_INITIALIZED"
proof -
  note c = abi_runs.call and s = abi_runs.step
  have "abi_runs [] ((\<lambda>_. Idle)(0 := Check)) ABI_NOT_INITIALIZED"
    by (rule c [OF abi_runs.start]) simp_all
  from s [OF this, of 0] have "abi_runs [] ((\<lambda>_. Idle)(0 := Claim)) ABI_NOT_INITIALIZED" by simp
  from s [OF this, of 0] have "abi_runs [] ((\<lambda>_. Idle)(0 := Setup)) ABI_INITIALIZING" by simp
  from c [OF this, of 1 Check] have "abi_runs [] ((\<lambda>_. Idle)(0 := Setup, 1 := Check)) ABI_INITIALIZING" by simp
  from s [OF this, of 1] have "abi_runs [] ((\<lambda>_. Idle)(0 := Setup, 1 := Recheck)) ABI_INITIALIZING" by simp
  from s [OF this, of 0] show ?thesis by (simp add: fun_upd_twist)
qed

lemma initialisation_is_exclusive_witness:
  "take_turns [Initialized 0] \<and> is_up [Initialized 0]"
  using initialisation_is_exclusive [OF sample_abi_run] by simp

end
