(* ===== verification/Clone.thy ===== *)
theory Clone
  imports Stm Sample
begin

text \<open>
  The tables of transactional clones of the GCC adapter (\<open>src/abi/gcc/clone.c\<close>).  Each object
  file registers an array of pairs of a function and its clone; the arrays are sorted, kept
  in a linked list and searched by bisection.

  The list is kept as the source has it, in nodes at addresses with a \<open>next\<close> pointer, because
  threads that register at the same time change the same pointers.  An array is a list at its
  address; reading outside of it is \<open>Undef\<close>.  \<open>void *\<close> values compare as unsigned words.
  \<open>qsort\<close> is \<open>sort_key\<close>, which for distinct functions is the one sorted arrangement.
\<close>

section \<open>State\<close>

record clone_entry =
  ce_orig :: w64
  ce_clone :: w64

record clone_table =
  ct_table :: w64
  ct_size :: nat
  ct_next :: w64

record clone_st =
  cl_stm :: st
  cl_ents :: "w64 \<Rightarrow> clone_entry list"
  cl_nodes :: "w64 \<Rightarrow> clone_table"
  cl_all :: w64

type_synonym 'a clprog = "(clone_st, 'a) comp"

definition cl_do :: "'a prog \<Rightarrow> 'a clprog" where
  "cl_do m s = (case m (cl_stm s) of (r, t) \<Rightarrow> (r, s\<lparr>cl_stm := t\<rparr>))"

definition set_next :: "w64 \<Rightarrow> w64 \<Rightarrow> clone_st \<Rightarrow> clone_st" where
  "set_next p v s = s\<lparr>cl_nodes := (cl_nodes s)(p := (cl_nodes s p)\<lparr>ct_next := v\<rparr>)\<rparr>"

section \<open>Searching\<close>

definition entry_at :: "w64 \<Rightarrow> nat \<Rightarrow> clone_entry clprog" where
  "entry_at t i = bnd (gets (\<lambda>s. cl_ents s t)) (\<lambda>es. if i < length es then ret (es ! i) else stop Undef)"

text \<open>The bisection; \<open>None\<close> when the loop ends without finding the pointer.\<close>

function search_entries :: "w64 \<Rightarrow> w64 \<Rightarrow> nat \<Rightarrow> nat \<Rightarrow> w64 option clprog" where
  "search_entries t ptr lo hi =
    (if lo < hi then
       bnd (entry_at t ((lo + hi) div 2)) (\<lambda>e.
         if ptr < ce_orig e then search_entries t ptr lo ((lo + hi) div 2)
         else if ptr > ce_orig e then search_entries t ptr (Suc ((lo + hi) div 2)) hi
         else ret (Some (ce_clone e)))
     else ret None)"
  by pat_completeness auto
termination by (relation "measure (\<lambda>(t, ptr, lo, hi). hi - lo)") auto

declare search_entries.simps [simp del]

text \<open>
  The loop over the tables.  A table of size 0 makes the quick test read before its array.
  The first table whose range holds the pointer decides.
\<close>

primrec find_from :: "nat \<Rightarrow> w64 \<Rightarrow> w64 \<Rightarrow> w64 clprog" where
  "find_from 0 p ptr = stop Diverge"
| "find_from (Suc n) p ptr =
    (if p = 0 then ret 0
     else bnd (gets (\<lambda>s. cl_nodes s p)) (\<lambda>t.
       bnd (entry_at (ct_table t) 0) (\<lambda>e0.
         if ptr < ce_orig e0 then find_from n (ct_next t) ptr
         else if ct_size t = 0 then stop Undef
         else bnd (entry_at (ct_table t) (ct_size t - 1)) (\<lambda>e1.
           if ptr > ce_orig e1 then find_from n (ct_next t) ptr
           else bnd (search_entries (ct_table t) ptr 0 (ct_size t)) (\<lambda>r.
             ret (case r of Some c \<Rightarrow> c | None \<Rightarrow> 0))))))"

definition find_clone :: "nat \<Rightarrow> w64 \<Rightarrow> w64 clprog" where
  "find_clone n ptr = bnd (gets cl_all) (\<lambda>p. find_from n p ptr)"

definition ITM_getTMCloneOrIrrevocable :: "nat \<Rightarrow> params \<Rightarrow> w64 \<Rightarrow> w64 clprog" where
  "ITM_getTMCloneOrIrrevocable n P ptr =
     bnd (find_clone n ptr) (\<lambda>c. if c \<noteq> 0 then ret c
     else bnd (cl_do (stm_set_irrevocable n P 1)) (\<lambda>_. ret ptr))"

definition ITM_getTMCloneSafe :: "nat \<Rightarrow> w64 \<Rightarrow> w64 clprog" where
  "ITM_getTMCloneSafe n ptr = bnd (find_clone n ptr) (\<lambda>c. if c = 0 then stop ExitProc else ret c)"

section \<open>Registering\<close>

text \<open>
  The places of the registration between which other threads may move: before \<open>all_tables\<close> is
  read, before \<open>next\<close> is set, before the compare-and-swap, and after the loop.  The
  compare-and-swap gives back the value it found, and the loop ends when that is the new table.
\<close>

datatype reg_pc = Enter | Link w64 | Swap w64 | Leave

fun reg_step :: "w64 \<Rightarrow> reg_pc \<Rightarrow> clone_st \<Rightarrow> reg_pc \<times> clone_st" where
  "reg_step table Enter s = (Link (cl_all s), s)"
| "reg_step table (Link old) s = (Swap old, set_next table old s)"
| "reg_step table (Swap old) s =
    (if cl_all s = table then Leave else Link (cl_all s),
     if cl_all s = old then s\<lparr>cl_all := table\<rparr> else s)"
| "reg_step table Leave s = (Leave, s)"

text \<open>One thread's registration; \<open>M k\<close> is what the other threads do before its step \<open>k\<close>.\<close>

primrec reg_loop :: "nat \<Rightarrow> (nat \<Rightarrow> clone_st \<Rightarrow> clone_st) \<Rightarrow> nat \<Rightarrow> w64 \<Rightarrow> reg_pc \<Rightarrow> unit clprog" where
  "reg_loop 0 M k table c = stop Diverge"
| "reg_loop (Suc n) M k table c =
    (if c = Leave then ret ()
     else thn (modify (M k))
         (bnd (gets (reg_step table c)) (\<lambda>r.
            thn (modify (\<lambda>_. snd r)) (reg_loop n M (Suc k) table (fst r)))))"

definition sort_entries :: "nat \<Rightarrow> clone_entry list \<Rightarrow> clone_entry list" where
  "sort_entries k es = sort_key ce_orig (take k es) @ drop k es"

text \<open>\<open>malloc\<close> is not checked: storing into \<open>NULL\<close> is undefined.\<close>

definition clone_malloc :: "params \<Rightarrow> w64 clprog" where
  "clone_malloc P =
     bnd (gets (\<lambda>s. alloc P (s_nalloc (cl_stm s)))) (\<lambda>a.
       thn (cl_do (modify (\<lambda>s. s\<lparr>s_nalloc := Suc (s_nalloc s)\<rparr>)))
           (if a = 0 then stop Undef else ret a))"

definition ITM_registerTMCloneTable ::
    "nat \<Rightarrow> params \<Rightarrow> (nat \<Rightarrow> clone_st \<Rightarrow> clone_st) \<Rightarrow> w64 \<Rightarrow> nat \<Rightarrow> unit clprog" where
  "ITM_registerTMCloneTable n P M ent k =
     bnd (clone_malloc P) (\<lambda>table.
       thn (modify (\<lambda>s. s\<lparr>cl_nodes := (cl_nodes s)(table := (cl_nodes s table)\<lparr>ct_table := ent, ct_size := k\<rparr>)\<rparr>))
      (bnd (gets (\<lambda>s. length (cl_ents s ent))) (\<lambda>len.
         if len < k then stop Undef
         else thn (modify (\<lambda>s. s\<lparr>cl_ents := (cl_ents s)(ent := sort_entries k (cl_ents s ent))\<rparr>))
             (reg_loop n M 0 table Enter))))"

text \<open>
  \<open>pprev\<close> is the address of \<open>all_tables\<close> (\<open>None\<close>) or of the \<open>next\<close> field of a table.  Running off
  the end of the list dereferences \<open>NULL\<close>.  The block passed to \<open>free\<close> is not used again.
\<close>

definition read_prev :: "w64 option \<Rightarrow> clone_st \<Rightarrow> w64" where
  "read_prev pprev s = (case pprev of None \<Rightarrow> cl_all s | Some p \<Rightarrow> ct_next (cl_nodes s p))"

definition write_prev :: "w64 option \<Rightarrow> w64 \<Rightarrow> clone_st \<Rightarrow> clone_st" where
  "write_prev pprev v s = (case pprev of None \<Rightarrow> s\<lparr>cl_all := v\<rparr> | Some p \<Rightarrow> set_next p v s)"

primrec dereg_loop :: "nat \<Rightarrow> w64 \<Rightarrow> w64 option \<Rightarrow> unit clprog" where
  "dereg_loop 0 ent pprev = stop Diverge"
| "dereg_loop (Suc n) ent pprev =
     bnd (gets (read_prev pprev)) (\<lambda>tab. if tab = 0 then stop Undef
     else bnd (gets (\<lambda>s. cl_nodes s tab)) (\<lambda>t.
       if ct_table t \<noteq> ent then dereg_loop n ent (Some tab)
       else modify (write_prev pprev (ct_next t))))"

definition ITM_deregisterTMCloneTable :: "nat \<Rightarrow> w64 \<Rightarrow> unit clprog" where
  "ITM_deregisterTMCloneTable n ent = dereg_loop n ent None"

section \<open>The list of tables\<close>

text \<open>\<open>chain h x ps\<close>: following \<open>h\<close> from \<open>x\<close> meets the nodes \<open>ps\<close> and then \<open>NULL\<close>.\<close>

primrec chain :: "(w64 \<Rightarrow> w64) \<Rightarrow> w64 \<Rightarrow> w64 list \<Rightarrow> bool" where
  "chain h x [] \<longleftrightarrow> x = 0"
| "chain h x (p # ps) \<longleftrightarrow> x = p \<and> p \<noteq> 0 \<and> chain h (h p) ps"

definition nexts :: "clone_st \<Rightarrow> w64 \<Rightarrow> w64" where
  "nexts s p = ct_next (cl_nodes s p)"

definition entries_of :: "clone_st \<Rightarrow> w64 \<Rightarrow> clone_entry list" where
  "entries_of s p = cl_ents s (ct_table (cl_nodes s p))"

definition assoc :: "clone_entry list \<Rightarrow> (w64 \<times> w64) list" where
  "assoc es = map (\<lambda>e. (ce_orig e, ce_clone e)) es"

text \<open>A table as registration leaves it: sorted without repetitions, of the length it says.\<close>

definition table_ok :: "clone_st \<Rightarrow> w64 \<Rightarrow> bool" where
  "table_ok s p \<longleftrightarrow> entries_of s p \<noteq> [] \<and> ct_size (cl_nodes s p) = length (entries_of s p)
     \<and> sorted_wrt (<) (map ce_orig (entries_of s p))"

definition in_range :: "clone_entry list \<Rightarrow> w64 \<Rightarrow> bool" where
  "in_range es x \<longleftrightarrow> ce_orig (hd es) \<le> x \<and> x \<le> ce_orig (last es)"

text \<open>No function of one table lies in the range of another.\<close>

definition apart :: "clone_st \<Rightarrow> w64 list \<Rightarrow> bool" where
  "apart s ps \<longleftrightarrow> (\<forall>p \<in> set ps. \<forall>q \<in> set ps. p \<noteq> q \<longrightarrow>
     (\<forall>e \<in> set (entries_of s q). \<not> in_range (entries_of s p) (ce_orig e)))"

definition registered :: "clone_st \<Rightarrow> w64 list \<Rightarrow> bool" where
  "registered s ps \<longleftrightarrow> chain (nexts s) (cl_all s) ps \<and> (\<forall>p \<in> set ps. table_ok s p) \<and> apart s ps"

text \<open>The clone the tables give to a function; 0 for none.\<close>

definition clone_of :: "clone_st \<Rightarrow> w64 list \<Rightarrow> w64 \<Rightarrow> w64" where
  "clone_of s ps f = (case map_of (concat (map (\<lambda>p. assoc (entries_of s p)) ps)) f of
     Some c \<Rightarrow> c | None \<Rightarrow> 0)"

section \<open>Lemmas\<close>

lemma wp_cl_do [wp_simps, simp]:
  "wp (cl_do m) s Q E = wp m (cl_stm s) (\<lambda>x t. Q x (s\<lparr>cl_stm := t\<rparr>)) (\<lambda>r t. E r (s\<lparr>cl_stm := t\<rparr>))"
  by (cases "m (cl_stm s)"; cases "fst (m (cl_stm s))") (simp_all add: wp_def cl_do_def)

lemma wp_entry_at [wp_simps, simp]:
  "i < length (cl_ents s t) \<Longrightarrow> wp (entry_at t i) s Q E = Q (cl_ents s t ! i) s"
  by (simp add: entry_at_def)

lemma chain_upd [simp]: "a \<notin> set ps \<Longrightarrow> chain (h(a := v)) x ps = chain h x ps"
  by (induction ps arbitrary: x) auto

lemma sorted_wrt_index:
  fixes f :: "'e \<Rightarrow> 'k :: linorder"
  assumes "sorted_wrt (<) (map f es)" "i < length es" "j < length es"
  shows "f (es ! i) < f (es ! j) \<longleftrightarrow> i < j"
proof -
  have "i < j \<Longrightarrow> f (es ! i) < f (es ! j)" "j < i \<Longrightarrow> f (es ! j) < f (es ! i)"
    using assms sorted_wrt_nth_less [OF assms(1)] by fastforce+
  then show ?thesis by (cases i j rule: linorder_cases) auto
qed

text \<open>The bisection finds an entry of the part it is given, and says so when there is none.\<close>

definition search_result :: "clone_entry list \<Rightarrow> w64 \<Rightarrow> nat \<Rightarrow> nat \<Rightarrow> w64 option \<Rightarrow> bool" where
  "search_result es ptr lo hi r = (case r of
       Some c \<Rightarrow> (ptr, c) \<in> set (assoc es)
     | None \<Rightarrow> \<forall>i. lo \<le> i \<longrightarrow> i < hi \<longrightarrow> ce_orig (es ! i) \<noteq> ptr)"

lemma search_widen:
  assumes "search_result es ptr lo hi r"
    and "\<And>j. lo' \<le> j \<Longrightarrow> j < hi' \<Longrightarrow> \<not> (lo \<le> j \<and> j < hi) \<Longrightarrow> ce_orig (es ! j) \<noteq> ptr"
  shows "search_result es ptr lo' hi' r"
  using assms by (cases r) (auto simp: search_result_def)

lemma search_entries_spec:
  assumes sorted: "sorted_wrt (<) (map ce_orig (cl_ents s t))"
  shows "hi \<le> length (cl_ents s t) \<Longrightarrow>
    wp (search_entries t ptr lo hi) s (\<lambda>r u. u = s \<and> search_result (cl_ents s t) ptr lo hi r) never"
proof (induction "hi - lo" arbitrary: lo hi rule: less_induct)
  case less
  let ?es = "cl_ents s t"
  define i where "i = (lo + hi) div 2"
  show ?case
  proof (cases "lo < hi")
    case True
    then have i: "lo \<le> i" "i < hi" "i < length ?es" using less.prems by (auto simp: i_def)
    have idx: "ce_orig (?es ! j) < ce_orig (?es ! k) \<longleftrightarrow> j < k" if "j < hi" "k < hi" for j k
      using sorted_wrt_index [OF sorted] that less.prems by simp
    consider (l) "ptr < ce_orig (?es ! i)" | (r) "ce_orig (?es ! i) < ptr" | (e) "ce_orig (?es ! i) = ptr" by fastforce
    then show ?thesis
    proof cases
      case l
      have above: "ce_orig (?es ! j) \<noteq> ptr" if "i \<le> j" "j < hi" for j using idx [of j i] l i that by auto
      have "search_result ?es ptr lo hi r" if "search_result ?es ptr lo i r" for r
        by (rule search_widen [OF that], rule above) auto
      then have "wp (search_entries t ptr lo i) s (\<lambda>r u. u = s \<and> search_result ?es ptr lo hi r) never"
        by (intro wp_mono [OF less.hyps [of i lo]]) (use i in auto)
      then show ?thesis using True i l unfolding search_entries.simps [of t ptr lo hi] i_def [symmetric] by simp
    next
      case r
      have below: "ce_orig (?es ! j) \<noteq> ptr" if "j \<le> i" for j using idx [of i j] r i that by auto
      have "search_result ?es ptr lo hi r" if "search_result ?es ptr (Suc i) hi r" for r
        by (rule search_widen [OF that], rule below) auto
      then have "wp (search_entries t ptr (Suc i) hi) s (\<lambda>r u. u = s \<and> search_result ?es ptr lo hi r) never"
        by (intro wp_mono [OF less.hyps [of hi "Suc i"]]) (use i less.prems in auto)
      moreover have "\<not> ptr < ce_orig (?es ! i)" using r by (simp add: not_less order.strict_implies_order)
      ultimately show ?thesis using True i r
        unfolding search_entries.simps [of t ptr lo hi] i_def [symmetric] by simp
    next
      case e
      have "?es ! i \<in> set ?es" using i by simp
      then show ?thesis using True i e unfolding search_entries.simps [of t ptr lo hi] i_def [symmetric]
        by (force simp: search_result_def assoc_def)
    qed
  qed (simp add: search_entries.simps search_result_def)
qed

text \<open>What a table answers when its range holds the pointer, and when not.\<close>

lemma map_of_assoc: "sorted_wrt (<) (map ce_orig es) \<Longrightarrow> (f, c) \<in> set (assoc es) \<Longrightarrow> map_of (assoc es) f = Some c"
  by (rule map_of_is_SomeI) (simp_all add: assoc_def comp_def strict_sorted_iff)

lemma search_result_all:
  assumes "sorted_wrt (<) (map ce_orig es)" "search_result es ptr 0 (length es) r"
  shows "map_of (assoc es) ptr = r"
proof (cases r)
  case None
  then have "\<forall>e \<in> set es. ce_orig e \<noteq> ptr" using assms(2) by (auto simp: search_result_def in_set_conv_nth)
  then show ?thesis using None by (auto simp: map_of_eq_None_iff assoc_def)
next
  case (Some c)
  then show ?thesis using assms by (simp add: search_result_def map_of_assoc)
qed

lemma outside_range:
  assumes "sorted_wrt (<) (map ce_orig es)" "\<not> in_range es x" "e \<in> set es"
  shows "ce_orig e \<noteq> x"
proof -
  obtain i where i: "i < length es" "e = es ! i" using assms(3) by (auto simp: in_set_conv_nth)
  then have "es \<noteq> []" by auto
  with sorted_wrt_index [OF assms(1), of i 0] sorted_wrt_index [OF assms(1), of "length es - 1" i] i
  have "ce_orig (hd es) \<le> ce_orig e" "ce_orig e \<le> ce_orig (last es)"
    by (auto simp: hd_conv_nth last_conv_nth not_less [symmetric])
  then show ?thesis using assms(2) by (auto simp: in_range_def)
qed

lemma assoc_None: "map_of (assoc es) x = None \<longleftrightarrow> (\<forall>e \<in> set es. ce_orig e \<noteq> x)"
  by (auto simp: map_of_eq_None_iff assoc_def image_iff)

lemma clone_of_Cons:
  "clone_of s (p # ps) f = (case map_of (assoc (entries_of s p)) f of Some c \<Rightarrow> c | None \<Rightarrow> clone_of s ps f)"
  by (simp add: clone_of_def map_add_def split: option.splits)

lemma clone_of_none:
  "(\<And>p e. p \<in> set ps \<Longrightarrow> e \<in> set (entries_of s p) \<Longrightarrow> ce_orig e \<noteq> f) \<Longrightarrow> clone_of s ps f = 0"
proof (induction ps)
  case (Cons p ps)
  then have "map_of (assoc (entries_of s p)) f = None" unfolding assoc_None by auto
  moreover have "clone_of s ps f = 0" by (rule Cons.IH) (use Cons.prems in auto)
  ultimately show ?case by (simp add: clone_of_Cons)
qed (simp add: clone_of_def)

lemma apart_tl: "apart s (p # ps) \<Longrightarrow> apart s ps"
  by (simp add: apart_def)

text \<open>One table of the loop: the quick test passes over it, or the bisection answers.\<close>

lemma wp_find_table:
  assumes "p \<noteq> 0" "table_ok s p"
    and rest: "\<not> in_range (entries_of s p) ptr \<Longrightarrow>
      wp (find_from n (nexts s p) ptr) s (\<lambda>c u. u = s \<and> c = c') never"
  shows "wp (find_from (Suc n) p ptr) s (\<lambda>c u. u = s \<and> c = (if in_range (entries_of s p) ptr
      then case map_of (assoc (entries_of s p)) ptr of Some c \<Rightarrow> c | None \<Rightarrow> 0 else c')) never"
proof -
  let ?es = "entries_of s p"
  have t: "cl_ents s (ct_table (cl_nodes s p)) = ?es" "ct_size (cl_nodes s p) = length ?es" "?es \<noteq> []"
    and sorted: "sorted_wrt (<) (map ce_orig ?es)" using assms(2) by (simp_all add: table_ok_def entries_of_def)
  have found: "wp (search_entries (ct_table (cl_nodes s p)) ptr 0 (length ?es)) s
    (\<lambda>r u. u = s \<and> r = map_of (assoc ?es) ptr) never"
    by (rule wp_mono [OF search_entries_spec]) (use sorted t search_result_all [OF sorted, of ptr] in auto)
  have hd: "?es ! 0 = hd ?es" and la: "?es ! (length ?es - Suc 0) = last ?es"
    using t by (simp_all add: hd_conv_nth last_conv_nth)
  show ?thesis
  proof (cases "in_range ?es ptr")
    case True
    then show ?thesis using assms t hd la
      by (auto simp: in_range_def intro!: wp_mono [OF found])
  next
    case False
    note rest = rest [OF False, unfolded nexts_def]
    show ?thesis using False rest assms t hd la by (auto simp: in_range_def)
  qed
qed

lemma find_from_spec:
  "chain (nexts s) x ps \<Longrightarrow> \<forall>p \<in> set ps. table_ok s p \<Longrightarrow> apart s ps \<Longrightarrow> distinct ps \<Longrightarrow> length ps < n \<Longrightarrow>
    wp (find_from n x ptr) s (\<lambda>c u. u = s \<and> c = clone_of s ps ptr) never"
proof (induction ps arbitrary: x n)
  case Nil
  then obtain k where "n = Suc k" by (cases n) auto
  then show ?case using Nil by (simp add: clone_of_def)
next
  case (Cons p ps)
  then obtain k where n: "n = Suc k" and k: "length ps < k" by (cases n) auto
  have p: "x = p" "p \<noteq> 0" "table_ok s p" "chain (nexts s) (nexts s p) ps" "apart s ps"
    using Cons.prems apart_tl by auto
  have sorted: "sorted_wrt (<) (map ce_orig (entries_of s p))" using p by (simp add: table_ok_def)
  have other: "clone_of s ps ptr = 0" if "in_range (entries_of s p) ptr"
    by (rule clone_of_none) (use Cons.prems(3,4) that in \<open>auto simp: apart_def\<close>)
  have rest: "wp (find_from k (nexts s p) ptr) s (\<lambda>c u. u = s \<and> c = clone_of s ps ptr) never"
    using Cons.IH p Cons.prems k by simp
  have "map_of (assoc (entries_of s p)) ptr = None" if "\<not> in_range (entries_of s p) ptr"
    using outside_range [OF sorted that] by (simp add: assoc_None)
  then show ?case unfolding n p(1)
    by (intro wp_mono [OF wp_find_table [OF p(2,3) rest]])
      (use other in \<open>auto simp: clone_of_Cons split: option.splits\<close>)
qed

lemma chain_distinct_from:
  "chain h x ps \<Longrightarrow> chain h x qs \<Longrightarrow> ps = qs"
  by (induction ps arbitrary: x qs) (case_tac qs; simp)+

lemma chain_append: "chain h x (ps @ q # qs) \<Longrightarrow> chain h q (q # qs)"
  by (induction ps arbitrary: x) auto

lemma chain_distinct: "chain h x ps \<Longrightarrow> distinct ps"
proof (induction ps arbitrary: x)
  case (Cons p ps)
  have "p \<notin> set ps"
  proof
    assume "p \<in> set ps"
    then obtain as bs where ps: "ps = as @ p # bs" by (auto simp: in_set_conv_decomp)
    then have "chain h p (p # bs)" "chain h p (p # ps)" using Cons.prems chain_append by auto
    then have "p # bs = p # ps" by (rule chain_distinct_from)
    then show False using ps by (auto dest: arg_cong [of _ _ length])
  qed
  then show ?case using Cons by auto
qed simp

lemma find_clone_spec:
  "registered s ps \<Longrightarrow> length ps < n \<Longrightarrow> wp (find_clone n ptr) s (\<lambda>c u. u = s \<and> c = clone_of s ps ptr) never"
  using find_from_spec chain_distinct by (simp add: find_clone_def registered_def)

section \<open>Registering alone\<close>

lemma wp_reg_loop:
  "wp (reg_loop (Suc n) M k p c) s Q E = (if c = Leave then Q () s
     else wp (reg_loop n M (Suc k) p (fst (reg_step p c (M k s)))) (snd (reg_step p c (M k s))) Q E)"
  by simp

text \<open>
  The loop goes round once more after the compare-and-swap that links the table, and ends
  because the second one finds the table in place.
\<close>

lemma reg_loop_alone:
  assumes "cl_all s \<noteq> p" "6 \<le> n"
  shows "wp (reg_loop n (\<lambda>_ s. s) k p Enter) s Q E = Q () ((set_next p (cl_all s) s)\<lparr>cl_all := p\<rparr>)"
proof -
  obtain m where "n = 6 + m" using le_Suc_ex [OF assms(2)] by blast
  then have n: "n = Suc (Suc (Suc (Suc (Suc (Suc m)))))" by simp
  show ?thesis using assms(1) unfolding n wp_reg_loop by (cases s) (simp add: set_next_def)
qed

lemma sorted_strict: "distinct (map ce_orig es) \<Longrightarrow> sorted_wrt (<) (map ce_orig (sort_key ce_orig es))"
  by (simp add: strict_sorted_iff distinct_map)

lemma sort_key_nonempty: "sort_key f es \<noteq> [] \<longleftrightarrow> es \<noteq> []"
  by (metis set_empty set_sort)

lemma assoc_sort: "distinct (map ce_orig es) \<Longrightarrow> map_of (assoc (sort_key ce_orig es)) = map_of (assoc es)"
  by (subst map_of_inject_set) (simp_all add: assoc_def comp_def distinct_map)

lemma chain_head: "chain h x ps \<Longrightarrow> p \<noteq> 0 \<Longrightarrow> p \<notin> set ps \<Longrightarrow> x \<noteq> p"
  by (cases ps) auto

text \<open>What another table's registration may change without being noticed by this one.\<close>

lemma clone_of_same: "(\<And>p. p \<in> set ps \<Longrightarrow> entries_of t p = entries_of s p) \<Longrightarrow> clone_of t ps f = clone_of s ps f"
proof (induction ps)
  case (Cons p ps)
  then have "clone_of t ps f = clone_of s ps f" "entries_of t p = entries_of s p" by simp_all
  then show ?case by (simp only: clone_of_Cons)
qed (simp add: clone_of_def)

lemma apart_same: "(\<And>p. p \<in> set ps \<Longrightarrow> entries_of t p = entries_of s p) \<Longrightarrow> apart t ps = apart s ps"
  by (simp add: apart_def)

definition new_table :: "clone_st \<Rightarrow> w64 \<Rightarrow> w64 list \<Rightarrow> w64 \<Rightarrow> bool" where
  "new_table s p ps ent \<longleftrightarrow> p \<noteq> 0 \<and> p \<notin> set ps \<and> (\<forall>q \<in> set ps. ct_table (cl_nodes s q) \<noteq> ent)
     \<and> cl_ents s ent \<noteq> [] \<and> distinct (map ce_orig (cl_ents s ent))
     \<and> (\<forall>q \<in> set ps. \<forall>e \<in> set (cl_ents s ent). \<not> in_range (entries_of s q) (ce_orig e))
     \<and> (\<forall>q \<in> set ps. \<forall>e \<in> set (entries_of s q). \<not> in_range (sort_key ce_orig (cl_ents s ent)) (ce_orig e))"

definition with_table :: "clone_st \<Rightarrow> w64 \<Rightarrow> w64 \<Rightarrow> clone_st" where
  "with_table s p ent = s\<lparr>cl_stm := (cl_stm s)\<lparr>s_nalloc := Suc (s_nalloc (cl_stm s))\<rparr>,
     cl_ents := (cl_ents s)(ent := sort_key ce_orig (cl_ents s ent)),
     cl_nodes := (cl_nodes s)(p := \<lparr>ct_table = ent, ct_size = length (cl_ents s ent), ct_next = cl_all s\<rparr>),
     cl_all := p\<rparr>"

lemma register_alone:
  assumes "new_table s p ps ent" "chain (nexts s) (cl_all s) ps" "alloc P (s_nalloc (cl_stm s)) = p" "6 \<le> n"
  shows "wp (ITM_registerTMCloneTable n P (\<lambda>_ s. s) ent (length (cl_ents s ent))) s Q E = Q () (with_table s p ent)"
proof -
  have "cl_all s \<noteq> p" "p \<noteq> 0" using assms(1) chain_head [OF assms(2)] by (auto simp: new_table_def)
  then show ?thesis using assms(3,4)
    by (cases "cl_nodes s p")
      (simp add: ITM_registerTMCloneTable_def clone_malloc_def reg_loop_alone sort_entries_def set_next_def with_table_def)
qed

lemma with_table_entries:
  assumes "new_table s p ps ent"
  shows "entries_of (with_table s p ent) p = sort_key ce_orig (cl_ents s ent)"
    "q \<in> set ps \<Longrightarrow> entries_of (with_table s p ent) q = entries_of s q"
    "q \<in> set ps \<Longrightarrow> cl_nodes (with_table s p ent) q = cl_nodes s q"
  using assms by (auto simp: new_table_def entries_of_def with_table_def)

lemma nexts_with: "nexts (with_table s p ent) = (nexts s)(p := cl_all s)"
  by (auto simp: nexts_def with_table_def)

lemma with_table_registered:
  assumes new: "new_table s p ps ent" and reg: "registered s ps"
  shows "registered (with_table s p ent) (p # ps)"
proof -
  let ?t = "with_table s p ent"
  note ents = with_table_entries [OF new]
  have "chain (nexts ?t) (cl_all ?t) (p # ps)"
    using new reg by (simp add: new_table_def registered_def nexts_with) (simp add: with_table_def)
  moreover have "ct_size (cl_nodes ?t p) = length (cl_ents s ent)" by (simp add: with_table_def)
  moreover have "sort_key ce_orig (cl_ents s ent) \<noteq> []" "distinct (map ce_orig (cl_ents s ent))"
    using new unfolding new_table_def by (simp_all add: sort_key_nonempty)
  ultimately have "chain (nexts ?t) (cl_all ?t) (p # ps)" "table_ok ?t p"
    using sorted_strict unfolding table_ok_def ents(1) by simp_all
  moreover have "table_ok ?t q" if "q \<in> set ps" for q
    using that reg by (simp add: table_ok_def ents registered_def)
  moreover have "apart ?t ps" using reg apart_same [of ps ?t s] ents by (simp add: registered_def)
  then have "apart ?t (p # ps)" using new by (auto simp: apart_def ents new_table_def)
  ultimately show ?thesis by (auto simp: registered_def)
qed

lemma dereg_head:
  "cl_all s = p \<Longrightarrow> p \<noteq> 0 \<Longrightarrow> ct_table (cl_nodes s p) = ent \<Longrightarrow> 0 < n \<Longrightarrow>
    wp (ITM_deregisterTMCloneTable n ent) s Q E = Q () (s\<lparr>cl_all := nexts s p\<rparr>)"
  by (cases n) (simp_all add: ITM_deregisterTMCloneTable_def read_prev_def write_prev_def nexts_def)

lemma all_upd [simp]:
  "nexts (s\<lparr>cl_all := v\<rparr>) = nexts s" "entries_of (s\<lparr>cl_all := v\<rparr>) = entries_of s"
  "table_ok (s\<lparr>cl_all := v\<rparr>) p = table_ok s p" "apart (s\<lparr>cl_all := v\<rparr>) ps = apart s ps"
  by (simp_all add: nexts_def entries_of_def table_ok_def apart_def fun_eq_iff)

lemma unlinked_registered:
  "registered s (p # ps) \<Longrightarrow> registered (s\<lparr>cl_all := nexts s p\<rparr>) ps"
  by (auto simp: registered_def dest: apart_tl)

section \<open>Registering at the same time\<close>

text \<open>
  Several threads register, each its own table; a schedule names the thread of each step by
  the address of its table.
\<close>

fun reg_run :: "w64 list \<Rightarrow> (w64 \<Rightarrow> reg_pc) \<Rightarrow> clone_st \<Rightarrow> (w64 \<Rightarrow> reg_pc) \<times> clone_st" where
  "reg_run [] pc s = (pc, s)"
| "reg_run (t # ts) pc s = (case reg_step t (pc t) s of (c, u) \<Rightarrow> reg_run ts (pc(t := c)) u)"

text \<open>
  Two threads.  The first links its table, the second links its own before it, and each then
  goes round its loop again without noticing that its table is already in the list.
\<close>

definition crossing :: "w64 \<Rightarrow> w64 \<Rightarrow> w64 list" where
  "crossing p q = replicate 3 p @ replicate 3 q @ replicate 6 p @ replicate 4 q"

lemma crossing_run:
  assumes "p \<noteq> q" "cl_all s \<noteq> p" "cl_all s \<noteq> q" "pc p = Enter" "pc q = Enter"
  shows "reg_run (crossing p q) pc s = (pc(p := Leave, q := Leave), (set_next p q (set_next q p s))\<lparr>cl_all := q\<rparr>)"
  using assms
  by (cases s) (simp add: crossing_def eval_nat_numeral set_next_def fun_upd_twist)

lemma find_in_cycle:
  assumes "p \<noteq> 0" "q \<noteq> 0" "nexts s p = q" "nexts s q = p" "table_ok s p" "table_ok s q"
    "\<not> in_range (entries_of s p) ptr" "\<not> in_range (entries_of s q) ptr"
  shows "find_from n p ptr s = (Diverge, s) \<and> find_from n q ptr s = (Diverge, s)"
proof (induction n)
  case (Suc n)
  have "find_from (Suc n) x ptr s = find_from n (nexts s x) ptr s"
    if "x \<noteq> 0" "table_ok s x" "\<not> in_range (entries_of s x) ptr" for x
    using that by (auto simp: table_ok_def entries_of_def nexts_def in_range_def entry_at_def bnd_def
        hd_conv_nth last_conv_nth)
  then show ?case using Suc assms by simp
qed simp

lemma linked_fields [simp]:
  "entries_of (set_next p v s) x = entries_of s x" "table_ok (set_next p v s) x = table_ok s x"
  "nexts (set_next p v s) = (nexts s)(p := v)"
  by (auto simp: set_next_def entries_of_def table_ok_def nexts_def)

section \<open>Properties\<close>

text \<open>A table of two functions at address 512, and an unsorted array at address 2048.\<close>

definition sample_clones :: clone_st where
  "sample_clones = \<lparr>cl_stm = sample_run,
     cl_ents = (\<lambda>_. [])(1024 := [\<lparr>ce_orig = 10, ce_clone = 20\<rparr>, \<lparr>ce_orig = 30, ce_clone = 40\<rparr>],
       2048 := [\<lparr>ce_orig = 100, ce_clone = 101\<rparr>, \<lparr>ce_orig = 50, ce_clone = 51\<rparr>]),
     cl_nodes = (\<lambda>_. \<lparr>ct_table = 0, ct_size = 0, ct_next = 0\<rparr>)(512 := \<lparr>ct_table = 1024, ct_size = 2, ct_next = 0\<rparr>),
     cl_all = 512\<rparr>"

lemma sample_registered: "registered sample_clones [512]"
  by (simp add: registered_def sample_clones_def nexts_def table_ok_def entries_of_def apart_def)

lemma sample_new_table: "new_table sample_clones 64 [512] 2048"
  by (simp add: new_table_def sample_clones_def entries_of_def in_range_def)

text \<open>C32: A thread that registers an array of functions in any order, outside the ranges of the
  tables that are there, makes each of its functions find its own clone and leaves the clones of all
  others; unregistering the array gives the former tables back.\<close>
theorem clone_table_roundtrip:
  assumes "registered s ps" "new_table s (alloc P (s_nalloc (cl_stm s))) ps ent" "6 \<le> n" "Suc (length ps) < n"
  shows "wp (ITM_registerTMCloneTable n P (\<lambda>_ s. s) ent (length (cl_ents s ent))) s (\<lambda>_ t.
      (\<forall>f. wp (find_clone n f) t (\<lambda>c u. u = t \<and> c =
         (case map_of (assoc (cl_ents s ent)) f of Some c \<Rightarrow> c | None \<Rightarrow> clone_of s ps f)) never)
      \<and> wp (ITM_deregisterTMCloneTable n ent) t (\<lambda>_ u. registered u ps
         \<and> (\<forall>f. clone_of u ps f = clone_of s ps f)) never) never"
proof -
  let ?p = "alloc P (s_nalloc (cl_stm s))"
  let ?t = "with_table s ?p ent"
  note ents = with_table_entries [OF assms(2)]
  have reg: "registered ?t (?p # ps)" by (rule with_table_registered [OF assms(2,1)])
  have distinct: "distinct (map ce_orig (cl_ents s ent))" and p: "?p \<noteq> 0" using assms(2) by (simp_all add: new_table_def)
  have same: "clone_of ?t ps f = clone_of s ps f" for f by (rule clone_of_same) (rule ents)
  have find: "wp (find_clone n f) ?t (\<lambda>c u. u = ?t \<and> c =
      (case map_of (assoc (cl_ents s ent)) f of Some c \<Rightarrow> c | None \<Rightarrow> clone_of s ps f)) never" for f
    using find_clone_spec [OF reg, of n f] assms(4) unfolding clone_of_Cons ents assoc_sort [OF distinct] same by simp
  let ?u = "?t\<lparr>cl_all := nexts ?t ?p\<rparr>"
  have "cl_all ?t = ?p" "ct_table (cl_nodes ?t ?p) = ent" by (simp_all add: with_table_def)
  moreover have "clone_of ?u ps f = clone_of s ps f" for f using same clone_of_same [of ps ?u ?t] by simp
  ultimately have "wp (ITM_deregisterTMCloneTable n ent) ?t (\<lambda>_ u. registered u ps \<and> (\<forall>f. clone_of u ps f = clone_of s ps f)) never"
    using dereg_head [of ?t ?p ent n] p assms(3) unlinked_registered [OF reg] by simp
  then show ?thesis using find assms(1)
    by (simp add: register_alone [OF assms(2) _ refl assms(3)] registered_def)
qed

lemma clone_table_roundtrip_witness:
  "wp (ITM_registerTMCloneTable 6 (sample_params WRITE_BACK_ETL) (\<lambda>_ s. s) 2048 2) sample_clones (\<lambda>_ t.
      (\<forall>f. wp (find_clone 6 f) t (\<lambda>c u. u = t \<and> c =
         (case map_of (assoc (cl_ents sample_clones 2048)) f of Some c \<Rightarrow> c | None \<Rightarrow> clone_of sample_clones [512] f)) never)
      \<and> wp (ITM_deregisterTMCloneTable 6 2048) t (\<lambda>_ u. registered u [512]
         \<and> (\<forall>f. clone_of u [512] f = clone_of sample_clones [512] f)) never) never"
proof -
  have "alloc (sample_params WRITE_BACK_ETL) (s_nalloc (cl_stm sample_clones)) = 64" "length (cl_ents sample_clones 2048) = 2"
    by (simp_all add: sample_params_def sample_clones_def)
  then show ?thesis using clone_table_roundtrip
    [of sample_clones "[512]" "sample_params WRITE_BACK_ETL" 2048 6] sample_registered sample_new_table by simp
qed

text \<open>C33: Two threads that register their tables at the same time can both finish with the two tables
  linked in a circle and every older table lost; a search for a function in neither then never ends.\<close>
theorem registering_together_ties_a_loop:
  assumes "p \<noteq> q" "p \<noteq> 0" "q \<noteq> 0" "cl_all s \<noteq> p" "cl_all s \<noteq> q" "table_ok s p" "table_ok s q"
    "\<not> in_range (entries_of s p) f" "\<not> in_range (entries_of s q) f"
  shows "\<exists>ts pc t. set ts = {p, q} \<and> reg_run ts (\<lambda>_. Enter) s = (pc, t) \<and> pc p = Leave \<and> pc q = Leave
    \<and> cl_all t = q \<and> nexts t q = p \<and> nexts t p = q \<and> (\<forall>n. find_clone n f t = (Diverge, t))"
proof -
  let ?t = "(set_next p q (set_next q p s))\<lparr>cl_all := q\<rparr>"
  have run: "reg_run (crossing p q) (\<lambda>_. Enter) s = ((\<lambda>_. Enter)(p := Leave, q := Leave), ?t)"
    using assms by (intro crossing_run) simp_all
  have "find_from n q f ?t = (Diverge, ?t)" for n
    using find_in_cycle [of p q ?t f n] assms by simp
  then have "\<forall>n. find_clone n f ?t = (Diverge, ?t)" by (simp add: find_clone_def)
  moreover have "set (crossing p q) = {p, q}" by (auto simp: crossing_def)
  ultimately show ?thesis using run assms(1)
    by (intro exI [of _ "crossing p q"] exI [of _ "(\<lambda>_. Enter)(p := Leave, q := Leave)"] exI [of _ ?t]) simp
qed

text \<open>The two threads' tables are at 64 and 128; the list holds the one at 512.\<close>

definition sample_rivals :: clone_st where
  "sample_rivals = sample_clones\<lparr>cl_nodes := (cl_nodes sample_clones)
     (64 := \<lparr>ct_table = 4096, ct_size = 1, ct_next = 0\<rparr>, 128 := \<lparr>ct_table = 8192, ct_size = 1, ct_next = 0\<rparr>),
     cl_ents := (cl_ents sample_clones)(4096 := [\<lparr>ce_orig = 60, ce_clone = 61\<rparr>], 8192 := [\<lparr>ce_orig = 70, ce_clone = 71\<rparr>])\<rparr>"

lemma registering_together_ties_a_loop_witness:
  "\<exists>ts pc t. set ts = {64, 128} \<and> reg_run ts (\<lambda>_. Enter) sample_rivals = (pc, t) \<and> pc 64 = Leave \<and> pc 128 = Leave
    \<and> cl_all t = 128 \<and> nexts t 128 = 64 \<and> nexts t 64 = 128 \<and> (\<forall>n. find_clone n 10 t = (Diverge, t))"
  by (rule registering_together_ties_a_loop)
    (simp_all add: sample_rivals_def sample_clones_def table_ok_def entries_of_def in_range_def)

end
