(* ===== verification/Itm.thy ===== *)
theory Itm
  imports AbiInit Clone
begin

text \<open>
  The functions a transactional compiler calls (\<open>src/abi/abi.c\<close>, built for GCC).

  \<open>TX_GET_ABI\<close> reads the thread's descriptor; a function that then uses it without a test is
  \<open>with_tx\<close>, as in \<open>src/stm.c\<close>.  The saved registers of \<open>GTM_begin_transaction\<close> are machine
  state: its result says which code to run, and whether the registers were saved.  The
  functions that only print return at once, those that call \<open>exit\<close> end the process.  Values
  of floating point, vector and complex types are their bytes.
\<close>

section \<open>Constants\<close>

definition ITM_noTransactionId :: w32 where "ITM_noTransactionId = 1"

definition ITM_VERSION_NO :: int where "ITM_VERSION_NO = 104"

datatype how_executing = outsideTransaction | inRetryableTransaction | inIrrevocableTransaction

definition pr_instrumentedCode :: w32 where "pr_instrumentedCode = 0x0001"
definition pr_uninstrumentedCode :: w32 where "pr_uninstrumentedCode = 0x0002"
definition pr_multiwayCode :: w32 where "pr_multiwayCode = pr_instrumentedCode OR pr_uninstrumentedCode"
definition pr_doesGoIrrevocable :: w32 where "pr_doesGoIrrevocable = 0x0040"
definition pr_readOnly :: w32 where "pr_readOnly = 0x4000"

definition a_runInstrumentedCode :: w32 where "a_runInstrumentedCode = 0x01"
definition a_runUninstrumentedCode :: w32 where "a_runUninstrumentedCode = 0x02"
definition a_saveLiveVariables :: w32 where "a_saveLiveVariables = 0x04"

lemmas itm_consts = ITM_noTransactionId_def pr_instrumentedCode_def pr_uninstrumentedCode_def
  pr_multiwayCode_def pr_doesGoIrrevocable_def pr_readOnly_def a_runInstrumentedCode_def
  a_runUninstrumentedCode_def a_saveLiveVariables_def

datatype transaction_state = modeSerialIrrevocable | modeObstinate | modeOptimistic | modePessimistic

text \<open>An \<open>_ITM_abortReason\<close> is an integer that the library's reasons are stored into.\<close>

definition userAbort :: w64 where "userAbort = 1"
definition userRetry :: w64 where "userRetry = 2"

section \<open>Threads and the process\<close>

definition ITM_initializeProcess :: "nat \<Rightarrow> abi_env \<Rightarrow> int iprog" where
  "ITM_initializeProcess n E = thn (abi_init n E) (ret 0)"

definition ITM_finalizeProcess :: "nat \<Rightarrow> abi_env \<Rightarrow> unit iprog" where
  "ITM_finalizeProcess n E = abi_exit n E"

definition ITM_initializeThread :: "nat \<Rightarrow> abi_env \<Rightarrow> int iprog" where
  "ITM_initializeThread n E = bnd (abi_init_thread n E) (\<lambda>_. ret 0)"

definition ITM_finalizeThread :: "nat \<Rightarrow> abi_env \<Rightarrow> unit iprog" where
  "ITM_finalizeThread n E = bnd (in_stm tls_get_tx) (\<lambda>tx. abi_exit_thread n E tx)"

definition ITM_getTransaction :: "nat \<Rightarrow> abi_env \<Rightarrow> w64 iprog" where
  "ITM_getTransaction n E = bnd (in_stm tls_get_tx) (\<lambda>tx. if tx = 0 then abi_init_thread n E else ret tx)"

definition ITM_versionCompatible :: "int \<Rightarrow> bool" where
  "ITM_versionCompatible v \<longleftrightarrow> v = ITM_VERSION_NO"

definition ITM_userError :: "unit iprog" where "ITM_userError = stop ExitProc"

definition ITM_error :: "unit iprog" where "ITM_error = stop ExitProc"

definition ITM_dropReferences :: "unit iprog" where "ITM_dropReferences = ret ()"

definition ITM_registerThrownObject :: "unit iprog" where "ITM_registerThrownObject = ret ()"

section \<open>Inquiries\<close>

definition ITM_inTransaction :: "how_executing prog" where
  "ITM_inTransaction =
     bnd int_stm_irrevocable (\<lambda>i. if i then ret inIrrevocableTransaction
     else bnd int_stm_active (\<lambda>a. ret (if a then inRetryableTransaction else outsideTransaction)))"

definition ITM_getTransactionId :: "w32 prog" where
  "ITM_getTransactionId =
     bnd tls_get_tx (\<lambda>p. if p = 0 then ret ITM_noTransactionId
     else bnd get_tx (\<lambda>tx. ret (tx_nesting tx + 1)))"

definition ITM_addUserCommitAction :: "abi_env \<Rightarrow> w64 \<Rightarrow> w32 \<Rightarrow> w64 \<Rightarrow> unit iprog" where
  "ITM_addUserCommitAction E f resumingTransactionId arg =
     bnd (in_cb (stm_on_commit (ae_stm E) f arg)) (\<lambda>_. ret ())"

definition ITM_addUserUndoAction :: "abi_env \<Rightarrow> w64 \<Rightarrow> w64 \<Rightarrow> unit iprog" where
  "ITM_addUserUndoAction E f arg = bnd (in_cb (stm_on_abort (ae_stm E) f arg)) (\<lambda>_. ret ())"

section \<open>Transactions\<close>

text \<open>
  The attributes of the transaction and the code to run; asking for uninstrumented code makes
  the transaction irrevocable before it starts.
\<close>

definition begin_code :: "w32 \<Rightarrow> w32" where
  "begin_code attr =
    (if attr AND pr_doesGoIrrevocable \<noteq> 0 \<or> attr AND pr_instrumentedCode = 0 then
       (if attr AND pr_multiwayCode = pr_instrumentedCode then a_runInstrumentedCode else a_runUninstrumentedCode)
     else a_runInstrumentedCode OR a_saveLiveVariables)"

definition GTM_begin_transaction :: "nat \<Rightarrow> abi_env \<Rightarrow> w32 \<Rightarrow> (w32 \<times> bool) iprog" where
  "GTM_begin_transaction n E attr =
     thn (bnd (in_stm tls_get_tx) (\<lambda>tx. if tx = 0 then bnd (abi_init_thread n E) (\<lambda>_. ret ()) else ret ()))
    (if attr AND pr_doesGoIrrevocable \<noteq> 0 \<or> attr AND pr_instrumentedCode = 0 then
       bnd (in_stm (int_stm_set_irrevocable n (ae_stm E) 1)) (\<lambda>_.
       bnd (in_stm (int_stm_start n (ae_stm E) attr0)) (\<lambda>env. ret (begin_code attr, env)))
     else
       bnd (in_stm (int_stm_start n (ae_stm E) (attr0\<lparr>at_read_only := attr AND pr_readOnly \<noteq> 0\<rparr>)))
         (\<lambda>env. ret (begin_code attr, env)))"

definition ITM_commitTransaction :: "nat \<Rightarrow> params \<Rightarrow> unit prog" where
  "ITM_commitTransaction n P = with_tx (bnd (int_stm_commit n P) (\<lambda>_. ret ()))"

definition ITM_tryCommitTransaction :: "nat \<Rightarrow> params \<Rightarrow> bool prog" where
  "ITM_tryCommitTransaction n P = with_tx (int_stm_commit n P)"

definition ITM_commitTransactionEH :: "nat \<Rightarrow> params \<Rightarrow> unit prog" where
  "ITM_commitTransactionEH n P = with_tx (bnd (int_stm_commit n P) (\<lambda>_. ret ()))"

primrec commit_to :: "nat \<Rightarrow> params \<Rightarrow> w32 \<Rightarrow> unit prog" where
  "commit_to 0 P tid = stop Diverge"
| "commit_to (Suc n) P tid =
     bnd get_tx (\<lambda>tx. if tx_nesting tx + 1 > tid
       then bnd (int_stm_commit n P) (\<lambda>_. commit_to n P tid) else ret ())"

definition ITM_commitTransactionToId :: "nat \<Rightarrow> params \<Rightarrow> w32 \<Rightarrow> unit prog" where
  "ITM_commitTransactionToId n P tid = with_tx (commit_to n P tid)"

definition abort_code :: "w64 \<Rightarrow> w64" where
  "abort_code r = (if r = userAbort then STM_ABORT_NO_RETRY else if r = userRetry then STM_ABORT_EXPLICIT else r)"

definition ITM_abortTransaction :: "nat \<Rightarrow> params \<Rightarrow> w64 \<Rightarrow> unit prog" where
  "ITM_abortTransaction n P reason = with_tx (stm_rollback n P (abort_code reason))"

definition ITM_rollbackTransaction :: "nat \<Rightarrow> params \<Rightarrow> unit prog" where
  "ITM_rollbackTransaction n P = with_tx (stm_rollback n P STM_ABORT_EXPLICIT)"

text \<open>The other modes are only reported as not implemented.\<close>

definition ITM_changeTransactionMode :: "nat \<Rightarrow> params \<Rightarrow> transaction_state \<Rightarrow> unit prog" where
  "ITM_changeTransactionMode n P mode =
    (if mode = modeSerialIrrevocable then bnd (stm_set_irrevocable n P 1) (\<lambda>_. ret ()) else ret ())"

section \<open>Memory\<close>

text \<open>The allocator of the C library, used outside of transactions.\<close>

definition libc_malloc :: "params \<Rightarrow> w64 prog" where
  "libc_malloc P = bnd (gets (\<lambda>s. alloc P (s_nalloc s)))
     (\<lambda>a. thn (modify (\<lambda>s. s\<lparr>s_nalloc := Suc (s_nalloc s)\<rparr>)) (ret a))"

definition libc_calloc :: "params \<Rightarrow> w64 \<Rightarrow> w64 \<Rightarrow> w64 prog" where
  "libc_calloc P nm sz =
     bnd (libc_malloc P) (\<lambda>a.
       thn (when_c (a \<noteq> 0) (set_glob (\<lambda>g. g\<lparr>g_mem := write_bytes (g_mem g) a (replicate (unat nm * unat sz) 0)\<rparr>)))
           (ret a))"

definition in_active :: "'a iprog \<Rightarrow> 'a iprog \<Rightarrow> 'a iprog" where
  "in_active m k =
     bnd (in_stm tls_get_tx) (\<lambda>tx. if tx = 0 then k
     else bnd (in_stm int_stm_active) (\<lambda>a. if a then m else k))"

definition ITM_malloc :: "abi_env \<Rightarrow> w64 \<Rightarrow> w64 iprog" where
  "ITM_malloc E sz =
     in_active (in_cb (stm_malloc (ae_stm E) (ae_free E) sz)) (in_stm (libc_malloc (ae_stm E)))"

definition ITM_calloc :: "abi_env \<Rightarrow> w64 \<Rightarrow> w64 \<Rightarrow> w64 iprog" where
  "ITM_calloc E nm sz =
     in_active (in_cb (stm_calloc (ae_stm E) (ae_free E) nm sz)) (in_stm (libc_calloc (ae_stm E) nm sz))"

definition ITM_free :: "nat \<Rightarrow> abi_env \<Rightarrow> w64 \<Rightarrow> unit iprog" where
  "ITM_free n E ptr =
     in_active (in_cb (stm_free n (ae_stm E) (ae_free E) ptr (ae_block_size E ptr)))
       (modify (\<lambda>s. s\<lparr>ab_freed := ab_freed s @ [ptr]\<rparr>))"

section \<open>Loads and stores\<close>

text \<open>
  The adapter has four loads (\<open>R\<close>, \<open>RaR\<close>, \<open>RaW\<close>, \<open>RfW\<close>) and three stores (\<open>W\<close>, \<open>WaR\<close>, \<open>WaW\<close>)
  of each type, all with the same body.  Types with no access of their own width go byte by
  byte: \<open>__m64\<close> and \<open>float _Complex\<close> (8), \<open>__m128\<close> and \<open>double _Complex\<close> (16) and
  \<open>long double _Complex\<close> (32 bytes).
\<close>

definition ITM_RU1 :: "nat \<Rightarrow> params \<Rightarrow> w64 \<Rightarrow> 8 word prog" where
  "ITM_RU1 n P addr = stm_load_u8 n P addr"

definition ITM_RU2 :: "nat \<Rightarrow> params \<Rightarrow> w64 \<Rightarrow> 16 word prog" where
  "ITM_RU2 n P addr = stm_load_u16 n P addr"

definition ITM_RU4 :: "nat \<Rightarrow> params \<Rightarrow> w64 \<Rightarrow> w32 prog" where
  "ITM_RU4 n P addr = stm_load_u32 n P addr"

definition ITM_RU8 :: "nat \<Rightarrow> params \<Rightarrow> w64 \<Rightarrow> w64 prog" where
  "ITM_RU8 n P addr = stm_load_u64 n P addr"

definition ITM_RF :: "nat \<Rightarrow> params \<Rightarrow> w64 \<Rightarrow> w32 prog" where
  "ITM_RF n P addr = stm_load_float n P addr"

definition ITM_RD :: "nat \<Rightarrow> params \<Rightarrow> w64 \<Rightarrow> w64 prog" where
  "ITM_RD n P addr = stm_load_double n P addr"

definition ITM_load_generic :: "nat \<Rightarrow> nat \<Rightarrow> params \<Rightarrow> w64 \<Rightarrow> 8 word list prog" where
  "ITM_load_generic k n P addr = stm_load_bytes n P addr k"

definition ITM_RM64 :: "nat \<Rightarrow> params \<Rightarrow> w64 \<Rightarrow> 8 word list prog" where "ITM_RM64 = ITM_load_generic 8"
definition ITM_RM128 :: "nat \<Rightarrow> params \<Rightarrow> w64 \<Rightarrow> 8 word list prog" where "ITM_RM128 = ITM_load_generic 16"
definition ITM_RCF :: "nat \<Rightarrow> params \<Rightarrow> w64 \<Rightarrow> 8 word list prog" where "ITM_RCF = ITM_load_generic 8"
definition ITM_RCD :: "nat \<Rightarrow> params \<Rightarrow> w64 \<Rightarrow> 8 word list prog" where "ITM_RCD = ITM_load_generic 16"
definition ITM_RCE :: "nat \<Rightarrow> params \<Rightarrow> w64 \<Rightarrow> 8 word list prog" where "ITM_RCE = ITM_load_generic 32"

definition ITM_WU1 :: "w64 \<Rightarrow> nat \<Rightarrow> params \<Rightarrow> w64 \<Rightarrow> 8 word \<Rightarrow> unit prog" where
  "ITM_WU1 junk n P addr val = stm_store_u8 junk n P addr val"

definition ITM_WU2 :: "w64 \<Rightarrow> nat \<Rightarrow> params \<Rightarrow> w64 \<Rightarrow> 16 word \<Rightarrow> unit prog" where
  "ITM_WU2 junk n P addr val = stm_store_u16 junk n P addr val"

definition ITM_WU4 :: "w64 \<Rightarrow> nat \<Rightarrow> params \<Rightarrow> w64 \<Rightarrow> w32 \<Rightarrow> unit prog" where
  "ITM_WU4 junk n P addr val = stm_store_u32 junk n P addr val"

definition ITM_WF :: "w64 \<Rightarrow> nat \<Rightarrow> params \<Rightarrow> w64 \<Rightarrow> w32 \<Rightarrow> unit prog" where
  "ITM_WF junk n P addr val = stm_store_float junk n P addr val"

definition ITM_WU8 :: "nat \<Rightarrow> params \<Rightarrow> w64 \<Rightarrow> w64 \<Rightarrow> unit prog" where
  "ITM_WU8 n P addr val = stm_store_u64 n P addr val"

definition ITM_WD :: "nat \<Rightarrow> params \<Rightarrow> w64 \<Rightarrow> w64 \<Rightarrow> unit prog" where
  "ITM_WD n P addr val = stm_store_double n P addr val"

text \<open>The stores of the remaining types; \<open>val\<close> has as many bytes as the type.\<close>

definition ITM_store_generic :: "nat \<Rightarrow> params \<Rightarrow> w64 \<Rightarrow> 8 word list \<Rightarrow> unit prog" where
  "ITM_store_generic n P addr val = stm_store_bytes n P addr val"

section \<open>Blocks of bytes\<close>

text \<open>
  \<open>Rt\<close> and \<open>Wt\<close> are transactional accesses, \<open>Rn\<close> and \<open>Wn\<close> direct ones.  The copies between two
  transactional ranges and all \<open>memmove\<close>s go through a buffer on the stack; the ranges of a
  \<open>memcpy\<close> do not overlap, so its direct side may be read at once.
\<close>

definition read_direct :: "w64 \<Rightarrow> nat \<Rightarrow> 8 word list prog" where
  "read_direct src sz = gets (\<lambda>s. read_bytes (g_mem (s_glob s)) src sz)"

definition write_direct :: "w64 \<Rightarrow> 8 word list \<Rightarrow> unit prog" where
  "write_direct dst bs = set_glob (\<lambda>g. g\<lparr>g_mem := write_bytes (g_mem g) dst bs\<rparr>)"

definition ITM_memcpyRnWt :: "nat \<Rightarrow> params \<Rightarrow> w64 \<Rightarrow> w64 \<Rightarrow> nat \<Rightarrow> unit prog" where
  "ITM_memcpyRnWt n P dst src sz = bnd (read_direct src sz) (\<lambda>buf. stm_store_bytes n P dst buf)"

definition ITM_memcpyRtWt :: "nat \<Rightarrow> params \<Rightarrow> w64 \<Rightarrow> w64 \<Rightarrow> nat \<Rightarrow> unit prog" where
  "ITM_memcpyRtWt n P dst src sz = bnd (stm_load_bytes n P src sz) (\<lambda>buf. stm_store_bytes n P dst buf)"

definition ITM_memmoveRnWt :: "nat \<Rightarrow> params \<Rightarrow> w64 \<Rightarrow> w64 \<Rightarrow> nat \<Rightarrow> unit prog" where
  "ITM_memmoveRnWt n P dst src sz = bnd (read_direct src sz) (\<lambda>buf. stm_store_bytes n P dst buf)"

definition ITM_memmoveRtWn :: "nat \<Rightarrow> params \<Rightarrow> w64 \<Rightarrow> w64 \<Rightarrow> nat \<Rightarrow> unit prog" where
  "ITM_memmoveRtWn n P dst src sz = bnd (stm_load_bytes n P src sz) (\<lambda>buf. write_direct dst buf)"

definition ITM_memmoveRtWt :: "nat \<Rightarrow> params \<Rightarrow> w64 \<Rightarrow> w64 \<Rightarrow> nat \<Rightarrow> unit prog" where
  "ITM_memmoveRtWt n P dst src sz = bnd (stm_load_bytes n P src sz) (\<lambda>buf. stm_store_bytes n P dst buf)"

definition ITM_memsetW :: "nat \<Rightarrow> params \<Rightarrow> w64 \<Rightarrow> int \<Rightarrow> nat \<Rightarrow> unit prog" where
  "ITM_memsetW n P dst val cnt = stm_set_bytes n P dst (word_of_int val) cnt"

section \<open>Logging\<close>

definition ITM_LU1 :: "params \<Rightarrow> w64 \<Rightarrow> unit lprog" where "ITM_LU1 P addr = stm_log_u8 P addr"
definition ITM_LU2 :: "params \<Rightarrow> w64 \<Rightarrow> unit lprog" where "ITM_LU2 P addr = stm_log_u16 P addr"
definition ITM_LU4 :: "params \<Rightarrow> w64 \<Rightarrow> unit lprog" where "ITM_LU4 P addr = stm_log_u32 P addr"
definition ITM_LU8 :: "params \<Rightarrow> w64 \<Rightarrow> unit lprog" where "ITM_LU8 P addr = stm_log_u64 P addr"
definition ITM_LF :: "params \<Rightarrow> w64 \<Rightarrow> unit lprog" where "ITM_LF P addr = stm_log_float P addr"
definition ITM_LD :: "params \<Rightarrow> w64 \<Rightarrow> unit lprog" where "ITM_LD P addr = stm_log_double P addr"
definition ITM_LE :: "params \<Rightarrow> w64 \<Rightarrow> unit lprog" where "ITM_LE P addr = stm_log_bytes P addr 16"
definition ITM_LM64 :: "params \<Rightarrow> w64 \<Rightarrow> unit lprog" where "ITM_LM64 P addr = stm_log_bytes P addr 8"
definition ITM_LM128 :: "params \<Rightarrow> w64 \<Rightarrow> unit lprog" where "ITM_LM128 P addr = stm_log_bytes P addr 16"
definition ITM_LCF :: "params \<Rightarrow> w64 \<Rightarrow> unit lprog" where "ITM_LCF P addr = stm_log_bytes P addr 8"
definition ITM_LCD :: "params \<Rightarrow> w64 \<Rightarrow> unit lprog" where "ITM_LCD P addr = stm_log_bytes P addr 16"
definition ITM_LCE :: "params \<Rightarrow> w64 \<Rightarrow> unit lprog" where "ITM_LCE P addr = stm_log_bytes P addr 32"
definition ITM_LB :: "params \<Rightarrow> w64 \<Rightarrow> nat \<Rightarrow> unit lprog" where "ITM_LB P addr sz = stm_log_bytes P addr sz"

section \<open>Lemmas\<close>

lemma with_tx_here: "s_cur s \<noteq> 0 \<Longrightarrow> wp (with_tx m) s Q E = wp m s Q E"
  by (simp add: with_tx_def tls_get_tx_def)

lemma tx_undo:
  assumes "tx_ok P M k s"
  shows "wp (design_rollback P) s (\<lambda>_ t. landed s t \<and> g_mem (s_glob t) = undo_base P s) never"
  using assms
proof (cases rule: tx_okE)
  case etl
  then show ?thesis using etl_undo [OF etl(1)] by simp
next
  case ctl
  then show ?thesis using ctl_undo [OF ctl(1)] by simp
next
  case wt
  then show ?thesis using wt_undo_all [OF wt(1)] by simp
qed

lemma tx_running: "tx_ok P M k s \<Longrightarrow> running P M s"
  by (auto simp: tx_ok_def etl_ok_def ctl_ok_def wt_ok_def)

text \<open>A commit inside another transaction only counts, and so does one after the counter wrapped.\<close>

lemma inner_commit:
  "tx_nesting (s_tx s) \<noteq> 1 \<Longrightarrow> wp (int_stm_commit n P) s Q E = Q True (upd_tx (\<lambda>t. t\<lparr>tx_nesting := tx_nesting t - 1\<rparr>) s)"
  by (simp add: int_stm_commit_def word_gt_0)

lemma upd_tx_twice: "upd_tx f (upd_tx g s) = upd_tx (f \<circ> g) s"
  by (simp add: upd_tx_def)

lemma next_level:
  fixes k :: w32
  assumes "k \<noteq> -1"
  shows "unat (k + 1) = Suc (unat k)"
proof -
  have "1 + k \<noteq> 0" using assms by (simp add: eq_neg_iff_add_eq_0 add.commute)
  from unatSuc [OF this] show ?thesis by (simp add: add.commute)
qed

lemma commit_to_spec:
  assumes "1 < tid" "tx_nesting (s_tx s) \<noteq> -1" "tid \<le> tx_nesting (s_tx s) + 1"
    and "unat (tx_nesting (s_tx s)) + 2 \<le> n + unat tid"
  shows "wp (commit_to n P tid) s (\<lambda>_ t. t = upd_tx (\<lambda>t. t\<lparr>tx_nesting := tid - 1\<rparr>) s) never"
  using assms
proof (induction n arbitrary: s)
  case 0
  then show ?case using next_level [of "tx_nesting (s_tx s)"] by (simp add: word_le_nat_alt)
next
  case (Suc n)
  let ?k = "tx_nesting (s_tx s)"
  let ?t = "upd_tx (\<lambda>t. t\<lparr>tx_nesting := tx_nesting t - 1\<rparr>) s"
  have k: "unat (?k + 1) = Suc (unat ?k)" by (rule next_level) (use Suc.prems in simp)
  have one: "1 < unat tid" using Suc.prems(1) by (simp add: word_less_nat_alt)
  show ?case
  proof (cases "?k + 1 > tid")
    case True
    then have big: "unat tid \<le> unat ?k" using k by (simp add: word_less_nat_alt)
    then have "?k \<noteq> 0" "?k \<noteq> 1" using one by auto
    moreover have "Suc (unat (?k - 1)) = unat ?k" using \<open>?k \<noteq> 0\<close> big one by (simp add: unat_minus_one)
    moreover have "?k - 1 \<noteq> -1" using \<open>?k \<noteq> 0\<close> by (simp add: diff_eq_eq)
    ultimately have "wp (commit_to n P tid) ?t (\<lambda>_ t. t = upd_tx (\<lambda>t. t\<lparr>tx_nesting := tid - 1\<rparr>) ?t) never"
      using Suc.prems big by (intro Suc.IH) (simp_all add: word_le_nat_alt)
    then show ?thesis using True \<open>?k \<noteq> 1\<close> by (simp add: inner_commit upd_tx_twice comp_def)
  next
    case False
    then have "tid = ?k + 1" using Suc.prems(3) by simp
    then show ?thesis by (cases s) (simp add: upd_tx_def)
  qed
qed

section \<open>Properties\<close>

text \<open>C34: Ending transactions by number: \<open>_ITM_commitTransactionToId\<close> ends the transactions inside the one
  with the given number and nothing else, so that number is the current one afterwards.\<close>

theorem commit_to_id_ends_inner:
  assumes "s_cur s \<noteq> 0" "1 < tid" "tid \<le> tx_nesting (s_tx s) + 1" "tx_nesting (s_tx s) \<noteq> -1"
    and "unat (tx_nesting (s_tx s)) + 2 \<le> n + unat tid"
  shows "wp (ITM_commitTransactionToId n P tid) s
    (\<lambda>_ t. t = upd_tx (\<lambda>t. t\<lparr>tx_nesting := tid - 1\<rparr>) s \<and> ITM_getTransactionId t = (Ret tid, t)) never"
  unfolding ITM_commitTransactionToId_def with_tx_here [OF assms(1)]
  by (rule wp_mono [OF commit_to_spec [OF assms(2,4,3,5)]])
    (use assms(1) in \<open>auto simp: ITM_getTransactionId_def tls_get_tx_def get_tx_def\<close>)

lemma commit_to_id_ends_inner_witness:
  "wp (ITM_commitTransactionToId 4 (sample_params WRITE_BACK_ETL) 2) (upd_tx (\<lambda>t. t\<lparr>tx_nesting := 3\<rparr>) sample_run)
    (\<lambda>_ t. t = upd_tx (\<lambda>t. t\<lparr>tx_nesting := 1\<rparr>) (upd_tx (\<lambda>t. t\<lparr>tx_nesting := 3\<rparr>) sample_run)
       \<and> ITM_getTransactionId t = (Ret 2, t)) never"
  using commit_to_id_ends_inner [of "upd_tx (\<lambda>t. t\<lparr>tx_nesting := 3\<rparr>) sample_run" 2 4 "sample_params WRITE_BACK_ETL"]
  by (simp add: sample_defs)

text \<open>C28: A cancelled transaction goes on.  \<open>_ITM_abortTransaction\<close> with \<open>userAbort\<close> undoes the
  transaction and then returns to the code that cancelled it.  The commit at the end of that code
  finds no transaction and wraps the nesting counter, so that the next transaction of the
  thread is taken for a nested one and is never started.\<close>

theorem cancelled_transaction_goes_on:
  assumes "tx_ok P M k s"
  shows "\<exists>t u. ITM_abortTransaction (n + 3) P userAbort s = (Ret (), t)
    \<and> g_mem (s_glob t) = undo_base P s \<and> idle P M t
    \<and> ITM_commitTransaction m P t = (Ret (), u) \<and> tx_nesting (s_tx u) = -1
    \<and> (\<forall>j a. \<exists>v. int_stm_start j P a u = (Ret False, v) \<and> tx_nesting (s_tx v) = 0
         \<and> \<not> IS_ACTIVE (tx_status (s_tx v)) \<and> s_glob v = s_glob u)"
proof -
  have run: "running P M s" by (rule tx_running [OF assms])
  have stop: "no_more_retry STM_ABORT_NO_RETRY (s_tx s)" "STM_ABORT_NO_RETRY \<noteq> STM_ABORT_EXTEND_WS"
    by (simp_all add: no_more_retry_def reason_defs)
  have "wp (stm_rollback (n + 3) P STM_ABORT_NO_RETRY) s (\<lambda>_ t. idle P M t \<and> g_mem (s_glob t) = undo_base P s) never"
    by (rule wp_mono [OF rollback_alone [OF run _ stop(2) tx_undo [OF assms]]]) (use stop(1) in auto)
  then have "wp (ITM_abortTransaction (n + 3) P userAbort) s (\<lambda>_ t. idle P M t \<and> g_mem (s_glob t) = undo_base P s) never"
    using run by (simp add: ITM_abortTransaction_def abort_code_def with_tx_here running_def)
  then obtain t where t: "ITM_abortTransaction (n + 3) P userAbort s = (Ret (), t)" "idle P M t"
    "g_mem (s_glob t) = undo_base P s" by (auto simp: wp_never)
  have i: "s_cur t \<noteq> 0" "tx_nesting (s_tx t) = 0" "\<not> IS_ACTIVE (tx_status (s_tx t))"
    using t(2) by (simp_all add: idle_def)
  let ?u = "upd_tx (\<lambda>t. t\<lparr>tx_nesting := tx_nesting t - 1\<rparr>) t"
  have "wp (ITM_commitTransaction m P) t (\<lambda>_ u. u = ?u) never"
    using i by (simp add: ITM_commitTransaction_def with_tx_here inner_commit)
  then have u: "ITM_commitTransaction m P t = (Ret (), ?u)" by (simp add: wp_never)
  let ?v = "upd_tx (\<lambda>t. t\<lparr>tx_nesting := tx_nesting t + 1\<rparr>) ?u"
  have "wp (int_stm_start j P a) ?u (\<lambda>r v. r = False \<and> v = ?v) never" for j a
    using i by (simp add: int_stm_start_def word_gt_0)
  then have "int_stm_start j P a ?u = (Ret False, ?v)" for j a
    unfolding wp_never by blast
  with t u i show ?thesis by (intro exI [of _ t] exI [of _ ?u]) auto
qed

lemma cancelled_transaction_goes_on_witness:
  "\<exists>t u. ITM_abortTransaction (0 + 3) (sample_params WRITE_THROUGH) userAbort (as_stm sample_alloc) = (Ret (), t)
    \<and> ITM_commitTransaction 3 (sample_params WRITE_THROUGH) t = (Ret (), u) \<and> tx_nesting (s_tx u) = -1"
  using cancelled_transaction_goes_on [OF sample_mem_ok, of 0 3] by (auto simp: sample_alloc_def)

text \<open>Copying inside a transaction: \<open>_ITM_memmoveRtWt\<close> and \<open>_ITM_memcpyRtWt\<close> make the transaction see
  at the destination the bytes it saw at the source before, at any alignment and also when the ranges
  overlap, and \<open>_ITM_memsetW\<close> fills exactly its range, in every design.\<close>

lemma itm_blocks:
  assumes "tx_ok P M ((OFFSET dst + sz + 7) div 8) s" "0 < sz"
  shows "wp (ITM_memmoveRtWt (n + 3) P dst src sz) s (\<lambda>_ t. tx_ok P M 0 t
      \<and> tx_view P t = write_bytes (tx_view P s) dst (read_bytes (tx_view P s) src sz)) never
    \<and> wp (ITM_memcpyRtWt (n + 3) P dst src sz) s (\<lambda>_ t. tx_ok P M 0 t
      \<and> tx_view P t = write_bytes (tx_view P s) dst (read_bytes (tx_view P s) src sz)) never
    \<and> wp (ITM_memsetW (n + 3) P dst v sz) s (\<lambda>_ t. tx_ok P M 0 t
      \<and> tx_view P t = write_bytes (tx_view P s) dst (replicate sz (word_of_int v))) never"
proof -
  let ?bs = "read_bytes (tx_view P s) src sz" and ?j = "(OFFSET dst + sz + 7) div 8"
  have load: "wp (stm_load_bytes (n + 3) P src sz) s
      (\<lambda>bs t. bs = ?bs \<and> tx_ok P M ?j t \<and> tx_view P t = tx_view P s) never"
    unfolding stm_load_bytes_def
    by (rule wp_mono [OF stm_bytes.load_bytes_spec [OF assms(1)]]) auto
  have store: "wp (stm_store_bytes (n + 3) P dst ?bs) t
      (\<lambda>_ u. tx_ok P M 0 u \<and> tx_view P u = write_bytes (tx_view P s) dst ?bs) never"
    if "tx_ok P M ?j t" "tx_view P t = tx_view P s" for t
    unfolding stm_store_bytes_def
    by (rule wp_mono [OF stm_bytes.store_bytes_spec [of P M dst ?bs 0]]) (use that assms(2) in \<open>auto simp flip: length_0_conv\<close>)
  have copy: "wp (bnd (stm_load_bytes (n + 3) P src sz) (stm_store_bytes (n + 3) P dst)) s
      (\<lambda>_ t. tx_ok P M 0 t \<and> tx_view P t = write_bytes (tx_view P s) dst ?bs) never"
    unfolding wp_bnd by (rule wp_mono [OF load]) (use store in auto)
  have fill: "wp (stm_set_bytes (n + 3) P dst b sz) s
      (\<lambda>_ t. tx_ok P M 0 t \<and> tx_view P t = write_bytes (tx_view P s) dst (replicate sz b)) never" for b
    unfolding stm_set_bytes_def
    by (rule wp_mono [OF stm_bytes.set_bytes_spec [of P M dst sz 0]]) (use assms in auto)
  show ?thesis
    using copy fill by (simp add: ITM_memmoveRtWt_def ITM_memcpyRtWt_def ITM_memsetW_def)
qed

text \<open>A compiled atomic block: the code before it, its body, the code after it.\<close>

definition atomic_block :: "nat \<Rightarrow> abi_env \<Rightarrow> w32 \<Rightarrow> 'a prog \<Rightarrow> (w32 \<times> 'a) iprog" where
  "atomic_block n E attr body =
     bnd (GTM_begin_transaction n E attr) (\<lambda>r. bnd (in_stm body) (\<lambda>x.
       thn (in_stm (ITM_commitTransaction n (ae_stm E))) (ret (fst r, x))))"

lemma begin_alone:
  assumes i: "idle (ae_stm E) M (ab_stm s)"
    and a: "attr AND pr_doesGoIrrevocable = 0" "attr AND pr_instrumentedCode \<noteq> 0" "attr AND pr_readOnly = 0"
  shows "wp (GTM_begin_transaction (n + 3) E attr) s (\<lambda>r t. fst r = a_runInstrumentedCode OR a_saveLiveVariables
    \<and> tx_ok (ae_stm E) M M (ab_stm t) \<and> tx_view (ae_stm E) (ab_stm t) = g_mem (s_glob (ab_stm s))) never"
proof -
  have cur: "s_cur (ab_stm s) \<noteq> 0" using i by (simp add: idle_def)
  have "wp (int_stm_start (n + 3) (ae_stm E) attr0) (ab_stm s)
      (\<lambda>_ t. tx_ok (ae_stm E) M M t \<and> tx_view (ae_stm E) t = g_mem (s_glob (ab_stm s))) never"
    using wp_mono [OF tx_start [OF i, of attr0 n]] cur by (auto simp: attr0_def stm_start_def with_tx_here)
  moreover have "attr0\<lparr>at_read_only := False\<rparr> = attr0" by (simp add: attr0_def)
  ultimately show ?thesis
    using a cur by (simp add: GTM_begin_transaction_def tls_get_tx_def begin_code_def)
qed


text \<open>Five bytes from 64 to 66, over themselves.\<close>

definition sample_abi :: "abi_env" where
  "sample_abi = \<lparr>ae_stm = sample_params WRITE_THROUGH, ae_move = (\<lambda>_ st. st), ae_cpp = sample_cpp, ae_free = 9,
     ae_block_size = (\<lambda>_. 0), ae_mem_cbs = \<lparr>on_thread_init = 0, on_thread_exit = 0, on_start = 0, on_precommit = 0, on_commit = 0, on_abort = 0\<rparr>,
     ae_alloc_cbs = \<lparr>on_thread_init = 0, on_thread_exit = 0, on_start = 0, on_precommit = 0, on_commit = 0, on_abort = 0\<rparr>,
     ae_log_cbs = \<lparr>on_thread_init = 0, on_thread_exit = 0, on_start = 0, on_precommit = 0, on_commit = 0, on_abort = 0\<rparr>\<rparr>"

definition sample_abi_st :: "abi_st" where
  "sample_abi_st = \<lparr>ab_status = ABI_INITIALIZED, ab_tick = 0, ab_stm = sample_idle, ab_cb_key = -1, ab_cb_info = cs_info sample_cb,
     ab_log_key = 0, ab_log_initialized = False, ab_log_sets = (\<lambda>_. \<lparr>ls_entries = [], ls_size = 0, ls_allocated = 0\<rparr>),
     ab_al_key = 0, ab_al_initialized = False, ab_al_info = as_info sample_alloc, ab_freed = []\<rparr>"


end
