(* ===== verification/Tanger.thy ===== *)
theory Tanger
  imports Itm
begin

text \<open>
  The entry points of the DTMC compiler (\<open>src/abi/dtmc/tanger.c\<close>), of the Oracle compiler
  (\<open>src/abi/oracle/otm.c\<close>) and of the Intel compiler's allocator (\<open>src/abi/intel/alloc.c\<close>), without
  \<open>STACK_CHECK\<close>.  Most of them pass their arguments on.  A \<open>float\<close> is its bit pattern, before the
  conversion to the \<open>double\<close> that \<open>STM_TranReadFloat32\<close> returns.
\<close>

section \<open>Loads and stores of DTMC\<close>

definition tanger_stm_load1 :: "nat \<Rightarrow> params \<Rightarrow> w64 \<Rightarrow> 8 word prog" where
  "tanger_stm_load1 n P addr = stm_load_u8 n P addr"

definition tanger_stm_load8 :: "nat \<Rightarrow> params \<Rightarrow> w64 \<Rightarrow> 8 word prog" where
  "tanger_stm_load8 n P addr = stm_load_u8 n P addr"

definition tanger_stm_load16 :: "nat \<Rightarrow> params \<Rightarrow> w64 \<Rightarrow> 16 word prog" where
  "tanger_stm_load16 n P addr = stm_load_u16 n P addr"

definition tanger_stm_load32 :: "nat \<Rightarrow> params \<Rightarrow> w64 \<Rightarrow> w32 prog" where
  "tanger_stm_load32 n P addr = stm_load_u32 n P addr"

definition tanger_stm_load64 :: "nat \<Rightarrow> params \<Rightarrow> w64 \<Rightarrow> w64 prog" where
  "tanger_stm_load64 n P addr = stm_load_u64 n P addr"

definition tanger_stm_load16aligned :: "nat \<Rightarrow> params \<Rightarrow> w64 \<Rightarrow> 16 word prog" where
  "tanger_stm_load16aligned n P addr = stm_load_u16 n P addr"

definition tanger_stm_load32aligned :: "nat \<Rightarrow> params \<Rightarrow> w64 \<Rightarrow> w32 prog" where
  "tanger_stm_load32aligned n P addr = stm_load_u32 n P addr"

definition tanger_stm_load64aligned :: "nat \<Rightarrow> params \<Rightarrow> w64 \<Rightarrow> w64 prog" where
  "tanger_stm_load64aligned n P addr = stm_load n P addr"

definition tanger_stm_store1 :: "w64 \<Rightarrow> nat \<Rightarrow> params \<Rightarrow> w64 \<Rightarrow> 8 word \<Rightarrow> unit prog" where
  "tanger_stm_store1 junk n P addr value = stm_store_u8 junk n P addr value"

definition tanger_stm_store8 :: "w64 \<Rightarrow> nat \<Rightarrow> params \<Rightarrow> w64 \<Rightarrow> 8 word \<Rightarrow> unit prog" where
  "tanger_stm_store8 junk n P addr value = stm_store_u8 junk n P addr value"

definition tanger_stm_store16 :: "w64 \<Rightarrow> nat \<Rightarrow> params \<Rightarrow> w64 \<Rightarrow> 16 word \<Rightarrow> unit prog" where
  "tanger_stm_store16 junk n P addr value = stm_store_u16 junk n P addr value"

definition tanger_stm_store32 :: "w64 \<Rightarrow> nat \<Rightarrow> params \<Rightarrow> w64 \<Rightarrow> w32 \<Rightarrow> unit prog" where
  "tanger_stm_store32 junk n P addr value = stm_store_u32 junk n P addr value"

definition tanger_stm_store16aligned :: "w64 \<Rightarrow> nat \<Rightarrow> params \<Rightarrow> w64 \<Rightarrow> 16 word \<Rightarrow> unit prog" where
  "tanger_stm_store16aligned junk n P addr value = stm_store_u16 junk n P addr value"

definition tanger_stm_store32aligned :: "w64 \<Rightarrow> nat \<Rightarrow> params \<Rightarrow> w64 \<Rightarrow> w32 \<Rightarrow> unit prog" where
  "tanger_stm_store32aligned junk n P addr value = stm_store_u32 junk n P addr value"

text \<open>\<open>store64aligned\<close> tests the misspelt \<open>__WORD_SIZE\<close>, so it takes the general store.\<close>

definition tanger_stm_store64 :: "nat \<Rightarrow> params \<Rightarrow> w64 \<Rightarrow> w64 \<Rightarrow> unit prog" where
  "tanger_stm_store64 n P addr value = stm_store_u64 n P addr value"

definition tanger_stm_store64aligned :: "nat \<Rightarrow> params \<Rightarrow> w64 \<Rightarrow> w64 \<Rightarrow> unit prog" where
  "tanger_stm_store64aligned n P addr value = stm_store_u64 n P addr value"

section \<open>Regions and memory of DTMC\<close>

text \<open>
  A region is loaded into memory that no other thread uses: what an abort in the middle leaves
  there is not looked at.  \<open>tanger_stm_storeregion\<close> hands \<open>src\<close> and \<open>dest\<close> to \<open>stm_store_bytes\<close> in this
  order, whose first argument is the address to store to.
\<close>

definition tanger_stm_loadregion :: "nat \<Rightarrow> params \<Rightarrow> w64 \<Rightarrow> nat \<Rightarrow> w64 \<Rightarrow> unit prog" where
  "tanger_stm_loadregion n P src bytes dest =
     bnd (stm_load_bytes n P src bytes) (\<lambda>buf. write_direct dest buf)"

definition tanger_stm_storeregion :: "nat \<Rightarrow> params \<Rightarrow> w64 \<Rightarrow> nat \<Rightarrow> w64 \<Rightarrow> unit prog" where
  "tanger_stm_storeregion n P src bytes dest =
     bnd (read_direct dest bytes) (\<lambda>buf. stm_store_bytes n P src buf)"

definition tanger_stm_malloc :: "abi_env \<Rightarrow> w64 \<Rightarrow> w64 iprog" where
  "tanger_stm_malloc E sz = ITM_malloc E sz"

definition tanger_stm_free :: "nat \<Rightarrow> abi_env \<Rightarrow> w64 \<Rightarrow> unit iprog" where
  "tanger_stm_free n E ptr = ITM_free n E ptr"

text \<open>The product wraps; \<open>memset\<close> on a failed allocation is undefined.\<close>

definition tanger_stm_calloc :: "abi_env \<Rightarrow> w64 \<Rightarrow> w64 \<Rightarrow> w64 iprog" where
  "tanger_stm_calloc E nmemb sz =
     bnd (ITM_malloc E (nmemb * sz)) (\<lambda>p.
       if p = 0 \<and> nmemb * sz \<noteq> 0 then stop Undef
       else thn (in_stm (write_direct p (replicate (unat (nmemb * sz)) 0))) (ret p))"

text \<open>
  The copy takes the usable size of the old block whatever the size of the new one; when the
  new block is smaller it is written past its end.
\<close>

definition tanger_stm_realloc :: "nat \<Rightarrow> abi_env \<Rightarrow> w64 \<Rightarrow> w64 \<Rightarrow> w64 iprog" where
  "tanger_stm_realloc n E ptr sz =
    (if ptr = 0 then tanger_stm_malloc E sz
     else if sz = 0 then thn (tanger_stm_free n E ptr) (ret 0)
     else bnd (tanger_stm_malloc E sz) (\<lambda>p.
       thn (in_stm (bnd (stm_load_bytes n (ae_stm E) ptr (unat (ae_block_size E ptr))) (\<lambda>buf.
              if p = 0 \<and> buf \<noteq> [] then stop Undef else write_direct p buf)))
      (thn (tanger_stm_free n E ptr) (ret p))))"

text \<open>The two functions as \<open>memcpy\<close>s: one copies from source to destination, the other back.\<close>

lemma storeregion_backwards:
  assumes ok: "tx_ok P M ((OFFSET src + k + 7) div 8) s" and k: "0 < k"
  shows "wp (tanger_stm_storeregion (n + 3) P src k dest) s (\<lambda>_ t. tx_ok P M 0 t
    \<and> tx_view P t = write_bytes (tx_view P s) src (read_bytes (g_mem (s_glob s)) dest k)) never"
proof -
  let ?bs = "read_bytes (g_mem (s_glob s)) dest k"
  have "wp (stm_store_bytes (n + 3) P src ?bs) s
      (\<lambda>_ u. tx_ok P M 0 u \<and> tx_view P u = write_bytes (tx_view P s) src ?bs) never"
    unfolding stm_store_bytes_def
    by (rule wp_mono [OF stm_bytes.store_bytes_spec [of P M src ?bs 0]]) (use ok k in \<open>auto simp flip: length_0_conv\<close>)
  then show ?thesis by (simp add: tanger_stm_storeregion_def read_direct_def)
qed

section \<open>Oracle\<close>

text \<open>The handles of the acquisition functions are always \<open>NULL\<close> and ignored by the accesses.\<close>

definition STM_BeginTransaction :: "nat \<Rightarrow> params \<Rightarrow> (int \<times> bool) prog" where
  "STM_BeginTransaction n P = bnd (int_stm_start n P attr0) (\<lambda>env. ret (1, env))"

definition STM_ValidateTransaction :: "int" where "STM_ValidateTransaction = 1"

definition STM_CommitTransaction :: "nat \<Rightarrow> params \<Rightarrow> bool prog" where
  "STM_CommitTransaction n P = int_stm_commit n P"

definition STM_TranRead8 :: "nat \<Rightarrow> params \<Rightarrow> w64 \<Rightarrow> 8 word prog" where
  "STM_TranRead8 n P addr = stm_load_u8 n P addr"

definition STM_TranRead16 :: "nat \<Rightarrow> params \<Rightarrow> w64 \<Rightarrow> 16 word prog" where
  "STM_TranRead16 n P addr = stm_load_u16 n P addr"

definition STM_TranRead32 :: "nat \<Rightarrow> params \<Rightarrow> w64 \<Rightarrow> w32 prog" where
  "STM_TranRead32 n P addr = stm_load_u32 n P addr"

definition STM_TranRead64 :: "nat \<Rightarrow> params \<Rightarrow> w64 \<Rightarrow> w64 prog" where
  "STM_TranRead64 n P addr = stm_load_u64 n P addr"

definition STM_TranReadFloat32 :: "nat \<Rightarrow> params \<Rightarrow> w64 \<Rightarrow> w32 prog" where
  "STM_TranReadFloat32 n P addr = stm_load_float n P addr"

definition STM_TranReadFloat64 :: "nat \<Rightarrow> params \<Rightarrow> w64 \<Rightarrow> w64 prog" where
  "STM_TranReadFloat64 n P addr = stm_load_double n P addr"

definition STM_TranWrite8 :: "w64 \<Rightarrow> nat \<Rightarrow> params \<Rightarrow> w64 \<Rightarrow> 8 word \<Rightarrow> int prog" where
  "STM_TranWrite8 junk n P addr val = thn (stm_store_u8 junk n P addr val) (ret 1)"

definition STM_TranWrite16 :: "w64 \<Rightarrow> nat \<Rightarrow> params \<Rightarrow> w64 \<Rightarrow> 16 word \<Rightarrow> int prog" where
  "STM_TranWrite16 junk n P addr val = thn (stm_store_u16 junk n P addr val) (ret 1)"

definition STM_TranWrite32 :: "w64 \<Rightarrow> nat \<Rightarrow> params \<Rightarrow> w64 \<Rightarrow> w32 \<Rightarrow> int prog" where
  "STM_TranWrite32 junk n P addr val = thn (stm_store_u32 junk n P addr val) (ret 1)"

definition STM_TranWrite64 :: "nat \<Rightarrow> params \<Rightarrow> w64 \<Rightarrow> w64 \<Rightarrow> int prog" where
  "STM_TranWrite64 n P addr val = thn (stm_store_u64 n P addr val) (ret 1)"

definition STM_TranWriteFloat32 :: "w64 \<Rightarrow> nat \<Rightarrow> params \<Rightarrow> w64 \<Rightarrow> w32 \<Rightarrow> int prog" where
  "STM_TranWriteFloat32 junk n P addr val = thn (stm_store_float junk n P addr val) (ret 1)"

definition STM_TranWriteFloat64 :: "nat \<Rightarrow> params \<Rightarrow> w64 \<Rightarrow> w64 \<Rightarrow> int prog" where
  "STM_TranWriteFloat64 n P addr val = thn (stm_store_double n P addr val) (ret 1)"

definition STM_TranMalloc :: "params \<Rightarrow> w64 \<Rightarrow> w64 \<Rightarrow> w64 cprog" where
  "STM_TranMalloc P free_f sz = stm_malloc P free_f sz"

definition STM_TranCalloc :: "params \<Rightarrow> w64 \<Rightarrow> w64 \<Rightarrow> w64 \<Rightarrow> w64 cprog" where
  "STM_TranCalloc P free_f elem sz = stm_calloc P free_f elem sz"

definition STM_TranMFree :: "nat \<Rightarrow> params \<Rightarrow> w64 \<Rightarrow> w64 \<Rightarrow> unit cprog" where
  "STM_TranMFree n P free_f addr = stm_free n P free_f addr 8"

definition STM_TranMemAlign :: "w64 prog" where "STM_TranMemAlign = stop AssertFail"

definition STM_TranValloc :: "w64 prog" where "STM_TranValloc = stop AssertFail"

definition STM_TranMemCpy :: "nat \<Rightarrow> params \<Rightarrow> w64 \<Rightarrow> w64 \<Rightarrow> nat \<Rightarrow> unit prog" where
  "STM_TranMemCpy n P src dst sz = bnd (stm_load_bytes n P src sz) (\<lambda>buf. stm_store_bytes n P dst buf)"

definition STM_CurrentlyUsingDecoratedPath :: "w64 \<Rightarrow> int" where
  "STM_CurrentlyUsingDecoratedPath tx = (if tx = 0 then 0 else 1)"

section \<open>Intel\<close>

definition malloc_txn :: "params \<Rightarrow> w64 \<Rightarrow> w64 \<Rightarrow> w64 cprog" where
  "malloc_txn P free_f sz = stm_malloc P free_f sz"

definition calloc_txn :: "params \<Rightarrow> w64 \<Rightarrow> w64 \<Rightarrow> w64 \<Rightarrow> w64 cprog" where
  "calloc_txn P free_f nmemb sz = stm_calloc P free_f nmemb sz"

definition free_txn :: "nat \<Rightarrow> params \<Rightarrow> w64 \<Rightarrow> w64 \<Rightarrow> unit cprog" where
  "free_txn n P free_f addr = stm_free n P free_f addr 8"

end
