(* ===== verification/Spec2Isabelle.thy ===== *)
theory Spec2Isabelle
  imports SeqAll Rival MemTx ModCb ModLog ModStats ModOrder Gc Races Interface Tanger
begin

text \<open>
  TinySTM, a word-based software transactional memory in C.

  \<^bold>\<open>The program.\<close>  A thread brackets its accesses to shared words by \<open>stm_start\<close> and
  \<open>stm_commit\<close> and makes them through \<open>stm_load\<close> and \<open>stm_store\<close>.  A hash sends each address to
  a lock word that holds the version of its stripe (a value of the global clock) or, while a
  transaction owns the stripe, a pointer to an entry of its write set.  A read checks the version
  against the snapshot of the transaction and extends the snapshot when it must.  A
  commit takes a new time from the clock, validates the reads, installs the writes and frees the
  locks.  There are three designs: write-back with encounter-time locking (\<open>WRITE_BACK_ETL\<close>,
  locks taken by the write), write-back with commit-time locking (\<open>WRITE_BACK_CTL\<close>, locks taken by
  the commit) and \<open>WRITE_THROUGH\<close> (locks taken by the write, memory written at once and undone by
  a rollback); a fourth build, \<open>MODULAR\<close>, chooses by an attribute.  Modules (memory
  management, undo log, statistics, commit order) hang on callbacks of the core, and an
  epoch-based collector delays \<open>free\<close>.

  \<^bold>\<open>The theories\<close> and the files under \<open>src/src\<close> they model:
  \<^item> \<open>Prelude\<close>: outcomes of a C function (return, \<open>longjmp\<close>, no return, failed assertion, \<open>exit\<close>,
    undefined behaviour), state-passing computations, weakest preconditions.
  \<^item> \<open>Locks\<close>: status words, lock words and the hash (\<open>stm_internal.h\<close>).
  \<^item> \<open>State\<close>: \<open>stm_tx_t\<close>, \<open>global_t\<close>, the entries, shared accesses (\<open>stm_internal.h\<close>, \<open>stm.h\<close>).
  \<^item> \<open>Quiesce\<close>: list of threads, barrier, quiescence for irrevocable transactions (\<open>stm_internal.h\<close>).
  \<^item> \<open>Design\<close>: validate, extend and roll back in the three designs; \<open>Rollback\<close>: \<open>stm_rollback\<close>,
    \<open>int_stm_prepare\<close>, \<open>int_stm_set_irrevocable\<close>, which call each other.
  \<^item> \<open>Wset\<close>, \<open>Wbetl\<close>, \<open>Wbctl\<close>, \<open>Wt\<close>: the write set and the reads, writes and commits of each
    design (\<open>stm_wbetl.h\<close>, \<open>stm_wbctl.h\<close>, \<open>stm_wt.h\<close>).
  \<^item> \<open>Api\<close> (\<open>int_stm_*\<close>, \<open>tls.h\<close>) and \<open>Stm\<close> (\<open>stm.c\<close>): the functions the application calls.
  \<^item> \<open>Bytes\<close>, \<open>ByteMem\<close>, \<open>Wrappers\<close>: loads and stores of every width and of blocks (\<open>wrappers.c\<close>).
  \<^item> \<open>ModCb\<close> (\<open>mod_cb_mem.c\<close>), \<open>ModLog\<close> (\<open>mod_log.c\<close>), \<open>ModStats\<close> (\<open>mod_stats.c\<close>), \<open>ModOrder\<close>
    (\<open>mod_order.c\<close>), \<open>Gc\<close> (\<open>gc.c\<close>), \<open>Cm\<close> (contention managers of \<open>stm.c\<close>).
  \<^item> \<open>Txmem\<close>, \<open>Seq\<close>, \<open>SeqEtl\<close>, \<open>SeqCtl\<close>, \<open>SeqWt\<close>, \<open>SeqAll\<close>: the contract of a transactional memory
    as locales, and its interpretation on each design and on the exported functions.
  \<^item> \<open>History\<close>, \<open>Snapshot\<close>, \<open>Serial\<close>, \<open>Publish\<close>: encounter-time transactions beside other threads that
    follow the locking protocol (what they may do, reads, writes, commit and start), with the
    contract \<open>observed\<close> as a locale; \<open>Rival\<close>: another thread that commits in between.
  \<^item> \<open>Modular\<close>: encounter-time locking as \<open>CM_MODULAR\<close> compiles it (\<open>stm_wbetl.h\<close>,
    \<open>stm_internal.h\<close>): visible reads, killing another transaction, stealing its locks; \<open>Killing\<close>
    and \<open>Visible\<close>: what that protocol guarantees; \<open>Races\<close>: two runs in which it fails, where the
    other thread runs the same code.
  \<^item> \<open>AbiInit\<close> and \<open>Itm\<close> (\<open>src/abi/abi.c\<close>, \<open>gcc/libitm.h\<close>), \<open>AllocCpp\<close> (\<open>gcc/alloc_cpp.c\<close>), \<open>Clone\<close>
    (\<open>gcc/clone.c\<close>): the adapter for a transactional compiler, built for GCC: its initialisation,
    the functions compiled code calls, \<open>new\<close> and \<open>delete\<close>, the tables of clones; \<open>Tanger\<close>: the
    entry points for the other compilers (\<open>dtmc/tanger.c\<close>, \<open>oracle/otm.c\<close>, \<open>intel/alloc.c\<close>).
  \<^item> \<open>MemTx\<close>: the memory module on top of that contract; \<open>Interface\<close>: properties of the exported
    functions; \<open>Sample\<close>: concrete states for the witnesses.

  \<^bold>\<open>State.\<close>  The used prefix of an entry array is a list, its capacity a number beside it; a
  \<open>next\<close> pointer is an index; lock words hold \<open>base + 64 * index\<close> with the owned bit, as in C.
  \<open>we_next\<close> and \<open>we_no_drop\<close> are a union in the source.  Memory is a function from addresses to
  words.  The other threads are the parameter \<open>env\<close>: before the \<open>n\<close>-th atomic access of the
  modelled thread the shared state changes by an arbitrary function.  The allocator, the
  success of pthread initialisation and the application's callbacks are parameters as well.

  \<^bold>\<open>Configuration.\<close>  The Makefile's: \<open>CM_BACKOFF\<close>, \<open>IRREVOCABLE_ENABLED\<close>, statistics on, 64-bit
  words, compiler thread-local storage, assertions on; the design is a parameter.  \<open>Modular\<close> is
  built with \<open>CM_MODULAR\<close> and \<open>EPOCH_GC\<close> instead, without \<open>IRREVOCABLE_ENABLED\<close> and statistics.
  The source does not compile with that manager as it stands (\<open>stm_quiesce_enter_thread\<close> uses names
  defined under \<open>CM_BACKOFF\<close> only); registration of a thread is not part of \<open>Modular\<close>.

  \<^bold>\<open>Loops and fuel.\<close>  Restart loops, busy waiting and the mutual recursion of rollback, prepare
  and irrevocability take fuel; running out is the outcome \<open>Diverge\<close>, which no theorem about a
  result admits.  For a thread alone three units beyond any number are proved to be enough
  (\<open>n + 3\<close> in the theorems below); the collector needs \<open>MAX_GC_THREADS + 1\<close> for its scan and the
  callback loops one more than the number of entries.

  \<^bold>\<open>What is shown.\<close>
  \<^item> Under arbitrary interference: a write keeps the invariant of write set and locks (\<open>Wbetl\<close>),
    waiting for the commit turn (\<open>ModOrder\<close>).
  \<^item> Beside threads that follow the protocol (\<open>Rival\<close>): an encounter-time transaction that commits
    returned what its accesses return on the memory committed at one time, and memory goes on
    telling the history of committed memories; before it writes it sees one such memory even if it never
    commits; after it wrote its reads may be inconsistent, and then it cannot commit.  These are
    statements about runs that return; that a thread alone does return is proved for each design.
  \<^item> With \<open>CM_MODULAR\<close>, beside any threads that keep to the lock protocol: a killed transaction writes
    nothing and gives up exactly the locks nobody has stolen; what has been read visibly is in
    memory when the transaction goes over to committing.  A wait for another transaction has fuel,
    and the statements hold for every amount of it.
  \<^item> One operation at a time: what reads return, what commits install, what rollbacks restore, in
    each design (\<open>Wbetl\<close>, \<open>Wbctl\<close>, \<open>Wt\<close>), when a snapshot may be extended (\<open>Design\<close>).
  \<^item> Whole executions of a thread alone: sequences of transactions refine a plain memory, the
    designs agree, aborts leave no trace, byte blocks and sized values, memory management.
  \<^item> The modules: callbacks, undo log, statistics, tickets, collector, contention managers.
  \<^item> The adapter: at most one thread initialises or finalises it at a time and the two take turns; a
    compiled block that copies bytes does so in every design; \<open>new\<close> and \<open>delete\<close> are transactional;
    ending transactions by number; a registered array of clones is found and can be taken out again.
  \<^item> Errors of the code are theorems too: a failed commit that reports success, the inverted test
    of the modular build, the 32nd thread, the truncated undo log, the collector's endless wait, a
    cancelled transaction that goes on, clone tables tied into a loop by two registering threads, and
    with \<open>CM_MODULAR\<close> a committed inconsistent snapshot and a read that misses a kill.

  \<^bold>\<open>Not modelled.\<close>  With \<open>CM_MODULAR\<close>: irrevocable transactions and reading old data under a
  lock (\<open>READ_LOCKED_DATA\<close>, off in the Makefile).  \<open>mod_ab.c\<close> and
  \<open>mod_print.c\<close> compute timing statistics over doubles and print.  The atomic operations are a
  vendored library, one access being one step here; weak memory orders are outside
  the model.  Of the adapters the copies that read transactionally straight into
  the destination are left out (\<open>_ITM_memcpyRtWn\<close>: what an abort in the middle leaves there is not a
  result of the model), and so are the exceptions of \<open>eh.c\<close>, which only forward, the statistics
  report, and the saving of registers and stacks in \<open>arch.S\<close> and \<open>tanger-stm-internal.h\<close>.  The programs in \<open>src/test\<close> are clients.
\<close>

section \<open>Whole transactions\<close>

text \<open>A body between \<open>stm_start\<close> and \<open>stm_commit\<close>, and the transactions \<open>txs\<close> one after another.\<close>

definition in_tx :: "nat \<Rightarrow> params \<Rightarrow> attr \<Rightarrow> 'a prog \<Rightarrow> 'a prog" where
  "in_tx n P a body = thn (stm_start n P a) (bnd body (\<lambda>x. thn (stm_commit n P) (ret x)))"

definition stm_txs :: "nat \<Rightarrow> params \<Rightarrow> attr \<Rightarrow> tx_op list list \<Rightarrow> w64 list list prog" where
  "stm_txs n P a txs = run_txs (\<lambda>ops. in_tx n P a (run_ops (stm_load n P) (stm_store2 n P) ops)) txs"

lemma sample_mem: "g_mem (s_glob sample_idle) = (\<lambda>_. 7)"
  by (simp add: sample_defs)

lemma sample_attr_rw: "\<not> at_read_only sample_attr" "retries sample_attr 0"
  by (simp_all add: sample_defs retries_def reason_defs)

text \<open>C2: Transactions are transactional memory, in every design.  On a thread that runs alone each
  transaction of a sequence commits, each load returns what a plain memory would give, and
  afterwards memory is what the same stores make of a plain memory and every lock is free.\<close>

theorem transactions_refine_memory:
  assumes "idle P M s" "\<not> at_read_only a" "\<forall>ops \<in> set txs. stores ops \<le> M"
  shows "\<exists>vss t. stm_txs (n + 3) P a txs s = (Ret vss, t)
    \<and> (vss, g_mem (s_glob t)) = spec_txs txs (g_mem (s_glob s)) \<and> idle P M t"
  using stm.run_txs_spec [of a P M s txs n] assms
  by (simp add: stm_txs_def in_tx_def run_tx_def [symmetric] wp_never)

theorem transactions_refine_memory_witness:
  "\<exists>vss t. stm_txs (0 + 3) (sample_params WRITE_BACK_CTL) sample_attr [[Load 64, Store 64 9 255], [Load 64]] sample_idle
      = (Ret vss, t) \<and> vss = [[7], [9]] \<and> g_mem (s_glob t) 64 = 9"
proof -
  have "\<forall>ops \<in> set [[Load 64, Store 64 9 255], [Load 64]]. stores ops \<le> 4" by (simp add: stores_def)
  from transactions_refine_memory [OF sample_is_idle [of WRITE_BACK_CTL] sample_attr_rw(1) this, of 0] show ?thesis
    by (auto simp: sample_mem merge_mask_def)
qed



text \<open>C3: An aborted attempt leaves no trace.  A transaction that gives up any number of times with
  \<open>stm_abort\<close>, after any loads and stores, is restarted each time with the memory it began with,
  and the attempt that commits in the end is the only one that counts.\<close>

theorem aborts_leave_no_trace:
  assumes "idle P M s" "\<not> at_read_only a" "retries a reason" "stores ops \<le> M"
    and "\<forall>ops \<in> set given. stores ops \<le> M \<and> real_stores ops"
  shows "\<exists>vs t. thn (stm_start (n + 3) P a) (attempts (run_ops (stm_load (n + 3) P) (stm_store2 (n + 3) P))
      (stm_abort (n + 3) P reason) (stm_commit (n + 3) P) given ops) s = (Ret vs, t)
    \<and> (vs, g_mem (s_glob t)) = spec_ops ops (g_mem (s_glob s)) \<and> idle P M t"
  using stm_again.retry_spec [of a reason P M s given ops n] assms by (simp add: wp_never)

theorem aborts_leave_no_trace_witness:
  "\<exists>vs t. thn (stm_start (0 + 3) (sample_params WRITE_THROUGH) sample_attr)
      (attempts (run_ops (stm_load (0 + 3) (sample_params WRITE_THROUGH)) (stm_store2 (0 + 3) (sample_params WRITE_THROUGH)))
        (stm_abort (0 + 3) (sample_params WRITE_THROUGH) 0) (stm_commit (0 + 3) (sample_params WRITE_THROUGH))
        [[Store 64 9 255], [Store 64 1 255, Store 8 2 255]] [Load 64]) sample_idle = (Ret vs, t)
    \<and> vs = [7] \<and> g_mem (s_glob t) 64 = 7"
  using aborts_leave_no_trace [OF sample_is_idle sample_attr_rw, of "[Load 64]"
      "[[Store 64 9 255], [Store 64 1 255, Store 8 2 255]]" 0 WRITE_THROUGH]
  by (simp add: stores_def real_stores_def sample_mem) auto

section \<open>Bytes in transactions\<close>

text \<open>C16: Blocks of bytes at any alignment: inside one transaction \<open>stm_store_bytes\<close> and
  \<open>stm_set_bytes\<close> write exactly the bytes of their ranges and \<open>stm_load_bytes\<close> reads them back,
  and the commit makes memory the result.\<close>

theorem byte_blocks:
  assumes "idle P M s" "\<not> at_read_only a" "buf \<noteq> []" "0 < c"
    and "(OFFSET p + length buf + 7) div 8 + (OFFSET q + c + 7) div 8 \<le> M"
  shows "\<exists>bs t. in_tx (n + 3) P a (thn (stm_store_bytes (n + 3) P p buf) (thn (stm_set_bytes (n + 3) P q b c)
      (stm_load_bytes (n + 3) P r k))) s = (Ret bs, t)
    \<and> g_mem (s_glob t) = write_bytes (write_bytes (g_mem (s_glob s)) p buf) q (replicate c b)
    \<and> bs = read_bytes (g_mem (s_glob t)) r k \<and> idle P M t"
proof -
  let ?m = "write_bytes (write_bytes (g_mem (s_glob s)) p buf) q (replicate c b)"
  let ?j = "(OFFSET q + c + 7) div 8"
  let ?R = "\<lambda>bs mem. mem = ?m \<and> bs = read_bytes ?m r k"
  have load: "wp (stm_load_bytes (n + 3) P r k) u (\<lambda>bs w. ?R bs (tx_view P w) \<and> (\<exists>k. \<not> at_read_only a \<and> tx_ok P M k w)) never"
    if "tx_ok P M 0 u" "tx_view P u = ?m" for u
    unfolding stm_load_bytes_def
    by (rule wp_mono [OF stm_bytes.load_bytes_spec [OF that(1)]]) (use assms(2) that(2) in auto)
  have fill: "wp (stm_set_bytes (n + 3) P q b c) u (\<lambda>_ w. tx_ok P M 0 w \<and> tx_view P w = ?m) never"
    if "tx_ok P M ?j u" "tx_view P u = write_bytes (g_mem (s_glob s)) p buf" for u
    unfolding stm_set_bytes_def
    by (rule wp_mono [OF stm_bytes.set_bytes_spec [of P M q c 0]]) (use that assms(4) in auto)
  have store: "wp (stm_store_bytes (n + 3) P p buf) u
      (\<lambda>_ w. tx_ok P M ?j w \<and> tx_view P w = write_bytes (g_mem (s_glob s)) p buf) never"
    if "tx_ok P M M u" "tx_view P u = g_mem (s_glob s)" for u
    unfolding stm_store_bytes_def
    by (rule wp_mono [OF stm_bytes.store_bytes_spec [of P M p buf ?j]])
      (use that assms(3) tx_fewer [OF that(1) assms(5)] in auto)
  have two: "wp (thn (stm_set_bytes (n + 3) P q b c) (stm_load_bytes (n + 3) P r k)) u
      (\<lambda>bs w. ?R bs (tx_view P w) \<and> (\<exists>k. \<not> at_read_only a \<and> tx_ok P M k w)) never"
    if "tx_ok P M ?j u" "tx_view P u = write_bytes (g_mem (s_glob s)) p buf" for u
    unfolding wp_thn by (rule wp_mono [OF fill [OF that]]) (use load in simp_all)
  have body: "wp (thn (stm_store_bytes (n + 3) P p buf) (thn (stm_set_bytes (n + 3) P q b c) (stm_load_bytes (n + 3) P r k))) u
      (\<lambda>bs w. ?R bs (tx_view P w) \<and> (\<exists>k. \<not> at_read_only a \<and> tx_ok P M k w)) never"
    if "\<not> at_read_only a \<and> tx_ok P M M u" "tx_view P u = g_mem (s_glob s)" for u
    unfolding wp_thn [of "stm_store_bytes (n + 3) P p buf"]
    by (rule wp_mono [OF store]) (use that two in simp_all)
  have "wp (in_tx (n + 3) P a (thn (stm_store_bytes (n + 3) P p buf) (thn (stm_set_bytes (n + 3) P q b c)
      (stm_load_bytes (n + 3) P r k)))) s (\<lambda>bs t. ?R bs (g_mem (s_glob t)) \<and> \<not> at_read_only a \<and> idle P M t) never"
    unfolding in_tx_def by (rule stm.run_body [OF _ body]) (use assms(1,2) in simp_all)
  then show ?thesis by (auto simp: wp_never)
qed

theorem byte_blocks_witness:
  "\<exists>bs t. in_tx (0 + 3) (sample_params WRITE_BACK_ETL) sample_attr (thn (stm_store_bytes (0 + 3) (sample_params WRITE_BACK_ETL) 69 [1, 2, 3, 4])
      (thn (stm_set_bytes (0 + 3) (sample_params WRITE_BACK_ETL) 71 9 3) (stm_load_bytes (0 + 3) (sample_params WRITE_BACK_ETL) 70 3))) sample_idle
    = (Ret bs, t) \<and> bs = [2, 9, 9]"
proof -
  have o: "OFFSET 69 = 5" "OFFSET 71 = 7" by (simp_all add: OFFSET_def)
  have "(OFFSET 69 + length [1, 2, 3, 4 :: 8 word] + 7) div 8 + (OFFSET 71 + 3 + 7) div 8 \<le> 4" by (simp add: o)
  from byte_blocks [OF sample_is_idle [of WRITE_BACK_ETL] sample_attr_rw(1) _ _ this, of 0 9 70 3] show ?thesis
    by (auto simp: numeral_3_eq_3 read_byte_write_bytes unsigned_minus_1_eq_mask mask_eq_exp_minus_1 simp del: write_bytes.simps)
qed

lemma store_then_load:
  assumes "idle P M s" "\<not> at_read_only a"
    and st: "\<And>u. tx_ok P M M u \<Longrightarrow> wp st u (\<lambda>_ w. tx_ok P M 0 w \<and> tx_view P w = write_bytes (tx_view P u) p bs) never"
    and ld: "\<And>u. tx_ok P M 0 u \<Longrightarrow> tx_view P u = write_bytes (g_mem (s_glob s)) p bs \<Longrightarrow>
      wp ld u (\<lambda>r w. r = v \<and> tx_ok P M 0 w \<and> tx_view P w = tx_view P u) never"
  shows "\<exists>t. in_tx (n + 3) P a (thn st ld) s = (Ret v, t) \<and> g_mem (s_glob t) = write_bytes (g_mem (s_glob s)) p bs"
proof -
  let ?m = "g_mem (s_glob s)"
  have last: "wp ld u (\<lambda>r w. (r = v \<and> tx_view P w = write_bytes ?m p bs) \<and> (\<exists>k. \<not> at_read_only a \<and> tx_ok P M k w)) never"
    if "tx_ok P M 0 u" "tx_view P u = write_bytes ?m p bs" for u
    by (rule wp_mono [OF ld [OF that]]) (use assms(2) that(2) in auto)
  have body: "wp (thn st ld) u (\<lambda>r w. (r = v \<and> tx_view P w = write_bytes ?m p bs)
      \<and> (\<exists>k. \<not> at_read_only a \<and> tx_ok P M k w)) never"
    if "\<not> at_read_only a \<and> tx_ok P M M u" "tx_view P u = ?m" for u
    unfolding wp_thn by (rule wp_mono [OF st]) (use that last in simp_all)
  have "wp (in_tx (n + 3) P a (thn st ld)) s (\<lambda>r t. (r = v \<and> g_mem (s_glob t) = write_bytes ?m p bs)
      \<and> \<not> at_read_only a \<and> idle P M t) never"
    unfolding in_tx_def by (rule stm.run_body [OF _ body]) (use assms(1,2) in simp_all)
  then show ?thesis by (auto simp: wp_never)
qed

text \<open>C17: Values of 8, 16, 32 and 64 bits survive a store and a load at any address, aligned or not,
  and the store changes the bytes of the value alone.\<close>

theorem sized_values_roundtrip:
  assumes "idle P M s" "\<not> at_read_only a" "2 \<le> M"
  shows "(\<exists>t. in_tx (n + 3) P a (thn (stm_store_u8 junk (n + 3) P p v8) (stm_load_u8 (n + 3) P p)) s = (Ret v8, t)
      \<and> g_mem (s_glob t) = write_bytes (g_mem (s_glob s)) p [v8])
    \<and> (\<exists>t. in_tx (n + 3) P a (thn (stm_store_u16 junk (n + 3) P p v16) (stm_load_u16 (n + 3) P p)) s = (Ret v16, t)
      \<and> g_mem (s_glob t) = write_bytes (g_mem (s_glob s)) p (take 2 (bytes_of (ucast v16))))
    \<and> (\<exists>t. in_tx (n + 3) P a (thn (stm_store_u32 junk (n + 3) P p v32) (stm_load_u32 (n + 3) P p)) s = (Ret v32, t)
      \<and> g_mem (s_glob t) = write_bytes (g_mem (s_glob s)) p (take 4 (bytes_of (ucast v32))))
    \<and> (\<exists>t. in_tx (n + 3) P a (thn (stm_store_u64 (n + 3) P p v64) (stm_load_u64 (n + 3) P p)) s = (Ret v64, t)
      \<and> g_mem (s_glob t) = write_bytes (g_mem (s_glob s)) p (bytes_of v64))"
proof -
  have ok: "tx_ok P M (Suc (Suc 0)) u" "tx_ok P M (Suc 0) u" if "tx_ok P M M u" for u
    using that assms(3) by (auto intro: tx_fewer)
  have less: "tx_ok P M j t" if "tx_ok P M (Suc j) t" for j t using tx_fewer [OF that] by simp
  have reread: "read_bytes (write_bytes mem p bs) p k = bs" if "length bs = k" "k \<le> 8" for bs mem k
    using read_write_bytes [of bs mem p] that by simp
  note both = store_then_load [OF assms(1,2)]
  show ?thesis
  proof (intro conjI)
    show "\<exists>t. in_tx (n + 3) P a (thn (stm_store_u8 junk (n + 3) P p v8) (stm_load_u8 (n + 3) P p)) s = (Ret v8, t)
        \<and> g_mem (s_glob t) = write_bytes (g_mem (s_glob s)) p [v8]"
      unfolding stm_store_u8_def stm_load_u8_def
      by (rule both [OF stm_bytes.store_u8_spec [OF ok(2)]], assumption, rule wp_mono [OF stm_bytes.load_u8_spec],
          assumption) (simp_all add: read_write_byte)
    show "\<exists>t. in_tx (n + 3) P a (thn (stm_store_u16 junk (n + 3) P p v16) (stm_load_u16 (n + 3) P p)) s = (Ret v16, t)
        \<and> g_mem (s_glob t) = write_bytes (g_mem (s_glob s)) p (take 2 (bytes_of (ucast v16)))"
      unfolding stm_store_u16_def stm_load_u16_def
      by (rule both [OF stm_bytes.store_u16_spec [OF ok(1) less]], assumption, assumption,
          rule wp_mono [OF stm_bytes.load_u16_spec], assumption) (simp_all add: reread value_of_bytes)
    show "\<exists>t. in_tx (n + 3) P a (thn (stm_store_u32 junk (n + 3) P p v32) (stm_load_u32 (n + 3) P p)) s = (Ret v32, t)
        \<and> g_mem (s_glob t) = write_bytes (g_mem (s_glob s)) p (take 4 (bytes_of (ucast v32)))"
      unfolding stm_store_u32_def stm_load_u32_def
      by (rule both [OF stm_bytes.store_u32_spec [OF ok(1) less]], assumption, assumption,
          rule wp_mono [OF stm_bytes.load_u32_spec], assumption) (simp_all add: reread value_of_bytes)
    show "\<exists>t. in_tx (n + 3) P a (thn (stm_store_u64 (n + 3) P p v64) (stm_load_u64 (n + 3) P p)) s = (Ret v64, t)
        \<and> g_mem (s_glob t) = write_bytes (g_mem (s_glob s)) p (bytes_of v64)"
      unfolding stm_store_u64_def stm_load_u64_def
      by (rule both [OF stm_bytes.store_u64_spec [OF ok(1) less]], assumption, assumption,
          rule wp_mono [OF stm_bytes.load_u64_spec], assumption) (simp_all add: reread word_of_bytes_of)
  qed
qed

theorem sized_values_roundtrip_witness:
  "\<exists>t. in_tx (0 + 3) (sample_params WRITE_THROUGH) sample_attr (thn (stm_store_u32 0 (0 + 3) (sample_params WRITE_THROUGH) 70 0xDEADBEEF)
      (stm_load_u32 (0 + 3) (sample_params WRITE_THROUGH) 70)) sample_idle = (Ret 0xDEADBEEF, t)"
  using sized_values_roundtrip [OF sample_is_idle [of WRITE_THROUGH] sample_attr_rw(1), of 0 0 70 0 0 "0xDEADBEEF" 0] by auto

end
